(* ===== verification/Prelude.thy ===== *)
theory Prelude
  imports Main "HOL-Library.Monad_Syntax"
begin

section \<open>Prelude: conventions and lemmas shared by all components\<close>

text \<open>
  Conventions of the development.  A Rust function that can panic (\<open>unwrap\<close> of a
  missing value, indexing a map with an absent key, \<open>todo!()\<close>, an arithmetic overflow)
  returns an \<open>option\<close> here, with \<open>None\<close> for the panic; a Rust \<open>Option\<close>
  result of such a function is a nested \<open>option\<close>.  \<open>FxHashMap\<close> is a map
  \<open>'k \<rightharpoonup> 'v\<close>.  Identifiers of an \<open>id_arena::Arena\<close> are indices
  into a list.  The two hash-map idioms of the sources,
  \<open>entry(k).or_insert(v)\<close> and \<open>get_mut(k).unwrap().field = x\<close>, are
  \<open>or_insert\<close> and \<open>modify\<close> below.
\<close>

named_theorems rep_simps \<open>facts that unfold a representation predicate on concrete operations\<close>

subsection \<open>Hash maps\<close>

definition or_insert :: "('k \<rightharpoonup> 'v) \<Rightarrow> 'k \<Rightarrow> 'v \<Rightarrow> ('k \<rightharpoonup> 'v)" where
  "or_insert m k v = (case m k of None \<Rightarrow> m(k \<mapsto> v) | Some _ \<Rightarrow> m)"

definition modify :: "('k \<rightharpoonup> 'v) \<Rightarrow> 'k \<Rightarrow> ('v \<Rightarrow> 'v) \<Rightarrow> ('k \<rightharpoonup> 'v) option" where
  "modify m k g = (case m k of None \<Rightarrow> None | Some v \<Rightarrow> Some (m(k \<mapsto> g v)))"

lemma or_insert_fresh [simp]: "m k = None \<Longrightarrow> or_insert m k v = m(k \<mapsto> v)"
  by (simp add: or_insert_def)

lemma or_insert_present [simp]: "m k = Some w \<Longrightarrow> or_insert m k v = m"
  by (simp add: or_insert_def)

lemma or_insert_other [simp]: "j \<noteq> k \<Longrightarrow> or_insert m k v j = m j"
  by (simp add: or_insert_def split: option.splits)

lemma modify_present [simp]: "m k = Some v \<Longrightarrow> modify m k g = Some (m(k \<mapsto> g v))"
  by (simp add: modify_def)

lemma modify_absent [simp]: "m k = None \<Longrightarrow> modify m k g = None"
  by (simp add: modify_def)

lemma modify_eq_Some_iff:
  "modify m k g = Some m' \<longleftrightarrow> (\<exists>v. m k = Some v \<and> m' = m(k \<mapsto> g v))"
  by (auto simp: modify_def split: option.splits)

subsection \<open>First and last elements as options\<close>

definition hd_or :: "'a option \<Rightarrow> 'a list \<Rightarrow> 'a option" where
  "hd_or d xs = (case xs of [] \<Rightarrow> d | x # _ \<Rightarrow> Some x)"

definition last_or :: "'a option \<Rightarrow> 'a list \<Rightarrow> 'a option" where
  "last_or d xs = (if xs = [] then d else Some (last xs))"

abbreviation hd_opt :: "'a list \<Rightarrow> 'a option" where
  "hd_opt \<equiv> hd_or None"

abbreviation last_opt :: "'a list \<Rightarrow> 'a option" where
  "last_opt \<equiv> last_or None"

lemma hd_or_simps [simp]:
  "hd_or d [] = d"
  "hd_or d (x # xs) = Some x"
  "hd_or d (xs @ ys) = hd_or (hd_or d ys) xs"
  by (auto simp: hd_or_def split: list.splits)

lemma last_or_simps [simp]:
  "last_or d [] = d"
  "last_or d (x # xs) = last_or (Some x) xs"
  "last_or d (xs @ ys) = last_or (last_or d xs) ys"
  by (auto simp: last_or_def)

lemma last_or_Some [simp]: "last_or (Some x) xs \<noteq> None"
  by (simp add: last_or_def)

lemma hd_or_Some [simp]: "hd_or (Some x) xs \<noteq> None"
  by (simp add: hd_or_def split: list.splits)

lemma last_or_in: "last_or d xs = Some x \<Longrightarrow> x \<in> set xs \<or> d = Some x"
  by (auto simp: last_or_def split: if_splits)

lemma hd_or_in: "hd_or d xs = Some x \<Longrightarrow> x \<in> set xs \<or> d = Some x"
  by (auto simp: hd_or_def split: list.splits)

lemma hd_opt_eq_None [simp]: "hd_opt xs = None \<longleftrightarrow> xs = []"
  by (cases xs) auto

lemma last_opt_eq_None [simp]: "last_opt xs = None \<longleftrightarrow> xs = []"
  by (simp add: last_or_def)

lemma last_opt_SomeD: "last_opt xs = Some x \<Longrightarrow> \<exists>ys. xs = ys @ [x]"
  by (metis append_butlast_last_id last_or_def last_or_simps(1) option.inject option.simps(3))

lemma hd_opt_SomeD: "hd_opt xs = Some x \<Longrightarrow> \<exists>ys. xs = x # ys"
  by (cases xs) auto

lemma bind_eq_Some_iff: "(Option.bind a f = Some b) \<longleftrightarrow> (\<exists>x. a = Some x \<and> f x = Some b)"
  by (cases a) auto

lemma bind_SomeE:
  assumes "Option.bind a f = Some b"
  obtains x where "a = Some x" "f x = Some b"
  using assms by (cases a) auto

subsection \<open>Loops over lists that may panic\<close>

text \<open>A \<open>for\<close> loop over a list whose body returns the new state or panics.\<close>

fun fold_opt :: "('a \<Rightarrow> 's \<Rightarrow> 's option) \<Rightarrow> 'a list \<Rightarrow> 's \<Rightarrow> 's option" where
  "fold_opt g [] s = Some s"
| "fold_opt g (x # xs) s = do { s \<leftarrow> g x s; fold_opt g xs s }"

lemma fold_opt_append: "fold_opt g (xs @ ys) s = do { s \<leftarrow> fold_opt g xs s; fold_opt g ys s }"
  by (induction xs arbitrary: s) (auto simp: bind_eq_Some_iff split: bind_splits)

lemma fold_opt_invariant:
  assumes "fold_opt g xs s = Some s'" "P s"
    and "\<And>x t t'. x \<in> set xs \<Longrightarrow> P t \<Longrightarrow> g x t = Some t' \<Longrightarrow> P t'"
  shows "P s'"
  using assms by (induction xs arbitrary: s) (auto elim!: bind_SomeE)

lemma fold_opt_total:
  assumes "P s" and "\<And>x t. x \<in> set xs \<Longrightarrow> P t \<Longrightarrow> \<exists>t'. g x t = Some t' \<and> P t'"
  shows "\<exists>s'. fold_opt g xs s = Some s' \<and> P s'"
  using assms
proof (induction xs arbitrary: s)
  case (Cons x xs)
  obtain t where "g x s = Some t" "P t" using Cons.prems(1) Cons.prems(2) [of x s] by auto
  then show ?case using Cons by auto
qed simp

text \<open>A loop whose body never panics is a \<open>fold\<close>.\<close>

lemma fold_opt_pure: "fold_opt (\<lambda>x s. Some (g x s)) xs s = Some (fold g xs s)"
  by (induction xs arbitrary: s) auto

lemma fold_invariant_set:
  assumes "P s" "\<And>x t. x \<in> set xs \<Longrightarrow> P t \<Longrightarrow> P (g x t)"
  shows "P (fold g xs s)"
  using assms by (induction xs arbitrary: s) auto

end
