(* ===== verification/Inst_Order.thy ===== *)
theory Inst_Order
  imports Prelude
begin

section \<open>The interface between a layout and the passes over it\<close>

text \<open>
  The passes of the code generator walk the blocks and instructions of a layout, collect the
  instructions to delete or the places to insert at, and edit the layout afterwards.  The
  interface they rely on: an abstraction \<open>rep l bs f\<close> of a layout to its list of blocks
  \<open>bs\<close> and the instruction list \<open>f b\<close> of each, iterators that return those lists,
  removal and insertion that edit them.  \<open>fresh l i\<close> says that \<open>i\<close> has never been
  entered into the layout.
\<close>

subsection \<open>What a pass does with a list of instructions\<close>

fun remove_all :: "(nat \<Rightarrow> 'l \<Rightarrow> ('l \<times> unit option) option) \<Rightarrow> nat list \<Rightarrow> 'l \<Rightarrow> 'l option" where
  "remove_all rem [] l = Some l"
| "remove_all rem (i # is) l = do { (l, _) \<leftarrow> rem i l; remove_all rem is l }"

fun collect :: "(nat \<Rightarrow> 'l \<Rightarrow> nat list option) \<Rightarrow> 'l \<Rightarrow> nat list \<Rightarrow> (nat \<times> nat) list option" where
  "collect iter l [] = Some []"
| "collect iter l (b # bs) = do {
     is \<leftarrow> iter b l;
     rest \<leftarrow> collect iter l bs;
     Some (map (\<lambda>i. (b, i)) is @ rest) }"

definition all_insts :: "nat list \<Rightarrow> (nat \<Rightarrow> nat list) \<Rightarrow> (nat \<times> nat) list" where
  "all_insts bs f = concat (map (\<lambda>b. map (\<lambda>i. (b, i)) (f b)) bs)"

lemma all_insts_simps [simp]:
  "all_insts [] f = []"
  "all_insts (b # bs) f = map (\<lambda>i. (b, i)) (f b) @ all_insts bs f"
  by (simp_all add: all_insts_def)

lemma set_all_insts [simp]: "set (all_insts bs f) = {(b, i). b \<in> set bs \<and> i \<in> set (f b)}"
  by (auto simp: all_insts_def)

locale inst_order =
  fixes rep :: "'l \<Rightarrow> nat list \<Rightarrow> (nat \<Rightarrow> nat list) \<Rightarrow> bool"
    and blocks_of :: "'l \<Rightarrow> nat list option"
    and insts_of :: "nat \<Rightarrow> 'l \<Rightarrow> nat list option"
    and rem :: "nat \<Rightarrow> 'l \<Rightarrow> ('l \<times> unit option) option"
  assumes blocks_of_rep: "rep l bs f \<Longrightarrow> blocks_of l = Some bs"
    and insts_of_rep: "rep l bs f \<Longrightarrow> b \<in> set bs \<Longrightarrow> insts_of b l = Some (f b)"
    and rep_distinct: "rep l bs f \<Longrightarrow> b \<in> set bs \<Longrightarrow> distinct (f b)"
    and rep_unique: "rep l bs f \<Longrightarrow> b \<in> set bs \<Longrightarrow> c \<in> set bs \<Longrightarrow> i \<in> set (f b) \<Longrightarrow>
      i \<in> set (f c) \<Longrightarrow> b = c"
    and rem_rep: "rep l bs f \<Longrightarrow> b \<in> set bs \<Longrightarrow> i \<in> set (f b) \<Longrightarrow>
      \<exists>l'. rem i l = Some (l', Some ()) \<and> rep l' bs (f(b := remove1 i (f b)))"
    and rep_cong: "rep l bs f \<Longrightarrow> (\<And>b. b \<in> set bs \<Longrightarrow> f b = g b) \<Longrightarrow> rep l bs g"
begin

lemma collect_rep:
  "rep l bs f \<Longrightarrow> set cs \<subseteq> set bs \<Longrightarrow> collect insts_of l cs = Some (all_insts cs f)"
  by (induction cs) (auto simp: insts_of_rep)

lemma remove_all_rep:
  assumes "rep l bs f" "distinct is" "\<And>i. i \<in> set is \<Longrightarrow> \<exists>b \<in> set bs. i \<in> set (f b)"
  shows "\<exists>l'. remove_all rem is l = Some l' \<and>
              rep l' bs (\<lambda>b. filter (\<lambda>i. i \<notin> set is) (f b))"
  using assms
proof (induction "is" arbitrary: l f)
  case Nil
  then show ?case by (simp add: rep_cong)
next
  case (Cons i "is")
  from Cons.prems(3) [of i] obtain b where b: "b \<in> set bs" "i \<in> set (f b)" by auto
  with rem_rep [OF Cons.prems(1)] obtain l1 where
    l1: "rem i l = Some (l1, Some ())" "rep l1 bs (f(b := remove1 i (f b)))" by blast
  have "\<exists>c \<in> set bs. j \<in> set ((f(b := remove1 i (f b))) c)" if j: "j \<in> set is" for j
  proof -
    from Cons.prems(3) [of j] j obtain c where c: "c \<in> set bs" "j \<in> set (f c)" by auto
    from Cons.prems(2) j have "j \<noteq> i" by auto
    with c show ?thesis by (intro bexI [of _ c]) (auto simp: in_set_remove1)
  qed
  with Cons.IH [OF l1(2)] Cons.prems(2) obtain l2 where
    l2: "remove_all rem is l1 = Some l2"
      "rep l2 bs (\<lambda>c. filter (\<lambda>j. j \<notin> set is) ((f(b := remove1 i (f b))) c))" by auto
  have "filter (\<lambda>j. j \<notin> set is) ((f(b := remove1 i (f b))) c) = filter (\<lambda>j. j \<notin> set (i # is)) (f c)"
    if c: "c \<in> set bs" for c
  proof (cases "c = b")
    case True
    with rep_distinct [OF Cons.prems(1)] b have "distinct (f b)" by simp
    with True show ?thesis by (auto simp: distinct_remove1_removeAll removeAll_filter_not_eq
      intro!: filter_cong)
  next
    case False
    with rep_unique [OF Cons.prems(1) c b(1)] b(2) have "i \<notin> set (f c)" by auto
    with False show ?thesis by (auto intro!: filter_cong)
  qed
  from rep_cong [OF l2(2) this] l1(1) l2(1) show ?case by auto
qed

end

locale inst_editor = inst_order +
  fixes fresh :: "'l \<Rightarrow> nat \<Rightarrow> bool"
    and last_of :: "nat \<Rightarrow> 'l \<Rightarrow> nat option option"
    and ins_before :: "nat \<Rightarrow> nat \<Rightarrow> nat \<Rightarrow> 'l \<Rightarrow> 'l option"
  assumes last_of_rep: "rep l bs f \<Longrightarrow> b \<in> set bs \<Longrightarrow> last_of b l = Some (last_opt (f b))"
    and ins_before_rep: "rep l bs f \<Longrightarrow> b \<in> set bs \<Longrightarrow> fresh l i \<Longrightarrow> f b = ys @ x # zs \<Longrightarrow>
      \<exists>l'. ins_before x i b l = Some l' \<and> rep l' bs (f(b := ys @ i # x # zs)) \<and>
           (\<forall>j. fresh l' j \<longleftrightarrow> fresh l j \<and> j \<noteq> i)"

begin

text \<open>Insertion just before the last instruction of a block: how \<phi> copies are placed.\<close>

lemma ins_before_last:
  assumes "rep l bs f" "b \<in> set bs" "fresh l i" "f b \<noteq> []"
  shows "\<exists>l'. do { t \<leftarrow> last_of b l; t \<leftarrow> t; ins_before t i b l } = Some l' \<and>
              rep l' bs (f(b := butlast (f b) @ [i, last (f b)])) \<and>
              (\<forall>j. fresh l' j \<longleftrightarrow> fresh l j \<and> j \<noteq> i)"
proof -
  from assms(4) have "f b = butlast (f b) @ last (f b) # []" by simp
  from ins_before_rep [OF assms(1-3) this] last_of_rep [OF assms(1,2)] assms(4)
  show ?thesis by (auto simp: last_or_def)
qed

end

end
