(* ===== verification/Layout.thy ===== *)
theory Layout
  imports Inst_Order
begin

section \<open>Instruction layout of machine functions\<close>

text \<open>
  Model of \<open>src/codegen/function/layout/mod.rs\<close>: the order of the basic blocks of a
  machine function and of the instructions of each block, kept as two doubly linked lists
  threaded through hash maps.  A block or instruction is the index of its arena identifier.
\<close>

record bb_node =
  bn_prev :: "nat option"
  bn_next :: "nat option"
  bn_first :: "nat option"
  bn_last :: "nat option"

record inst_node =
  in_block :: "nat option"
  in_prev :: "nat option"
  in_next :: "nat option"

record layout =
  blocks :: "nat \<rightharpoonup> bb_node"
  insts :: "nat \<rightharpoonup> inst_node"
  first_block :: "nat option"
  last_block :: "nat option"

definition new_layout :: layout where
  "new_layout =
     \<lparr>blocks = Map.empty, insts = Map.empty, first_block = None, last_block = None\<rparr>"

subsection \<open>Operations\<close>

definition append_block :: "nat \<Rightarrow> layout \<Rightarrow> layout option" where
  "append_block b l = do {
     let m = or_insert (blocks l) b
       \<lparr>bn_prev = last_block l, bn_next = None, bn_first = None, bn_last = None\<rparr>;
     m \<leftarrow> (case last_block l of
            None \<Rightarrow> Some m
          | Some lb \<Rightarrow> do {
              m \<leftarrow> modify m lb (\<lambda>n. n\<lparr>bn_next := Some b\<rparr>);
              modify m b (\<lambda>n. n\<lparr>bn_prev := Some lb\<rparr>) });
     Some (l\<lparr>blocks := m, last_block := Some b,
             first_block := (case first_block l of None \<Rightarrow> Some b | Some f \<Rightarrow> Some f)\<rparr>)
   }"

definition next_block_of :: "nat \<Rightarrow> layout \<Rightarrow> nat option option" where
  "next_block_of b l = map_option bn_next (blocks l b)"

definition last_inst_of :: "nat \<Rightarrow> layout \<Rightarrow> nat option option" where
  "last_inst_of b l = map_option bn_last (blocks l b)"

definition prev_inst_of :: "nat \<Rightarrow> layout \<Rightarrow> nat option option" where
  "prev_inst_of i l = map_option in_prev (insts l i)"

definition next_inst_of :: "nat \<Rightarrow> layout \<Rightarrow> nat option option" where
  "next_inst_of i l = map_option in_next (insts l i)"

text \<open>\<open>entry(inst).or_insert(node).block = Some(block)\<close>, shared by the insertions.\<close>

definition enter_inst :: "(nat \<rightharpoonup> inst_node) \<Rightarrow> nat \<Rightarrow> inst_node \<Rightarrow> nat
    \<Rightarrow> (nat \<rightharpoonup> inst_node) option" where
  "enter_inst m i node b = modify (or_insert m i node) i (\<lambda>n. n\<lparr>in_block := Some b\<rparr>)"

definition insert_inst_at_start :: "nat \<Rightarrow> nat \<Rightarrow> layout \<Rightarrow> layout option" where
  "insert_inst_at_start i b l = do {
     m \<leftarrow> enter_inst (insts l) i \<lparr>in_block = Some b, in_prev = None, in_next = None\<rparr> b;
     bn \<leftarrow> blocks l b;
     m \<leftarrow> (case bn_first bn of
            None \<Rightarrow> Some m
          | Some fi \<Rightarrow> do {
              m \<leftarrow> modify m fi (\<lambda>n. n\<lparr>in_prev := Some i\<rparr>);
              modify m i (\<lambda>n. n\<lparr>in_next := Some fi\<rparr>) });
     let bn = bn\<lparr>bn_first := Some i\<rparr>;
     let bn = (if bn_last bn = None then bn\<lparr>bn_last := Some i\<rparr> else bn);
     Some (l\<lparr>insts := m, blocks := (blocks l)(b \<mapsto> bn)\<rparr>)
   }"

definition insert_inst_before :: "nat \<Rightarrow> nat \<Rightarrow> nat \<Rightarrow> layout \<Rightarrow> layout option" where
  "insert_inst_before before i b l = do {
     n \<leftarrow> insts l before;
     m \<leftarrow> enter_inst (insts l) i
            \<lparr>in_block = Some b, in_prev = in_prev n, in_next = Some before\<rparr> b;
     n \<leftarrow> m before;
     m \<leftarrow> (case in_prev n of
            None \<Rightarrow> Some m
          | Some p \<Rightarrow> modify m p (\<lambda>n. n\<lparr>in_next := Some i\<rparr>));
     m \<leftarrow> modify m before (\<lambda>n. n\<lparr>in_prev := Some i\<rparr>);
     bn \<leftarrow> blocks l b;
     let bn = (if bn_first bn = Some before then bn\<lparr>bn_first := Some i\<rparr> else bn);
     Some (l\<lparr>insts := m, blocks := (blocks l)(b \<mapsto> bn)\<rparr>)
   }"

definition insert_inst_after :: "nat \<Rightarrow> nat \<Rightarrow> nat \<Rightarrow> layout \<Rightarrow> layout option" where
  "insert_inst_after after i b l = do {
     n \<leftarrow> insts l after;
     m \<leftarrow> enter_inst (insts l) i
            \<lparr>in_block = Some b, in_prev = Some after, in_next = in_next n\<rparr> b;
     n \<leftarrow> m after;
     m \<leftarrow> (case in_next n of
            None \<Rightarrow> Some m
          | Some x \<Rightarrow> modify m x (\<lambda>n. n\<lparr>in_prev := Some i\<rparr>));
     m \<leftarrow> modify m after (\<lambda>n. n\<lparr>in_next := Some i\<rparr>);
     Some (l\<lparr>insts := m\<rparr>)
   }"

definition append_inst :: "nat \<Rightarrow> nat \<Rightarrow> layout \<Rightarrow> layout option" where
  "append_inst i b l = do {
     bn \<leftarrow> blocks l b;
     m \<leftarrow> enter_inst (insts l) i
            \<lparr>in_block = Some b, in_prev = bn_last bn, in_next = None\<rparr> b;
     m \<leftarrow> (case bn_last bn of
            None \<Rightarrow> Some m
          | Some la \<Rightarrow> do {
              m \<leftarrow> modify m la (\<lambda>n. n\<lparr>in_next := Some i\<rparr>);
              modify m i (\<lambda>n. n\<lparr>in_prev := Some la\<rparr>) });
     let bn = bn\<lparr>bn_last := Some i\<rparr>;
     let bn = (if bn_first bn = None then bn\<lparr>bn_first := Some i\<rparr> else bn);
     Some (l\<lparr>insts := m, blocks := (blocks l)(b \<mapsto> bn)\<rparr>)
   }"

text \<open>
  \<open>remove_inst\<close> returns \<open>Option<()>\<close>: the early returns by \<open>?\<close> keep the state
  reached so far.  The result pairs the state with that value; indexing an absent
  instruction panics.
\<close>

definition unlink_prev :: "nat \<Rightarrow> nat option \<Rightarrow> nat option \<Rightarrow> layout \<Rightarrow> layout option" where
  "unlink_prev b p x l = (case p of
     Some p \<Rightarrow> map_option (\<lambda>m. l\<lparr>insts := m\<rparr>) (modify (insts l) p (\<lambda>n. n\<lparr>in_next := x\<rparr>))
   | None \<Rightarrow> map_option (\<lambda>m. l\<lparr>blocks := m\<rparr>) (modify (blocks l) b (\<lambda>n. n\<lparr>bn_first := x\<rparr>)))"

definition unlink_next :: "nat \<Rightarrow> nat option \<Rightarrow> nat option \<Rightarrow> layout \<Rightarrow> layout option" where
  "unlink_next b p x l = (case x of
     Some x \<Rightarrow> map_option (\<lambda>m. l\<lparr>insts := m\<rparr>) (modify (insts l) x (\<lambda>n. n\<lparr>in_prev := p\<rparr>))
   | None \<Rightarrow> map_option (\<lambda>m. l\<lparr>blocks := m\<rparr>) (modify (blocks l) b (\<lambda>n. n\<lparr>bn_last := p\<rparr>)))"

definition remove_inst :: "nat \<Rightarrow> layout \<Rightarrow> (layout \<times> unit option) option" where
  "remove_inst i l = (case insts l i of
     None \<Rightarrow> None
   | Some node \<Rightarrow> (case in_block node of
       None \<Rightarrow> Some (l, None)
     | Some b \<Rightarrow>
        let l1 = l\<lparr>insts := (insts l)(i \<mapsto> \<lparr>in_block = None, in_prev = None, in_next = None\<rparr>)\<rparr>
        in (case unlink_prev b (in_prev node) (in_next node) l1 of
              None \<Rightarrow> Some (l1, None)
            | Some l2 \<Rightarrow> (case unlink_next b (in_prev node) (in_next node) l2 of
                  None \<Rightarrow> Some (l2, None)
                | Some l3 \<Rightarrow> Some (l3, Some ())))))"

subsection \<open>Iterators\<close>

text \<open>
  The iterators run until their cursor is \<open>None\<close>; nothing in the data structure itself
  bounds them, so the collected sequences are \<open>partial_function (option)\<close>: \<open>None\<close> is
  a panic or an endless iteration.
\<close>

partial_function (option) blocks_from :: "layout \<Rightarrow> nat option \<Rightarrow> nat list option" where
  "blocks_from l cur = (case cur of
     None \<Rightarrow> Some []
   | Some c \<Rightarrow> do {
       bn \<leftarrow> blocks l c;
       bs \<leftarrow> blocks_from l (bn_next bn);
       Some (c # bs) })"

definition block_iter :: "layout \<Rightarrow> nat list option" where
  "block_iter l = blocks_from l (first_block l)"

definition inst_next :: "layout \<Rightarrow> nat \<Rightarrow> nat \<Rightarrow> nat option option" where
  "inst_next l b c = do {
     bn \<leftarrow> blocks l b;
     if Some c = bn_last bn then Some None
     else map_option in_next (insts l c) }"

partial_function (option) insts_from :: "layout \<Rightarrow> nat \<Rightarrow> nat option \<Rightarrow> nat list option" where
  "insts_from l b cur = (case cur of
     None \<Rightarrow> Some []
   | Some c \<Rightarrow> do {
       nx \<leftarrow> inst_next l b c;
       is \<leftarrow> insts_from l b nx;
       Some (c # is) })"

declare blocks_from.simps [code] insts_from.simps [code]

definition inst_iter :: "nat \<Rightarrow> layout \<Rightarrow> nat list option" where
  "inst_iter b l = do { bn \<leftarrow> blocks l b; insts_from l b (bn_first bn) }"

subsection \<open>The lists a layout stands for\<close>

primrec chain :: "(nat \<rightharpoonup> inst_node) \<Rightarrow> nat \<Rightarrow> nat option \<Rightarrow> nat list \<Rightarrow> nat option \<Rightarrow> bool" where
  "chain m b p [] n = True"
| "chain m b p (x # xs) n =
     (m x = Some \<lparr>in_block = Some b, in_prev = p, in_next = hd_or n xs\<rparr> \<and>
      chain m b (Some x) xs n)"

primrec block_chain :: "(nat \<rightharpoonup> bb_node) \<Rightarrow> (nat \<Rightarrow> nat list) \<Rightarrow> nat option \<Rightarrow> nat list \<Rightarrow> bool" where
  "block_chain m f p [] = True"
| "block_chain m f p (b # bs) =
     (m b = Some \<lparr>bn_prev = p, bn_next = hd_opt bs, bn_first = hd_opt (f b),
                  bn_last = last_opt (f b)\<rparr> \<and>
      block_chain m f (Some b) bs)"

definition clean_nodes :: "(nat \<rightharpoonup> inst_node) \<Rightarrow> nat list \<Rightarrow> (nat \<Rightarrow> nat list) \<Rightarrow> bool" where
  "clean_nodes m bs f \<longleftrightarrow> (\<forall>i n. m i = Some n \<longrightarrow>
     (case in_block n of
        None \<Rightarrow> in_prev n = None \<and> in_next n = None
      | Some b \<Rightarrow> b \<in> set bs \<and> i \<in> set (f b)))"

definition layout_rep :: "layout \<Rightarrow> nat list \<Rightarrow> (nat \<Rightarrow> nat list) \<Rightarrow> bool" where
  "layout_rep l bs f \<longleftrightarrow>
     distinct bs \<and> dom (blocks l) = set bs \<and> block_chain (blocks l) f None bs \<and>
     first_block l = hd_opt bs \<and> last_block l = last_opt bs \<and>
     (\<forall>b \<in> set bs. distinct (f b) \<and> chain (insts l) b None (f b) None) \<and>
     clean_nodes (insts l) bs f"

definition detached :: "layout \<Rightarrow> nat \<Rightarrow> bool" where
  "detached l i \<longleftrightarrow> (case insts l i of None \<Rightarrow> True | Some n \<Rightarrow> in_block n = None)"

lemma chain_append:
  "chain m b p (xs @ ys) n \<longleftrightarrow> chain m b p xs (hd_or n ys) \<and> chain m b (last_or p xs) ys n"
  by (induction xs arbitrary: p) auto

lemma chain_cong: "(\<And>x. x \<in> set xs \<Longrightarrow> m x = m' x) \<Longrightarrow> chain m b p xs n = chain m' b p xs n"
  by (induction xs arbitrary: p) auto

lemma chain_upd [simp]: "x \<notin> set xs \<Longrightarrow> chain (m(x \<mapsto> v)) b p xs n = chain m b p xs n"
  by (rule chain_cong) auto

lemma chain_nodeD: "chain m b p xs n \<Longrightarrow> x \<in> set xs \<Longrightarrow> \<exists>nd. m x = Some nd \<and> in_block nd = Some b"
  by (induction xs arbitrary: p) auto

text \<open>The node of an element in the middle of a chain.\<close>

lemma chain_split:
  assumes "chain m b p (ys @ x # zs) n"
  shows "m x = Some \<lparr>in_block = Some b, in_prev = last_or p ys, in_next = hd_or n zs\<rparr>"
  using assms by (simp add: chain_append)

lemma block_chain_cong:
  "(\<And>x. x \<in> set bs \<Longrightarrow> m x = m' x \<and> f x = g x) \<Longrightarrow> block_chain m f p bs = block_chain m' g p bs"
  by (induction bs arbitrary: p) auto

lemma block_chain_node:
  "block_chain m f p bs \<Longrightarrow> b \<in> set bs \<Longrightarrow>
     \<exists>nd. m b = Some nd \<and> bn_first nd = hd_opt (f b) \<and> bn_last nd = last_opt (f b)"
  by (induction bs arbitrary: p) auto

lemma block_chain_frame:
  "b \<notin> set bs \<Longrightarrow> block_chain (m(b \<mapsto> v)) (f(b := xs)) p bs = block_chain m f p bs"
  by (rule block_chain_cong) auto

lemma block_chain_upd:
  assumes "block_chain m f p bs" "distinct bs" "m b = Some nd"
  shows "block_chain (m(b \<mapsto> nd\<lparr>bn_first := hd_opt xs, bn_last := last_opt xs\<rparr>)) (f(b := xs)) p bs"
  using assms
proof (induction bs arbitrary: p)
  case (Cons c bs)
  show ?case
  proof (cases "c = b")
    case True
    with Cons.prems have "b \<notin> set bs" by simp
    from block_chain_frame [OF this] Cons.prems True show ?thesis
      by (simp del: fun_upd_apply add: fun_upd_same)
  next
    case False
    with Cons.IH [of "Some c"] Cons.prems show ?thesis by (simp add: fun_upd_other)
  qed
qed simp

lemma layout_rep_empty: "layout_rep new_layout [] f"
  by (simp add: layout_rep_def new_layout_def clean_nodes_def)

lemma layout_rep_blockD:
  assumes "layout_rep l bs f" "b \<in> set bs"
  obtains nd where "blocks l b = Some nd" "bn_first nd = hd_opt (f b)" "bn_last nd = last_opt (f b)"
  using assms block_chain_node unfolding layout_rep_def by metis

lemma layout_rep_chainD:
  "layout_rep l bs f \<Longrightarrow> b \<in> set bs \<Longrightarrow> chain (insts l) b None (f b) None \<and> distinct (f b)"
  by (simp add: layout_rep_def)

lemma layout_rep_memberD:
  assumes "layout_rep l bs f" "b \<in> set bs" "i \<in> set (f b)"
  shows "\<exists>nd. insts l i = Some nd \<and> in_block nd = Some b"
  using assms layout_rep_chainD chain_nodeD by metis

lemma detached_not_member:
  "layout_rep l bs f \<Longrightarrow> detached l i \<Longrightarrow> b \<in> set bs \<Longrightarrow> i \<notin> set (f b)"
  using layout_rep_memberD [of l bs f b i] by (auto simp: detached_def)

lemma detached_node:
  assumes "layout_rep l bs f" "detached l i"
  shows "insts l i = None \<or> insts l i = Some \<lparr>in_block = None, in_prev = None, in_next = None\<rparr>"
proof (cases "insts l i")
  case (Some n)
  with assms(2) have "in_block n = None" by (simp add: detached_def)
  moreover with assms(1) Some have "in_prev n = None \<and> in_next n = None"
    by (force simp: layout_rep_def clean_nodes_def)
  ultimately show ?thesis using Some by (cases n) simp
qed simp

text \<open>
  The one lemma behind every instruction-level operation: rewriting the list of a single block.
\<close>

lemma layout_rep_block_update:
  assumes rep: "layout_rep l bs f" and b: "b \<in> set bs" and nd: "blocks l b = Some nd"
    and dist: "distinct xs" and ch: "chain m' b None xs None"
    and new: "\<And>i. i \<in> set xs \<Longrightarrow> i \<in> set (f b) \<or> detached l i"
    and frame: "\<And>i. i \<notin> set xs \<Longrightarrow> i \<notin> set (f b) \<Longrightarrow> m' i = insts l i"
    and gone: "\<And>i. i \<in> set (f b) \<Longrightarrow> i \<notin> set xs \<Longrightarrow>
      m' i = Some \<lparr>in_block = None, in_prev = None, in_next = None\<rparr>"
    and nd': "nd' = nd\<lparr>bn_first := hd_opt xs, bn_last := last_opt xs\<rparr>"
  shows "layout_rep (l\<lparr>insts := m', blocks := (blocks l)(b \<mapsto> nd')\<rparr>) bs (f(b := xs))"
proof -
  from rep have bc: "block_chain (blocks l) f None bs" and ds: "distinct bs"
    and dm: "dom (blocks l) = set bs" by (auto simp: layout_rep_def)
  have other: "chain m' c None (f c) None" if c: "c \<in> set bs" "c \<noteq> b" for c
  proof -
    have "m' x = insts l x" if "x \<in> set (f c)" for x
    proof -
      from layout_rep_memberD [OF rep c(1) that] obtain k where
        k: "insts l x = Some k" "in_block k = Some c" by blast
      have "x \<notin> set (f b)" using layout_rep_memberD [OF rep b] k c(2) by fastforce
      moreover have "x \<notin> set xs" using new [of x] calculation k by (auto simp: detached_def)
      ultimately show ?thesis using frame by blast
    qed
    then have "chain m' c None (f c) None = chain (insts l) c None (f c) None"
      by (intro chain_cong)
    with layout_rep_chainD [OF rep c(1)] show ?thesis by simp
  qed
  have clean: "clean_nodes m' bs (f(b := xs))"
    unfolding clean_nodes_def
  proof (intro allI impI)
    fix i n assume i: "m' i = Some n"
    show "case in_block n of None \<Rightarrow> in_prev n = None \<and> in_next n = None
      | Some c \<Rightarrow> c \<in> set bs \<and> i \<in> set ((f(b := xs)) c)"
    proof (cases "i \<in> set xs")
      case True
      with chain_nodeD [OF ch] i b show ?thesis by fastforce
    next
      case False
      show ?thesis
      proof (cases "i \<in> set (f b)")
        case True
        with gone [OF True False] i show ?thesis by auto
      next
        case nb: False
        with frame False i have "insts l i = Some n" by simp
        with rep nb have "case in_block n of None \<Rightarrow> in_prev n = None \<and> in_next n = None
          | Some c \<Rightarrow> c \<in> set bs \<and> i \<in> set (f c)" by (simp add: layout_rep_def clean_nodes_def)
        with nb show ?thesis by (auto split: option.splits)
      qed
    qed
  qed
  have "block_chain ((blocks l)(b \<mapsto> nd')) (f(b := xs)) None bs"
    unfolding nd' by (rule block_chain_upd [OF bc ds nd])
  with rep other clean dist ch b dm nd show ?thesis
    by (auto simp: layout_rep_def)
qed

subsection \<open>Every operation implements its list operation\<close>

lemma enter_detached:
  assumes "layout_rep l bs f" "detached l i"
  shows "\<exists>p x. (insts l i = None \<and> p = in_prev node \<and> x = in_next node \<or>
                insts l i \<noteq> None \<and> p = None \<and> x = None) \<and>
         enter_inst (insts l) i node b =
           Some ((insts l)(i \<mapsto> \<lparr>in_block = Some b, in_prev = p, in_next = x\<rparr>))"
  using detached_node [OF assms] by (cases node) (auto simp: enter_inst_def)

lemma append_inst_refines:
  assumes rep: "layout_rep l bs f" and b: "b \<in> set bs" and i: "detached l i"
  shows "\<exists>l'. append_inst i b l = Some l' \<and> layout_rep l' bs (f(b := f b @ [i]))"
proof -
  obtain nd where nd: "blocks l b = Some nd" "bn_first nd = hd_opt (f b)" "bn_last nd = last_opt (f b)"
    using layout_rep_blockD [OF rep b] by blast
  note ch = layout_rep_chainD [OF rep b]
  note ni = detached_not_member [OF rep i b]
  obtain p x where e: "enter_inst (insts l) i
      \<lparr>in_block = Some b, in_prev = bn_last nd, in_next = None\<rparr> b =
      Some ((insts l)(i \<mapsto> \<lparr>in_block = Some b, in_prev = p, in_next = None\<rparr>))"
    and p: "f b = [] \<Longrightarrow> p = None"
    using enter_detached [OF rep i, of "\<lparr>in_block = Some b, in_prev = bn_last nd, in_next = None\<rparr>" b] nd
    by auto
  show ?thesis
  proof (cases "f b" rule: rev_cases)
    case Nil
    then have "layout_rep (l\<lparr>insts := (insts l)(i \<mapsto> \<lparr>in_block = Some b, in_prev = None, in_next = None\<rparr>),
        blocks := (blocks l)(b \<mapsto> nd\<lparr>bn_first := hd_opt [i], bn_last := last_opt [i]\<rparr>)\<rparr>) bs (f(b := [i]))"
      using i by (intro layout_rep_block_update [OF rep b nd(1)]) auto
    with Nil nd e p show ?thesis by (cases nd) (simp add: append_inst_def)
  next
    case (snoc ys la)
    from ch snoc have la: "insts l la = Some \<lparr>in_block = Some b, in_prev = last_opt ys, in_next = None\<rparr>"
      by (auto simp: chain_append)
    from ni snoc have ne: "i \<noteq> la" "i \<notin> set ys" by auto
    from ch snoc have ys: "chain (insts l) b None ys (Some la)" "la \<notin> set ys"
      by (auto simp: chain_append)
    let ?m = "(insts l)(i \<mapsto> \<lparr>in_block = Some b, in_prev = Some la, in_next = None\<rparr>,
                        la \<mapsto> \<lparr>in_block = Some b, in_prev = last_opt ys, in_next = Some i\<rparr>)"
    have "layout_rep (l\<lparr>insts := ?m,
        blocks := (blocks l)(b \<mapsto> nd\<lparr>bn_first := hd_opt (f b @ [i]), bn_last := last_opt (f b @ [i])\<rparr>)\<rparr>)
        bs (f(b := f b @ [i]))"
      using ch ni i snoc ne ys
      by (intro layout_rep_block_update [OF rep b nd(1)]) (auto simp: chain_append)
    with snoc nd e ne la show ?thesis
      by (cases nd) (simp add: append_inst_def fun_upd_twist)
  qed
qed


lemma insert_inst_at_start_refines:
  assumes rep: "layout_rep l bs f" and b: "b \<in> set bs" and i: "insts l i = None"
  shows "\<exists>l'. insert_inst_at_start i b l = Some l' \<and> layout_rep l' bs (f(b := i # f b))"
proof -
  obtain nd where nd: "blocks l b = Some nd" "bn_first nd = hd_opt (f b)" "bn_last nd = last_opt (f b)"
    using layout_rep_blockD [OF rep b] by blast
  note ch = layout_rep_chainD [OF rep b]
  from i have di: "detached l i" by (simp add: detached_def)
  note ni = detached_not_member [OF rep di b]
  let ?m = "\<lambda>x. (insts l)(i \<mapsto> \<lparr>in_block = Some b, in_prev = None, in_next = x\<rparr>)"
  let ?nd = "nd\<lparr>bn_first := hd_opt (i # f b), bn_last := last_opt (i # f b)\<rparr>"
  show ?thesis
  proof (cases "f b")
    case Nil
    then have "layout_rep (l\<lparr>insts := ?m None, blocks := (blocks l)(b \<mapsto> ?nd)\<rparr>) bs (f(b := i # f b))"
      using di by (intro layout_rep_block_update [OF rep b nd(1)]) auto
    with Nil nd i show ?thesis by (cases nd) (simp add: insert_inst_at_start_def enter_inst_def)
  next
    case (Cons fi ys)
    with ch ni have fi: "insts l fi = Some \<lparr>in_block = Some b, in_prev = None, in_next = hd_opt ys\<rparr>"
      and ys: "chain (insts l) b (Some fi) ys None" "fi \<notin> set ys" "i \<notin> set ys" "i \<noteq> fi" by auto
    have "layout_rep (l\<lparr>insts := (?m (Some fi))(fi \<mapsto> \<lparr>in_block = Some b, in_prev = Some i, in_next = hd_opt ys\<rparr>),
        blocks := (blocks l)(b \<mapsto> ?nd)\<rparr>) bs (f(b := i # f b))"
      using ch ys di Cons by (intro layout_rep_block_update [OF rep b nd(1)]) auto
    with Cons nd i fi ys show ?thesis
      by (cases nd) (simp add: insert_inst_at_start_def enter_inst_def fun_upd_twist last_or_def)
  qed
qed

text \<open>Insertion before and after a member of the block.\<close>

lemma chain_middle:
  assumes "chain m b p (ys @ x # zs) n" "distinct (ys @ x # zs)"
  shows "m x = Some \<lparr>in_block = Some b, in_prev = last_or p ys, in_next = hd_or n zs\<rparr>"
    and "chain m b p ys (Some x)" and "chain m b (Some x) zs n"
  using assms by (auto simp: chain_append)

lemma insert_inst_before_refines:
  assumes rep: "layout_rep l bs f" and b: "b \<in> set bs" and i: "insts l i = None"
    and fb: "f b = ys @ x # zs"
  shows "\<exists>l'. insert_inst_before x i b l = Some l' \<and> layout_rep l' bs (f(b := ys @ i # x # zs))"
proof -
  obtain nd where nd: "blocks l b = Some nd" "bn_first nd = hd_opt (f b)" "bn_last nd = last_opt (f b)"
    using layout_rep_blockD [OF rep b] by blast
  from layout_rep_chainD [OF rep b] fb have ch: "chain (insts l) b None (ys @ x # zs) None"
    and ds: "distinct (ys @ x # zs)" by auto
  note mid = chain_middle [OF ch ds]
  from i have di: "detached l i" by (simp add: detached_def)
  from detached_not_member [OF rep di b] fb have ni: "i \<notin> set ys" "i \<noteq> x" "i \<notin> set zs" by auto
  let ?m = "(insts l)(i \<mapsto> \<lparr>in_block = Some b, in_prev = last_opt ys, in_next = Some x\<rparr>,
                      x \<mapsto> \<lparr>in_block = Some b, in_prev = Some i, in_next = hd_opt zs\<rparr>)"
  let ?xs = "ys @ i # x # zs"
  let ?nd = "nd\<lparr>bn_first := hd_opt ?xs, bn_last := last_opt ?xs\<rparr>"
  show ?thesis
  proof (cases ys rule: rev_cases)
    case Nil
    have "layout_rep (l\<lparr>insts := ?m, blocks := (blocks l)(b \<mapsto> ?nd)\<rparr>) bs (f(b := ?xs))"
      using mid ds ni di fb Nil
      by (intro layout_rep_block_update [OF rep b nd(1)]) auto
    with Nil nd i fb mid ni ds show ?thesis
      by (cases nd) (simp add: insert_inst_before_def enter_inst_def last_or_def)
  next
    case (snoc ws w)
    from mid(2) snoc have w: "insts l w = Some \<lparr>in_block = Some b, in_prev = last_opt ws, in_next = Some x\<rparr>"
      and ws: "chain (insts l) b None ws (Some w)" by (auto simp: chain_append)
    from ds snoc ni have ne: "w \<noteq> x" "w \<noteq> i" "w \<notin> set zs" "w \<notin> set ws" by auto
    have "layout_rep (l\<lparr>insts := ?m(w \<mapsto> \<lparr>in_block = Some b, in_prev = last_opt ws, in_next = Some i\<rparr>),
        blocks := (blocks l)(b \<mapsto> ?nd)\<rparr>) bs (f(b := ?xs))"
      using mid ds ni di fb snoc ne ws
      by (intro layout_rep_block_update [OF rep b nd(1)]) (auto simp: chain_append)
    moreover have "hd_opt (ws @ w # i # x # zs) = hd_opt (f b)" "hd_opt (f b) \<noteq> Some x"
      using ds ne snoc fb by (cases ws; auto)+
    ultimately show ?thesis using snoc nd i fb mid ni ds ne w
      by (cases nd) (simp add: insert_inst_before_def enter_inst_def last_or_def fun_upd_twist)
  qed
qed

lemma insert_inst_after_refines:
  assumes rep: "layout_rep l bs f" and b: "b \<in> set bs" and i: "insts l i = None"
    and fb: "f b = ys @ x # z # zs"
  shows "\<exists>l'. insert_inst_after x i b l = Some l' \<and> layout_rep l' bs (f(b := ys @ x # i # z # zs))"
proof -
  obtain nd where nd: "blocks l b = Some nd" "bn_first nd = hd_opt (f b)" "bn_last nd = last_opt (f b)"
    using layout_rep_blockD [OF rep b] by blast
  from layout_rep_chainD [OF rep b] fb have ch: "chain (insts l) b None (ys @ x # z # zs) None"
    and ds: "distinct (ys @ x # z # zs)" by auto
  note mid = chain_middle [OF ch ds]
  from i have di: "detached l i" by (simp add: detached_def)
  from detached_not_member [OF rep di b] fb have ni: "i \<notin> set ys" "i \<noteq> x" "i \<notin> set zs" "i \<noteq> z" by auto
  let ?xs = "ys @ x # i # z # zs"
  let ?m = "(insts l)(i \<mapsto> \<lparr>in_block = Some b, in_prev = Some x, in_next = Some z\<rparr>,
                      z \<mapsto> \<lparr>in_block = Some b, in_prev = Some i, in_next = hd_opt zs\<rparr>,
                      x \<mapsto> \<lparr>in_block = Some b, in_prev = last_opt ys, in_next = Some i\<rparr>)"
  let ?nd = "nd\<lparr>bn_first := hd_opt ?xs, bn_last := last_opt ?xs\<rparr>"
  have eq: "?nd = nd" using nd fb by (cases nd) (simp add: last_or_def)
  have "layout_rep (l\<lparr>insts := ?m, blocks := (blocks l)(b \<mapsto> ?nd)\<rparr>) bs (f(b := ?xs))"
    using mid ds ni di fb
    by (intro layout_rep_block_update [OF rep b nd(1)]) (auto simp: chain_append)
  moreover have "l\<lparr>insts := ?m, blocks := (blocks l)(b \<mapsto> ?nd)\<rparr> = l\<lparr>insts := ?m\<rparr>"
    using nd(1) eq by (simp add: map_upd_triv)
  ultimately show ?thesis using mid i ni ds
    by (simp add: insert_inst_after_def enter_inst_def fun_upd_twist)
qed


lemma remove_inst_refines:
  assumes rep: "layout_rep l bs f" and b: "b \<in> set bs" and fb: "f b = ys @ x # zs"
  shows "\<exists>l'. remove_inst x l = Some (l', Some ()) \<and> layout_rep l' bs (f(b := ys @ zs)) \<and>
              detached l' x"
proof -
  obtain nd where nd: "blocks l b = Some nd" "bn_first nd = hd_opt (f b)" "bn_last nd = last_opt (f b)"
    using layout_rep_blockD [OF rep b] by blast
  from layout_rep_chainD [OF rep b] fb have ch: "chain (insts l) b None (ys @ x # zs) None"
    and ds: "distinct (ys @ x # zs)" by auto
  note mid = chain_middle [OF ch ds]
  let ?o = "\<lparr>in_block = None, in_prev = None, in_next = None\<rparr>"
  let ?m = "(insts l)(x \<mapsto> ?o)"
  let ?nd = "nd\<lparr>bn_first := hd_opt (ys @ zs), bn_last := last_opt (ys @ zs)\<rparr>"
  have rb: "layout_rep (l\<lparr>insts := m', blocks := (blocks l)(b \<mapsto> ?nd)\<rparr>) bs (f(b := ys @ zs))"
    if "chain m' b None (ys @ zs) None" "m' x = Some ?o"
       "\<And>i. i \<notin> set (ys @ x # zs) \<Longrightarrow> m' i = insts l i" for m'
    using that ds fb by (intro layout_rep_block_update [OF rep b nd(1)]) auto
  note defs = remove_inst_def unlink_prev_def unlink_next_def fun_upd_twist detached_def
  show ?thesis
  proof (cases ys rule: rev_cases)
    case ysN: Nil
    show ?thesis
    proof (cases zs)
      case Nil
      with ysN rb [of ?m] ds nd fb mid show ?thesis by (cases l; cases nd) (simp add: defs)
    next
      case (Cons z zs')
      with mid ysN have z: "insts l z = Some \<lparr>in_block = Some b, in_prev = Some x, in_next = hd_opt zs'\<rparr>" by simp
      let ?m' = "?m(z \<mapsto> \<lparr>in_block = Some b, in_prev = None, in_next = hd_opt zs'\<rparr>)"
      have "chain ?m' b None (ys @ zs) None" using mid ds Cons ysN by auto
      from rb [OF this] Cons ysN ds z nd fb mid show ?thesis
        by (cases l; cases nd) (auto simp: defs last_or_def)
    qed
  next
    case (snoc ws w)
    with mid(2) have w: "insts l w = Some \<lparr>in_block = Some b, in_prev = last_opt ws, in_next = Some x\<rparr>"
      and ws: "chain (insts l) b None ws (Some w)" by (auto simp: chain_append)
    show ?thesis
    proof (cases zs)
      case Nil
      let ?m' = "?m(w \<mapsto> \<lparr>in_block = Some b, in_prev = last_opt ws, in_next = None\<rparr>)"
      have "chain ?m' b None (ys @ zs) None" using ws ds Nil snoc by (auto simp: chain_append)
      from rb [OF this] Nil snoc ds w nd fb mid show ?thesis
        by (cases l; cases nd) (auto simp: defs last_or_def)
    next
      case (Cons z zs')
      with mid have z: "insts l z = Some \<lparr>in_block = Some b, in_prev = Some x, in_next = hd_opt zs'\<rparr>"
        and zs: "chain (insts l) b (Some z) zs' None" by auto
      let ?m' = "?m(w \<mapsto> \<lparr>in_block = Some b, in_prev = last_opt ws, in_next = Some z\<rparr>,
                    z \<mapsto> \<lparr>in_block = Some b, in_prev = Some w, in_next = hd_opt zs'\<rparr>)"
      have "chain ?m' b None (ys @ zs) None"
        using ws zs ds Cons snoc by (auto simp: chain_append)
      note r = rb [OF this]
      have "(blocks l)(b \<mapsto> ?nd) = blocks l"
        using nd fb snoc Cons by (cases nd) (auto simp: last_or_def map_upd_triv)
      with r have "layout_rep (l\<lparr>insts := ?m'\<rparr>) bs (f(b := ys @ zs))" using Cons snoc ds by simp
      with Cons snoc ds w z nd fb mid show ?thesis by (cases l) (simp add: defs)
    qed
  qed
qed

lemma remove_inst_detached:
  "insts l i = Some n \<Longrightarrow> in_block n = None \<Longrightarrow> remove_inst i l = Some (l, None)"
  by (simp add: remove_inst_def)

lemma remove_inst_absent: "insts l i = None \<Longrightarrow> remove_inst i l = None"
  by (simp add: remove_inst_def)

lemma block_chain_snoc:
  assumes "block_chain m f p (bs @ [lb])" "distinct (bs @ [lb])" "b \<notin> set (bs @ [lb])" "m lb = Some nd"
    "f b = []"
  shows "block_chain (m(lb \<mapsto> nd\<lparr>bn_next := Some b\<rparr>,
                        b \<mapsto> \<lparr>bn_prev = Some lb, bn_next = None, bn_first = None, bn_last = None\<rparr>))
           f p (bs @ [lb, b])"
  using assms
proof (induction bs arbitrary: p)
  case (Cons c bs)
  from Cons.prems have "c \<noteq> lb" "c \<noteq> b" by simp_all
  with Cons.IH [of "Some c"] Cons.prems show ?case by simp
next
  case Nil
  then have "nd = \<lparr>bn_prev = p, bn_next = None, bn_first = hd_opt (f lb), bn_last = last_opt (f lb)\<rparr>"
    by simp
  with Nil.prems show ?case by simp
qed

lemma append_block_refines:
  assumes rep: "layout_rep l bs f" and b: "b \<notin> set bs"
  shows "\<exists>l'. append_block b l = Some l' \<and> layout_rep l' (bs @ [b]) (f(b := [])) \<and> insts l' = insts l"
proof -
  from rep b have bl: "blocks l b = None" by (auto simp: layout_rep_def)
  have nb: "insts l i = Some n \<Longrightarrow> in_block n \<noteq> Some b" for i n
    using rep b by (auto simp: layout_rep_def clean_nodes_def split: option.splits)
  have cl: "clean_nodes (insts l) (bs @ [b]) (f(b := []))"
    using rep nb by (fastforce simp: layout_rep_def clean_nodes_def split: option.splits)
  have chs: "\<forall>c \<in> set (bs @ [b]). distinct ((f(b := [])) c) \<and> chain (insts l) c None ((f(b := [])) c) None"
    using rep b by (auto simp: layout_rep_def)
  show ?thesis
  proof (cases bs rule: rev_cases)
    case Nil
    with rep bl cl chs show ?thesis by (auto simp: append_block_def layout_rep_def)
  next
    case (snoc cs lb)
    with rep have lb: "last_block l = Some lb" and dom: "dom (blocks l) = set bs" and "distinct bs"
      and bc: "block_chain (blocks l) f None bs" by (auto simp: layout_rep_def last_or_def)
    from dom snoc have "lb \<in> dom (blocks l)" by simp
    then obtain nd where nd: "blocks l lb = Some nd" by auto
    from snoc b have ne: "lb \<noteq> b" by auto
    have "block_chain (blocks l) (f(b := [])) None bs = block_chain (blocks l) f None bs"
      using b by (intro block_chain_cong) auto
    with bc have "block_chain ((blocks l)(lb \<mapsto> nd\<lparr>bn_next := Some b\<rparr>,
                        b \<mapsto> \<lparr>bn_prev = Some lb, bn_next = None, bn_first = None, bn_last = None\<rparr>))
           (f(b := [])) None (cs @ [lb, b])"
      using \<open>distinct bs\<close> b nd snoc by (intro block_chain_snoc) auto
    moreover have "append_block b l = Some (l\<lparr>blocks := (blocks l)(lb \<mapsto> nd\<lparr>bn_next := Some b\<rparr>,
        b \<mapsto> \<lparr>bn_prev = Some lb, bn_next = None, bn_first = None, bn_last = None\<rparr>), last_block := Some b\<rparr>)"
      using rep snoc bl lb nd ne by (cases l) (auto simp: append_block_def layout_rep_def fun_upd_twist split: option.splits)
    moreover have "insert b (insert lb (dom (blocks l))) = set (bs @ [b])" using dom snoc by auto
    ultimately show ?thesis using rep cl chs snoc b
      by (simp add: layout_rep_def)
  qed
qed

subsection \<open>The iterators terminate and yield the lists\<close>

lemma blocks_from_chain:
  "block_chain (blocks l) f p bs \<Longrightarrow> blocks_from l (hd_opt bs) = Some bs"
proof (induction bs arbitrary: p)
  case Nil
  then show ?case by (simp add: blocks_from.simps)
next
  case (Cons b bs)
  then have "blocks_from l (hd_opt bs) = Some bs" by auto
  with Cons.prems show ?case by (simp add: blocks_from.simps [of l "Some b"])
qed

lemma insts_from_chain:
  assumes "chain (insts l) b p xs None" "distinct xs" "blocks l b = Some nd"
    "xs \<noteq> [] \<Longrightarrow> bn_last nd = Some (last xs)"
  shows "insts_from l b (hd_opt xs) = Some xs"
  using assms
proof (induction xs arbitrary: p)
  case Nil
  then show ?case by (simp add: insts_from.simps)
next
  case (Cons x xs)
  show ?case
  proof (cases xs)
    case Nil
    with Cons.prems show ?thesis
      by (simp add: insts_from.simps [of l b "Some _"] insts_from.simps [of l b None] inst_next_def)
  next
    case (Cons y ys)
    with \<open>distinct (x # xs)\<close> have "last xs \<noteq> x" by (metis distinct.simps(2) last_in_set list.discI)
    with Cons Cons.prems Cons.IH [of "Some x"] show ?thesis
      by (simp add: insts_from.simps [of l b "Some x"] inst_next_def)
  qed
qed

lemma block_iter_rep: "layout_rep l bs f \<Longrightarrow> block_iter l = Some bs"
  by (auto simp: block_iter_def layout_rep_def intro: blocks_from_chain)

lemma inst_iter_rep:
  assumes "layout_rep l bs f" "b \<in> set bs"
  shows "inst_iter b l = Some (f b)"
proof -
  obtain nd where nd: "blocks l b = Some nd" "bn_first nd = hd_opt (f b)" "bn_last nd = last_opt (f b)"
    using layout_rep_blockD [OF assms] by blast
  with insts_from_chain [of l b None "f b" nd] layout_rep_chainD [OF assms] show ?thesis
    by (simp add: inst_iter_def last_or_def)
qed

lemma last_inst_of_rep:
  "layout_rep l bs f \<Longrightarrow> b \<in> set bs \<Longrightarrow> last_inst_of b l = Some (last_opt (f b))"
  using layout_rep_blockD [of l bs f b] by (auto simp: last_inst_of_def)

lemma prev_next_inst_of_rep:
  assumes "layout_rep l bs f" "b \<in> set bs" "f b = ys @ x # zs"
  shows "prev_inst_of x l = Some (last_opt ys)" and "next_inst_of x l = Some (hd_opt zs)"
  using layout_rep_chainD [OF assms(1,2)] assms(3)
  by (auto simp: prev_inst_of_def next_inst_of_def chain_append)

lemma next_block_of_chain:
  "block_chain m f p (cs @ b # ds) \<Longrightarrow> map_option bn_next (m b) = Some (hd_opt ds)"
  by (induction cs arbitrary: p) auto

lemma next_block_of_rep:
  "layout_rep l (cs @ b # ds) f \<Longrightarrow> next_block_of b l = Some (hd_opt ds)"
  unfolding next_block_of_def layout_rep_def
  by (elim conjE) (erule next_block_of_chain)

text \<open>
  \<open>insert_inst_after\<close> does not move \<open>last_inst\<close>: behind the last instruction of a block the
  new instruction is linked but the iteration still stops at the old last one.
\<close>

lemma insert_inst_after_last_lost:
  assumes rep: "layout_rep l bs f" and b: "b \<in> set bs" and i: "insts l i = None"
    and fb: "f b = ys @ [x]"
  shows "\<exists>l'. insert_inst_after x i b l = Some l' \<and> inst_iter b l' = Some (f b) \<and>
              next_inst_of x l' = Some (Some i)"
proof -
  obtain nd where nd: "blocks l b = Some nd" "bn_first nd = hd_opt (f b)" "bn_last nd = last_opt (f b)"
    using layout_rep_blockD [OF rep b] by blast
  from layout_rep_chainD [OF rep b] fb have ch: "chain (insts l) b None (ys @ [x]) None"
    and ds: "distinct (ys @ [x])" by auto
  note mid = chain_middle [OF ch ds]
  from i have di: "detached l i" by (simp add: detached_def)
  from detached_not_member [OF rep di b] fb have ni: "i \<notin> set ys" "i \<noteq> x" by auto
  let ?l = "l\<lparr>insts := (insts l)(i \<mapsto> \<lparr>in_block = Some b, in_prev = Some x, in_next = None\<rparr>,
                      x \<mapsto> \<lparr>in_block = Some b, in_prev = last_opt ys, in_next = Some i\<rparr>)\<rparr>"
  have it: "insts_from ?l b (hd_opt (zs @ [x])) = Some (zs @ [x])"
    if "chain (insts ?l) b p zs (Some x)" "distinct (zs @ [x])" for p zs
    using that
  proof (induction zs arbitrary: p)
    case Nil
    with nd fb show ?case
      by (simp add: insts_from.simps [of _ b "Some x"] insts_from.simps [of _ b None] inst_next_def last_or_def)
  next
    case (Cons z zs)
    with nd fb show ?case
      by (cases zs) (auto simp: insts_from.simps [of _ b "Some z"] inst_next_def last_or_def)
  qed
  have "chain (insts ?l) b None ys (Some x)" using mid ni ds by (simp add: chain_upd)
  from it [OF this ds] nd fb have "inst_iter b ?l = Some (f b)" by (simp add: inst_iter_def)
  moreover have "insert_inst_after x i b l = Some ?l"
    using mid i ni by (simp add: insert_inst_after_def enter_inst_def fun_upd_twist)
  ultimately show ?thesis by (simp add: next_inst_of_def)
qed

subsection \<open>The layout provides the interface of the passes\<close>

definition fresh_inst :: "layout \<Rightarrow> nat \<Rightarrow> bool" where
  "fresh_inst l i \<longleftrightarrow> insts l i = None"

lemma modify_dom:
  assumes "modify m k g = Some m'"
  shows "dom m' = dom m"
proof -
  from assms obtain v where "m k = Some v" "m' = m(k \<mapsto> g v)" by (auto simp: modify_eq_Some_iff)
  then show ?thesis by (simp add: insert_absorb domI)
qed

lemma enter_inst_dom:
  assumes "enter_inst m i nd b = Some m'"
  shows "dom m' = insert i (dom m)"
proof (cases "m i")
  case None
  with assms have "m' = m(i \<mapsto> nd\<lparr>in_block := Some b\<rparr>)" by (simp add: enter_inst_def)
  then show ?thesis by simp
next
  case (Some n)
  with assms have "m' = m(i \<mapsto> n\<lparr>in_block := Some b\<rparr>)" by (simp add: enter_inst_def)
  with Some show ?thesis by simp
qed

lemma case_modify_dom:
  "(case x of None \<Rightarrow> Some m | Some p \<Rightarrow> modify m p (g p)) = Some m' \<Longrightarrow> dom m' = dom m"
  by (cases x) (simp_all add: modify_dom)

lemma case_modify2_dom:
  assumes "(case x of None \<Rightarrow> Some m
            | Some p \<Rightarrow> Option.bind (modify m p (g p)) (\<lambda>m. modify m i (h p))) = Some m'"
  shows "dom m' = dom m"
proof (cases x)
  case (Some p)
  with assms obtain m1 where "modify m p (g p) = Some m1" "modify m1 i (h p) = Some m'"
    by (auto elim: bind_SomeE)
  then show ?thesis by (simp add: modify_dom)
qed (use assms in simp)

lemma insert_inst_before_dom:
  "insert_inst_before x i b l = Some l' \<Longrightarrow> dom (insts l') = insert i (dom (insts l))"
  unfolding insert_inst_before_def Let_def
  by (elim bind_SomeE) (drule enter_inst_dom, drule case_modify_dom, drule modify_dom, clarsimp)

lemma insert_inst_after_dom:
  "insert_inst_after x i b l = Some l' \<Longrightarrow> dom (insts l') = insert i (dom (insts l))"
  unfolding insert_inst_after_def Let_def
  by (elim bind_SomeE) (drule enter_inst_dom, drule case_modify_dom, drule modify_dom, clarsimp)

lemma insert_inst_at_start_dom:
  "insert_inst_at_start i b l = Some l' \<Longrightarrow> dom (insts l') = insert i (dom (insts l))"
  unfolding insert_inst_at_start_def Let_def
  by (elim bind_SomeE) (drule enter_inst_dom, drule case_modify2_dom, clarsimp)

lemma append_inst_dom:
  "append_inst i b l = Some l' \<Longrightarrow> dom (insts l') = insert i (dom (insts l))"
  unfolding append_inst_def Let_def
  by (elim bind_SomeE) (drule enter_inst_dom, drule case_modify2_dom, clarsimp)

lemma layout_rep_cong:
  assumes "layout_rep l bs f" "\<And>b. b \<in> set bs \<Longrightarrow> f b = g b"
  shows "layout_rep l bs g"
proof -
  have "block_chain (blocks l) g None bs = block_chain (blocks l) f None bs"
    using assms(2) by (intro block_chain_cong) auto
  moreover have "clean_nodes (insts l) bs g"
    unfolding clean_nodes_def
  proof (intro allI impI)
    fix i n assume "insts l i = Some n"
    with assms show "case in_block n of None \<Rightarrow> in_prev n = None \<and> in_next n = None
        | Some b \<Rightarrow> b \<in> set bs \<and> i \<in> set (g b)"
      by (cases "in_block n") (fastforce simp: layout_rep_def clean_nodes_def)+
  qed
  ultimately show ?thesis using assms by (simp add: layout_rep_def)
qed

lemma split_at_member: "x \<in> set xs \<Longrightarrow> distinct xs \<Longrightarrow>
    \<exists>ys zs. xs = ys @ x # zs \<and> remove1 x xs = ys @ zs"
  by (metis distinct_append distinct.simps(2) in_set_conv_decomp_first not_distinct_conv_prefix
      remove1_append remove1.simps(2))

interpretation lay: inst_order layout_rep block_iter inst_iter remove_inst
proof unfold_locales
  fix l bs f b i assume rep: "layout_rep l bs f" and b: "b \<in> set bs"
  show "inst_iter b l = Some (f b)" using rep b by (rule inst_iter_rep)
  show ds: "distinct (f b)" using layout_rep_chainD [OF rep b] by simp
  show "b = c" if "c \<in> set bs" "i \<in> set (f b)" "i \<in> set (f c)" for c
    using layout_rep_memberD [OF rep b that(2)] layout_rep_memberD [OF rep that(1,3)] by auto
  assume i: "i \<in> set (f b)"
  from split_at_member [OF this ds] obtain ys zs where
    "f b = ys @ i # zs" "remove1 i (f b) = ys @ zs" by blast
  with remove_inst_refines [OF rep b] show
    "\<exists>l'. remove_inst i l = Some (l', Some ()) \<and> layout_rep l' bs (f(b := remove1 i (f b)))"
    by metis
qed (auto intro: block_iter_rep layout_rep_cong)

interpretation edit: inst_editor layout_rep block_iter inst_iter remove_inst fresh_inst
  last_inst_of insert_inst_before
proof unfold_locales
  fix l bs f b i x ys zs
  assume rep: "layout_rep l bs f" and b: "b \<in> set bs"
  show "last_inst_of b l = Some (last_opt (f b))" using rep b by (rule last_inst_of_rep)
  assume i: "fresh_inst l i" and fb: "f b = ys @ x # zs"
  from insert_inst_before_refines [OF rep b _ fb, of i] i obtain l' where
    l': "insert_inst_before x i b l = Some l'" "layout_rep l' bs (f(b := ys @ i # x # zs))"
    by (auto simp: fresh_inst_def)
  with insert_inst_before_dom [OF l'(1)]
  have "fresh_inst l' j \<longleftrightarrow> fresh_inst l j \<and> j \<noteq> i" for j by (auto simp: fresh_inst_def)
  with l' show "\<exists>l'. insert_inst_before x i b l = Some l' \<and>
      layout_rep l' bs (f(b := ys @ i # x # zs)) \<and> (\<forall>j. fresh_inst l' j \<longleftrightarrow> fresh_inst l j \<and> j \<noteq> i)"
    by blast
qed

subsection \<open>Sequences of operations\<close>

text \<open>
  The abstract machine of a layout: the block list, the instruction list of each block, and
  the instructions ever entered.  An operation outside its contract (an unknown block, an
  insertion of an instruction entered before, an insertion behind the last instruction of a
  block) is \<open>None\<close>.
\<close>

datatype layout_op =
    AppendBlock nat
  | AppendInst nat nat
  | InsertAtStart nat nat
  | InsertBefore nat nat nat
  | InsertAfter nat nat nat
  | RemoveInst nat nat

type_synonym abs_layout = "nat list \<times> (nat \<Rightarrow> nat list) \<times> nat set"

fun exec_op :: "layout_op \<Rightarrow> layout \<Rightarrow> layout option" where
  "exec_op (AppendBlock b) l = append_block b l"
| "exec_op (AppendInst i b) l = append_inst i b l"
| "exec_op (InsertAtStart i b) l = insert_inst_at_start i b l"
| "exec_op (InsertBefore x i b) l = insert_inst_before x i b l"
| "exec_op (InsertAfter x i b) l = insert_inst_after x i b l"
| "exec_op (RemoveInst i b) l = map_option fst (remove_inst i l)"

fun abs_op :: "layout_op \<Rightarrow> abs_layout \<Rightarrow> abs_layout option" where
  "abs_op (AppendBlock b) (bs, f, seen) =
     (if b \<in> set bs then None else Some (bs @ [b], f(b := []), seen))"
| "abs_op (AppendInst i b) (bs, f, seen) =
     (if b \<in> set bs \<and> list_all (\<lambda>c. i \<notin> set (f c)) bs
      then Some (bs, f(b := f b @ [i]), insert i seen) else None)"
| "abs_op (InsertAtStart i b) (bs, f, seen) =
     (if b \<in> set bs \<and> i \<notin> seen then Some (bs, f(b := i # f b), insert i seen) else None)"
| "abs_op (InsertBefore x i b) (bs, f, seen) =
     (if b \<in> set bs \<and> i \<notin> seen \<and> x \<in> set (f b)
      then Some (bs, f(b := takeWhile (\<lambda>y. y \<noteq> x) (f b) @ i # dropWhile (\<lambda>y. y \<noteq> x) (f b)),
                 insert i seen) else None)"
| "abs_op (InsertAfter x i b) (bs, f, seen) =
     (if b \<in> set bs \<and> i \<notin> seen \<and> x \<in> set (f b) \<and> x \<noteq> last (f b)
      then Some (bs, f(b := takeWhile (\<lambda>y. y \<noteq> x) (f b) @ x # i # tl (dropWhile (\<lambda>y. y \<noteq> x) (f b))),
                 insert i seen) else None)"
| "abs_op (RemoveInst i b) (bs, f, seen) =
     (if b \<in> set bs \<and> i \<in> set (f b) then Some (bs, f(b := remove1 i (f b)), seen) else None)"

fun exec_run :: "layout_op list \<Rightarrow> layout \<Rightarrow> layout option" where
  "exec_run [] l = Some l"
| "exec_run (x # xs) l = do { l \<leftarrow> exec_op x l; exec_run xs l }"

fun abs_run :: "layout_op list \<Rightarrow> abs_layout \<Rightarrow> abs_layout option" where
  "abs_run [] a = Some a"
| "abs_run (x # xs) a = do { a \<leftarrow> abs_op x a; abs_run xs a }"

lemma split_while:
  assumes "x \<in> set xs"
  obtains ys zs where "xs = ys @ x # zs" "takeWhile (\<lambda>y. y \<noteq> x) xs = ys" "dropWhile (\<lambda>y. y \<noteq> x) xs = x # zs"
proof -
  let ?d = "dropWhile (\<lambda>y. y \<noteq> x) xs"
  from assms have ne: "?d \<noteq> []" by (auto simp: dropWhile_eq_Nil_conv)
  with hd_dropWhile [OF ne] have "?d = x # tl ?d" by (cases ?d) auto
  with that [of "takeWhile (\<lambda>y. y \<noteq> x) xs" "tl ?d"] show ?thesis
    by (metis takeWhile_dropWhile_id)
qed

lemma not_listed_detached:
  assumes "layout_rep l bs f" "list_all (\<lambda>c. i \<notin> set (f c)) bs"
  shows "detached l i"
proof (cases "insts l i")
  case (Some n)
  with assms show ?thesis
    by (cases "in_block n") (fastforce simp: layout_rep_def clean_nodes_def detached_def list_all_iff)+
qed (simp add: detached_def)

lemma unlink_dom:
  "unlink_prev b p x l = Some l' \<Longrightarrow> dom (insts l') = dom (insts l)"
  "unlink_next b p x l = Some l' \<Longrightarrow> dom (insts l') = dom (insts l)"
  unfolding unlink_prev_def unlink_next_def
  by (cases p; clarsimp simp: modify_dom) (cases x; clarsimp simp: modify_dom)

lemma remove_inst_dom:
  assumes "insts l i \<noteq> None" "remove_inst i l = Some (l', u)"
  shows "dom (insts l') = dom (insts l)"
proof -
  from assms(1) have i: "insert i (dom (insts l)) = dom (insts l)" by (simp add: insert_absorb domIff)
  from assms(2) obtain nd where "insts l i = Some nd" by (auto simp: remove_inst_def split: option.split_asm)
  with assms(2) show ?thesis
    by (simp add: remove_inst_def Let_def split: option.split_asm)
      (clarsimp simp: i unlink_dom dest!: unlink_dom)+
qed

lemma exec_op_refines:
  assumes rep: "layout_rep l bs f" and seen: "dom (insts l) = seen"
    and abs: "abs_op x (bs, f, seen) = Some (bs', f', seen')"
  shows "\<exists>l'. exec_op x l = Some l' \<and> layout_rep l' bs' f' \<and> dom (insts l') = seen'"
proof (cases x)
  case (AppendBlock b)
  with abs have "b \<notin> set bs" by (auto split: if_splits)
  from append_block_refines [OF rep this] AppendBlock abs seen \<open>b \<notin> set bs\<close> show ?thesis by fastforce
next
  case (AppendInst i b)
  with abs have "b \<in> set bs" "detached l i" by (auto split: if_splits intro: not_listed_detached [OF rep])
  from append_inst_refines [OF rep this] obtain l' where
    l': "append_inst i b l = Some l'" "layout_rep l' bs (f(b := f b @ [i]))" by blast
  with append_inst_dom [OF l'(1)] AppendInst abs seen show ?thesis by (auto split: if_splits)
next
  case (InsertAtStart i b)
  with abs seen have "b \<in> set bs" "insts l i = None" by (auto split: if_splits)
  from insert_inst_at_start_refines [OF rep this] obtain l' where
    l': "insert_inst_at_start i b l = Some l'" "layout_rep l' bs (f(b := i # f b))" by blast
  with insert_inst_at_start_dom [OF l'(1)] InsertAtStart abs seen show ?thesis by (auto split: if_splits)
next
  case (InsertBefore y i b)
  with abs seen have b: "b \<in> set bs" "insts l i = None" "y \<in> set (f b)" by (auto split: if_splits)
  obtain ys zs where yz: "f b = ys @ y # zs" "takeWhile (\<lambda>z. z \<noteq> y) (f b) = ys"
    "dropWhile (\<lambda>z. z \<noteq> y) (f b) = y # zs" using split_while [OF b(3)] by metis
  from insert_inst_before_refines [OF rep b(1,2) yz(1)] obtain l' where
    l': "insert_inst_before y i b l = Some l'" "layout_rep l' bs (f(b := ys @ i # y # zs))" by blast
  with insert_inst_before_dom [OF l'(1)] InsertBefore abs seen yz(2,3) show ?thesis
    by (auto split: if_splits)
next
  case (InsertAfter y i b)
  with abs seen have b: "b \<in> set bs" "insts l i = None" "y \<in> set (f b)" "y \<noteq> last (f b)"
    by (auto split: if_splits)
  obtain ys zs where yz: "f b = ys @ y # zs" "takeWhile (\<lambda>z. z \<noteq> y) (f b) = ys"
    "dropWhile (\<lambda>z. z \<noteq> y) (f b) = y # zs" using split_while [OF b(3)] by metis
  with b(4) obtain w ws where zs: "zs = w # ws" by (cases zs) auto
  from insert_inst_after_refines [OF rep b(1,2), of ys y w ws] yz zs obtain l' where
    l': "insert_inst_after y i b l = Some l'" "layout_rep l' bs (f(b := ys @ y # i # w # ws))" by blast
  with insert_inst_after_dom [OF l'(1)] InsertAfter abs seen yz(2,3) zs show ?thesis
    by (auto split: if_splits)
next
  case (RemoveInst i b)
  with abs have b: "b \<in> set bs" "i \<in> set (f b)" by (auto split: if_splits)
  obtain l' where l': "remove_inst i l = Some (l', Some ())" "layout_rep l' bs (f(b := remove1 i (f b)))"
    using lay.rem_rep [OF rep b] by blast
  have "insts l i \<noteq> None" using layout_rep_memberD [OF rep b] by auto
  with remove_inst_dom [OF _ l'(1)] l' RemoveInst abs seen b show ?thesis by auto
qed

lemma exec_run_refines:
  assumes "layout_rep l bs f" "dom (insts l) = seen" "abs_run xs (bs, f, seen) = Some (bs', f', seen')"
  shows "\<exists>l'. exec_run xs l = Some l' \<and> layout_rep l' bs' f' \<and> dom (insts l') = seen'"
  using assms
proof (induction xs arbitrary: l bs f seen)
  case (Cons x xs)
  from Cons.prems(3) obtain bs1 f1 seen1 where
    x: "abs_op x (bs, f, seen) = Some (bs1, f1, seen1)" "abs_run xs (bs1, f1, seen1) = Some (bs', f', seen')"
    by (auto elim!: bind_SomeE)
  from exec_op_refines [OF Cons.prems(1,2) x(1)] obtain l1 where
    "exec_op x l = Some l1" "layout_rep l1 bs1 f1" "dom (insts l1) = seen1" by blast
  with Cons.IH [OF _ _ x(2)] show ?case by simp
qed auto

text \<open>
  C1: any sequence of layout operations that respects their contracts runs without a panic
  from the empty layout, and afterwards \<open>block_iter\<close> and \<open>inst_iter\<close> terminate and
  yield exactly the block list and the instruction lists of the abstract machine.
\<close>

theorem layout_run_refines_lists:
  assumes "abs_run xs ([], \<lambda>_. [], {}) = Some (bs, f, seen)"
  shows "\<exists>l. exec_run xs new_layout = Some l \<and> block_iter l = Some bs \<and>
             (\<forall>b. b \<in> set bs \<longrightarrow> inst_iter b l = Some (f b))"
proof -
  from exec_run_refines [OF layout_rep_empty _ assms] obtain l where
    "exec_run xs new_layout = Some l" "layout_rep l bs f" by (auto simp: new_layout_def)
  then show ?thesis using block_iter_rep inst_iter_rep by blast
qed

theorem layout_run_refines_lists_witness:
  "\<exists>l. exec_run [AppendBlock 4, AppendInst 7 4, AppendInst 8 4, InsertBefore 8 9 4, RemoveInst 7 4,
        AppendInst 7 4] new_layout = Some l \<and> block_iter l = Some [4] \<and>
        (\<forall>b. b \<in> set [4] \<longrightarrow> inst_iter b l = Some (((\<lambda>_. [])(4 := [9, 8, 7])) b))"
  by (rule layout_run_refines_lists [where seen = "{7, 8, 9}"]) (auto simp: fun_eq_iff)

text \<open>
  \<open>insert_inst_after\<close> behind the last instruction of a block links the new instruction
  into the list but leaves \<open>last_inst\<close> where it was, so the iteration of the block does
  not return the new instruction.
\<close>

theorem insert_after_last_not_iterated:
  assumes "layout_rep l bs f" "b \<in> set bs" "insts l i = None" "f b = ys @ [x]"
  shows "\<exists>l'. insert_inst_after x i b l = Some l' \<and> next_inst_of x l' = Some (Some i) \<and>
              inst_iter b l' = Some (ys @ [x]) \<and> i \<notin> set (ys @ [x])"
proof -
  have "i \<notin> set (f b)" using layout_rep_memberD [OF assms(1,2)] assms(3) by fastforce
  with insert_inst_after_last_lost [OF assms] assms(4) show ?thesis by auto
qed

theorem insert_after_last_not_iterated_witness:
  "\<exists>l l'. exec_run [AppendBlock 0, AppendInst 5 0] new_layout = Some l \<and>
     insert_inst_after 5 6 0 l = Some l' \<and> next_inst_of 5 l' = Some (Some 6) \<and>
     inst_iter 0 l' = Some [5]"
proof -
  from exec_run_refines [OF layout_rep_empty, of "{}" "[AppendBlock 0, AppendInst 5 0]" "\<lambda>_. []" "[0]"
      "(\<lambda>_. [])(0 := [5])" "{5}"]
  obtain l where l: "exec_run [AppendBlock 0, AppendInst 5 0] new_layout = Some l"
    "layout_rep l [0] ((\<lambda>_. [])(0 := [5]))" "dom (insts l) = {5}"
    by (auto simp: new_layout_def)
  then have "6 \<notin> dom (insts l)" by simp
  then have "insts l 6 = None" by blast
  with insert_after_last_not_iterated [OF l(2), of 0 6 "[]" 5] l(1) show ?thesis by auto
qed

end
