(* ===== verification/IR_Types.thy ===== *)
theory IR_Types
  imports Prelude
begin

section \<open>The type table of the IR\<close>

text \<open>
  Model of \<open>src/codegen/core/ir/types/mod.rs\<close>: a type is a pair of an arena number (0 for
  the primitive types) and an index into the table of compound types; pointer and array types
  and named types are interned through caches.  The process-wide arena counter is the argument
  of \<open>new_types\<close>.
\<close>

datatype ty = Ty nat nat

datatype name = Name string | Number nat

definition VOID :: ty where "VOID = Ty 0 0"
definition I1 :: ty where "I1 = Ty 0 1"
definition I8 :: ty where "I8 = Ty 0 2"
definition I16 :: ty where "I16 = Ty 0 3"
definition I32 :: ty where "I32 = Ty 0 4"
definition I64 :: ty where "I64 = Ty 0 5"

lemmas prim_defs = VOID_def I1_def I8_def I16_def I32_def I64_def

datatype compound =
    Pointer ty nat
  | Array ty nat
  | Function ty "ty list" bool
  | Struct "name option" "ty list" bool
  | Alias ty
  | Metadata

record types =
  arena_id :: nat
  next_id :: nat
  compound_types :: "compound list"
  pointer_cache :: "ty \<times> nat \<rightharpoonup> ty"
  array_cache :: "ty \<times> nat \<rightharpoonup> ty"
  named_struct :: "string \<rightharpoonup> ty"
  named_types :: "name \<rightharpoonup> ty"
  metadata_ty :: ty

definition new_types :: "nat \<Rightarrow> types" where
  "new_types a = \<lparr>arena_id = a, next_id = 1, compound_types = [Metadata],
     pointer_cache = Map.empty, array_cache = Map.empty, named_struct = Map.empty,
     named_types = Map.empty, metadata_ty = Ty a 0\<rparr>"

fun is_primitive :: "ty \<Rightarrow> bool" where
  "is_primitive (Ty a i) = (a = 0)"

fun type_id :: "ty \<Rightarrow> nat" where
  "type_id (Ty a i) = i"

fun type_arena :: "ty \<Rightarrow> nat" where
  "type_arena (Ty a i) = a"

definition is_integer_ty :: "ty \<Rightarrow> bool" where
  "is_integer_ty t \<longleftrightarrow> t = I1 \<or> t = I8 \<or> t = I16 \<or> t = I32 \<or> t = I64"

text \<open>\<open>get\<close>: no compound type for a primitive type, a panic for an index past the table.\<close>

definition get_type :: "types \<Rightarrow> ty \<Rightarrow> compound option option" where
  "get_type T t =
     (if is_primitive t then Some None
      else if type_id t < length (compound_types T) then Some (Some (compound_types T ! type_id t))
      else None)"

definition is_pointer_ty :: "types \<Rightarrow> ty \<Rightarrow> bool option" where
  "is_pointer_ty T t = do { c \<leftarrow> get_type T t; Some (case c of Some (Pointer _ _) \<Rightarrow> True | _ \<Rightarrow> False) }"

definition is_array_ty :: "types \<Rightarrow> ty \<Rightarrow> bool option" where
  "is_array_ty T t = do { c \<leftarrow> get_type T t; Some (case c of Some (Array _ _) \<Rightarrow> True | _ \<Rightarrow> False) }"

definition is_struct_ty :: "types \<Rightarrow> ty \<Rightarrow> bool option" where
  "is_struct_ty T t =
     (if type_arena t \<noteq> arena_id T then Some False
      else if type_id t < length (compound_types T)
      then Some (case compound_types T ! type_id t of Struct _ _ _ \<Rightarrow> True | _ \<Rightarrow> False)
      else None)"

subsection \<open>Making types\<close>

definition new_type :: "compound \<Rightarrow> types \<Rightarrow> ty \<times> types" where
  "new_type c T = (Ty (arena_id T) (next_id T),
     T\<lparr>next_id := next_id T + 1, compound_types := compound_types T @ [c]\<rparr>)"

definition mk_pointer :: "ty \<times> nat \<Rightarrow> types \<Rightarrow> ty \<times> types" where
  "mk_pointer p T = (case pointer_cache T p of
     Some t \<Rightarrow> (t, T)
   | None \<Rightarrow> let (t, T) = new_type (Pointer (fst p) (snd p)) T
             in (t, T\<lparr>pointer_cache := (pointer_cache T)(p \<mapsto> t)\<rparr>))"

definition mk_array :: "ty \<times> nat \<Rightarrow> types \<Rightarrow> ty \<times> types" where
  "mk_array p T = (case array_cache T p of
     Some t \<Rightarrow> (t, T)
   | None \<Rightarrow> let (t, T) = new_type (Array (fst p) (snd p)) T
             in (t, T\<lparr>array_cache := (array_cache T)(p \<mapsto> t)\<rparr>))"

definition mk_function :: "ty \<Rightarrow> ty list \<Rightarrow> bool \<Rightarrow> types \<Rightarrow> ty \<times> types" where
  "mk_function r ps va T = new_type (Function r ps va) T"

definition empty_named_type :: "name \<Rightarrow> types \<Rightarrow> ty \<times> types" where
  "empty_named_type n T = (case named_types T n of
     Some t \<Rightarrow> (t, T)
   | None \<Rightarrow> let (t, T) = new_type (Alias VOID) T
             in (t, T\<lparr>named_types := (named_types T)(n \<mapsto> t)\<rparr>))"

definition empty_struct_named :: "string \<Rightarrow> bool \<Rightarrow> types \<Rightarrow> ty \<times> types" where
  "empty_struct_named n packed T = (case named_struct T n of
     Some t \<Rightarrow> (t, T)
   | None \<Rightarrow> let (t, T) = new_type (Struct (Some (Name n)) [] packed) T
             in (t, T\<lparr>named_struct := (named_struct T)(n \<mapsto> t)\<rparr>))"

definition anonymous_struct :: "ty list \<Rightarrow> bool \<Rightarrow> types \<Rightarrow> ty \<times> types" where
  "anonymous_struct es packed T = new_type (Struct None es packed) T"

text \<open>
  \<open>change_to_named_type\<close> moves a structure into the slot of its name, leaving the default
  structure behind (\<open>mem::take\<close>); any other type becomes the target of an alias.
\<close>

definition change_to_named_type :: "ty \<Rightarrow> name \<Rightarrow> types \<Rightarrow> types option" where
  "change_to_named_type t n T = (let (nt, T) = empty_named_type n T in do {
     c \<leftarrow> get_type T t;
     (case c of
        Some (Struct _ es packed) \<Rightarrow>
          let T = T\<lparr>compound_types := (compound_types T)[type_id t := Struct None [] False]\<rparr>;
              T = (case n of Name s \<Rightarrow> T\<lparr>named_struct := (named_struct T)(s \<mapsto> nt)\<rparr> | Number _ \<Rightarrow> T)
          in Some (T\<lparr>compound_types := (compound_types T)[type_id nt := Struct (Some n) es packed]\<rparr>)
      | _ \<Rightarrow> Some (T\<lparr>compound_types := (compound_types T)[type_id nt := Alias t]\<rparr>)) })"

subsection \<open>Element types\<close>

text \<open>An alias is followed to its target; a cycle of aliases does not return (\<open>None\<close>).\<close>

partial_function (option) element_ty :: "types \<Rightarrow> ty \<Rightarrow> ty option option" where
  "element_ty T t = do {
     c \<leftarrow> get_type T t;
     (case c of
        Some (Pointer i _) \<Rightarrow> Some (Some i)
      | Some (Array i _) \<Rightarrow> Some (Some i)
      | Some (Alias t) \<Rightarrow> element_ty T t
      | _ \<Rightarrow> Some None) }"

partial_function (option) element_at :: "types \<Rightarrow> ty \<Rightarrow> nat \<Rightarrow> ty option option" where
  "element_at T t i = do {
     c \<leftarrow> get_type T t;
     (case c of
        Some (Pointer t _) \<Rightarrow> Some (Some t)
      | Some (Array t _) \<Rightarrow> Some (Some t)
      | Some (Struct _ es _) \<Rightarrow> Some (if i < length es then Some (es ! i) else None)
      | Some (Alias t) \<Rightarrow> element_at T t i
      | _ \<Rightarrow> Some None) }"

fun element_at_path :: "types \<Rightarrow> ty \<Rightarrow> nat list \<Rightarrow> ty option option" where
  "element_at_path T t [] = Some (Some t)"
| "element_at_path T t (i # is) = do {
     e \<leftarrow> element_at T t i;
     (case e of Some t \<Rightarrow> element_at_path T t is | None \<Rightarrow> Some None) }"

subsection \<open>The table stays well formed\<close>

text \<open>
  Well-formedness: the next index is the length of the table, and each cache entry points into
  the table at the compound type it was made for.
\<close>

definition wf_types :: "types \<Rightarrow> bool" where
  "wf_types T \<longleftrightarrow> arena_id T \<noteq> 0 \<and> next_id T = length (compound_types T) \<and>
     (\<forall>t s u. pointer_cache T (t, s) = Some u \<longrightarrow> get_type T u = Some (Some (Pointer t s))) \<and>
     (\<forall>t n u. array_cache T (t, n) = Some u \<longrightarrow> get_type T u = Some (Some (Array t n))) \<and>
     (\<forall>n u. named_types T n = Some u \<longrightarrow> type_arena u = arena_id T \<and> type_id u < length (compound_types T) \<and>
        (case compound_types T ! type_id u of Struct _ _ _ \<Rightarrow> True | Alias _ \<Rightarrow> True | _ \<Rightarrow> False))"

definition extends_types :: "types \<Rightarrow> types \<Rightarrow> bool" where
  "extends_types T T' \<longleftrightarrow> arena_id T' = arena_id T \<and>
     (\<forall>t c. get_type T t = Some c \<longrightarrow> get_type T' t = Some c)"

lemma extends_refl [simp]: "extends_types T T"
  by (simp add: extends_types_def)

lemma extends_trans: "extends_types T U \<Longrightarrow> extends_types U V \<Longrightarrow> extends_types T V"
  by (simp add: extends_types_def)

lemma get_type_append:
  "get_type T t = Some c \<Longrightarrow> get_type (T\<lparr>compound_types := compound_types T @ xs\<rparr>) t = Some c"
  by (auto simp: get_type_def nth_append split: if_splits)

lemma get_type_cong: "compound_types T = compound_types T' \<Longrightarrow> get_type T t = get_type T' t"
  by (simp add: get_type_def)

lemma wf_new_types: "a \<noteq> 0 \<Longrightarrow> wf_types (new_types a)"
  by (simp add: wf_types_def new_types_def)

lemma new_type_spec:
  assumes wf: "wf_types T" and nt: "new_type c T = (t, T')"
  shows "wf_types T'" "extends_types T T'" "get_type T' t = Some (Some c)"
    "get_type T t = None" "pointer_cache T' = pointer_cache T" "array_cache T' = array_cache T"
    "named_types T' = named_types T" "named_struct T' = named_struct T"
    "type_arena t = arena_id T'" "type_id t < length (compound_types T')"
    "compound_types T' ! type_id t = c"
proof -
  from nt have t: "t = Ty (arena_id T) (next_id T)"
    and T': "T' = T\<lparr>next_id := next_id T + 1, compound_types := compound_types T @ [c]\<rparr>"
    by (auto simp: new_type_def)
  show ext: "extends_types T T'"
    unfolding extends_types_def T' by (auto simp: get_type_def nth_append split: if_splits)
  show "get_type T' t = Some (Some c)" "get_type T t = None"
    using wf by (auto simp: t T' get_type_def wf_types_def nth_append)
  show "wf_types T'"
    using wf ext unfolding wf_types_def extends_types_def
    by (auto simp: T' nth_append less_SucI)
qed (use nt wf in \<open>auto simp: new_type_def wf_types_def nth_append\<close>)

text \<open>The interning contract, once for pointers and once for arrays.\<close>

lemma mk_pointer_spec:
  assumes wf: "wf_types T" and mk: "mk_pointer (t, s) T = (u, T')"
  shows "wf_types T' \<and> extends_types T T' \<and> get_type T' u = Some (Some (Pointer t s)) \<and>
    pointer_cache T' (t, s) = Some u"
proof (cases "pointer_cache T (t, s)")
  case (Some v)
  with mk wf show ?thesis by (auto simp: mk_pointer_def wf_types_def)
next
  case None
  obtain v T1 where nt: "new_type (Pointer t s) T = (v, T1)" by fastforce
  note sp = new_type_spec [OF wf nt]
  from None mk nt have u: "u = v" "T' = T1\<lparr>pointer_cache := (pointer_cache T1)((t, s) \<mapsto> v)\<rparr>"
    by (auto simp: mk_pointer_def)
  have gt: "get_type T' = get_type T1" by (rule ext, rule get_type_cong) (simp add: u)
  with sp(1,2,3) u show ?thesis by (simp add: wf_types_def extends_types_def)
qed

lemma mk_array_spec:
  assumes wf: "wf_types T" and mk: "mk_array (t, n) T = (u, T')"
  shows "wf_types T' \<and> extends_types T T' \<and> get_type T' u = Some (Some (Array t n)) \<and>
    array_cache T' (t, n) = Some u"
proof (cases "array_cache T (t, n)")
  case (Some v)
  with mk wf show ?thesis by (auto simp: mk_array_def wf_types_def)
next
  case None
  obtain v T1 where nt: "new_type (Array t n) T = (v, T1)" by fastforce
  note sp = new_type_spec [OF wf nt]
  from None mk nt have u: "u = v" "T' = T1\<lparr>array_cache := (array_cache T1)((t, n) \<mapsto> v)\<rparr>"
    by (auto simp: mk_array_def)
  have gt: "get_type T' = get_type T1" by (rule ext, rule get_type_cong) (simp add: u)
  with sp(1,2,3) u show ?thesis by (simp add: wf_types_def extends_types_def)
qed

datatype type_op =
    MkPointer ty nat
  | MkArray ty nat
  | MkFunction ty "ty list" bool
  | MkNamed name
  | MkStructNamed string bool
  | MkAnonymous "ty list" bool
  | ChangeToNamed ty name

fun type_step :: "type_op \<Rightarrow> types \<Rightarrow> types option" where
  "type_step (MkPointer t s) T = Some (snd (mk_pointer (t, s) T))"
| "type_step (MkArray t n) T = Some (snd (mk_array (t, n) T))"
| "type_step (MkFunction r ps va) T = Some (snd (mk_function r ps va T))"
| "type_step (MkNamed n) T = Some (snd (empty_named_type n T))"
| "type_step (MkStructNamed n p) T = Some (snd (empty_struct_named n p T))"
| "type_step (MkAnonymous es p) T = Some (snd (anonymous_struct es p T))"
| "type_step (ChangeToNamed t n) T = change_to_named_type t n T"

fun type_run :: "type_op list \<Rightarrow> types \<Rightarrow> types option" where
  "type_run [] T = Some T"
| "type_run (x # xs) T = do { T \<leftarrow> type_step x T; type_run xs T }"

text \<open>What survives every operation: well-formedness, and the caches of the past.\<close>

definition keeps_caches :: "types \<Rightarrow> types \<Rightarrow> bool" where
  "keeps_caches T T' \<longleftrightarrow> wf_types T' \<and> pointer_cache T \<subseteq>\<^sub>m pointer_cache T' \<and> array_cache T \<subseteq>\<^sub>m array_cache T'"

lemma empty_named_type_spec:
  assumes wf: "wf_types T" and mk: "empty_named_type n T = (u, T')"
  shows "keeps_caches T T' \<and> extends_types T T' \<and> type_arena u = arena_id T' \<and>
    type_id u < length (compound_types T') \<and>
    (case compound_types T' ! type_id u of Struct _ _ _ \<Rightarrow> True | Alias _ \<Rightarrow> True | _ \<Rightarrow> False)"
proof (cases "named_types T n")
  case (Some v)
  with mk wf show ?thesis by (auto simp: empty_named_type_def wf_types_def keeps_caches_def)
next
  case None
  obtain v T1 where nt: "new_type (Alias VOID) T = (v, T1)" by fastforce
  note sp = new_type_spec [OF wf nt]
  from None mk nt have u: "u = v" "T' = T1\<lparr>named_types := (named_types T1)(n \<mapsto> v)\<rparr>"
    by (auto simp: empty_named_type_def)
  have gt: "get_type T' = get_type T1" by (rule ext, rule get_type_cong) (simp add: u)
  have "wf_types T'" using sp(1) gt sp(9-11) u unfolding wf_types_def by auto
  with sp u gt show ?thesis by (simp add: keeps_caches_def extends_types_def)
qed

lemma set_compound_wf:
  assumes wf: "wf_types T" and i: "i < length (compound_types T)"
    and old: "case compound_types T ! i of Struct _ _ _ \<Rightarrow> True | Alias _ \<Rightarrow> True | _ \<Rightarrow> False"
    and new: "case c of Struct _ _ _ \<Rightarrow> True | Alias _ \<Rightarrow> True | _ \<Rightarrow> False"
  shows "wf_types (T\<lparr>compound_types := (compound_types T)[i := c]\<rparr>)"
proof -
  have gt: "get_type T u = Some (Some d) \<Longrightarrow> (case d of Pointer _ _ \<Rightarrow> True | Array _ _ \<Rightarrow> True | _ \<Rightarrow> False)
      \<Longrightarrow> get_type (T\<lparr>compound_types := (compound_types T)[i := c]\<rparr>) u = Some (Some d)" for u d
    using old i by (cases "type_id u = i") (auto simp: get_type_def split: if_splits compound.splits)
  have "(case (compound_types T)[i := c] ! type_id u of Struct _ _ _ \<Rightarrow> True | Alias _ \<Rightarrow> True | _ \<Rightarrow> False)"
    if "named_types T n = Some u" for n u
    using that wf new i unfolding wf_types_def by (cases "type_id u = i") auto
  with wf show ?thesis unfolding wf_types_def by (auto intro!: gt)
qed

lemma change_to_named_type_wf:
  assumes wf: "wf_types T" and ch: "change_to_named_type t n T = Some T'"
  shows "keeps_caches T T'"
proof -
  obtain nt T1 where e: "empty_named_type n T = (nt, T1)" by fastforce
  note sp = empty_named_type_spec [OF wf e]
  then have wf1: "wf_types T1" by (simp add: keeps_caches_def)
  from ch e obtain c where c: "get_type T1 t = Some c"
    by (auto simp: change_to_named_type_def elim: bind_SomeE)
  show ?thesis
  proof (cases "\<exists>m es p. c = Some (Struct m es p)")
    case True
    then obtain m es p where st: "c = Some (Struct m es p)" by blast
    with c have t: "type_id t < length (compound_types T1)" "compound_types T1 ! type_id t = Struct m es p"
      by (auto simp: get_type_def split: if_splits)
    let ?T2 = "T1\<lparr>compound_types := (compound_types T1)[type_id t := Struct None [] False]\<rparr>"
    let ?T3 = "case n of Name s \<Rightarrow> ?T2\<lparr>named_struct := (named_struct ?T2)(s \<mapsto> nt)\<rparr> | Number _ \<Rightarrow> ?T2"
    have wf2: "wf_types ?T2" using t by (intro set_compound_wf [OF wf1]) auto
    have gt3: "get_type ?T3 = get_type ?T2" by (rule ext, rule get_type_cong) (simp split: name.split)
    have wf3: "wf_types ?T3" using wf2 gt3 by (auto simp: wf_types_def split: name.splits)
    have ct3: "compound_types ?T3 = (compound_types T1)[type_id t := Struct None [] False]"
      by (simp split: name.split)
    have "wf_types (?T3\<lparr>compound_types := (compound_types ?T3)[type_id nt := Struct (Some n) es p]\<rparr>)"
      using sp ct3 by (intro set_compound_wf [OF wf3])
        (cases "type_id nt = type_id t"; simp add: ct3)+
    moreover from ch e c st have "T' = ?T3\<lparr>compound_types := (compound_types ?T3)[type_id nt := Struct (Some n) es p]\<rparr>"
      by (simp add: change_to_named_type_def Let_def)
    ultimately show ?thesis using sp by (auto simp: keeps_caches_def split: name.splits)
  next
    case False
    with ch e c have T': "T' = T1\<lparr>compound_types := (compound_types T1)[type_id nt := Alias t]\<rparr>"
      by (cases c) (auto simp: change_to_named_type_def split: compound.splits)
    have "wf_types T'" unfolding T' using sp by (intro set_compound_wf [OF wf1]) auto
    with sp T' show ?thesis by (simp add: keeps_caches_def)
  qed
qed

lemma type_step_keeps:
  assumes wf: "wf_types T" and st: "type_step x T = Some T'"
  shows "keeps_caches T T'"
proof (cases x)
  case (MkPointer t s)
  obtain u T1 where "mk_pointer (t, s) T = (u, T1)" by fastforce
  with mk_pointer_spec [OF wf this] MkPointer st show ?thesis
    by (auto simp: keeps_caches_def mk_pointer_def new_type_def map_le_def split: option.splits)
next
  case (MkArray t n)
  obtain u T1 where "mk_array (t, n) T = (u, T1)" by fastforce
  with mk_array_spec [OF wf this] MkArray st show ?thesis
    by (auto simp: keeps_caches_def mk_array_def new_type_def map_le_def split: option.splits)
next
  case (MkFunction r ps va)
  obtain u T1 where nt: "new_type (Function r ps va) T = (u, T1)" by fastforce
  with new_type_spec [OF wf nt] MkFunction st show ?thesis
    by (auto simp: keeps_caches_def mk_function_def)
next
  case (MkNamed n)
  obtain u T1 where "empty_named_type n T = (u, T1)" by fastforce
  with empty_named_type_spec [OF wf this] MkNamed st show ?thesis by simp
next
  case (MkStructNamed n p)
  obtain u T1 where nt: "new_type (Struct (Some (Name n)) [] p) T = (u, T1)" by fastforce
  have "wf_types (T1\<lparr>named_struct := ns\<rparr>)" for ns
    using new_type_spec(1) [OF wf nt] get_type_cong [of "T1\<lparr>named_struct := ns\<rparr>" T1]
    by (simp add: wf_types_def)
  with new_type_spec [OF wf nt] MkStructNamed st nt wf show ?thesis
    by (cases "named_struct T n") (auto simp: keeps_caches_def empty_struct_named_def)
next
  case (MkAnonymous es p)
  obtain u T1 where nt: "new_type (Struct None es p) T = (u, T1)" by fastforce
  with new_type_spec [OF wf nt] MkAnonymous st show ?thesis
    by (auto simp: keeps_caches_def anonymous_struct_def)
next
  case (ChangeToNamed t n)
  with st change_to_named_type_wf [OF wf] show ?thesis by simp
qed

lemma type_run_keeps: "wf_types T \<Longrightarrow> type_run xs T = Some T' \<Longrightarrow> keeps_caches T T'"
proof (induction xs arbitrary: T)
  case (Cons x xs)
  from Cons.prems(2) obtain T1 where T1: "type_step x T = Some T1" "type_run xs T1 = Some T'"
    by (auto elim: bind_SomeE)
  from type_step_keeps [OF Cons.prems(1) T1(1)] Cons.IH [OF _ T1(2)] show ?case
    by (auto simp: keeps_caches_def intro: map_le_trans)
qed (simp add: keeps_caches_def)

text \<open>
  C40: pointer types are interned.  Whatever type operations run between two requests, the
  second request for a pointer type returns the very same type as the first if and only if it
  asks for the same pointee and address space, and the type it returns is that pointer type.
\<close>

theorem pointer_types_interned:
  assumes "wf_types T" "mk_pointer (t, s) T = (u, T1)" "type_run xs T1 = Some T2"
    "mk_pointer (t', s') T2 = (u', T3)"
  shows "(u = u' \<longleftrightarrow> (t, s) = (t', s')) \<and> get_type T3 u' = Some (Some (Pointer t' s')) \<and> wf_types T3"
proof -
  note sp1 = mk_pointer_spec [OF assms(1,2)]
  with type_run_keeps [OF _ assms(3)] have k: "keeps_caches T1 T2" by simp
  then have wf2: "wf_types T2" by (simp add: keeps_caches_def)
  from k sp1 have c2: "pointer_cache T2 (t, s) = Some u" 
    unfolding keeps_caches_def map_le_def by (metis domI)
  note sp3 = mk_pointer_spec [OF wf2 assms(4)]
  from c2 wf2 have "get_type T2 u = Some (Some (Pointer t s))" by (simp add: wf_types_def)
  with sp3 have "get_type T3 u = Some (Some (Pointer t s))" by (simp add: extends_types_def)
  with sp3 c2 assms(4) show ?thesis by (auto simp: mk_pointer_def)
qed

theorem pointer_types_interned_witness:
  "(Ty 7 1 = Ty 7 1 \<longleftrightarrow> (I32, 0::nat) = (I32, 0)) \<and>
   get_type (snd (mk_pointer (I32, 0) (the (type_run [MkAnonymous [I64] False, MkArray I8 3]
      (snd (mk_pointer (I32, 0) (new_types 7))))))) (Ty 7 1) = Some (Some (Pointer I32 0)) \<and>
   wf_types (snd (mk_pointer (I32, 0) (the (type_run [MkAnonymous [I64] False, MkArray I8 3]
      (snd (mk_pointer (I32, 0) (new_types 7)))))))"
  by (rule pointer_types_interned [OF wf_new_types [of 7], where xs = "[MkAnonymous [I64] False, MkArray I8 3]"
        and ?T1.0 = "snd (mk_pointer (I32, 0) (new_types 7))"
        and ?T2.0 = "the (type_run [MkAnonymous [I64] False, MkArray I8 3] (snd (mk_pointer (I32, 0) (new_types 7))))"])
    (simp_all add: mk_pointer_def mk_array_def anonymous_struct_def new_type_def new_types_def)

end
