(* ===== verification/Word_Align.thy ===== *)
theory Word_Align
  imports Prelude "HOL-Library.Word"
begin

section \<open>Rounding a machine word up to an alignment\<close>

unbundle bit_operations_syntax

text \<open>
  \<open>(offset + align - 1) & !(align - 1)\<close> occurs in the stack slots (\<open>u32\<close>) and in the
  data layout of the IR (\<open>usize\<close>); the remainder test \<open>offset % align == 0\<close> panics for
  the alignment 0.  Both are stated once, on words of any length.
\<close>

definition word_align_up :: "'a::len word \<Rightarrow> 'a word \<Rightarrow> 'a word" where
  "word_align_up x a = (x + a - 1) AND NOT (a - 1)"

definition word_aligned :: "'a::len word \<Rightarrow> 'a word \<Rightarrow> bool option" where
  "word_aligned a x = (if a = 0 then None else Some (x mod a = 0))"

definition pow2_align :: "'a::len word \<Rightarrow> bool" where
  "pow2_align a \<longleftrightarrow> (\<exists>k < LENGTH('a). a = 2 ^ k)"

lemma and_not_mask: "w AND NOT (mask k) = push_bit k (drop_bit k (w :: 'a::len word))"
  by (rule bit_word_eqI) (auto simp: bit_simps)

lemma unat_push_drop: "unat (push_bit k (drop_bit k (w :: 'a::len word))) = unat w div 2 ^ k * 2 ^ k"
proof -
  have "unat w div 2 ^ k * 2 ^ k \<le> unat w" by (rule div_times_less_eq_dividend)
  also have "unat w < 2 ^ LENGTH('a)" by simp
  finally show ?thesis
    by (simp add: unsigned_push_bit_eq unsigned_drop_bit_eq take_bit_eq_mod
        push_bit_eq_mult [where 'a = nat] drop_bit_eq_div [where 'a = nat])
qed

lemma unat_pow2: "k < LENGTH('a) \<Longrightarrow> unat (2 ^ k :: 'a::len word) = 2 ^ k"
  using unsigned_of_nat [of "2 ^ k", where 'a = nat and 'b = 'a] by (simp add: take_bit_eq_mod)

lemma unat_align_up:
  assumes "pow2_align (a :: 'a::len word)" "unat x + unat a < 2 ^ LENGTH('a)"
  shows "unat (word_align_up x a) = (unat x + unat a - 1) div unat a * unat a"
proof -
  from assms(1) obtain k where k: "k < LENGTH('a)" "a = 2 ^ k" by (auto simp: pow2_align_def)
  have m: "a - 1 = mask k" by (simp add: k(2) mask_eq_exp_minus_1)
  have pos: "0 < unat a" using k by (simp add: unat_pow2)
  have "unat (x + a - 1) = unat x + unat a - 1"
  proof -
    from assms(2) have "unat (x + a) = unat x + unat a" by (simp add: unat_word_ariths)
    moreover from this pos have "1 \<le> x + a" by (simp add: word_le_nat_alt)
    ultimately show ?thesis by (simp add: unat_sub)
  qed
  with m show ?thesis
    unfolding word_align_up_def by (simp add: and_not_mask unat_push_drop k unat_pow2)
qed

lemma align_up_nat:
  fixes x a :: nat
  assumes "0 < a"
  shows "x \<le> (x + a - 1) div a * a" "(x + a - 1) div a * a < x + a" "a dvd (x + a - 1) div a * a"
proof -
  let ?q = "(x + a - 1) div a"
  have eq: "?q * a + (x + a - 1) mod a = x + a - 1" by simp
  have "(x + a - 1) mod a < a" using assms by simp
  with eq assms show "x \<le> ?q * a" "?q * a < x + a" by linarith+
qed simp

lemma word_aligned_pow2:
  "pow2_align a \<Longrightarrow> word_aligned a x = Some (unat a dvd unat x)"
proof -
  assume "pow2_align a"
  then have "a \<noteq> 0" by (auto simp: pow2_align_def)
  then show ?thesis
    by (simp add: word_aligned_def unat_mod_distrib [symmetric] word_unat_eq_iff dvd_eq_mod_eq_0)
qed

text \<open>What the callers do: round up unless the offset is aligned already.\<close>

definition word_round :: "'a::len word \<Rightarrow> 'a word \<Rightarrow> 'a word option" where
  "word_round a x = do { al \<leftarrow> word_aligned a x; Some (if \<not> al then word_align_up x a else x) }"

lemma word_round_pow2:
  assumes "pow2_align (a :: 'a::len word)" "unat x + unat a < 2 ^ LENGTH('a)"
  obtains y where "word_round a x = Some y" "unat x \<le> unat y" "unat y < unat x + unat a" "unat a dvd unat y"
proof -
  have "a \<noteq> 0" using assms(1) by (auto simp: pow2_align_def)
  then have pos: "0 < unat a" by (simp add: unat_gt_0)
  show ?thesis
  proof (cases "unat a dvd unat x")
    case True
    with that [of x] pos assms show ?thesis by (simp add: word_round_def word_aligned_pow2)
  next
    case False
    with that [of "word_align_up x a"] align_up_nat [OF pos, of "unat x"] assms show ?thesis
      by (simp add: word_round_def word_aligned_pow2 unat_align_up)
  qed
qed

text \<open>Powers of two are ordered by divisibility.\<close>

lemma pow2_align_pos: "pow2_align (a :: 'a::len word) \<Longrightarrow> 0 < unat a"
  by (auto simp: pow2_align_def unat_pow2)

lemma pow2_align_one: "pow2_align (1 :: 'a::len word)"
  unfolding pow2_align_def by (rule exI [of _ 0]) simp

lemma max_pow2: "pow2_align a \<Longrightarrow> pow2_align b \<Longrightarrow> pow2_align (max a (b :: 'a::len word))"
  by (simp add: max_def)

lemma pow2_dvd:
  assumes "pow2_align (a :: 'a::len word)" "pow2_align b" "a \<le> b"
  shows "unat a dvd unat b"
proof -
  from assms(1,2) obtain i j where ij: "i < LENGTH('a)" "j < LENGTH('a)" "a = 2 ^ i" "b = 2 ^ j"
    by (auto simp: pow2_align_def)
  with assms(3) have "(2 :: nat) ^ i \<le> 2 ^ j"
    by (simp add: word_le_nat_alt unat_pow2 del: power_increasing_iff)
  then have "i \<le> j" by simp
  with ij show ?thesis by (simp add: unat_pow2 le_imp_power_dvd)
qed

end
