(* ===== verification/Slots.thy ===== *)
theory Slots
  imports IR_Types Word_Align
begin

section \<open>Stack slots of a machine function\<close>

text \<open>
  Model of \<open>src/codegen/function/slot/mod.rs\<close>.  The sizes, alignments and offsets are
  \<open>u32\<close> words with the wrap-around of a release build.  The offset recorded for a slot is the
  offset of its end: \<open>eliminate_slot\<close> addresses a slot downwards from the frame pointer.
\<close>

type_synonym u32 = "32 word"

record slot =
  slot_size :: u32
  slot_ty :: ty
  slot_num_elements :: u32
  slot_align :: u32
  slot_offset :: u32

record slots =
  arena :: "slot list"
  aligned_size :: u32

definition new_slots :: slots where
  "new_slots = \<lparr>arena = [], aligned_size = 0\<rparr>"

definition add_slot :: "ty \<Rightarrow> u32 \<Rightarrow> u32 \<Rightarrow> slots \<Rightarrow> nat \<times> slots" where
  "add_slot t sz align s =
     (length (arena s),
      s\<lparr>aligned_size := 0,
        arena := arena s @ [\<lparr>slot_size = sz, slot_ty = t, slot_num_elements = 0,
                             slot_align = align, slot_offset = 0\<rparr>]\<rparr>)"

definition get_slot :: "nat \<Rightarrow> slots \<Rightarrow> slot option" where
  "get_slot i s = (if i < length (arena s) then Some (arena s ! i) else None)"

definition unaligned_size :: "slots \<Rightarrow> u32" where
  "unaligned_size s = fold (\<lambda>sl total. total + slot_size sl) (arena s) 0"

text \<open>The loop of \<open>ensure_computed_offsets\<close>: running offset and alignment.\<close>

fun place_slots :: "slot list \<Rightarrow> u32 \<Rightarrow> u32 \<Rightarrow> (slot list \<times> u32 \<times> u32) option" where
  "place_slots [] offset align = Some ([], offset, align)"
| "place_slots (sl # sls) offset align = do {
     offset \<leftarrow> word_round (slot_align sl) offset;
     let align = max align (slot_align sl);
     let offset = offset + slot_size sl;
     (sls, offset', align') \<leftarrow> place_slots sls offset align;
     Some (sl\<lparr>slot_offset := offset\<rparr> # sls, offset', align') }"

text \<open>
  \<open>aligned_size\<close> is never set to the computed value, so it stays 0 and the offsets are
  computed again by every call.
\<close>

definition ensure_computed_offsets :: "slots \<Rightarrow> (u32 \<times> slots) option" where
  "ensure_computed_offsets s =
     (if aligned_size s \<noteq> 0 then Some (aligned_size s, s)
      else do {
        (sls, offset, align) \<leftarrow> place_slots (arena s) 0 1;
        offset \<leftarrow> word_round align offset;
        Some (offset, s\<lparr>arena := sls\<rparr>) })"

subsection \<open>The slots do not overlap\<close>

definition slot_start :: "slot \<Rightarrow> nat" where
  "slot_start sl = unat (slot_offset sl) - unat (slot_size sl)"

definition slot_end :: "slot \<Rightarrow> nat" where
  "slot_end sl = unat (slot_offset sl)"

fun frame_bytes :: "slot list \<Rightarrow> nat" where
  "frame_bytes [] = 0"
| "frame_bytes (sl # sls) = unat (slot_size sl) + unat (slot_align sl) + frame_bytes sls"

definition slot_ok :: "slot \<Rightarrow> bool" where
  "slot_ok sl \<longleftrightarrow> pow2_align (slot_align sl)"

fun laid_out :: "nat \<Rightarrow> slot list \<Rightarrow> bool" where
  "laid_out lo [] = True"
| "laid_out lo (sl # sls) =
     (lo \<le> slot_start sl \<and> slot_end sl = slot_start sl + unat (slot_size sl) \<and>
      unat (slot_align sl) dvd slot_start sl \<and> laid_out (slot_end sl) sls)"

text \<open>What \<open>ensure_computed_offsets\<close> leaves untouched: everything but the offsets.\<close>

definition same_shape :: "slot \<Rightarrow> slot \<Rightarrow> bool" where
  "same_shape a b \<longleftrightarrow> a\<lparr>slot_offset := 0\<rparr> = b\<lparr>slot_offset := 0\<rparr>"

lemma place_slots_spec:
  assumes "list_all slot_ok sls" "pow2_align align" "unat offset + frame_bytes sls < 2 ^ 32"
  shows "\<exists>sls' offset' align'. place_slots sls offset align = Some (sls', offset', align') \<and>
    list_all2 same_shape sls sls' \<and> laid_out (unat offset) sls' \<and>
    (\<forall>sl \<in> set sls'. slot_end sl \<le> unat offset') \<and> unat offset \<le> unat offset' \<and>
    unat offset' \<le> unat offset + frame_bytes sls \<and> pow2_align align' \<and>
    align \<le> align' \<and> (\<forall>sl \<in> set sls. slot_align sl \<le> align') \<and>
    (align' = align \<or> align' \<in> slot_align ` set sls)"
  using assms
proof (induction sls arbitrary: offset align)
  case Nil
  then show ?case by simp
next
  case (Cons sl sls)
  from Cons.prems have pa: "pow2_align (slot_align sl)" and fit: "unat offset + unat (slot_align sl) < 2 ^ LENGTH(32)"
    by (auto simp: slot_ok_def)
  obtain o1 where o1: "word_round (slot_align sl) offset = Some o1" "unat offset \<le> unat o1"
    "unat o1 < unat offset + unat (slot_align sl)" "unat (slot_align sl) dvd unat o1"
    using word_round_pow2 [OF pa fit] by blast
  have add: "unat (o1 + slot_size sl) = unat o1 + unat (slot_size sl)"
    using o1(3) Cons.prems(3) by (subst unat_word_ariths) simp
  have "unat (o1 + slot_size sl) + frame_bytes sls < 2 ^ 32"
    using add o1(3) Cons.prems(3) by simp
  from Cons.IH [OF _ max_pow2 [OF Cons.prems(2) pa] this] Cons.prems(1)
  obtain sls' o' a' where IH:
    "place_slots sls (o1 + slot_size sl) (max align (slot_align sl)) = Some (sls', o', a')"
    "list_all2 same_shape sls sls'" "laid_out (unat (o1 + slot_size sl)) sls'"
    "\<forall>sl \<in> set sls'. slot_end sl \<le> unat o'" "unat (o1 + slot_size sl) \<le> unat o'"
    "unat o' \<le> unat (o1 + slot_size sl) + frame_bytes sls" "pow2_align a'"
    "max align (slot_align sl) \<le> a'" "\<forall>sl \<in> set sls. slot_align sl \<le> a'"
    "a' = max align (slot_align sl) \<or> a' \<in> slot_align ` set sls" by auto
  let ?sl = "sl\<lparr>slot_offset := o1 + slot_size sl\<rparr>"
  have "same_shape sl ?sl" by (simp add: same_shape_def)
  moreover have "slot_start ?sl = unat o1" "slot_end ?sl = unat o1 + unat (slot_size sl)"
    by (simp_all add: slot_start_def slot_end_def add)
  ultimately show ?case using IH o1 add
    by (auto simp: max_def split: if_splits)
qed

text \<open>
  C7: with power-of-two alignments and a frame smaller than \<open>2^32\<close> bytes,
  \<open>ensure_computed_offsets\<close> does not panic, changes nothing but the offsets, places each
  slot at a multiple of its alignment behind the previous one without overlap, and returns a
  total size that covers every slot and is a multiple of every slot's alignment.
\<close>

theorem ensure_computed_offsets_layout:
  assumes "aligned_size s = 0" "list_all slot_ok (arena s)"
    "frame_bytes (arena s) + Max (insert 1 (set (map (\<lambda>sl. unat (slot_align sl)) (arena s)))) < 2 ^ 32"
  shows "\<exists>total s'. ensure_computed_offsets s = Some (total, s') \<and>
    list_all2 same_shape (arena s) (arena s') \<and> laid_out 0 (arena s') \<and>
    (\<forall>sl \<in> set (arena s'). slot_end sl \<le> unat total) \<and>
    (\<forall>sl \<in> set (arena s). unat (slot_align sl) dvd unat total) \<and>
    aligned_size s' = 0"
proof -
  let ?M = "Max (insert 1 (set (map (\<lambda>sl. unat (slot_align sl)) (arena s))))"
  have one: "pow2_align (1 :: u32)" unfolding pow2_align_def by (rule exI [of _ 0]) simp
  have "unat (0 :: u32) + frame_bytes (arena s) < 2 ^ 32" using assms(3) by simp
  from place_slots_spec [OF assms(2) one this] obtain sls o' a' where ps:
    "place_slots (arena s) 0 1 = Some (sls, o', a')" "list_all2 same_shape (arena s) sls"
    "laid_out 0 sls" "\<forall>sl \<in> set sls. slot_end sl \<le> unat o'"
    "unat o' \<le> frame_bytes (arena s)" "pow2_align a'"
    "\<forall>sl \<in> set (arena s). slot_align sl \<le> a'" "a' = 1 \<or> a' \<in> slot_align ` set (arena s)"
    by auto
  have "unat a' \<le> ?M" using ps(8) by (intro Max_ge) auto
  with ps(5) assms(3) have "unat o' + unat a' < 2 ^ LENGTH(32)" by simp
  from word_round_pow2 [OF ps(6) this] obtain y where
    y: "word_round a' o' = Some y" "unat o' \<le> unat y" "unat a' dvd unat y" by blast
  have "unat (slot_align sl) dvd unat y" if "sl \<in> set (arena s)" for sl
  proof -
    from that assms(2) have "pow2_align (slot_align sl)" by (auto simp: slot_ok_def list_all_iff)
    with pow2_dvd [OF this ps(6)] ps(7) that y(3) show ?thesis by (auto intro: dvd_trans)
  qed
  with y ps assms(1) show ?thesis
    by (intro exI [of _ y] exI [of _ "s\<lparr>arena := sls\<rparr>"])
      (fastforce simp: ensure_computed_offsets_def)
qed

definition demo_slots :: slots where
  "demo_slots = snd (add_slot I32 4 4 (snd (add_slot I8 1 1 new_slots)))"

theorem ensure_computed_offsets_layout_witness:
  "\<exists>total s'. ensure_computed_offsets demo_slots = Some (total, s') \<and>
    list_all2 same_shape (arena demo_slots) (arena s') \<and> laid_out 0 (arena s') \<and>
    (\<forall>sl \<in> set (arena s'). slot_end sl \<le> unat total) \<and>
    (\<forall>sl \<in> set (arena demo_slots). unat (slot_align sl) dvd unat total) \<and>
    aligned_size s' = 0"
proof (rule ensure_computed_offsets_layout)
  show "list_all slot_ok (arena demo_slots)"
    by (auto simp: demo_slots_def add_slot_def new_slots_def slot_ok_def pow2_align_def
        intro: exI [of _ 0] exI [of _ 2])
qed (simp_all add: demo_slots_def add_slot_def new_slots_def)

end
