(* ===== verification/Registers.thy ===== *)
theory Registers
  imports IR_Types
begin

section \<open>Registers, virtual registers and their users\<close>

text \<open>
  Model of \<open>src/codegen/register/mod.rs\<close> and of the register file of the Ola target in
  \<open>src/codegen/isa/ola/register/mod.rs\<close>.  A register is a pair of its class number (0 for
  the only class \<open>GR\<close>) and its number.
\<close>

datatype reg = Reg nat nat

datatype reg_unit = RegUnit nat nat

datatype vreg = VReg nat

text \<open>\<open>VReg\<close> derives the order of its number.\<close>

instantiation vreg :: linorder
begin

fun less_eq_vreg :: "vreg \<Rightarrow> vreg \<Rightarrow> bool" where
  "less_eq_vreg (VReg a) (VReg b) \<longleftrightarrow> a \<le> b"

fun less_vreg :: "vreg \<Rightarrow> vreg \<Rightarrow> bool" where
  "less_vreg (VReg a) (VReg b) \<longleftrightarrow> a < b"

instance
proof
  fix x y z :: vreg
  show "(x < y) = (x \<le> y \<and> \<not> y \<le> x)" by (cases x; cases y) auto
  show "x \<le> x" by (cases x) simp
  show "x \<le> y \<Longrightarrow> y \<le> z \<Longrightarrow> x \<le> z" by (cases x; cases y; cases z) simp
  show "x \<le> y \<Longrightarrow> y \<le> x \<Longrightarrow> x = y" by (cases x; cases y) simp
  show "x \<le> y \<or> y \<le> x" by (cases x; cases y) auto
qed

end

datatype GR = R0 | R1 | R2 | R3 | R4 | R5 | R6 | R7 | R8 | R9

datatype reg_class = RC_GR

datatype call_conv = SystemV | AAPCS64

fun gr_no :: "GR \<Rightarrow> nat" where
  "gr_no R0 = 0" | "gr_no R1 = 1" | "gr_no R2 = 2" | "gr_no R3 = 3" | "gr_no R4 = 4"
| "gr_no R5 = 5" | "gr_no R6 = 6" | "gr_no R7 = 7" | "gr_no R8 = 8" | "gr_no R9 = 9"

definition gr_reg :: "GR \<Rightarrow> reg" where
  "gr_reg r = Reg 0 (gr_no r)"

definition gr_unit :: "GR \<Rightarrow> reg_unit" where
  "gr_unit r = RegUnit 0 (gr_no r)"

definition ARG_REGS :: "reg_unit list" where
  "ARG_REGS = map gr_unit [R1, R2, R3]"

definition STR_ARG_REGS :: "reg_unit list" where
  "STR_ARG_REGS = map gr_unit [R1, R2, R3, R4, R5, R6]"

definition CSR :: "reg_unit list" where
  "CSR = map gr_unit [R4, R5, R6, R7, R8]"

fun arg_reg_list :: "call_conv \<Rightarrow> reg_unit list" where
  "arg_reg_list SystemV = ARG_REGS"
| "arg_reg_list AAPCS64 = []"

fun str_arg_reg_list :: "call_conv \<Rightarrow> reg_unit list" where
  "str_arg_reg_list SystemV = STR_ARG_REGS"
| "str_arg_reg_list AAPCS64 = []"

text \<open>Any class but \<open>GR\<close> panics.\<close>

fun to_reg_unit :: "reg \<Rightarrow> reg_unit option" where
  "to_reg_unit (Reg c x) = (if c = 0 then Some (RegUnit 0 x) else None)"

definition is_csr :: "reg_unit \<Rightarrow> bool" where
  "is_csr r \<longleftrightarrow> r \<in> set CSR"

definition for_type :: "types \<Rightarrow> ty \<Rightarrow> reg_class option" where
  "for_type T t =
     (if t \<in> {VOID, I1, I8, I16, I32, I64} then Some RC_GR
      else do {
        p \<leftarrow> is_pointer_ty T t;
        if p then Some RC_GR
        else do { a \<leftarrow> is_array_ty T t; if a then Some RC_GR else None } })"

fun gpr_list :: "reg_class \<Rightarrow> reg list" where
  "gpr_list RC_GR = map gr_reg [R1, R2, R3, R4]"

fun csr_list :: "reg_class \<Rightarrow> reg list" where
  "csr_list RC_GR = map gr_reg [R5, R6, R7, R8]"

fun apply_for :: "reg_class \<Rightarrow> reg_unit \<Rightarrow> reg" where
  "apply_for RC_GR (RegUnit c x) = Reg 0 x"

fun reg_to_str :: "reg \<Rightarrow> string option" where
  "reg_to_str (Reg c i) =
     (let gr = [''r0'', ''r1'', ''r2'', ''r3'', ''r4'', ''r5'', ''r6'', ''r7'', ''r8'', ''r9'']
      in if c = 0 \<and> i < length gr then Some (gr ! i) else None)"

subsection \<open>Virtual registers\<close>

record vreg_data =
  vd_vreg :: vreg
  vd_ty :: ty

record vregs =
  vr_map :: "vreg \<rightharpoonup> vreg_data"
  vr_cur :: nat

definition new_vregs :: vregs where
  "new_vregs = \<lparr>vr_map = Map.empty, vr_cur = 0\<rparr>"

definition add_vreg_data :: "ty \<Rightarrow> vregs \<Rightarrow> vreg \<times> vregs" where
  "add_vreg_data t vs =
     (let key = VReg (vr_cur vs)
      in (key, vs\<lparr>vr_map := (vr_map vs)(key \<mapsto> \<lparr>vd_vreg = key, vd_ty = t\<rparr>), vr_cur := vr_cur vs + 1\<rparr>))"

definition type_for :: "vreg \<Rightarrow> vregs \<Rightarrow> ty option" where
  "type_for v vs = map_option vd_ty (vr_map vs v)"

definition create_from :: "vreg \<Rightarrow> vregs \<Rightarrow> (vreg \<times> vregs) option" where
  "create_from v vs = do { t \<leftarrow> type_for v vs; Some (add_vreg_data t vs) }"

definition change_ty :: "vreg \<Rightarrow> ty \<Rightarrow> vregs \<Rightarrow> vregs option" where
  "change_ty v t vs = map_option (\<lambda>m. vs\<lparr>vr_map := m\<rparr>) (modify (vr_map vs) v (\<lambda>d. d\<lparr>vd_ty := t\<rparr>))"

definition wf_vregs :: "vregs \<Rightarrow> bool" where
  "wf_vregs vs \<longleftrightarrow> (\<forall>v d. vr_map vs v = Some d \<longrightarrow> vd_vreg d = v \<and> (\<exists>n < vr_cur vs. v = VReg n))"

lemma wf_new_vregs: "wf_vregs new_vregs"
  by (simp add: wf_vregs_def new_vregs_def)

lemma add_vreg_data_fresh:
  assumes "wf_vregs vs" "add_vreg_data t vs = (v, vs')"
  shows "vr_map vs v = None" "wf_vregs vs'" "type_for v vs' = Some t"
    "\<And>w. w \<noteq> v \<Longrightarrow> type_for w vs' = type_for w vs"
proof -
  show "vr_map vs v = None"
  proof (rule ccontr)
    assume "vr_map vs v \<noteq> None"
    with assms show False by (fastforce simp: wf_vregs_def add_vreg_data_def Let_def)
  qed
  show "wf_vregs vs'"
    unfolding wf_vregs_def
  proof (intro allI impI)
    fix w d assume w: "vr_map vs' w = Some d"
    show "vd_vreg d = w \<and> (\<exists>n < vr_cur vs'. w = VReg n)"
    proof (cases "w = VReg (vr_cur vs)")
      case False
      with w assms have "vr_map vs w = Some d" by (auto simp: add_vreg_data_def Let_def)
      with assms(1) have "vd_vreg d = w \<and> (\<exists>n < vr_cur vs. w = VReg n)" by (simp add: wf_vregs_def)
      with assms(2) show ?thesis by (auto simp: add_vreg_data_def Let_def)
    qed (use w assms in \<open>auto simp: add_vreg_data_def Let_def\<close>)
  qed
qed (use assms in \<open>auto simp: add_vreg_data_def type_for_def Let_def\<close>)

subsection \<open>Users of a virtual register\<close>

record vreg_user =
  u_inst :: nat
  u_read :: bool
  u_write :: bool

type_synonym vreg_users = "vreg \<rightharpoonup> vreg_user list"

definition add_use :: "vreg \<Rightarrow> nat \<Rightarrow> bool \<Rightarrow> bool \<Rightarrow> vreg_users \<Rightarrow> vreg_users" where
  "add_use v i rd wr us =
     us(v \<mapsto> (case us v of None \<Rightarrow> [] | Some xs \<Rightarrow> xs) @ [\<lparr>u_inst = i, u_read = rd, u_write = wr\<rparr>])"

definition get_users :: "vreg \<Rightarrow> vreg_users \<Rightarrow> vreg_user list option" where
  "get_users v us = us v"

text \<open>\<open>remove_use\<close> drops the first entry of the instruction and returns it, if there is one.\<close>

definition remove_use :: "vreg \<Rightarrow> nat \<Rightarrow> vreg_users \<Rightarrow> (vreg_user option \<times> vreg_users) option" where
  "remove_use v i us = do {
     xs \<leftarrow> us v;
     (case dropWhile (\<lambda>u. u_inst u \<noteq> i) xs of
        [] \<Rightarrow> Some (None, us)
      | u # ys \<Rightarrow> Some (Some u, us(v \<mapsto> takeWhile (\<lambda>u. u_inst u \<noteq> i) xs @ ys))) }"

end
