(* ===== verification/Mach_Inst.thy ===== *)
theory Mach_Inst
  imports Registers "HOL-Library.Word"
begin

section \<open>Machine instructions of the Ola target\<close>

text \<open>
  Model of \<open>src/codegen/isa/ola/instruction/mod.rs\<close>: opcodes, operands with their
  input/output/implicit flags, and the register queries and rewrites of the trait
  \<open>TargetInst\<close>.
\<close>

datatype opcode =
    ADDri | ADDrr | MULri | MULrr
  | ANDri | ANDrr | ORri | ORrr | XORri | XORrr
  | EQri | EQrr | ASSERTri | ASSERTrr
  | MOVri | MOVrr | MOV
  | JMPi | JMPr | CJMPi | CJMPr | CALL | SCCALL | RET | END
  | SLOAD | SSTORE | POSEIDON
  | MLOADi | MLOADr | MSTOREi | MSTOREr
  | RANGECHECK | SIGCHECK | NOT_ | NEQ | GTE
  | PROPHET | Phi
  | TLOADri | TLOADrr | TSTOREi | TSTOREr

datatype operand_data =
    OReg reg
  | OVReg vreg
  | OInt8 "8 word"
  | OInt32 "32 word"
  | OInt64 "64 word"
  | OMemStart
  | OSlot nat
  | OBlock nat
  | OLabel string
  | OGlobalAddress string
  | ONone

record operand =
  op_data :: operand_data
  op_input :: bool
  op_output :: bool
  op_implicit :: bool

record inst_data =
  opcode :: opcode
  operands :: "operand list"

definition op_new :: "operand_data \<Rightarrow> operand" where
  "op_new d = \<lparr>op_data = d, op_input = False, op_output = False, op_implicit = False\<rparr>"

definition op_in :: "operand_data \<Rightarrow> operand" where
  "op_in d = \<lparr>op_data = d, op_input = True, op_output = False, op_implicit = False\<rparr>"

definition op_out :: "operand_data \<Rightarrow> operand" where
  "op_out d = \<lparr>op_data = d, op_input = False, op_output = True, op_implicit = False\<rparr>"

definition op_implicit_out :: "operand_data \<Rightarrow> operand" where
  "op_implicit_out d = \<lparr>op_data = d, op_input = False, op_output = True, op_implicit = True\<rparr>"

definition op_in_out :: "operand_data \<Rightarrow> operand" where
  "op_in_out d = \<lparr>op_data = d, op_input = True, op_output = True, op_implicit = False\<rparr>"

lemmas op_defs = op_new_def op_in_def op_out_def op_implicit_out_def op_in_out_def

fun as_reg :: "operand_data \<Rightarrow> reg option" where
  "as_reg (OReg r) = Some r"
| "as_reg _ = None"

fun as_vreg :: "operand_data \<Rightarrow> vreg option" where
  "as_vreg (OVReg r) = Some r"
| "as_vreg _ = None"

fun as_block :: "operand_data \<Rightarrow> nat option" where
  "as_block (OBlock b) = Some b"
| "as_block _ = None"

fun sext_as_i64 :: "operand_data \<Rightarrow> 64 word option" where
  "sext_as_i64 (OInt64 i) = Some i"
| "sext_as_i64 (OInt32 i) = Some (signed i)"
| "sext_as_i64 (OInt8 i) = Some (signed i)"
| "sext_as_i64 _ = None"

subsection \<open>Register queries\<close>

definition input_vregs :: "inst_data \<Rightarrow> vreg list" where
  "input_vregs i = List.map_filter (\<lambda>x. if op_input x then as_vreg (op_data x) else None) (operands i)"

definition input_vregs_with_indexes :: "inst_data \<Rightarrow> (nat \<times> vreg) list" where
  "input_vregs_with_indexes i =
     List.map_filter (\<lambda>(k, x). if op_input x then map_option (Pair k) (as_vreg (op_data x)) else None)
       (enumerate 0 (operands i))"

definition output_vregs :: "inst_data \<Rightarrow> vreg list" where
  "output_vregs i = List.map_filter (\<lambda>x. if op_output x then as_vreg (op_data x) else None) (operands i)"

definition all_vregs :: "inst_data \<Rightarrow> vreg list" where
  "all_vregs i = List.map_filter (\<lambda>x. as_vreg (op_data x)) (operands i)"

definition input_regs :: "inst_data \<Rightarrow> reg list" where
  "input_regs i = List.map_filter (\<lambda>x. if op_input x then as_reg (op_data x) else None) (operands i)"

definition output_regs :: "inst_data \<Rightarrow> reg list" where
  "output_regs i = List.map_filter (\<lambda>x. if op_output x then as_reg (op_data x) else None) (operands i)"

definition all_regs :: "inst_data \<Rightarrow> reg list" where
  "all_regs i = List.map_filter (\<lambda>x. as_reg (op_data x)) (operands i)"

definition block_at :: "inst_data \<Rightarrow> nat \<Rightarrow> nat option" where
  "block_at i k = (if k < length (operands i) then as_block (op_data (operands i ! k)) else None)"

definition is_copy :: "inst_data \<Rightarrow> bool" where
  "is_copy i \<longleftrightarrow> opcode i = MOVri \<or> opcode i = MOVrr"

definition is_call :: "inst_data \<Rightarrow> bool" where
  "is_call i \<longleftrightarrow> opcode i = CALL"

definition is_phi :: "inst_data \<Rightarrow> bool" where
  "is_phi i \<longleftrightarrow> opcode i = Phi"

subsection \<open>Rewrites\<close>

definition rewrite_vreg :: "vreg \<Rightarrow> reg \<Rightarrow> inst_data \<Rightarrow> inst_data" where
  "rewrite_vreg v r i = i\<lparr>operands :=
     map (\<lambda>x. if op_data x = OVReg v then x\<lparr>op_data := OReg r\<rparr> else x) (operands i)\<rparr>"

text \<open>
  \<open>replace_vreg\<close> moves the use record of the instruction from the old virtual register to the
  new one and renames the operands; it panics when the record is missing.
\<close>

definition replace_vreg :: "nat \<Rightarrow> vreg \<Rightarrow> vreg \<Rightarrow> inst_data \<times> vreg_users \<Rightarrow> (inst_data \<times> vreg_users) option" where
  "replace_vreg self_id from to = (\<lambda>(i, us). do {
     (u, us) \<leftarrow> remove_use from self_id us;
     u \<leftarrow> u;
     let us = add_use to self_id (u_read u) (u_write u) us;
     Some (i\<lparr>operands :=
       map (\<lambda>x. if op_data x = OVReg from then x\<lparr>op_data := OVReg to\<rparr> else x) (operands i)\<rparr>, us) })"

lemma map_filter_set: "set (List.map_filter g xs) = {y. \<exists>x \<in> set xs. g x = Some y}"
  by (force simp: List.map_filter_def)

lemma in_input_vregs: "v \<in> set (input_vregs i) \<longleftrightarrow> (\<exists>x \<in> set (operands i). op_input x \<and> op_data x = OVReg v)"
proof -
  have "as_vreg d = Some v \<longleftrightarrow> d = OVReg v" for d by (cases d) auto
  then show ?thesis by (auto simp: input_vregs_def map_filter_set split: if_splits)
qed

lemma in_output_vregs: "v \<in> set (output_vregs i) \<longleftrightarrow> (\<exists>x \<in> set (operands i). op_output x \<and> op_data x = OVReg v)"
proof -
  have "as_vreg d = Some v \<longleftrightarrow> d = OVReg v" for d by (cases d) auto
  then show ?thesis by (auto simp: output_vregs_def map_filter_set split: if_splits)
qed

lemma in_all_vregs: "v \<in> set (all_vregs i) \<longleftrightarrow> (\<exists>x \<in> set (operands i). op_data x = OVReg v)"
proof -
  have "as_vreg d = Some v \<longleftrightarrow> d = OVReg v" for d by (cases d) auto
  then show ?thesis by (auto simp: all_vregs_def map_filter_set)
qed

text \<open>Rewriting a virtual register removes it and leaves the others alone.\<close>

lemma all_vregs_rewrite: "set (all_vregs (rewrite_vreg v r i)) = set (all_vregs i) - {v}"
proof (rule set_eqI)
  fix w
  let ?h = "\<lambda>x. if op_data x = OVReg v then x\<lparr>op_data := OReg r\<rparr> else x"
  have h: "op_data (?h x) = OVReg w \<longleftrightarrow> op_data x = OVReg w \<and> w \<noteq> v" for x :: operand
    by auto
  have ops: "operands (rewrite_vreg v r i) = map ?h (operands i)"
    by (simp add: rewrite_vreg_def)
  have "w \<in> set (all_vregs (rewrite_vreg v r i)) \<longleftrightarrow> (\<exists>x \<in> set (operands i). op_data (?h x) = OVReg w)"
    unfolding in_all_vregs ops set_map by blast
  also have "\<dots> \<longleftrightarrow> (\<exists>x \<in> set (operands i). op_data x = OVReg w) \<and> w \<noteq> v"
    unfolding h by blast
  finally show "w \<in> set (all_vregs (rewrite_vreg v r i)) \<longleftrightarrow> w \<in> set (all_vregs i) - {v}"
    by (simp add: in_all_vregs)
qed

lemma in_input_vregs_with_indexes:
  "(k, v) \<in> set (input_vregs_with_indexes i) \<longleftrightarrow>
     k < length (operands i) \<and> op_input (operands i ! k) \<and> op_data (operands i ! k) = OVReg v"
proof -
  have av: "as_vreg d = Some v \<longleftrightarrow> d = OVReg v" for d by (cases d) auto
  have "(k, v) \<in> set (input_vregs_with_indexes i) \<longleftrightarrow>
      (\<exists>x. (k, x) \<in> set (enumerate 0 (operands i)) \<and> op_input x \<and> op_data x = OVReg v)"
    unfolding input_vregs_with_indexes_def map_filter_set mem_Collect_eq by (auto simp: av split: if_splits intro!: bexI [of _ "(k, _)"])
  then show ?thesis by (auto simp: in_set_enumerate_eq)
qed

lemma input_vregs_indexes: "v \<in> set (input_vregs i) \<longleftrightarrow> (\<exists>k. (k, v) \<in> set (input_vregs_with_indexes i))"
  unfolding in_input_vregs in_input_vregs_with_indexes by (metis in_set_conv_nth)

end
