(* ===== verification/Mach_Func.thy ===== *)
theory Mach_Func
  imports Layout Slots Mach_Inst
begin

section \<open>Machine functions\<close>

text \<open>
  Model of \<open>src/codegen/function/data/mod.rs\<close>, \<open>function/basic_block/mod.rs\<close>,
  \<open>function/instruction/mod.rs\<close> and the record of \<open>function/mod.rs\<close>: the arenas of
  instructions and blocks, the virtual registers with their use lists, and the operations that
  create blocks and instructions.  The \<open>preds\<close> and \<open>succs\<close> of a block are hash
  sets in the code; here they are the list of their elements in iteration order.
  The main result is that the use lists always record exactly the instructions that mention a
  virtual register, with the direction of the access.
\<close>

record basic_block =
  preds :: "nat list"
  succs :: "nat list"

record instruction =
  in_id :: "nat option"
  in_data :: inst_data
  in_parent :: nat

record mdata =
  instructions :: "instruction list"
  basic_blocks :: "basic_block list"
  d_vregs :: vregs
  vreg_users :: vreg_users
  used_csr :: "reg_unit set"

record mfunc =
  f_data :: mdata
  f_layout :: layout
  f_slots :: slots
  f_types :: types
  is_declaration :: bool

definition new_instruction :: "inst_data \<Rightarrow> nat \<Rightarrow> instruction" where
  "new_instruction d b = \<lparr>in_id = None, in_data = d, in_parent = b\<rparr>"

definition new_data :: mdata where
  "new_data = \<lparr>instructions = [], basic_blocks = [], d_vregs = new_vregs,
     vreg_users = Map.empty, used_csr = {}\<rparr>"

definition create_block :: "mdata \<Rightarrow> nat \<times> mdata" where
  "create_block d = (length (basic_blocks d),
     d\<lparr>basic_blocks := basic_blocks d @ [\<lparr>preds = [], succs = []\<rparr>]\<rparr>)"

text \<open>
  \<open>create_inst\<close> collects a \<open>ReadWrite\<close> flag pair for every virtual register of the
  operands and records one use per register.
\<close>

definition read_write :: "inst_data \<Rightarrow> vreg \<Rightarrow> bool \<times> bool" where
  "read_write i v = (v \<in> set (input_vregs i), v \<in> set (output_vregs i))"

definition add_uses :: "inst_data \<Rightarrow> nat \<Rightarrow> vreg_users \<Rightarrow> vreg_users" where
  "add_uses i k us =
     fold (\<lambda>v. add_use v k (fst (read_write i v)) (snd (read_write i v)))
       (remdups (input_vregs i @ output_vregs i)) us"

definition create_inst :: "instruction \<Rightarrow> mdata \<Rightarrow> nat \<times> mdata" where
  "create_inst i d =
     (let k = length (instructions d) in
      (k, d\<lparr>instructions := instructions d @ [i\<lparr>in_id := Some k\<rparr>],
            vreg_users := add_uses (in_data i) k (vreg_users d)\<rparr>))"

definition inst_ref :: "mdata \<Rightarrow> nat \<Rightarrow> instruction option" where
  "inst_ref d k = (if k < length (instructions d) then Some (instructions d ! k) else None)"

definition block_ref :: "mdata \<Rightarrow> nat \<Rightarrow> basic_block option" where
  "block_ref d b = (if b < length (basic_blocks d) then Some (basic_blocks d ! b) else None)"

text \<open>
  \<open>Instruction::replace_vreg\<close> on the instruction stored under an identifier, as the spiller
  calls it.  An instruction without its own identifier is left alone.
\<close>

definition inst_replace_vreg :: "nat \<Rightarrow> vreg \<Rightarrow> vreg \<Rightarrow> mdata \<Rightarrow> mdata option" where
  "inst_replace_vreg k from to d = do {
     i \<leftarrow> inst_ref d k;
     (case in_id i of
        None \<Rightarrow> Some d
      | Some self_id \<Rightarrow> do {
          (dt, us) \<leftarrow> replace_vreg self_id from to (in_data i, vreg_users d);
          Some (d\<lparr>instructions := (instructions d)[k := i\<lparr>in_data := dt\<rparr>], vreg_users := us\<rparr>) }) }"

definition func_remove_inst :: "nat \<Rightarrow> mfunc \<Rightarrow> (mfunc \<times> unit option) option" where
  "func_remove_inst i f = do {
     (l, r) \<leftarrow> remove_inst i (f_layout f);
     Some (f\<lparr>f_layout := l\<rparr>, r) }"

text \<open>
  What the passes see when they iterate over the layout (\<open>block_iter\<close>, then
  \<open>inst_iter\<close> of each block, then \<open>inst_ref\<close>): the blocks in order, each with its
  instructions and their data.
\<close>

definition block_code :: "mfunc \<Rightarrow> nat \<Rightarrow> (nat \<times> inst_data) list option" where
  "block_code f b = do {
     is \<leftarrow> inst_iter b (f_layout f);
     those (map (\<lambda>i. map_option (\<lambda>x. (i, in_data x)) (inst_ref (f_data f) i)) is) }"

definition func_code :: "mfunc \<Rightarrow> (nat \<times> (nat \<times> inst_data) list) list option" where
  "func_code f = do {
     bs \<leftarrow> block_iter (f_layout f);
     those (map (\<lambda>b. map_option (Pair b) (block_code f b)) bs) }"

definition code_insts :: "(nat \<times> (nat \<times> inst_data) list) list \<Rightarrow> (nat \<times> inst_data) list" where
  "code_insts code = concat (map snd code)"

subsection \<open>The use lists\<close>

lemma add_use_apply:
  "add_use v k r w us x =
     (if x = v then Some ((case us v of None \<Rightarrow> [] | Some xs \<Rightarrow> xs) @ [\<lparr>u_inst = k, u_read = r, u_write = w\<rparr>])
      else us x)"
  by (simp add: add_use_def)

lemma fold_add_use:
  assumes "distinct vs"
  shows "fold (\<lambda>v. add_use v k (rd v) (wr v)) vs us x =
     (if x \<in> set vs
      then Some ((case us x of None \<Rightarrow> [] | Some xs \<Rightarrow> xs) @ [\<lparr>u_inst = k, u_read = rd x, u_write = wr x\<rparr>])
      else us x)"
  using assms
  by (induction vs arbitrary: us) (auto simp: add_use_apply)

definition use_list :: "vreg_users \<Rightarrow> vreg \<Rightarrow> vreg_user list" where
  "use_list us v = (case us v of None \<Rightarrow> [] | Some xs \<Rightarrow> xs)"

lemma use_list_add_uses:
  "use_list (add_uses i k us) v = use_list us v @
     (if v \<in> set (input_vregs i) \<or> v \<in> set (output_vregs i)
      then [\<lparr>u_inst = k, u_read = v \<in> set (input_vregs i), u_write = v \<in> set (output_vregs i)\<rparr>] else [])"
  unfolding add_uses_def use_list_def
  by (subst fold_add_use) (auto simp: read_write_def split: option.splits)

text \<open>The instructions of an arena that access a register, in the order of their identifiers.\<close>

definition accesses :: "instruction list \<Rightarrow> vreg \<Rightarrow> vreg_user list" where
  "accesses xs v = List.map_filter (\<lambda>(k, i).
     if v \<in> set (input_vregs (in_data i)) \<or> v \<in> set (output_vregs (in_data i))
     then Some \<lparr>u_inst = k, u_read = v \<in> set (input_vregs (in_data i)), u_write = v \<in> set (output_vregs (in_data i))\<rparr>
     else None) (enumerate 0 xs)"

lemma map_filter_append: "List.map_filter g (xs @ ys) = List.map_filter g xs @ List.map_filter g ys"
  by (simp add: List.map_filter_def)

lemma accesses_snoc:
  "accesses (xs @ [i]) v = accesses xs v @
     (if v \<in> set (input_vregs (in_data i)) \<or> v \<in> set (output_vregs (in_data i))
      then [\<lparr>u_inst = length xs, u_read = v \<in> set (input_vregs (in_data i)), u_write = v \<in> set (output_vregs (in_data i))\<rparr>] else [])"
  by (simp add: accesses_def enumerate_append_eq map_filter_append map_filter_simps)

lemma bex_enumerate: "(\<exists>x \<in> set (enumerate 0 xs). P x) \<longleftrightarrow> (\<exists>k < length xs. P (k, xs ! k))"
  by (auto simp: in_set_enumerate_eq)

lemma in_accesses:
  "u \<in> set (accesses xs v) \<longleftrightarrow> u_inst u < length xs \<and> (u_read u \<or> u_write u)
     \<and> u_read u = (v \<in> set (input_vregs (in_data (xs ! u_inst u))))
     \<and> u_write u = (v \<in> set (output_vregs (in_data (xs ! u_inst u))))"
  by (cases u) (auto simp: accesses_def map_filter_set bex_enumerate split: if_splits)

text \<open>
  The invariant: the use list of a register lists, without repetition, exactly the instructions of
  the arena that read or write it, with the direction of the access; identifiers are the indices.
\<close>

definition users_exact :: "mdata \<Rightarrow> bool" where
  "users_exact d \<longleftrightarrow>
     (\<forall>v. set (use_list (vreg_users d) v) = set (accesses (instructions d) v)
        \<and> distinct (map u_inst (use_list (vreg_users d) v)))
   \<and> (\<forall>k < length (instructions d). in_id (instructions d ! k) = Some k)"

lemma users_exact_new: "users_exact new_data"
  by (simp add: users_exact_def new_data_def use_list_def accesses_def List.map_filter_def)

lemma accesses_inst_less: "u \<in> set (accesses xs v) \<Longrightarrow> u_inst u < length xs"
  by (simp add: in_accesses)

lemma users_exact_create_inst:
  assumes "users_exact d"
  shows "users_exact (snd (create_inst i d))"
  unfolding users_exact_def
proof (intro conjI allI impI)
  fix v
  let ?d = "snd (create_inst i d)"
  have s: "set (use_list (vreg_users d) v) = set (accesses (instructions d) v)"
    and dist: "distinct (map u_inst (use_list (vreg_users d) v))"
    using assms by (auto simp: users_exact_def)
  show "set (use_list (vreg_users ?d) v) = set (accesses (instructions ?d) v)"
    by (simp add: create_inst_def Let_def use_list_add_uses accesses_snoc s)
  show "distinct (map u_inst (use_list (vreg_users ?d) v))"
    using dist s accesses_inst_less [of _ "instructions d" v]
    by (auto simp: create_inst_def Let_def use_list_add_uses) fastforce+
next
  fix k assume "k < length (instructions (snd (create_inst i d)))"
  then show "in_id (instructions (snd (create_inst i d)) ! k) = Some k"
    using assms by (auto simp: create_inst_def Let_def users_exact_def nth_append)
qed

lemma those_map_total:
  "(\<And>x. x \<in> set xs \<Longrightarrow> g x = Some (h x)) \<Longrightarrow> those (map g xs) = Some (map h xs)"
  by (induction xs) auto

lemma block_code_rep:
  assumes rep: "layout_rep (f_layout f) bs is" and b: "b \<in> set bs"
    and ins: "\<And>i. i \<in> set (is b) \<Longrightarrow> i < length (instructions (f_data f))"
  shows "block_code f b = Some (map (\<lambda>i. (i, in_data (instructions (f_data f) ! i))) (is b))"
proof -
  have "those (map (\<lambda>i. map_option (\<lambda>x. (i, in_data x)) (inst_ref (f_data f) i)) (is b))
      = Some (map (\<lambda>i. (i, in_data (instructions (f_data f) ! i))) (is b))"
    by (rule those_map_total) (use ins in \<open>simp add: inst_ref_def\<close>)
  then show ?thesis
    using inst_iter_rep [OF rep b] by (simp add: block_code_def)
qed

lemma func_code_rep:
  assumes rep: "layout_rep (f_layout f) bs is"
    and ins: "\<And>b i. b \<in> set bs \<Longrightarrow> i \<in> set (is b) \<Longrightarrow> i < length (instructions (f_data f))"
  shows "func_code f = Some (map (\<lambda>b. (b, map (\<lambda>i. (i, in_data (instructions (f_data f) ! i))) (is b))) bs)"
proof -
  have "those (map (\<lambda>b. map_option (Pair b) (block_code f b)) bs)
      = Some (map (\<lambda>b. (b, map (\<lambda>i. (i, in_data (instructions (f_data f) ! i))) (is b))) bs)"
    by (rule those_map_total) (use block_code_rep [OF rep] ins in simp)
  then show ?thesis
    using block_iter_rep [OF rep] by (simp add: func_code_def)
qed

end
