(* ===== verification/Live_Range.thy ===== *)
theory Live_Range
  imports Registers "HOL-Library.Word"
begin

section \<open>Program points and live ranges\<close>

text \<open>
  Model of the value types of \<open>src/codegen/pass/liveness.rs\<close>: program points (block number
  and instruction number, both \<open>u32\<close>), live segments and live ranges, with the arithmetic on
  32-bit words.  The order on program points is an instance of \<open>linorder\<close>.
\<close>

datatype program_point = PP (pp_block: "32 word") (pp_num: "32 word")

instantiation program_point :: linorder
begin

definition less_eq_program_point :: "program_point \<Rightarrow> program_point \<Rightarrow> bool" where
  "less_eq_program_point p q \<longleftrightarrow>
     (if pp_block p < pp_block q then True
      else if pp_block p > pp_block q then False
      else pp_num p \<le> pp_num q)"

definition less_program_point :: "program_point \<Rightarrow> program_point \<Rightarrow> bool" where
  "less_program_point p q \<longleftrightarrow>
     (if pp_block p < pp_block q then True
      else if pp_block p > pp_block q then False
      else pp_num p < pp_num q)"

instance
  by standard
    (auto simp: less_eq_program_point_def less_program_point_def program_point.expand split: if_splits)

end

lemmas pp_order_defs = less_eq_program_point_def less_program_point_def

definition STEP :: "32 word" where
  "STEP = 16"

text \<open>\<open>ProgramPoint::between\<close>: the sum of the two numbers is a wrapping \<open>u32\<close> addition.\<close>

definition between :: "program_point \<Rightarrow> program_point \<Rightarrow> program_point option" where
  "between p n =
     (if pp_block p \<noteq> pp_block n then None
      else if pp_num p > pp_num n then None
      else if pp_num n - pp_num p \<le> 1 then None
      else Some (PP (pp_block p) ((pp_num n + pp_num p) div 2)))"

record live_segment =
  seg_start :: program_point
  seg_end :: program_point

type_synonym live_range = "live_segment list"

definition new_point :: "program_point \<Rightarrow> live_segment" where
  "new_point p = \<lparr>seg_start = p, seg_end = p\<rparr>"

definition seg_interfere :: "live_segment \<Rightarrow> live_segment \<Rightarrow> bool" where
  "seg_interfere x y \<longleftrightarrow> seg_start x < seg_end y \<and> seg_end x > seg_start y"

definition first_seg :: "live_range \<Rightarrow> live_segment option" where
  "first_seg xs = (case xs of [] \<Rightarrow> None | x # _ \<Rightarrow> Some x)"

text \<open>
  \<open>LiveRange::weight\<close>: the sum, over the segments, of the instruction distance times the
  block distance plus ten; every operation wraps.
\<close>

definition lr_weight :: "live_range \<Rightarrow> 32 word" where
  "lr_weight xs = foldl (\<lambda>a s. a +
     (pp_num (seg_end s) - pp_num (seg_start s)) * (pp_block (seg_end s) - pp_block (seg_start s) + 10)) 0 xs"

definition lr_interfere :: "live_range \<Rightarrow> live_range \<Rightarrow> bool" where
  "lr_interfere xs ys \<longleftrightarrow> (\<exists>x \<in> set xs. \<exists>y \<in> set ys. seg_interfere x y)"

definition interfere_with_segment :: "live_range \<Rightarrow> live_segment \<Rightarrow> bool" where
  "interfere_with_segment xs y \<longleftrightarrow> (\<exists>x \<in> set xs. seg_interfere x y)"

text \<open>\<open>sort_by\<close> of the standard library is stable, as \<open>sort_key\<close> is.\<close>

definition lr_merge :: "live_range \<Rightarrow> live_range \<Rightarrow> live_range" where
  "lr_merge xs ys = sort_key seg_start (xs @ ys)"

subsection \<open>Facts\<close>

lemma seg_interfere_sym: "seg_interfere x y \<longleftrightarrow> seg_interfere y x"
  by (auto simp: seg_interfere_def)

lemma lr_interfere_sym: "lr_interfere xs ys \<longleftrightarrow> lr_interfere ys xs"
  unfolding lr_interfere_def using seg_interfere_sym by blast

lemma lr_interfere_Nil [simp]: "lr_interfere [] ys \<longleftrightarrow> False" "lr_interfere xs [] \<longleftrightarrow> False"
  by (simp_all add: lr_interfere_def)

lemma lr_merge_set [simp]: "set (lr_merge xs ys) = set xs \<union> set ys"
  by (simp add: lr_merge_def)

lemma lr_interfere_merge:
  "lr_interfere zs (lr_merge xs ys) \<longleftrightarrow> lr_interfere zs xs \<or> lr_interfere zs ys"
  unfolding lr_interfere_def lr_merge_set by blast

lemma lr_merge_sorted: "sorted (map seg_start (lr_merge xs ys))"
  by (simp add: lr_merge_def)

text \<open>Interference of two proper segments is a common point of the half-open intervals.\<close>

lemma seg_interfere_common_point:
  assumes "seg_start x < seg_end x" "seg_start y < seg_end y"
  shows "seg_interfere x y \<longleftrightarrow> (\<exists>p. seg_start x \<le> p \<and> p < seg_end x \<and> seg_start y \<le> p \<and> p < seg_end y)"
proof
  assume "seg_interfere x y"
  with assms show "\<exists>p. seg_start x \<le> p \<and> p < seg_end x \<and> seg_start y \<le> p \<and> p < seg_end y"
    by (intro exI [of _ "max (seg_start x) (seg_start y)"]) (simp add: seg_interfere_def)
next
  assume "\<exists>p. seg_start x \<le> p \<and> p < seg_end x \<and> seg_start y \<le> p \<and> p < seg_end y"
  then show "seg_interfere x y" by (auto simp: seg_interfere_def)
qed

text \<open>A point strictly between two points, as long as the sum of their numbers does not wrap.\<close>

lemma between_strict:
  assumes b: "between p n = Some q" and nov: "unat (pp_num p) + unat (pp_num n) < 2 ^ 32"
  shows "p < q" "q < n"
proof -
  have blk: "pp_block p = pp_block n" and lt: "\<not> pp_num n - pp_num p \<le> 1" and le: "pp_num p \<le> pp_num n"
    and q: "q = PP (pp_block p) ((pp_num n + pp_num p) div 2)"
    using b by (auto simp: between_def split: if_splits)
  have le': "unat (pp_num p) \<le> unat (pp_num n)" using le by (simp add: word_le_nat_alt)
  have d: "unat (pp_num n - pp_num p) = unat (pp_num n) - unat (pp_num p)"
    using le by (rule unat_sub)
  have "\<not> unat (pp_num n - pp_num p) \<le> 1" using lt by (simp add: word_le_nat_alt)
  then have gap: "unat (pp_num p) + 1 < unat (pp_num n)" using d le' by linarith
  have "unat (pp_num n + pp_num p) = (unat (pp_num n) + unat (pp_num p)) mod 2 ^ LENGTH(32)"
    by (rule unat_word_ariths(1))
  also have "\<dots> = unat (pp_num n) + unat (pp_num p)"
    using nov by (intro mod_less) simp
  finally have s: "unat (pp_num n + pp_num p) = unat (pp_num n) + unat (pp_num p)" .
  have "unat ((pp_num n + pp_num p) div 2) = unat (pp_num n + pp_num p) div unat (2 :: 32 word)"
    by (rule unat_div)
  then have h: "unat ((pp_num n + pp_num p) div 2) = (unat (pp_num n) + unat (pp_num p)) div 2"
    unfolding s by simp
  have n1: "unat (pp_num p) < unat (pp_num q)" and n2: "unat (pp_num q) < unat (pp_num n)"
    using gap unfolding q program_point.sel h by presburger+
  have qb: "pp_block q = pp_block p" unfolding q by simp
  show "p < q" "q < n"
    using n1 n2 unfolding less_program_point_def word_less_nat_alt qb blk by simp_all
qed

text \<open>
  The renumbering of \<open>recompute_program_points_after\<close> on one point: points of the block at
  or after \<open>from\<close> are spread out by a factor of \<open>STEP\<close>.
\<close>

definition respread :: "program_point \<Rightarrow> bool \<Rightarrow> program_point \<Rightarrow> program_point" where
  "respread from extra p =
     (if pp_block p = pp_block from \<and> pp_num p \<ge> pp_num from
      then PP (pp_block p) (pp_num from + (if extra then STEP else 0) + (pp_num p - pp_num from) * STEP)
      else p)"

definition respread_safe :: "program_point \<Rightarrow> bool \<Rightarrow> program_point \<Rightarrow> bool" where
  "respread_safe from extra p \<longleftrightarrow>
     pp_block p = pp_block from \<and> pp_num p \<ge> pp_num from \<longrightarrow>
       unat (pp_num from) + (if extra then 16 else 0) + (unat (pp_num p) - unat (pp_num from)) * 16 < 2 ^ 32"

lemma unat_respread:
  assumes safe: "respread_safe from extra p" and blk: "pp_block p = pp_block from" and ge: "pp_num p \<ge> pp_num from"
  shows "unat (pp_num (respread from extra p)) =
    unat (pp_num from) + (if extra then 16 else 0) + (unat (pp_num p) - unat (pp_num from)) * 16"
proof -
  let ?d = "unat (pp_num p) - unat (pp_num from)"
  have d: "unat (pp_num p - pp_num from) = ?d" using ge by (rule unat_sub)
  have lt: "unat (pp_num from) + (if extra then 16 else 0) + ?d * 16 < 2 ^ 32"
    using safe blk ge by (simp add: respread_safe_def)
  have m: "unat ((pp_num p - pp_num from) * STEP) = ?d * 16"
  proof -
    have "unat ((pp_num p - pp_num from) * STEP) = (?d * unat STEP) mod 2 ^ LENGTH(32)"
      unfolding d [symmetric] by (rule unat_word_ariths(2))
    also have "unat STEP = 16" by (simp add: STEP_def)
    also have "(?d * 16) mod 2 ^ LENGTH(32) = ?d * 16" using lt by (intro mod_less) simp
    finally show ?thesis .
  qed
  have b: "unat (pp_num from + (if extra then STEP else 0)) = unat (pp_num from) + (if extra then 16 else 0)"
    using lt by (cases extra) (simp_all add: unat_word_ariths STEP_def)
  have "unat (pp_num from + (if extra then STEP else 0) + (pp_num p - pp_num from) * STEP)
      = (unat (pp_num from) + (if extra then 16 else 0) + ?d * 16) mod 2 ^ LENGTH(32)"
    unfolding b [symmetric] m [symmetric] by (rule unat_word_ariths(1))
  also have "\<dots> = unat (pp_num from) + (if extra then 16 else 0) + ?d * 16"
    using lt by (intro mod_less) simp
  finally show ?thesis
    using blk ge by (simp add: respread_def)
qed

lemma respread_mono:
  assumes "respread_safe from extra p" "respread_safe from extra q" "p < q"
  shows "respread from extra p < respread from extra q"
proof (cases "pp_block p = pp_block from \<and> pp_block q = pp_block from")
  case False
  then show ?thesis using assms(3) by (auto simp: less_program_point_def respread_def split: if_splits)
next
  case same: True
  have num: "unat (pp_num p) < unat (pp_num q)"
    using same assms(3) by (simp add: less_program_point_def word_less_nat_alt)
  show ?thesis
  proof (cases "pp_num p \<ge> pp_num from")
    case True
    then have "pp_num q \<ge> pp_num from" using num by (simp add: word_le_nat_alt)
    moreover from True num have
      "(unat (pp_num p) - unat (pp_num from)) * 16 < (unat (pp_num q) - unat (pp_num from)) * 16"
      by (simp add: word_le_nat_alt)
    ultimately have "unat (pp_num (respread from extra p)) < unat (pp_num (respread from extra q))"
      using True same assms unat_respread [of "from" extra p] unat_respread [of "from" extra q] by simp
    then show ?thesis
      using same by (simp add: less_program_point_def word_less_nat_alt respread_def split: if_splits)
  next
    case low: False
    show ?thesis
    proof (cases "pp_num q \<ge> pp_num from")
      case True
      have "unat (pp_num p) < unat (pp_num (respread from extra q))"
        using low True same assms(2) unat_respread [of "from" extra q]
        by (simp add: word_le_nat_alt)
      then show ?thesis
        using same low by (simp add: less_program_point_def word_less_nat_alt respread_def split: if_splits)
    next
      case False
      then show ?thesis using low assms(3) by (simp add: respread_def)
    qed
  qed
qed

lemma respread_less_iff:
  assumes "respread_safe from extra p" "respread_safe from extra q"
  shows "respread from extra p < respread from extra q \<longleftrightarrow> p < q"
  using respread_mono [of "from" extra p q] respread_mono [of "from" extra q p] assms
  by (metis less_irrefl linorder_neqE order_less_trans)

definition respread_seg :: "program_point \<Rightarrow> bool \<Rightarrow> live_segment \<Rightarrow> live_segment" where
  "respread_seg from extra s =
     s\<lparr>seg_start := respread from extra (seg_start s), seg_end := respread from extra (seg_end s)\<rparr>"

definition seg_safe :: "program_point \<Rightarrow> bool \<Rightarrow> live_segment \<Rightarrow> bool" where
  "seg_safe from extra s \<longleftrightarrow> respread_safe from extra (seg_start s) \<and> respread_safe from extra (seg_end s)"

lemma respread_seg_interfere:
  "seg_safe from extra x \<Longrightarrow> seg_safe from extra y \<Longrightarrow>
   seg_interfere (respread_seg from extra x) (respread_seg from extra y) \<longleftrightarrow> seg_interfere x y"
  by (simp add: seg_interfere_def respread_seg_def seg_safe_def respread_less_iff)

lemma respread_lr_interfere:
  "\<forall>x \<in> set xs. seg_safe from extra x \<Longrightarrow> \<forall>y \<in> set ys. seg_safe from extra y \<Longrightarrow>
   lr_interfere (map (respread_seg from extra) xs) (map (respread_seg from extra) ys) \<longleftrightarrow> lr_interfere xs ys"
  by (auto simp: lr_interfere_def respread_seg_interfere)

end
