(* ===== verification/Liveness.thy ===== *)
theory Liveness
  imports Mach_Func Live_Range
begin

section \<open>Liveness analysis of machine functions\<close>

text \<open>
  Model of the analysis of \<open>src/codegen/pass/liveness.rs\<close>: the \<open>def\<close>,
  \<open>live_in\<close> and \<open>live_out\<close> sets of the blocks, computed by propagating every use
  backwards (\<open>set_def\<close>, \<open>visit\<close>, \<open>propagate_reg\<close>), and the program points and
  live ranges derived from them (\<open>compute_program_points\<close>).  The recursion of
  \<open>propagate_reg\<close> runs on fuel; \<open>propagate_total\<close> shows that one unit per block
  of the function is enough, so the only other \<open>None\<close> results are panics.
\<close>

datatype lreg = Phys reg_unit | Virt vreg

record block_data =
  bd_def :: "lreg set"
  live_in :: "lreg set"
  live_out :: "lreg set"

definition new_block_data :: block_data where
  "new_block_data = \<lparr>bd_def = {}, live_in = {}, live_out = {}\<rparr>"

type_synonym block_map = "nat \<rightharpoonup> block_data"
type_synonym code = "(nat \<times> (nat \<times> inst_data) list) list"

record liveness =
  block_data :: block_map
  vreg_lrs_map :: "vreg \<rightharpoonup> live_range"
  reg_lrs_map :: "reg_unit \<rightharpoonup> live_range"
  inst_to_pp :: "nat \<rightharpoonup> program_point"

definition new_liveness :: liveness where
  "new_liveness = \<lparr>block_data = Map.empty, vreg_lrs_map = Map.empty,
     reg_lrs_map = Map.empty, inst_to_pp = Map.empty\<rparr>"

definition in_units :: "inst_data \<Rightarrow> reg_unit list option" where
  "in_units i = those (map to_reg_unit (input_regs i))"

definition out_units :: "inst_data \<Rightarrow> reg_unit list option" where
  "out_units i = those (map to_reg_unit (output_regs i))"

subsection \<open>Definitions of a block\<close>

definition def_insert :: "nat \<Rightarrow> lreg \<Rightarrow> block_map \<Rightarrow> block_map" where
  "def_insert b r m =
     (let d = (case m b of None \<Rightarrow> new_block_data | Some d \<Rightarrow> d)
      in m(b \<mapsto> d\<lparr>bd_def := insert r (bd_def d)\<rparr>))"

definition set_def_on_inst :: "nat \<Rightarrow> inst_data \<Rightarrow> block_map \<Rightarrow> block_map option" where
  "set_def_on_inst b i m = do {
     let m = fold (\<lambda>v. def_insert b (Virt v)) (output_vregs i) m;
     us \<leftarrow> out_units i;
     Some (fold (\<lambda>u. def_insert b (Phys u)) us m) }"

definition set_def_block :: "nat \<times> (nat \<times> inst_data) list \<Rightarrow> block_map \<Rightarrow> block_map option" where
  "set_def_block bc m =
     fold_opt (\<lambda>i. set_def_on_inst (fst bc) (snd i)) (snd bc) (or_insert m (fst bc) new_block_data)"

definition set_def :: "code \<Rightarrow> block_map \<Rightarrow> block_map option" where
  "set_def code m = fold_opt set_def_block code m"

subsection \<open>Propagation of the uses\<close>

definition insert_live_in :: "lreg \<Rightarrow> block_data \<Rightarrow> block_data" where
  "insert_live_in r d = d\<lparr>live_in := insert r (live_in d)\<rparr>"

definition insert_live_out :: "lreg \<Rightarrow> block_data \<Rightarrow> block_data" where
  "insert_live_out r d = d\<lparr>live_out := insert r (live_out d)\<rparr>"

fun propagate_reg :: "nat \<Rightarrow> basic_block list \<Rightarrow> lreg \<Rightarrow> nat \<Rightarrow> nat option \<Rightarrow> block_map \<Rightarrow> block_map option"
  and propagate_preds :: "nat \<Rightarrow> basic_block list \<Rightarrow> lreg \<Rightarrow> nat list \<Rightarrow> nat option \<Rightarrow> block_map \<Rightarrow> block_map option"
where
  "propagate_reg 0 bbs r b phi m = None"
| "propagate_reg (Suc n) bbs r b phi m = (case m b of
     None \<Rightarrow> None
   | Some d \<Rightarrow>
       if r \<in> bd_def d then Some m
       else if r \<in> live_in d then Some m
       else if b < length bbs
         then propagate_preds n bbs r (preds (bbs ! b)) phi (m(b \<mapsto> insert_live_in r d))
         else None)"
| "propagate_preds n bbs r [] phi m = Some m"
| "propagate_preds n bbs r (p # ps) phi m =
     (if phi \<noteq> None \<and> phi \<noteq> Some p then propagate_preds n bbs r ps phi m
      else case m p of
        None \<Rightarrow> None
      | Some d \<Rightarrow>
          if r \<in> live_out d then propagate_preds n bbs r ps phi m
          else case propagate_reg n bbs r p None (m(p \<mapsto> insert_live_out r d)) of
            None \<Rightarrow> None
          | Some m' \<Rightarrow> propagate_preds n bbs r ps phi m')"

text \<open>
  The uses of an instruction, in the order \<open>visit_inst\<close> propagates them: the register and,
  for the operands of a phi, the predecessor block named by the next operand.
\<close>

definition inst_uses :: "inst_data \<Rightarrow> (lreg \<times> nat option) list option" where
  "inst_uses i = do {
     us \<leftarrow> in_units i;
     Some (map (\<lambda>(k, v). (Virt v, if is_phi i then block_at i (k + 1) else None)) (input_vregs_with_indexes i)
           @ map (\<lambda>u. (Phys u, None)) us) }"

definition visit_inst :: "nat \<Rightarrow> basic_block list \<Rightarrow> nat \<Rightarrow> inst_data \<Rightarrow> block_map \<Rightarrow> block_map option" where
  "visit_inst n bbs b i m = do {
     us \<leftarrow> inst_uses i;
     fold_opt (\<lambda>(r, phi). propagate_reg n bbs r b phi) us m }"

definition visit :: "basic_block list \<Rightarrow> code \<Rightarrow> block_map \<Rightarrow> block_map option" where
  "visit bbs code m =
     fold_opt (\<lambda>bc. fold_opt (\<lambda>i. visit_inst (Suc (length bbs)) bbs (fst bc) (snd i)) (snd bc)) code m"

subsection \<open>Program points and live ranges\<close>

text \<open>The live segments local to a block, built while the block is scanned.\<close>

record local_lrs =
  loc_vreg :: "vreg \<rightharpoonup> live_segment"
  loc_reg :: "reg_unit \<rightharpoonup> live_range"
  loc_pp :: "nat \<rightharpoonup> program_point"
  loc_num :: "32 word"

definition touch_vreg :: "program_point \<Rightarrow> program_point \<Rightarrow> vreg \<Rightarrow> (vreg \<rightharpoonup> live_segment) \<Rightarrow> (vreg \<rightharpoonup> live_segment)" where
  "touch_vreg s pp v m =
     (let x = (case m v of None \<Rightarrow> \<lparr>seg_start = s, seg_end = s\<rparr> | Some x \<Rightarrow> x)
      in m(v \<mapsto> x\<lparr>seg_end := pp\<rparr>))"

definition touch_reg :: "program_point \<Rightarrow> reg_unit \<Rightarrow> (reg_unit \<rightharpoonup> live_range) \<Rightarrow> (reg_unit \<rightharpoonup> live_range)" where
  "touch_reg pp u m = m(u \<mapsto> (case m u of None \<Rightarrow> [] | Some xs \<Rightarrow> xs) @ [new_point pp])"

definition live_in_segments :: "32 word \<Rightarrow> block_data \<Rightarrow> (nat \<rightharpoonup> program_point) \<Rightarrow> local_lrs" where
  "live_in_segments n d pps =
     \<lparr>loc_vreg = (\<lambda>v. if Virt v \<in> live_in d then Some (new_point (PP n 0)) else None),
      loc_reg = (\<lambda>u. if Phys u \<in> live_in d then Some [new_point (PP n 0)] else None),
      loc_pp = pps, loc_num = STEP\<rparr>"

definition scan_inst :: "32 word \<Rightarrow> nat \<times> inst_data \<Rightarrow> local_lrs \<Rightarrow> local_lrs option" where
  "scan_inst n i s = do {
     let pp = PP n (loc_num s);
     let vm = fold (touch_vreg (PP n 0) pp) (input_vregs (snd i)) (loc_vreg s);
     ius \<leftarrow> in_units (snd i);
     let rm = fold (touch_reg pp) ius (loc_reg s);
     let vm = fold (touch_vreg pp pp) (output_vregs (snd i)) vm;
     ous \<leftarrow> out_units (snd i);
     let rm = fold (touch_reg pp) ous rm;
     Some \<lparr>loc_vreg = vm, loc_reg = rm, loc_pp = (loc_pp s)(fst i \<mapsto> pp), loc_num = loc_num s + STEP\<rparr> }"

text \<open>
  A register that is live out must have a local segment (\<open>get_mut(..).unwrap()\<close>); its end is
  moved to the end of the block.
\<close>

definition live_out_segments :: "32 word \<Rightarrow> block_data \<Rightarrow> local_lrs \<Rightarrow> local_lrs option" where
  "live_out_segments n d s =
     (if (\<forall>r \<in> live_out d. case r of Virt v \<Rightarrow> loc_vreg s v \<noteq> None
                                | Phys u \<Rightarrow> (case loc_reg s u of None \<Rightarrow> False | Some xs \<Rightarrow> xs \<noteq> []))
      then Some (s\<lparr>
        loc_vreg := (\<lambda>v. if Virt v \<in> live_out d
          then map_option (\<lambda>x. x\<lparr>seg_end := PP n (loc_num s)\<rparr>) (loc_vreg s v) else loc_vreg s v),
        loc_reg := (\<lambda>u. if Phys u \<in> live_out d
          then map_option (\<lambda>xs. butlast xs @ [(last xs)\<lparr>seg_end := PP n (loc_num s)\<rparr>]) (loc_reg s u)
          else loc_reg s u)\<rparr>)
      else None)"

definition push_ranges :: "('k \<rightharpoonup> live_range) \<Rightarrow> ('k \<rightharpoonup> live_range) \<Rightarrow> ('k \<rightharpoonup> live_range)" where
  "push_ranges loc m = (\<lambda>k. case loc k of None \<Rightarrow> m k
     | Some xs \<Rightarrow> Some ((case m k of None \<Rightarrow> [] | Some ys \<Rightarrow> ys) @ xs))"

definition scan_block :: "nat \<times> (nat \<times> (nat \<times> inst_data) list) \<Rightarrow> liveness \<Rightarrow> liveness option" where
  "scan_block nb lv = (case nb of (k, b, is) \<Rightarrow> do {
     d \<leftarrow> block_data lv b;
     let n = of_nat k;
     s \<leftarrow> fold_opt (scan_inst n) is (live_in_segments n d (inst_to_pp lv));
     s \<leftarrow> live_out_segments n d s;
     Some (lv\<lparr>vreg_lrs_map := push_ranges (map_option (\<lambda>x. [x]) \<circ> loc_vreg s) (vreg_lrs_map lv),
              reg_lrs_map := push_ranges (loc_reg s) (reg_lrs_map lv),
              inst_to_pp := loc_pp s\<rparr>) })"

definition compute_program_points :: "code \<Rightarrow> liveness \<Rightarrow> liveness option" where
  "compute_program_points code lv = fold_opt scan_block (enumerate 0 code) lv"

definition analyze_code :: "basic_block list \<Rightarrow> code \<Rightarrow> liveness \<Rightarrow> liveness option" where
  "analyze_code bbs code lv = do {
     m \<leftarrow> set_def code (block_data lv);
     m \<leftarrow> visit bbs code m;
     compute_program_points code (lv\<lparr>block_data := m\<rparr>) }"

definition analyze_function :: "mfunc \<Rightarrow> liveness \<Rightarrow> liveness option" where
  "analyze_function f lv = do {
     code \<leftarrow> func_code f;
     analyze_code (basic_blocks (f_data f)) code lv }"

subsection \<open>Queries and updates\<close>

definition interfere :: "reg_unit \<Rightarrow> vreg \<Rightarrow> liveness \<Rightarrow> bool option" where
  "interfere r v lv = (case reg_lrs_map lv r of
     None \<Rightarrow> Some False
   | Some rl \<Rightarrow> (case vreg_lrs_map lv v of None \<Rightarrow> None | Some vl \<Rightarrow> Some (lr_interfere vl rl)))"

definition assign :: "reg_unit \<Rightarrow> vreg \<Rightarrow> liveness \<Rightarrow> liveness option" where
  "assign r v lv = do {
     vl \<leftarrow> vreg_lrs_map lv v;
     let rl = (case reg_lrs_map lv r of None \<Rightarrow> [] | Some rl \<Rightarrow> rl);
     Some (lv\<lparr>reg_lrs_map := (reg_lrs_map lv)(r \<mapsto> lr_merge rl vl)\<rparr>) }"

definition remove_vreg :: "vreg \<Rightarrow> liveness \<Rightarrow> liveness" where
  "remove_vreg v lv = lv\<lparr>
     vreg_lrs_map := (vreg_lrs_map lv)(v := None),
     block_data := (\<lambda>b. map_option (\<lambda>d. d\<lparr>live_in := live_in d - {Virt v}, live_out := live_out d - {Virt v}\<rparr>)
                                    (block_data lv b))\<rparr>"

definition recompute_program_points_after :: "program_point \<Rightarrow> bool \<Rightarrow> liveness \<Rightarrow> liveness" where
  "recompute_program_points_after from add_step lv = lv\<lparr>
     inst_to_pp := (\<lambda>i. map_option (respread from add_step) (inst_to_pp lv i)),
     reg_lrs_map := (\<lambda>r. map_option (map (respread_seg from add_step)) (reg_lrs_map lv r)),
     vreg_lrs_map := (\<lambda>v. map_option (map (respread_seg from add_step)) (vreg_lrs_map lv v))\<rparr>"

text \<open>
  \<open>compute_live_ranges\<close> scans the users of a register for the first definition and the last
  use.  A user that both writes and reads counts as a definition only.
\<close>

definition range_step :: "liveness \<Rightarrow> vreg_user \<Rightarrow> program_point option \<times> program_point option
    \<Rightarrow> (program_point option \<times> program_point option) option" where
  "range_step lv u = (\<lambda>(def_pp, use_pp). do {
     pp \<leftarrow> inst_to_pp lv (u_inst u);
     if u_write u then
       Some (Some (case def_pp of None \<Rightarrow> pp | Some d \<Rightarrow> if pp < d then pp else d), use_pp)
     else if u_read u then
       Some (def_pp, Some (case use_pp of None \<Rightarrow> pp | Some q \<Rightarrow> if q < pp then pp else q))
     else Some (def_pp, use_pp) })"

definition compute_live_ranges :: "vreg_users \<Rightarrow> vreg \<Rightarrow> liveness \<Rightarrow> liveness option" where
  "compute_live_ranges us v lv = do {
     xs \<leftarrow> us v;
     (d, q) \<leftarrow> fold_opt (range_step lv) xs (None, None);
     s \<leftarrow> d;
     e \<leftarrow> q;
     Some (lv\<lparr>vreg_lrs_map := (vreg_lrs_map lv)(v \<mapsto> [\<lparr>seg_start = s, seg_end = e\<rparr>])\<rparr>) }"

end
