(* ===== verification/Liveness_Flow.thy ===== *)
theory Liveness_Flow
  imports Liveness
begin

section \<open>Correctness of the block-level liveness sets\<close>

text \<open>
  The sets computed by \<open>propagate_reg\<close>: it never panics on a well-formed function, keeps the
  definitions, and closes the sets under the data-flow equations; everything it adds is justified
  by a path to a use.  For functions without phi instructions the result is exactly the path
  characterisation of liveness; a phi instruction can lose a live-out fact, which the last theorem
  exhibits.
\<close>

definition DF :: "block_map \<Rightarrow> nat \<Rightarrow> lreg set" where
  "DF m b = (case m b of None \<Rightarrow> {} | Some d \<Rightarrow> bd_def d)"

definition LI :: "block_map \<Rightarrow> nat \<Rightarrow> lreg set" where
  "LI m b = (case m b of None \<Rightarrow> {} | Some d \<Rightarrow> live_in d)"

definition LO :: "block_map \<Rightarrow> nat \<Rightarrow> lreg set" where
  "LO m b = (case m b of None \<Rightarrow> {} | Some d \<Rightarrow> live_out d)"

lemmas block_sets = DF_def LI_def LO_def

lemma block_sets_Some:
  assumes "m b = Some d"
  shows "DF m b = bd_def d" "LI m b = live_in d" "LO m b = live_out d"
  using assms by (simp_all add: block_sets)

lemma insert_live_in_sets:
  assumes "m b = Some d"
  shows "DF (m(b \<mapsto> insert_live_in r d)) = DF m"
    "LI (m(b \<mapsto> insert_live_in r d)) = (LI m)(b := insert r (LI m b))"
    "LO (m(b \<mapsto> insert_live_in r d)) = LO m"
  using assms by (auto simp: block_sets insert_live_in_def fun_eq_iff)

lemma insert_live_out_sets:
  assumes "m b = Some d"
  shows "DF (m(b \<mapsto> insert_live_out r d)) = DF m"
    "LI (m(b \<mapsto> insert_live_out r d)) = LI m"
    "LO (m(b \<mapsto> insert_live_out r d)) = (LO m)(b := insert r (LO m b))"
  using assms by (auto simp: block_sets insert_live_out_def fun_eq_iff)

subsection \<open>Growth\<close>

definition grows :: "block_map \<Rightarrow> block_map \<Rightarrow> bool" where
  "grows m m' \<longleftrightarrow> dom m' = dom m \<and> DF m' = DF m \<and> (\<forall>c. LI m c \<subseteq> LI m' c \<and> LO m c \<subseteq> LO m' c)"

lemma grows_refl [simp]: "grows m m"
  by (simp add: grows_def)

lemma grows_trans: "grows m m' \<Longrightarrow> grows m' m'' \<Longrightarrow> grows m m''"
  unfolding grows_def by (elim conjE, intro conjI) (simp, simp, blast)

lemma grows_insert_live_in: "m b = Some d \<Longrightarrow> grows m (m(b \<mapsto> insert_live_in r d))"
  unfolding grows_def by (simp add: insert_live_in_sets insert_absorb domI) auto

lemma grows_insert_live_out: "m b = Some d \<Longrightarrow> grows m (m(b \<mapsto> insert_live_out r d))"
  unfolding grows_def by (simp add: insert_live_out_sets insert_absorb domI) auto

subsection \<open>The propagation without fuel\<close>

text \<open>A successful run, as a big-step relation: the rules are the branches of the two loops.\<close>

inductive prop_reg :: "basic_block list \<Rightarrow> lreg \<Rightarrow> nat \<Rightarrow> nat option \<Rightarrow> block_map \<Rightarrow> block_map \<Rightarrow> bool"
  and prop_preds :: "basic_block list \<Rightarrow> lreg \<Rightarrow> nat list \<Rightarrow> nat option \<Rightarrow> block_map \<Rightarrow> block_map \<Rightarrow> bool"
  for bbs r
where
  defined: "m b = Some d \<Longrightarrow> r \<in> bd_def d \<Longrightarrow> prop_reg bbs r b phi m m"
| known: "m b = Some d \<Longrightarrow> r \<in> live_in d \<Longrightarrow> prop_reg bbs r b phi m m"
| enter: "m b = Some d \<Longrightarrow> r \<notin> bd_def d \<Longrightarrow> r \<notin> live_in d \<Longrightarrow> b < length bbs
    \<Longrightarrow> prop_preds bbs r (preds (bbs ! b)) phi (m(b \<mapsto> insert_live_in r d)) m'
    \<Longrightarrow> prop_reg bbs r b phi m m'"
| finish: "prop_preds bbs r [] phi m m"
| skip: "phi \<noteq> None \<Longrightarrow> phi \<noteq> Some p \<Longrightarrow> prop_preds bbs r ps phi m m'
    \<Longrightarrow> prop_preds bbs r (p # ps) phi m m'"
| seen: "phi = None \<or> phi = Some p \<Longrightarrow> m p = Some d \<Longrightarrow> r \<in> live_out d
    \<Longrightarrow> prop_preds bbs r ps phi m m' \<Longrightarrow> prop_preds bbs r (p # ps) phi m m'"
| follow: "phi = None \<or> phi = Some p \<Longrightarrow> m p = Some d \<Longrightarrow> r \<notin> live_out d
    \<Longrightarrow> prop_reg bbs r p None (m(p \<mapsto> insert_live_out r d)) m1
    \<Longrightarrow> prop_preds bbs r ps phi m1 m' \<Longrightarrow> prop_preds bbs r (p # ps) phi m m'"

lemma propagate_prop:
  "propagate_reg n bbs r b phi m = Some m' \<Longrightarrow> prop_reg bbs r b phi m m'"
  "propagate_preds n bbs r ps phi m = Some m' \<Longrightarrow> prop_preds bbs r ps phi m m'"
proof (induction n bbs r b phi m and n bbs r ps phi m arbitrary: m' and m' rule: propagate_reg_propagate_preds.induct)
  case (2 n bbs r b phi m)
  obtain d where d: "m b = Some d"
    using "2.prems" by (auto split: option.splits)
  show ?case
  proof (cases "r \<in> bd_def d \<or> r \<in> live_in d")
    case True
    then show ?thesis using "2.prems" d by (auto split: if_splits intro: defined known)
  next
    case False
    then have b: "b < length bbs"
      and m': "propagate_preds n bbs r (preds (bbs ! b)) phi (m(b \<mapsto> insert_live_in r d)) = Some m'"
      using "2.prems" d by (auto split: if_splits)
    show ?thesis
      using enter [of m b d r bbs phi m'] "2.IH" [OF d _ _ b m'] d False b by blast
  qed
next
  case (4 n bbs r p ps phi m)
  show ?case
  proof (cases "phi \<noteq> None \<and> phi \<noteq> Some p")
    case True
    then show ?thesis using 4 by (auto intro: skip)
  next
    case False
    then have ok: "phi = None \<or> phi = Some p" by blast
    obtain d where d: "m p = Some d"
      using "4.prems" False by (auto split: option.splits)
    show ?thesis
    proof (cases "r \<in> live_out d")
      case True
      with "4.prems" ok d have "propagate_preds n bbs r ps phi m = Some m'" by (auto split: if_splits)
      then show ?thesis using "4.IH"(2) [OF False d True] ok d True by (blast intro: seen)
    next
      case new: False
      with "4.prems" False d obtain m1
        where m1: "propagate_reg n bbs r p None (m(p \<mapsto> insert_live_out r d)) = Some m1"
          and m': "propagate_preds n bbs r ps phi m1 = Some m'"
        by (auto split: option.splits)
      show ?thesis
        using follow [of phi p m d r bbs m1 ps m', OF ok d new] "4.IH"(3) [OF False d new m1] "4.IH"(4) [OF False d new m1 m'] by blast
    qed
  qed
qed (auto intro: finish)

lemma prop_grows:
  "prop_reg bbs r b phi m m' \<Longrightarrow> grows m m'"
  "prop_preds bbs r ps phi m m' \<Longrightarrow> grows m m'"
proof (induction rule: prop_reg_prop_preds.inducts)
  case (enter m b d phi m')
  then show ?case using grows_insert_live_in [of m b d r] grows_trans by blast
next
  case (follow phi p m d m1 ps m')
  then show ?case using grows_insert_live_out [of m p d r] grows_trans by blast
qed simp_all

subsection \<open>Closure under the data-flow equations\<close>

text \<open>
  What a run adds: a block that becomes live-in passes the register to its predecessors (only to
  the phi predecessor, when the use is a phi operand), and a block that becomes live-out defines
  the register or has it live-in.
\<close>

definition closes :: "basic_block list \<Rightarrow> lreg \<Rightarrow> (nat \<Rightarrow> nat \<Rightarrow> bool) \<Rightarrow> block_map \<Rightarrow> block_map \<Rightarrow> bool" where
  "closes bbs r E m m' \<longleftrightarrow>
     (\<forall>c s. s \<in> LI m' c \<longrightarrow> s \<notin> LI m c \<longrightarrow>
        s = r \<and> (\<forall>p \<in> set (preds (bbs ! c)). E c p \<longrightarrow> r \<in> LO m' p)) \<and>
     (\<forall>c s. s \<in> LO m' c \<longrightarrow> s \<notin> LO m c \<longrightarrow> s = r \<and> (r \<in> DF m' c \<or> r \<in> LI m' c))"

lemma closes_refl [simp]: "closes bbs r E m m"
  by (simp add: closes_def)

lemma prop_closes:
  "prop_reg bbs r b phi m m' \<Longrightarrow>
     closes bbs r (\<lambda>c p. c = b \<longrightarrow> phi = None \<or> phi = Some p) m m' \<and> (r \<in> DF m' b \<or> r \<in> LI m' b)"
  "prop_preds bbs r ps phi m m' \<Longrightarrow>
     closes bbs r (\<lambda>c p. True) m m' \<and> (\<forall>p \<in> set ps. phi = None \<or> phi = Some p \<longrightarrow> r \<in> LO m' p)"
proof (induction rule: prop_reg_prop_preds.inducts)
  case (defined m b d phi)
  then show ?case by (simp add: block_sets_Some)
next
  case (known m b d phi)
  then show ?case by (simp add: block_sets_Some)
next
  case (enter m b d phi m')
  let ?m = "m(b \<mapsto> insert_live_in r d)"
  note sets = insert_live_in_sets [of m b d r, OF enter(1)]
  have g: "grows ?m m'" by (rule prop_grows(2) [OF enter(5)])
  have "r \<in> LI ?m b" unfolding sets by simp
  then have inb: "r \<in> LI m' b" using g unfolding grows_def by blast
  have "closes bbs r (\<lambda>c p. c = b \<longrightarrow> phi = None \<or> phi = Some p) m m'"
    unfolding closes_def
  proof (rule conjI; intro allI impI)
    fix c s assume s: "s \<in> LI m' c" "s \<notin> LI m c"
    show "s = r \<and> (\<forall>p \<in> set (preds (bbs ! c)). (c = b \<longrightarrow> phi = None \<or> phi = Some p) \<longrightarrow> r \<in> LO m' p)"
    proof (cases "s \<in> LI ?m c")
      case True
      then have "c = b" "s = r" using s(2) unfolding sets by (auto split: if_splits)
      then show ?thesis using enter(6) by blast
    next
      case False
      then show ?thesis using enter(6) s(1) unfolding closes_def by blast
    qed
  next
    fix c s assume s: "s \<in> LO m' c" "s \<notin> LO m c"
    then show "s = r \<and> (r \<in> DF m' c \<or> r \<in> LI m' c)"
      using enter(6) unfolding closes_def sets by blast
  qed
  then show ?case using inb by blast
next
  case (seen phi p m d ps m')
  have "r \<in> LO m' p"
    using prop_grows(2) [OF seen(4)] seen(3) block_sets_Some(3) [of m p d, OF seen(2)]
    unfolding grows_def by blast
  then show ?case using seen(5) by auto
next
  case (follow phi p m d m1 ps m')
  let ?m = "m(p \<mapsto> insert_live_out r d)"
  note sets = insert_live_out_sets [of m p d r, OF follow(2)]
  have g1: "grows ?m m1" by (rule prop_grows(1) [OF follow(4)])
  have g2: "grows m1 m'" by (rule prop_grows(2) [OF follow(6)])
  have "r \<in> LO ?m p" unfolding sets by simp
  then have outp: "r \<in> LO m' p" using g1 g2 unfolding grows_def by blast
  have "r \<in> DF m1 p \<or> r \<in> LI m1 p" using follow(5) by blast
  then have dp: "r \<in> DF m' p \<or> r \<in> LI m' p"
    using g2 unfolding grows_def by (metis subsetD)
  have "closes bbs r (\<lambda>c p. True) m m'"
    unfolding closes_def
  proof (rule conjI; intro allI impI)
    fix c s assume s: "s \<in> LI m' c" "s \<notin> LI m c"
    show "s = r \<and> (\<forall>p \<in> set (preds (bbs ! c)). True \<longrightarrow> r \<in> LO m' p)"
    proof (cases "s \<in> LI m1 c")
      case True
      then have "s = r \<and> (\<forall>q \<in> set (preds (bbs ! c)). r \<in> LO m1 q)"
        using follow(5) s(2) unfolding closes_def sets by blast
      then show ?thesis using g2 unfolding grows_def by blast
    next
      case False
      then show ?thesis using follow(7) s(1) unfolding closes_def by blast
    qed
  next
    fix c s assume s: "s \<in> LO m' c" "s \<notin> LO m c"
    consider "s \<in> LO ?m c" | "s \<notin> LO ?m c" "s \<in> LO m1 c" | "s \<notin> LO m1 c" by blast
    then show "s = r \<and> (r \<in> DF m' c \<or> r \<in> LI m' c)"
    proof cases
      case 1
      then have "c = p" "s = r" using s(2) unfolding sets by (auto split: if_splits)
      then show ?thesis using dp by blast
    next
      case 2
      then have "s = r \<and> (r \<in> DF m1 c \<or> r \<in> LI m1 c)"
        using follow(5) unfolding closes_def by blast
      then show ?thesis using g2 unfolding grows_def by auto
    next
      case 3
      then show ?thesis using follow(7) s(1) unfolding closes_def by blast
    qed
  qed
  then show ?case using follow(7) outp by auto
qed auto

subsection \<open>Totality\<close>

definition cfg_closed :: "basic_block list \<Rightarrow> block_map \<Rightarrow> bool" where
  "cfg_closed bbs m \<longleftrightarrow> finite (dom m) \<and>
     (\<forall>b \<in> dom m. b < length bbs \<and> set (preds (bbs ! b)) \<subseteq> dom m)"

definition unvisited :: "lreg \<Rightarrow> block_map \<Rightarrow> nat set" where
  "unvisited r m = {b \<in> dom m. r \<notin> LI m b}"

lemma grows_unvisited: "grows m m' \<Longrightarrow> unvisited r m' \<subseteq> unvisited r m"
  by (auto simp: grows_def unvisited_def)

lemma grows_cfg_closed: "grows m m' \<Longrightarrow> cfg_closed bbs m \<Longrightarrow> cfg_closed bbs m'"
  by (simp add: grows_def cfg_closed_def)

lemma grows_card_unvisited:
  "grows m m' \<Longrightarrow> cfg_closed bbs m \<Longrightarrow> card (unvisited r m') \<le> card (unvisited r m)"
  by (rule card_mono) (auto simp: cfg_closed_def unvisited_def grows_def)

lemma propagate_total:
  "cfg_closed bbs m \<Longrightarrow> b \<in> dom m \<Longrightarrow> card (unvisited r m) < n \<Longrightarrow>
     propagate_reg n bbs r b phi m \<noteq> None"
  "cfg_closed bbs m \<Longrightarrow> set ps \<subseteq> dom m \<Longrightarrow> card (unvisited r m) < n \<Longrightarrow>
     propagate_preds n bbs r ps phi m \<noteq> None"
proof (induction n bbs r b phi m and n bbs r ps phi m rule: propagate_reg_propagate_preds.induct)
  case (2 n bbs r b phi m)
  then obtain d where d: "m b = Some d" by blast
  show ?case
  proof (cases "r \<in> bd_def d \<or> r \<in> live_in d")
    case True
    then show ?thesis using d by auto
  next
    case new: False
    let ?m = "m(b \<mapsto> insert_live_in r d)"
    have b: "b < length bbs" and ps: "set (preds (bbs ! b)) \<subseteq> dom m"
      using "2.prems"(1,2) by (auto simp: cfg_closed_def)
    have g: "grows m ?m" using grows_insert_live_in [of m b d r] d by simp
    have "unvisited r ?m \<subset> unvisited r m"
      using new d grows_unvisited [OF g, of r]
      by (auto simp: unvisited_def insert_live_in_sets block_sets_Some)
    moreover have "finite (unvisited r m)"
      using "2.prems"(1) by (simp add: cfg_closed_def unvisited_def)
    ultimately have "card (unvisited r ?m) < card (unvisited r m)"
      by (intro psubset_card_mono)
    then have "card (unvisited r ?m) < n" using "2.prems"(3) by linarith
    moreover have "set (preds (bbs ! b)) \<subseteq> dom ?m" using ps by auto
    ultimately have "propagate_preds n bbs r (preds (bbs ! b)) phi ?m \<noteq> None"
      using "2.IH" [OF d _ _ b] new grows_cfg_closed [OF g "2.prems"(1)] by blast
    then show ?thesis using d new b by simp
  qed
next
  case (4 n bbs r p ps phi m)
  show ?case
  proof (cases "phi \<noteq> None \<and> phi \<noteq> Some p")
    case True
    then show ?thesis using 4 by simp
  next
    case False
    obtain d where d: "m p = Some d" using "4.prems"(2) by auto
    show ?thesis
    proof (cases "r \<in> live_out d")
      case True
      have "propagate_preds n bbs r ps phi m \<noteq> None"
        using "4.IH"(2) [OF False d True] "4.prems" by simp
      then show ?thesis using False d True by auto
    next
      case new: False
      let ?m = "m(p \<mapsto> insert_live_out r d)"
      have g: "grows m ?m" using grows_insert_live_out [of m p d r] d by simp
      have c: "cfg_closed bbs ?m" by (rule grows_cfg_closed [OF g "4.prems"(1)])
      have u: "card (unvisited r ?m) < n"
        using grows_card_unvisited [OF g "4.prems"(1), of r] "4.prems"(3) by linarith
      obtain m1 where m1: "propagate_reg n bbs r p None ?m = Some m1"
        using "4.IH"(3) [OF False d new c _ u] d by (metis domI fun_upd_same not_None_eq)
      have g1: "grows ?m m1" by (rule prop_grows(1) [OF propagate_prop(1) [OF m1]])
      have "propagate_preds n bbs r ps phi m1 \<noteq> None"
      proof (rule "4.IH"(4) [OF False d new m1])
        show "cfg_closed bbs m1" by (rule grows_cfg_closed [OF g1 c])
        show "set ps \<subseteq> dom m1" using "4.prems"(2) g g1 by (simp add: grows_def)
        show "card (unvisited r m1) < n" using grows_card_unvisited [OF g1 c, of r] u by linarith
      qed
      then show ?thesis using False d new m1 by auto
    qed
  qed
qed auto

subsection \<open>The definitions of the blocks\<close>

definition inst_defs :: "inst_data \<Rightarrow> lreg set" where
  "inst_defs i = Virt ` set (output_vregs i) \<union> Phys ` set (List.map_filter to_reg_unit (output_regs i))"

lemma inst_defs_eq:
  "inst_defs i = Virt ` set (output_vregs i) \<union> Phys ` {u. \<exists>r \<in> set (output_regs i). to_reg_unit r = Some u}"
  by (simp add: inst_defs_def map_filter_set)

definition block_defs :: "code \<Rightarrow> nat \<Rightarrow> lreg set" where
  "block_defs code b = (\<Union>bc \<in> set code. if fst bc = b then \<Union> (inst_defs ` snd ` set (snd bc)) else {})"

lemma those_Some_set: "those xs = Some ys \<Longrightarrow> set ys = {y. Some y \<in> set xs}"
  by (induction xs arbitrary: ys) (auto split: option.splits)

lemma out_units_set: "out_units i = Some us \<Longrightarrow> set us = {u. \<exists>r \<in> set (output_regs i). to_reg_unit r = Some u}"
  unfolding out_units_def by (drule those_Some_set) (auto simp: image_iff eq_commute)

lemma in_units_set: "in_units i = Some us \<Longrightarrow> set us = {u. \<exists>r \<in> set (input_regs i). to_reg_unit r = Some u}"
  unfolding in_units_def by (drule those_Some_set) (auto simp: image_iff eq_commute)

lemma def_insert_sets:
  "DF (def_insert b r m) = (DF m)(b := insert r (DF m b))"
  "LI (def_insert b r m) = LI m" "LO (def_insert b r m) = LO m"
  "dom (def_insert b r m) = insert b (dom m)"
  by (auto simp: block_sets def_insert_def Let_def new_block_data_def fun_eq_iff split: option.splits)

lemma fold_def_insert_sets:
  "DF (fold (\<lambda>x. def_insert b (g x)) xs m) = (DF m)(b := g ` set xs \<union> DF m b)"
  "LI (fold (\<lambda>x. def_insert b (g x)) xs m) = LI m"
  "LO (fold (\<lambda>x. def_insert b (g x)) xs m) = LO m"
  "b \<in> dom m \<Longrightarrow> dom (fold (\<lambda>x. def_insert b (g x)) xs m) = dom m"
proof (induction xs arbitrary: m)
  case (Cons x xs)
  { case 1 show ?case by (rule ext) (simp add: Cons.IH(1) def_insert_sets) }
  { case 2 show ?case by (simp add: Cons.IH(2) def_insert_sets) }
  { case 3 show ?case by (simp add: Cons.IH(3) def_insert_sets) }
  { case 4 then show ?case by (simp add: Cons.IH(4) def_insert_sets insert_absorb) }
qed simp_all

lemma set_def_on_inst_sets:
  assumes "set_def_on_inst b i m = Some m'" "b \<in> dom m"
  shows "DF m' = (DF m)(b := DF m b \<union> inst_defs i)" "LI m' = LI m" "LO m' = LO m" "dom m' = dom m"
proof -
  obtain us where us: "out_units i = Some us"
    and m': "m' = fold (\<lambda>u. def_insert b (Phys u)) us (fold (\<lambda>v. def_insert b (Virt v)) (output_vregs i) m)"
    using assms(1) by (auto simp: set_def_on_inst_def Let_def bind_eq_Some_iff)
  show "DF m' = (DF m)(b := DF m b \<union> inst_defs i)"
    unfolding m' fold_def_insert_sets inst_defs_eq out_units_set [OF us] by (auto simp: fun_eq_iff)
  show "LI m' = LI m" "LO m' = LO m" unfolding m' fold_def_insert_sets by simp_all
  show "dom m' = dom m"
    unfolding m' using assms(2) by (simp add: fold_def_insert_sets(4))
qed

lemma set_def_insts_sets:
  assumes "fold_opt (\<lambda>i. set_def_on_inst b (snd i)) is m = Some m'" "b \<in> dom m"
  shows "DF m' = (DF m)(b := DF m b \<union> \<Union> (inst_defs ` snd ` set is)) \<and> LI m' = LI m \<and> LO m' = LO m \<and> dom m' = dom m"
  using assms
proof (induction "is" arbitrary: m)
  case (Cons i "is")
  obtain m1 where m1: "set_def_on_inst b (snd i) m = Some m1"
    and rest: "fold_opt (\<lambda>i. set_def_on_inst b (snd i)) is m1 = Some m'"
    using Cons.prems(1) by (auto simp: bind_eq_Some_iff)
  note sets = set_def_on_inst_sets [OF m1 Cons.prems(2)]
  show ?case using Cons.IH [OF rest] Cons.prems(2) unfolding sets by (auto simp: fun_eq_iff)
qed auto

lemma or_insert_new_sets:
  "DF (or_insert m b new_block_data) = DF m" "LI (or_insert m b new_block_data) = LI m"
  "LO (or_insert m b new_block_data) = LO m" "dom (or_insert m b new_block_data) = insert b (dom m)"
  unfolding or_insert_def by (auto simp: block_sets new_block_data_def fun_eq_iff split: option.split)

lemma set_def_sets:
  assumes "set_def code m = Some m'" "distinct (map fst code)"
  shows "DF m' = (\<lambda>b. DF m b \<union> block_defs code b) \<and> LI m' = LI m \<and> LO m' = LO m
     \<and> dom m' = dom m \<union> fst ` set code"
  using assms
proof (induction code arbitrary: m)
  case Nil
  then show ?case by (auto simp: set_def_def block_defs_def)
next
  case (Cons bc code)
  obtain b "is" where bc: "bc = (b, is)" by fastforce
  obtain m1 where m1: "set_def_block bc m = Some m1" and rest: "set_def code m1 = Some m'"
    using Cons.prems(1) by (auto simp: set_def_def bind_eq_Some_iff)
  let ?m = "or_insert m b new_block_data"
  have s1: "DF m1 = (DF ?m)(b := DF ?m b \<union> \<Union> (inst_defs ` snd ` set is)) \<and> LI m1 = LI ?m \<and> LO m1 = LO ?m \<and> dom m1 = dom ?m"
    using m1 set_def_insts_sets [of b "is" ?m m1] unfolding bc set_def_block_def
    by (simp add: or_insert_new_sets(4))
  have IH: "DF m' = (\<lambda>b. DF m1 b \<union> block_defs code b) \<and> LI m' = LI m1 \<and> LO m' = LO m1 \<and> dom m' = dom m1 \<union> fst ` set code"
    using Cons.IH [OF rest] Cons.prems(2) by simp
  have defs: "block_defs (bc # code) c = (if c = b then \<Union> (inst_defs ` snd ` set is) \<union> block_defs code c else block_defs code c)" for c
    unfolding block_defs_def bc by simp
  show ?case
    using IH s1 defs by (simp add: bc or_insert_new_sets fun_eq_iff) blast
qed

end
