(* ===== verification/Liveness_Analysis.thy ===== *)
theory Liveness_Analysis
  imports Liveness_Flow
begin

section \<open>The analysis as a whole\<close>

text \<open>
  Results about \<open>analyze_function\<close>: on a well-formed function it never panics, the live-in
  and live-out sets are justified by paths to uses, and without phi instructions they are exactly
  the sets that the path definition of liveness gives.
\<close>

definition code_uses :: "code \<Rightarrow> nat \<Rightarrow> (lreg \<times> nat option) set" where
  "code_uses code b = (\<Union>bc \<in> set code. if fst bc = b
     then (\<Union>i \<in> set (snd bc). case inst_uses (snd i) of None \<Rightarrow> {} | Some us \<Rightarrow> set us) else {})"

definition regs_ok :: "inst_data \<Rightarrow> bool" where
  "regs_ok i \<longleftrightarrow> (\<forall>r \<in> set (input_regs i) \<union> set (output_regs i). to_reg_unit r \<noteq> None)"

text \<open>
  What the lowering guarantees: block identifiers are distinct indices of the block arena,
  predecessors are blocks of the function, and registers belong to the class \<open>GR\<close>.
\<close>

definition code_ok :: "basic_block list \<Rightarrow> code \<Rightarrow> bool" where
  "code_ok bbs code \<longleftrightarrow> distinct (map fst code)
     \<and> (\<forall>b \<in> set (map fst code). b < length bbs \<and> set (preds (bbs ! b)) \<subseteq> set (map fst code))
     \<and> (\<forall>bc \<in> set code. \<forall>i \<in> set (snd bc). regs_ok (snd i))"

definition phi_free :: "code \<Rightarrow> bool" where
  "phi_free code \<longleftrightarrow> (\<forall>bc \<in> set code. \<forall>i \<in> set (snd bc). \<not> is_phi (snd i))"

text \<open>A register is live at the start of a path whose blocks do not define it and whose last block uses it.\<close>

fun live_path :: "basic_block list \<Rightarrow> code \<Rightarrow> lreg \<Rightarrow> nat list \<Rightarrow> bool" where
  "live_path bbs code r [] = False"
| "live_path bbs code r [b] = (r \<notin> block_defs code b \<and> r \<in> fst ` code_uses code b)"
| "live_path bbs code r (b # c # bs) =
     (r \<notin> block_defs code b \<and> b \<in> set (preds (bbs ! c)) \<and> live_path bbs code r (c # bs))"

definition live_at_entry :: "basic_block list \<Rightarrow> code \<Rightarrow> lreg \<Rightarrow> nat \<Rightarrow> bool" where
  "live_at_entry bbs code r b \<longleftrightarrow> (\<exists>bs. live_path bbs code r (b # bs))"

definition live_at_exit :: "basic_block list \<Rightarrow> code \<Rightarrow> lreg \<Rightarrow> nat \<Rightarrow> bool" where
  "live_at_exit bbs code r b \<longleftrightarrow> (\<exists>c. b \<in> set (preds (bbs ! c)) \<and> live_at_entry bbs code r c)"

lemma live_at_entry_use: "r \<notin> block_defs code b \<Longrightarrow> r \<in> fst ` code_uses code b \<Longrightarrow> live_at_entry bbs code r b"
  unfolding live_at_entry_def by (rule exI [of _ "[]"]) simp

lemma live_at_entry_step:
  assumes "r \<notin> block_defs code b" "live_at_exit bbs code r b"
  shows "live_at_entry bbs code r b"
proof -
  obtain c bs where "b \<in> set (preds (bbs ! c))" "live_path bbs code r (c # bs)"
    using assms(2) by (auto simp: live_at_exit_def live_at_entry_def)
  then have "live_path bbs code r (b # c # bs)" using assms(1) by simp
  then show ?thesis unfolding live_at_entry_def by blast
qed

subsection \<open>Soundness of the propagation\<close>

definition justified :: "basic_block list \<Rightarrow> code \<Rightarrow> block_map \<Rightarrow> bool" where
  "justified bbs code m \<longleftrightarrow> DF m = block_defs code
     \<and> (\<forall>b r. r \<in> LI m b \<longrightarrow> live_at_entry bbs code r b)
     \<and> (\<forall>b r. r \<in> LO m b \<longrightarrow> live_at_exit bbs code r b)"

lemma prop_justified:
  "prop_reg bbs r b phi m m' \<Longrightarrow> justified bbs code m \<Longrightarrow>
     (r \<notin> block_defs code b \<longrightarrow> live_at_entry bbs code r b) \<Longrightarrow> justified bbs code m'"
  "prop_preds bbs r ps phi m m' \<Longrightarrow> justified bbs code m \<Longrightarrow>
     (\<forall>p \<in> set ps. live_at_exit bbs code r p) \<Longrightarrow> justified bbs code m'"
proof (induction rule: prop_reg_prop_preds.inducts)
  case (enter m b d phi m')
  note sets = insert_live_in_sets [of m b d r, OF enter(1)]
  have nd: "r \<notin> block_defs code b"
    using enter(2) enter(7) block_sets_Some(1) [of m b d, OF enter(1)] by (simp add: justified_def)
  then have l: "live_at_entry bbs code r b" using enter(8) by blast
  have "justified bbs code (m(b \<mapsto> insert_live_in r d))"
    using enter(7) l unfolding justified_def sets by auto
  moreover have "\<forall>p \<in> set (preds (bbs ! b)). live_at_exit bbs code r p"
    using l by (auto simp: live_at_exit_def)
  ultimately show ?case by (rule enter(6))
next
  case (follow phi p m d m1 ps m')
  note sets = insert_live_out_sets [of m p d r, OF follow(2)]
  have l: "live_at_exit bbs code r p" using follow(9) by simp
  have "justified bbs code (m(p \<mapsto> insert_live_out r d))"
    using follow(8) l unfolding justified_def sets by auto
  then have "justified bbs code m1"
    using follow(5) live_at_entry_step [OF _ l] by blast
  then show ?case using follow(7,9) by simp
qed auto

subsection \<open>Visiting all uses\<close>

definition outs_closed :: "block_map \<Rightarrow> bool" where
  "outs_closed m \<longleftrightarrow> (\<forall>c r. r \<in> LO m c \<longrightarrow> r \<in> DF m c \<or> r \<in> LI m c)"

definition ins_closed :: "basic_block list \<Rightarrow> block_map \<Rightarrow> bool" where
  "ins_closed bbs m \<longleftrightarrow> (\<forall>c r. r \<in> LI m c \<longrightarrow> (\<forall>p \<in> set (preds (bbs ! c)). r \<in> LO m p))"

definition use_done :: "lreg \<Rightarrow> nat \<Rightarrow> block_map \<Rightarrow> bool" where
  "use_done r b m \<longleftrightarrow> r \<in> DF m b \<or> r \<in> LI m b"

lemma grows_use_done: "grows m m' \<Longrightarrow> use_done r b m \<Longrightarrow> use_done r b m'"
  unfolding use_done_def grows_def by (metis subsetD)

lemma prop_reg_outs_closed:
  assumes "prop_reg bbs r b phi m m'" "outs_closed m"
  shows "outs_closed m'"
proof -
  have g: "grows m m'" by (rule prop_grows(1) [OF assms(1)])
  have c: "closes bbs r (\<lambda>c p. c = b \<longrightarrow> phi = None \<or> phi = Some p) m m'"
    using prop_closes(1) [OF assms(1)] by blast
  show ?thesis
    unfolding outs_closed_def
  proof (intro allI impI)
    fix c s assume s: "s \<in> LO m' c"
    show "s \<in> DF m' c \<or> s \<in> LI m' c"
    proof (cases "s \<in> LO m c")
      case True
      then have "s \<in> DF m c \<or> s \<in> LI m c" using assms(2) by (simp add: outs_closed_def)
      then show ?thesis using g unfolding grows_def by (metis subsetD)
    next
      case False
      then show ?thesis using c s unfolding closes_def by blast
    qed
  qed
qed

lemma prop_reg_ins_closed:
  assumes "prop_reg bbs r b None m m'" "ins_closed bbs m"
  shows "ins_closed bbs m'"
proof -
  have g: "grows m m'" by (rule prop_grows(1) [OF assms(1)])
  have c: "closes bbs r (\<lambda>c p. True) m m'"
    using prop_closes(1) [OF assms(1)] by simp
  show ?thesis
    unfolding ins_closed_def
  proof (intro allI impI ballI)
    fix c s p assume s: "s \<in> LI m' c" and p: "p \<in> set (preds (bbs ! c))"
    show "s \<in> LO m' p"
    proof (cases "s \<in> LI m c")
      case True
      then have "s \<in> LO m p" using assms(2) p by (simp add: ins_closed_def)
      then show ?thesis using g unfolding grows_def by blast
    next
      case False
      then show ?thesis using c s p unfolding closes_def by blast
    qed
  qed
qed

text \<open>The state of the visit: the facts every propagation keeps.\<close>

definition visit_inv :: "basic_block list \<Rightarrow> code \<Rightarrow> block_map \<Rightarrow> bool" where
  "visit_inv bbs code m \<longleftrightarrow> dom m = set (map fst code) \<and> justified bbs code m \<and> outs_closed m
     \<and> (phi_free code \<longrightarrow> ins_closed bbs m)"

lemma code_ok_cfg_closed: "code_ok bbs code \<Longrightarrow> dom m = set (map fst code) \<Longrightarrow> cfg_closed bbs m"
  by (auto simp: code_ok_def cfg_closed_def)

lemma card_unvisited_le:
  assumes ok: "code_ok bbs code" and m: "dom m = set (map fst code)"
  shows "card (unvisited r m) \<le> length bbs"
proof -
  have "unvisited r m \<subseteq> {..< length bbs}" using ok m by (auto simp: code_ok_def unvisited_def)
  then show ?thesis using card_mono [of "{..< length bbs}" "unvisited r m"] by simp
qed

lemma propagate_use:
  assumes ok: "code_ok bbs code" and inv: "visit_inv bbs code m" and b: "b \<in> set (map fst code)"
    and use: "(r, phi) \<in> code_uses code b" and phi: "phi_free code \<Longrightarrow> phi = None"
  shows "\<exists>m'. propagate_reg (Suc (length bbs)) bbs r b phi m = Some m'
    \<and> visit_inv bbs code m' \<and> grows m m' \<and> use_done r b m'"
proof -
  have dm: "dom m = set (map fst code)" using inv by (simp add: visit_inv_def)
  have "propagate_reg (Suc (length bbs)) bbs r b phi m \<noteq> None"
    using propagate_total(1) [OF code_ok_cfg_closed [OF ok dm]] card_unvisited_le [OF ok dm] b
    by (simp add: dm less_Suc_eq_le del: propagate_reg.simps)
  then obtain m' where m': "propagate_reg (Suc (length bbs)) bbs r b phi m = Some m'" by blast
  note run = propagate_prop(1) [OF m']
  have g: "grows m m'" by (rule prop_grows(1) [OF run])
  have "r \<in> fst ` code_uses code b" using use by force
  then have "justified bbs code m'"
    using prop_justified(1) [OF run] inv live_at_entry_use by (metis visit_inv_def)
  moreover have "outs_closed m'" using prop_reg_outs_closed [OF run] inv by (simp add: visit_inv_def)
  moreover have "phi_free code \<longrightarrow> ins_closed bbs m'"
    using prop_reg_ins_closed [of bbs r b m m'] run phi inv by (auto simp: visit_inv_def)
  moreover have "dom m' = set (map fst code)" using g dm by (simp add: grows_def)
  moreover have "use_done r b m'" using prop_closes(1) [OF run] by (simp add: use_done_def)
  ultimately show ?thesis using m' g by (simp add: visit_inv_def)
qed

text \<open>A loop whose steps keep an invariant and establish a stable fact each.\<close>

lemma fold_opt_establish:
  assumes "P s"
    and "\<And>x t. x \<in> set xs \<Longrightarrow> P t \<Longrightarrow> \<exists>t'. g x t = Some t' \<and> P t' \<and> R t t' \<and> Q x t'"
    and "\<And>x t t'. R t t' \<Longrightarrow> Q x t \<Longrightarrow> Q x t'"
    and "\<And>t. R t t" and "\<And>t t' t''. R t t' \<Longrightarrow> R t' t'' \<Longrightarrow> R t t''"
  shows "\<exists>s'. fold_opt g xs s = Some s' \<and> P s' \<and> R s s' \<and> (\<forall>x \<in> set xs. Q x s')"
  using assms(1,2)
proof (induction xs arbitrary: s)
  case Nil
  then show ?case using assms(4) by simp
next
  case (Cons x xs)
  obtain t where t: "g x s = Some t" "P t" "R s t" "Q x t"
    using Cons.prems(1) Cons.prems(2) [of x s] by auto
  obtain s' where s': "fold_opt g xs t = Some s'" "P s'" "R t s'" "\<forall>x \<in> set xs. Q x s'"
    using Cons.IH [OF t(2)] Cons.prems(2) by auto
  then have "Q x s'" using assms(3) t(4) by blast
  then show ?case using t s' assms(5) by auto
qed

definition inst_done :: "nat \<Rightarrow> nat \<times> inst_data \<Rightarrow> block_map \<Rightarrow> bool" where
  "inst_done b i m \<longleftrightarrow> (\<forall>us. inst_uses (snd i) = Some us \<longrightarrow> (\<forall>u \<in> set us. use_done (fst u) b m))"

lemma grows_inst_done: "grows m m' \<Longrightarrow> inst_done b i m \<Longrightarrow> inst_done b i m'"
  unfolding inst_done_def using grows_use_done by blast

lemma those_total: "(\<And>x. x \<in> set xs \<Longrightarrow> g x \<noteq> None) \<Longrightarrow> those (map g xs) \<noteq> None"
  by (induction xs) (force split: option.split)+

lemma regs_ok_units:
  assumes "regs_ok i"
  shows "in_units i \<noteq> None" "out_units i \<noteq> None"
  unfolding in_units_def out_units_def
  by (rule those_total; use assms in \<open>simp add: regs_ok_def\<close>)+

lemma inst_uses_no_phi: "\<not> is_phi i \<Longrightarrow> inst_uses i = Some us \<Longrightarrow> u \<in> set us \<Longrightarrow> snd u = None"
  by (auto simp: inst_uses_def bind_eq_Some_iff)

lemma visit_inst_step:
  assumes ok: "code_ok bbs code" and inv: "visit_inv bbs code m"
    and bc: "bc \<in> set code" and i: "i \<in> set (snd bc)"
  shows "\<exists>m'. visit_inst (Suc (length bbs)) bbs (fst bc) (snd i) m = Some m'
    \<and> visit_inv bbs code m' \<and> grows m m' \<and> inst_done (fst bc) i m'"
proof -
  have "regs_ok (snd i)" using ok bc i by (simp add: code_ok_def)
  then obtain us where us: "inst_uses (snd i) = Some us"
    using regs_ok_units by (fastforce simp: inst_uses_def)
  have b: "fst bc \<in> set (map fst code)" using bc by simp
  have "\<exists>m'. fold_opt (\<lambda>(r, phi). propagate_reg (Suc (length bbs)) bbs r (fst bc) phi) us m = Some m'
      \<and> visit_inv bbs code m' \<and> grows m m' \<and> (\<forall>u \<in> set us. use_done (fst u) (fst bc) m')"
  proof (rule fold_opt_establish [where P = "visit_inv bbs code" and R = grows
      and Q = "\<lambda>u. use_done (fst u) (fst bc)", OF inv])
    fix u t assume u: "u \<in> set us" and t: "visit_inv bbs code t"
    have mem: "(fst u, snd u) \<in> code_uses code (fst bc)"
      using u us bc i by (force simp: code_uses_def)
    have ph: "phi_free code \<Longrightarrow> snd u = None"
      using inst_uses_no_phi [OF _ us u] bc i by (auto simp: phi_free_def)
    show "\<exists>t'. (\<lambda>(r, phi). propagate_reg (Suc (length bbs)) bbs r (fst bc) phi) u t = Some t'
        \<and> visit_inv bbs code t' \<and> grows t t' \<and> use_done (fst u) (fst bc) t'"
      using propagate_use [OF ok t b mem ph] by (simp add: case_prod_beta)
  qed (auto intro: grows_use_done grows_trans)
  then show ?thesis
    using us by (simp add: visit_inst_def inst_done_def)
qed

lemma visit_correct:
  assumes ok: "code_ok bbs code" and inv: "visit_inv bbs code m"
  shows "\<exists>m'. visit bbs code m = Some m' \<and> visit_inv bbs code m' \<and> grows m m'
    \<and> (\<forall>b. \<forall>u \<in> code_uses code b. use_done (fst u) b m')"
proof -
  have "\<exists>m'. visit bbs code m = Some m' \<and> visit_inv bbs code m' \<and> grows m m'
      \<and> (\<forall>bc \<in> set code. \<forall>i \<in> set (snd bc). inst_done (fst bc) i m')"
    unfolding visit_def
  proof (rule fold_opt_establish [where P = "visit_inv bbs code" and R = grows
      and Q = "\<lambda>bc m. \<forall>i \<in> set (snd bc). inst_done (fst bc) i m", OF inv])
    fix bc t assume bc: "bc \<in> set code" and t: "visit_inv bbs code t"
    show "\<exists>t'. fold_opt (\<lambda>i. visit_inst (Suc (length bbs)) bbs (fst bc) (snd i)) (snd bc) t = Some t'
        \<and> visit_inv bbs code t' \<and> grows t t' \<and> (\<forall>i \<in> set (snd bc). inst_done (fst bc) i t')"
      by (rule fold_opt_establish [where P = "visit_inv bbs code" and R = grows and Q = "inst_done (fst bc)", OF t])
        (auto intro: visit_inst_step [OF ok _ bc] grows_inst_done grows_trans)
  qed (auto intro: grows_inst_done grows_trans)
  then obtain m' where m': "visit bbs code m = Some m'" "visit_inv bbs code m'" "grows m m'"
    "\<forall>bc \<in> set code. \<forall>i \<in> set (snd bc). inst_done (fst bc) i m'" by blast
  have "use_done (fst u) b m'" if u: "u \<in> code_uses code b" for u b
  proof -
    obtain bc i us where "bc \<in> set code" "fst bc = b" "i \<in> set (snd bc)" "inst_uses (snd i) = Some us" "u \<in> set us"
      using u by (auto simp: code_uses_def split: if_splits option.splits)
    then show ?thesis using m'(4) by (auto simp: inst_done_def)
  qed
  then show ?thesis using m' by blast
qed

end
