(* ===== verification/Liveness_Ranges.thy ===== *)
theory Liveness_Ranges
  imports Liveness_Analysis
begin

section \<open>Program points and live ranges cover the code\<close>

text \<open>
  \<open>compute_program_points\<close> gives the instructions of a block the numbers 16, 32, ... and every
  virtual register one segment per block.  The lemmas show that the scan does not panic when the
  live-out sets are closed, and that the segments contain every instruction that touches the register,
  start at the block entry for a live-in register and reach the block exit for a live-out one.
\<close>

definition pt :: "32 word \<Rightarrow> nat \<Rightarrow> program_point" where
  "pt n k = PP n (of_nat (16 * k))"

lemma pt_zero: "PP n 0 = pt n 0"
  by (simp add: pt_def)

lemma pt_le_iff:
  assumes "16 * a < 2 ^ 32" "16 * b < 2 ^ 32"
  shows "pt n a \<le> pt n b \<longleftrightarrow> a \<le> b"
proof -
  have "unat (of_nat (16 * a) :: 32 word) = 16 * a" "unat (of_nat (16 * b) :: 32 word) = 16 * b"
    using assms by (simp_all only: unat_of_nat len_of_numeral_defs, simp_all)
  then show ?thesis by (simp add: pt_def less_eq_program_point_def word_le_nat_alt del: of_nat_mult)
qed

definition touched :: "inst_data \<Rightarrow> vreg set" where
  "touched i = set (input_vregs i) \<union> set (output_vregs i)"

definition spans :: "live_segment \<Rightarrow> 32 word \<Rightarrow> nat \<Rightarrow> nat \<Rightarrow> nat \<Rightarrow> bool" where
  "spans x n e a c \<longleftrightarrow> (\<exists>a' c'. seg_start x = pt n a' \<and> seg_end x = pt n c' \<and> a' \<le> a \<and> c \<le> c' \<and> a' \<le> c' \<and> c' \<le> e)"

definition covers :: "(vreg \<rightharpoonup> live_segment) \<Rightarrow> vreg \<Rightarrow> 32 word \<Rightarrow> nat \<Rightarrow> nat \<Rightarrow> nat \<Rightarrow> bool" where
  "covers m v n e a c \<longleftrightarrow> (\<exists>x. m v = Some x \<and> spans x n e a c)"

definition well_numbered :: "(vreg \<rightharpoonup> live_segment) \<Rightarrow> 32 word \<Rightarrow> nat \<Rightarrow> bool" where
  "well_numbered m n e \<longleftrightarrow> (\<forall>v x. m v = Some x \<longrightarrow>
     (\<exists>a c. seg_start x = pt n a \<and> seg_end x = pt n c \<and> a \<le> c \<and> c \<le> e))"

lemma well_numberedE:
  assumes "well_numbered m n e" "m v = Some x"
  obtains a c where "seg_start x = pt n a" "seg_end x = pt n c" "a \<le> c" "c \<le> e"
  using assms unfolding well_numbered_def by meson

lemma coversD: "covers m v n e a c \<Longrightarrow> m v \<noteq> None"
  by (auto simp: covers_def)

lemma covers_mono: "covers m v n e a c \<Longrightarrow> e \<le> e' \<Longrightarrow> covers m v n e' a c"
  unfolding covers_def spans_def by (meson order_trans)

lemma touch_vreg_well_numbered:
  assumes "well_numbered m n e" "s \<le> e"
  shows "well_numbered (touch_vreg (pt n s) (pt n e) v m) n e"
  unfolding well_numbered_def
proof (intro allI impI)
  fix w x assume x: "touch_vreg (pt n s) (pt n e) v m w = Some x"
  show "\<exists>a c. seg_start x = pt n a \<and> seg_end x = pt n c \<and> a \<le> c \<and> c \<le> e"
  proof (cases "w = v")
    case False
    then have "m w = Some x" using x by (simp add: touch_vreg_def Let_def)
    then show ?thesis using assms(1) by (simp add: well_numbered_def)
  next
    case True
    show ?thesis
    proof (cases "m v")
      case None
      then have "seg_start x = pt n s \<and> seg_end x = pt n e"
        using x True by (auto simp: touch_vreg_def Let_def)
      then show ?thesis using assms(2) by blast
    next
      case (Some y)
      obtain a c where "seg_start y = pt n a" "a \<le> c" "c \<le> e"
        by (rule well_numberedE [OF assms(1) Some])
      moreover have "seg_start x = seg_start y \<and> seg_end x = pt n e"
        using x True Some by (auto simp: touch_vreg_def Let_def)
      ultimately have "seg_start x = pt n a \<and> seg_end x = pt n e \<and> a \<le> e \<and> e \<le> e" by simp
      then show ?thesis by blast
    qed
  qed
qed

lemma touch_vreg_covers:
  assumes "well_numbered m n e" "covers m w n e a c"
  shows "covers (touch_vreg (pt n s) (pt n e) v m) w n e a c"
proof (cases "w = v")
  case False
  then show ?thesis using assms(2) by (simp add: covers_def touch_vreg_def Let_def)
next
  case True
  obtain x where x: "m v = Some x" "spans x n e a c"
    using assms(2) True by (auto simp: covers_def)
  then obtain a' where "seg_start x = pt n a'" "a' \<le> a" "a' \<le> e" "c \<le> e"
    by (auto simp: spans_def)
  then have "spans (x\<lparr>seg_end := pt n e\<rparr>) n e a c" by (auto simp: spans_def)
  then show ?thesis using True x(1) by (simp add: covers_def touch_vreg_def Let_def)
qed

lemma touch_vreg_covers_self:
  assumes "well_numbered m n e" "s \<le> e"
  shows "covers (touch_vreg (pt n s) (pt n e) v m) v n e e e"
proof (cases "m v")
  case None
  then show ?thesis using assms(2) by (auto simp: covers_def spans_def touch_vreg_def Let_def)
next
  case (Some x)
  obtain a c where "seg_start x = pt n a" "a \<le> c" "c \<le> e"
    by (rule well_numberedE [OF assms(1) Some])
  then have "seg_start x = pt n a \<and> a \<le> e" by simp
  then have "spans (x\<lparr>seg_end := pt n e\<rparr>) n e e e" by (auto simp: spans_def)
  then show ?thesis using Some by (simp add: covers_def touch_vreg_def Let_def)
qed

lemma fold_touch_vreg:
  assumes "well_numbered m n e" "s \<le> e"
  shows "well_numbered (fold (touch_vreg (pt n s) (pt n e)) vs m) n e
    \<and> (\<forall>w a c. covers m w n e a c \<longrightarrow> covers (fold (touch_vreg (pt n s) (pt n e)) vs m) w n e a c)
    \<and> (\<forall>v \<in> set vs. covers (fold (touch_vreg (pt n s) (pt n e)) vs m) v n e e e)"
  using assms
proof (induction vs arbitrary: m)
  case (Cons v vs)
  let ?m = "touch_vreg (pt n s) (pt n e) v m"
  have w: "well_numbered ?m n e" by (rule touch_vreg_well_numbered [OF Cons.prems])
  show ?case
    using Cons.IH [OF w Cons.prems(2)] touch_vreg_covers [OF Cons.prems(1)]
      touch_vreg_covers_self [OF Cons.prems] by simp
qed simp

definition has_seg :: "(reg_unit \<rightharpoonup> live_range) \<Rightarrow> reg_unit \<Rightarrow> bool" where
  "has_seg m u \<longleftrightarrow> (case m u of None \<Rightarrow> False | Some xs \<Rightarrow> xs \<noteq> [])"

lemma fold_touch_reg_present:
  "u \<in> set us \<or> has_seg m u \<Longrightarrow> has_seg (fold (touch_reg pp) us m) u"
proof (induction us arbitrary: m)
  case (Cons w us)
  have "u \<in> set us \<or> has_seg (touch_reg pp w m) u"
    using Cons.prems by (cases "u = w") (auto simp: touch_reg_def has_seg_def)
  then show ?case using Cons.IH by simp
qed simp

subsection \<open>The scan of a block\<close>

definition scanned :: "32 word \<Rightarrow> block_data \<Rightarrow> (nat \<times> inst_data) list \<Rightarrow> local_lrs \<Rightarrow> bool" where
  "scanned n d is s \<longleftrightarrow>
     loc_num s = of_nat (16 * (length is + 1))
   \<and> well_numbered (loc_vreg s) n (length is)
   \<and> (\<forall>v. Virt v \<in> live_in d \<longrightarrow> covers (loc_vreg s) v n (length is) 0 0)
   \<and> (\<forall>j < length is. \<forall>v \<in> touched (snd (is ! j)). covers (loc_vreg s) v n (length is) (j + 1) (j + 1))
   \<and> (\<forall>u. Phys u \<in> live_in d \<longrightarrow> has_seg (loc_reg s) u)
   \<and> (\<forall>i \<in> set is. \<forall>u. Phys u \<in> inst_defs (snd i) \<longrightarrow> has_seg (loc_reg s) u)"

lemma scanned_start: "scanned n d [] (live_in_segments n d pps)"
  by (auto simp: scanned_def live_in_segments_def STEP_def well_numbered_def covers_def spans_def new_point_def pt_zero has_seg_def
      split: if_splits)

lemma well_numbered_mono: "well_numbered m n e \<Longrightarrow> e \<le> e' \<Longrightarrow> well_numbered m n e'"
  unfolding well_numbered_def by (meson order_trans)

lemma scan_inst_step:
  assumes sc: "scanned n d is s" and ok: "regs_ok (snd i)"
  shows "\<exists>s'. scan_inst n i s = Some s' \<and> scanned n d (is @ [i]) s'
    \<and> loc_pp s' = (loc_pp s)(fst i \<mapsto> pt n (length is + 1))"
proof -
  let ?e = "length is + 1"
  let ?pp = "PP n (loc_num s)"
  have pp: "?pp = pt n ?e" using sc by (simp add: scanned_def pt_def)
  obtain ius ous where ius: "in_units (snd i) = Some ius" and ous: "out_units (snd i) = Some ous"
    using regs_ok_units [OF ok] by blast
  let ?m0 = "loc_vreg s"
  let ?m1 = "fold (touch_vreg (pt n 0) (pt n ?e)) (input_vregs (snd i)) ?m0"
  let ?m2 = "fold (touch_vreg (pt n ?e) (pt n ?e)) (output_vregs (snd i)) ?m1"
  let ?r1 = "fold (touch_reg ?pp) ius (loc_reg s)"
  let ?r2 = "fold (touch_reg ?pp) ous ?r1"
  let ?s = "\<lparr>loc_vreg = ?m2, loc_reg = ?r2, loc_pp = (loc_pp s)(fst i \<mapsto> ?pp), loc_num = loc_num s + STEP\<rparr>"
  have run: "scan_inst n i s = Some ?s"
    using ius ous by (simp add: scan_inst_def Let_def pp pt_zero)
  have w0: "well_numbered ?m0 n ?e"
    using sc well_numbered_mono [of ?m0 n "length is" ?e] by (simp add: scanned_def)
  have f1: "well_numbered ?m1 n ?e" "\<And>w a c. covers ?m0 w n ?e a c \<Longrightarrow> covers ?m1 w n ?e a c"
    "\<And>v. v \<in> set (input_vregs (snd i)) \<Longrightarrow> covers ?m1 v n ?e ?e ?e"
    using fold_touch_vreg [OF w0, of 0 "input_vregs (snd i)"] by auto
  have f2: "well_numbered ?m2 n ?e" "\<And>w a c. covers ?m1 w n ?e a c \<Longrightarrow> covers ?m2 w n ?e a c"
    "\<And>v. v \<in> set (output_vregs (snd i)) \<Longrightarrow> covers ?m2 v n ?e ?e ?e"
    using fold_touch_vreg [OF f1(1), of ?e "output_vregs (snd i)"] by auto
  have old: "covers ?m2 w n ?e a c" if "covers ?m0 w n (length is) a c" for w a c
    using f1(2) f2(2) covers_mono [OF that, of ?e] by simp
  have new: "covers ?m2 v n ?e ?e ?e" if "v \<in> touched (snd i)" for v
    using that f1(3) f2(2) [of v ?e ?e] f2(3) by (auto simp: touched_def)
  have regs: "has_seg ?r2 u" if "has_seg (loc_reg s) u \<or> u \<in> set ous" for u
    using that fold_touch_reg_present [of u ous ?r1 ?pp] fold_touch_reg_present [of u ius "loc_reg s" ?pp] by blast
  have "scanned n d (is @ [i]) ?s"
    unfolding scanned_def
  proof (intro conjI)
    show "loc_num ?s = of_nat (16 * (length (is @ [i]) + 1))"
      using sc by (simp add: scanned_def STEP_def)
    show "well_numbered (loc_vreg ?s) n (length (is @ [i]))" using f2(1) by simp
    show "\<forall>v. Virt v \<in> live_in d \<longrightarrow> covers (loc_vreg ?s) v n (length (is @ [i])) 0 0"
      using sc old by (simp add: scanned_def)
    show "\<forall>j < length (is @ [i]). \<forall>v \<in> touched (snd ((is @ [i]) ! j)). covers (loc_vreg ?s) v n (length (is @ [i])) (j + 1) (j + 1)"
      using sc old new by (auto simp: scanned_def nth_append less_Suc_eq)
    show "\<forall>u. Phys u \<in> live_in d \<longrightarrow> has_seg (loc_reg ?s) u"
      using sc regs by (simp add: scanned_def)
    show "\<forall>j \<in> set (is @ [i]). \<forall>u. Phys u \<in> inst_defs (snd j) \<longrightarrow> has_seg (loc_reg ?s) u"
      using sc regs out_units_set [OF ous] by (auto simp: scanned_def inst_defs_eq)
  qed
  then show ?thesis using run pp by simp
qed

lemma scan_insts:
  assumes "\<forall>i \<in> set js. regs_ok (snd i)" "scanned n d is s"
  shows "\<exists>s'. fold_opt (scan_inst n) js s = Some s' \<and> scanned n d (is @ js) s'
    \<and> (distinct (map fst js) \<longrightarrow> (\<forall>k < length js. loc_pp s' (fst (js ! k)) = Some (pt n (length is + k + 1))))
    \<and> (\<forall>x. x \<notin> fst ` set js \<longrightarrow> loc_pp s' x = loc_pp s x)"
  using assms
proof (induction js arbitrary: "is" s)
  case (Cons i js)
  obtain s1 where s1: "scan_inst n i s = Some s1" "scanned n d (is @ [i]) s1"
    "loc_pp s1 = (loc_pp s)(fst i \<mapsto> pt n (length is + 1))"
    using scan_inst_step [OF Cons.prems(2), of i] Cons.prems(1) by auto
  obtain s' where s': "fold_opt (scan_inst n) js s1 = Some s'" "scanned n d ((is @ [i]) @ js) s'"
    "distinct (map fst js) \<longrightarrow> (\<forall>k < length js. loc_pp s' (fst (js ! k)) = Some (pt n (length (is @ [i]) + k + 1)))"
    "\<forall>x. x \<notin> fst ` set js \<longrightarrow> loc_pp s' x = loc_pp s1 x"
    using Cons.IH [OF _ s1(2)] Cons.prems(1) by auto
  have "loc_pp s' (fst ((i # js) ! k)) = Some (pt n (length is + k + 1))"
    if "distinct (map fst (i # js))" "k < length (i # js)" for k
    using that s'(3,4) s1(3) by (cases k) auto
  then show ?case using s1 s' by auto
qed simp

subsection \<open>From the local segments to the live ranges\<close>

definition ranges :: "('k \<rightharpoonup> live_range) \<Rightarrow> 'k \<Rightarrow> live_range" where
  "ranges m k = (case m k of None \<Rightarrow> [] | Some xs \<Rightarrow> xs)"

lemma ranges_push: "ranges (push_ranges loc m) k = ranges m k @ ranges loc k"
  by (auto simp: ranges_def push_ranges_def split: option.splits)

definition range_spans :: "liveness \<Rightarrow> vreg \<Rightarrow> 32 word \<Rightarrow> nat \<Rightarrow> nat \<Rightarrow> nat \<Rightarrow> bool" where
  "range_spans lv v n e a c \<longleftrightarrow> (\<exists>x \<in> set (ranges (vreg_lrs_map lv) v). spans x n e a c)"

definition lrs_extend :: "liveness \<Rightarrow> liveness \<Rightarrow> bool" where
  "lrs_extend lv lv' \<longleftrightarrow> block_data lv' = block_data lv
     \<and> (\<forall>v. set (ranges (vreg_lrs_map lv) v) \<subseteq> set (ranges (vreg_lrs_map lv') v))"

lemma lrs_extend_refl: "lrs_extend lv lv"
  by (simp add: lrs_extend_def)

lemma lrs_extend_trans: "lrs_extend a b \<Longrightarrow> lrs_extend b c \<Longrightarrow> lrs_extend a c"
  unfolding lrs_extend_def by (metis order_trans)

lemma range_spans_extend: "lrs_extend lv lv' \<Longrightarrow> range_spans lv v n e a c \<Longrightarrow> range_spans lv' v n e a c"
  unfolding lrs_extend_def range_spans_def by blast

text \<open>
  What the ranges promise about one block: points are numbered in units of \<open>STEP\<close>, the entry
  is point 0, the \<open>j\<close>-th instruction point \<open>j + 1\<close>, and the exit point
  \<open>length is + 1\<close>.
\<close>

definition block_ranged :: "nat \<Rightarrow> nat \<times> (nat \<times> inst_data) list \<Rightarrow> liveness \<Rightarrow> bool" where
  "block_ranged k bc lv \<longleftrightarrow> (case block_data lv (fst bc) of None \<Rightarrow> False | Some d \<Rightarrow>
     let n = of_nat k; e = length (snd bc) + 1 in
       (\<forall>j < length (snd bc). \<forall>v \<in> touched (snd (snd bc ! j)). range_spans lv v n e (j + 1) (j + 1))
     \<and> (\<forall>v. Virt v \<in> live_in d \<longrightarrow> range_spans lv v n e 0 0)
     \<and> (\<forall>v. Virt v \<in> live_out d \<longrightarrow> range_spans lv v n e e e)
     \<and> (\<forall>v. Virt v \<in> live_in d \<longrightarrow> Virt v \<in> live_out d \<longrightarrow> range_spans lv v n e 0 e))"

lemma block_ranged_extend:
  assumes "lrs_extend lv lv'" "block_ranged k bc lv"
  shows "block_ranged k bc lv'"
proof -
  have "block_data lv' = block_data lv" using assms(1) by (simp add: lrs_extend_def)
  then show ?thesis
    using assms(2) range_spans_extend [OF assms(1)]
    by (auto simp: block_ranged_def Let_def split: option.splits)
qed

lemma set_end_spans:
  assumes "spans x n e a c"
  shows "spans (x\<lparr>seg_end := pt n (e + 1)\<rparr>) n (e + 1) a (e + 1)"
proof -
  obtain a' where "seg_start x = pt n a'" "a' \<le> a" "a' \<le> e"
    using assms order_trans unfolding spans_def by blast
  then show ?thesis
    unfolding spans_def by (intro exI [of _ a'] exI [of _ "e + 1"]) simp
qed

lemma spans_top: "spans x n e a c \<Longrightarrow> spans x n e e c"
  unfolding spans_def by (meson order_trans)

lemma ranges_push_local: "loc v = Some x \<Longrightarrow> x \<in> set (ranges (push_ranges (map_option (\<lambda>x. [x]) \<circ> loc) m) v)"
  unfolding ranges_push by (simp add: ranges_def)

lemma spans_weaken: "spans x n e a c \<Longrightarrow> a \<le> a' \<Longrightarrow> c' \<le> c \<Longrightarrow> e \<le> e' \<Longrightarrow> spans x n e' a' c'"
  unfolding spans_def by (meson order_trans)

lemma spans_bounds: "spans x n e a c \<Longrightarrow> c \<le> e"
  unfolding spans_def by (meson order_trans)

lemma live_out_covers:
  assumes "covers (loc_vreg s) v n e a c" "live_out_segments n d s = Some s'" "loc_num s = of_nat (16 * (e + 1))"
  shows "covers (loc_vreg s') v n (e + 1) a (if Virt v \<in> live_out d then e + 1 else c)"
proof -
  obtain x where x: "loc_vreg s v = Some x" "spans x n e a c" using assms(1) by (auto simp: covers_def)
  have pp: "PP n (loc_num s) = pt n (e + 1)" using assms(3) by (simp add: pt_def)
  have "loc_vreg s' v = (if Virt v \<in> live_out d then Some (x\<lparr>seg_end := pt n (e + 1)\<rparr>) else Some x)"
    using assms(2) x(1) by (auto simp: live_out_segments_def pp split: if_splits)
  then show ?thesis
    using set_end_spans [OF x(2)] spans_weaken [OF x(2), of a c "e + 1"] by (auto simp: covers_def)
qed

lemma live_out_loc_pp: "live_out_segments n d s = Some s' \<Longrightarrow> loc_pp s' = loc_pp s"
  by (auto simp: live_out_segments_def split: if_splits)

definition block_defs_of :: "(nat \<times> inst_data) list \<Rightarrow> lreg set" where
  "block_defs_of is = \<Union> (inst_defs ` snd ` set is)"

lemma scan_block_correct:
  assumes d: "block_data lv b = Some d" and ok: "\<forall>i \<in> set is. regs_ok (snd i)"
    and out: "live_out d \<subseteq> block_defs_of is \<union> live_in d"
  shows "\<exists>lv'. scan_block (k, b, is) lv = Some lv' \<and> lrs_extend lv lv' \<and> block_ranged k (b, is) lv'
    \<and> (distinct (map fst is) \<longrightarrow> (\<forall>j < length is. inst_to_pp lv' (fst (is ! j)) = Some (pt (of_nat k) (j + 1))))
    \<and> (\<forall>x. x \<notin> fst ` set is \<longrightarrow> inst_to_pp lv' x = inst_to_pp lv x)"
proof -
  let ?n = "of_nat k :: 32 word" and ?e = "length is"
  obtain s where s: "fold_opt (scan_inst ?n) is (live_in_segments ?n d (inst_to_pp lv)) = Some s"
    and sc: "scanned ?n d is s"
    and pps: "distinct (map fst is) \<longrightarrow> (\<forall>j < length is. loc_pp s (fst (is ! j)) = Some (pt ?n (j + 1)))"
      "\<forall>x. x \<notin> fst ` set is \<longrightarrow> loc_pp s x = inst_to_pp lv x"
    using scan_insts [OF ok scanned_start [of ?n d "inst_to_pp lv"]] by (auto simp: live_in_segments_def)
  have dv: "\<exists>a c. covers (loc_vreg s) v ?n ?e a c" if v: "Virt v \<in> live_out d" for v
  proof (cases "Virt v \<in> live_in d")
    case True
    then show ?thesis using sc unfolding scanned_def by blast
  next
    case False
    then obtain i where "i \<in> set is" "v \<in> touched (snd i)"
      using v out by (auto simp: block_defs_of_def inst_defs_eq touched_def)
    then obtain j where "j < length is" "v \<in> touched (snd (is ! j))" by (metis in_set_conv_nth)
    then show ?thesis using sc unfolding scanned_def by blast
  qed
  have "case r of Virt v \<Rightarrow> loc_vreg s v \<noteq> None | Phys u \<Rightarrow> (case loc_reg s u of None \<Rightarrow> False | Some xs \<Rightarrow> xs \<noteq> [])"
    if r: "r \<in> live_out d" for r
  proof (cases r)
    case (Phys u)
    have "has_seg (loc_reg s) u"
    proof (cases "r \<in> live_in d")
      case True
      then show ?thesis using sc Phys unfolding scanned_def by blast
    next
      case False
      then show ?thesis using sc r out Phys unfolding scanned_def block_defs_of_def by blast
    qed
    then show ?thesis using Phys by (simp add: has_seg_def)
  next
    case (Virt v)
    then show ?thesis using dv r coversD by fastforce
  qed
  then obtain s' where s': "live_out_segments ?n d s = Some s'"
    unfolding live_out_segments_def by (metis (no_types, lifting))
  let ?lv = "lv\<lparr>vreg_lrs_map := push_ranges (map_option (\<lambda>x. [x]) \<circ> loc_vreg s') (vreg_lrs_map lv),
              reg_lrs_map := push_ranges (loc_reg s') (reg_lrs_map lv), inst_to_pp := loc_pp s'\<rparr>"
  have run: "scan_block (k, b, is) lv = Some ?lv"
    using d s s' by (simp add: scan_block_def Let_def)
  have ext: "lrs_extend lv ?lv" by (auto simp: lrs_extend_def ranges_push)
  have num: "loc_num s = of_nat (16 * (?e + 1))" using sc by (simp add: scanned_def)
  have cov: "range_spans ?lv v ?n (?e + 1) a (if Virt v \<in> live_out d then ?e + 1 else c)"
    if c: "covers (loc_vreg s) v ?n ?e a c" for v a c
  proof -
    obtain x where "loc_vreg s' v = Some x"
      "spans x ?n (?e + 1) a (if Virt v \<in> live_out d then ?e + 1 else c)"
      using live_out_covers [OF c s' num] by (auto simp: covers_def)
    then show ?thesis
      using ranges_push_local [of "loc_vreg s'" v x "vreg_lrs_map lv"] by (auto simp: range_spans_def)
  qed
  have cov': "range_spans ?lv v ?n (?e + 1) a' c'"
    if c: "covers (loc_vreg s) v ?n ?e a c" and "a \<le> a'" "c' \<le> c" for v a c a' c'
  proof -
    have "c \<le> ?e" using c spans_bounds by (auto simp: covers_def)
    then have c': "c' \<le> (if Virt v \<in> live_out d then ?e + 1 else c)" using that(3) by simp
    obtain x where "x \<in> set (ranges (vreg_lrs_map ?lv) v)"
      "spans x ?n (?e + 1) a (if Virt v \<in> live_out d then ?e + 1 else c)"
      using cov [OF c] unfolding range_spans_def by blast
    then show ?thesis
      using spans_weaken [OF _ that(2) c' le_refl] unfolding range_spans_def by blast
  qed
  have "block_ranged k (b, is) ?lv"
    unfolding block_ranged_def
  proof (simp add: d Let_def, intro conjI allI impI ballI)
    fix j v assume "j < length is" "v \<in> touched (snd (is ! j))"
    then have "covers (loc_vreg s) v ?n ?e (j + 1) (j + 1)" using sc unfolding scanned_def by blast
    then show "range_spans ?lv v ?n (Suc ?e) (Suc j) (Suc j)" using cov' by fastforce
  next
    fix v assume "Virt v \<in> live_in d"
    then have "covers (loc_vreg s) v ?n ?e 0 0" using sc unfolding scanned_def by blast
    then show "range_spans ?lv v ?n (Suc ?e) 0 0" using cov' by fastforce
  next
    fix v assume v: "Virt v \<in> live_out d"
    then obtain a c where c: "covers (loc_vreg s) v ?n ?e a c" using dv by blast
    have "range_spans ?lv v ?n (?e + 1) a (?e + 1)" using cov [OF c] v by simp
    then show "range_spans ?lv v ?n (Suc ?e) (Suc ?e) (Suc ?e)"
      unfolding range_spans_def using spans_top by fastforce
  next
    fix v assume v: "Virt v \<in> live_in d" "Virt v \<in> live_out d"
    then have "covers (loc_vreg s) v ?n ?e 0 0" using sc unfolding scanned_def by blast
    then show "range_spans ?lv v ?n (Suc ?e) 0 (Suc ?e)" using cov v(2) by fastforce
  qed
  then show ?thesis using run ext pps live_out_loc_pp [OF s'] by simp
qed

subsection \<open>The whole function\<close>

lemma compute_program_points_from:
  assumes "\<forall>bc \<in> set code. \<exists>d. block_data lv (fst bc) = Some d \<and> live_out d \<subseteq> block_defs_of (snd bc) \<union> live_in d"
    and "\<forall>bc \<in> set code. \<forall>i \<in> set (snd bc). regs_ok (snd i)"
  shows "\<exists>lv'. fold_opt scan_block (enumerate k code) lv = Some lv' \<and> lrs_extend lv lv'
    \<and> (\<forall>j < length code. block_ranged (k + j) (code ! j) lv')
    \<and> (distinct (map fst (code_insts code)) \<longrightarrow> (\<forall>j < length code. \<forall>i < length (snd (code ! j)).
          inst_to_pp lv' (fst (snd (code ! j) ! i)) = Some (pt (of_nat (k + j)) (i + 1))))
    \<and> (\<forall>x. x \<notin> fst ` set (code_insts code) \<longrightarrow> inst_to_pp lv' x = inst_to_pp lv x)"
  using assms
proof (induction code arbitrary: k lv)
  case Nil
  then show ?case by (simp add: lrs_extend_refl)
next
  case (Cons bc code)
  obtain b "is" where bc: "bc = (b, is)" by fastforce
  obtain d where d: "block_data lv b = Some d" "live_out d \<subseteq> block_defs_of is \<union> live_in d"
    using Cons.prems(1) bc by auto
  obtain lv1 where lv1: "scan_block (k, b, is) lv = Some lv1" "lrs_extend lv lv1" "block_ranged k (b, is) lv1"
    and pp1: "distinct (map fst is) \<longrightarrow> (\<forall>j < length is. inst_to_pp lv1 (fst (is ! j)) = Some (pt (of_nat k) (j + 1)))"
      "\<forall>x. x \<notin> fst ` set is \<longrightarrow> inst_to_pp lv1 x = inst_to_pp lv x"
    using scan_block_correct [OF d(1) _ d(2), of k] Cons.prems(2) bc by auto
  have bd: "block_data lv1 = block_data lv" using lv1(2) by (simp add: lrs_extend_def)
  obtain lv' where lv': "fold_opt scan_block (enumerate (Suc k) code) lv1 = Some lv'" "lrs_extend lv1 lv'"
      "\<forall>j < length code. block_ranged (Suc k + j) (code ! j) lv'"
    and pp2: "distinct (map fst (code_insts code)) \<longrightarrow> (\<forall>j < length code. \<forall>i < length (snd (code ! j)).
          inst_to_pp lv' (fst (snd (code ! j) ! i)) = Some (pt (of_nat (Suc k + j)) (i + 1)))"
      "\<forall>x. x \<notin> fst ` set (code_insts code) \<longrightarrow> inst_to_pp lv' x = inst_to_pp lv1 x"
    using Cons.IH [of lv1 "Suc k"] Cons.prems bd by auto
  have ci: "code_insts (bc # code) = is @ code_insts code" by (simp add: code_insts_def bc)
  have "block_ranged (k + j) ((bc # code) ! j) lv'" if "j < length (bc # code)" for j
    using that lv'(2,3) lv1(3) block_ranged_extend bc by (cases j) auto
  moreover have "inst_to_pp lv' (fst (snd ((bc # code) ! j) ! i)) = Some (pt (of_nat (k + j)) (i + 1))"
    if "distinct (map fst (code_insts (bc # code)))" "j < length (bc # code)" "i < length (snd ((bc # code) ! j))" for i j
  proof (cases j)
    case 0
    then have i: "i < length is" using that(3) bc by simp
    then have "fst (is ! i) \<in> fst ` set is" by simp
    then have "fst (is ! i) \<notin> fst ` set (code_insts code)" using that(1) unfolding ci by auto
    then show ?thesis using pp1(1) pp2(2) that(1) i 0 bc unfolding ci by simp
  next
    case (Suc j')
    then show ?thesis using pp2(1) that unfolding ci by simp
  qed
  moreover have "inst_to_pp lv' x = inst_to_pp lv x" if "x \<notin> fst ` set (code_insts (bc # code))" for x
    using that pp1(2) pp2(2) unfolding ci by (simp add: image_Un)
  ultimately show ?case
    using lv1 lv' lrs_extend_trans bc by auto
qed

lemma set_def_total:
  assumes "\<forall>bc \<in> set code. \<forall>i \<in> set (snd bc). regs_ok (snd i)"
  shows "\<exists>m'. set_def code m = Some m'"
proof -
  have step: "\<exists>m'. set_def_on_inst b i m = Some m' \<and> True" if "regs_ok i" for b i m
    using regs_ok_units(2) [OF that] by (auto simp: set_def_on_inst_def Let_def)
  have "\<exists>m'. set_def_block bc m = Some m' \<and> True" if "bc \<in> set code" for bc m
    unfolding set_def_block_def
    by (rule fold_opt_total) (use step assms that in auto)
  then show ?thesis
    unfolding set_def_def using fold_opt_total [of "\<lambda>_. True" m code set_def_block] by auto
qed

lemma live_path_blocks:
  "code_ok bbs code \<Longrightarrow> live_path bbs code r (b # bs) \<Longrightarrow> b \<in> set (map fst code)"
proof (induction bs arbitrary: b)
  case Nil
  then show ?case by (auto simp: code_uses_def split: if_splits)
next
  case (Cons c bs)
  then have "c \<in> set (map fst code)" "b \<in> set (preds (bbs ! c))" by simp_all
  then show ?case using Cons.prems(1) unfolding code_ok_def by blast
qed

lemma live_path_complete:
  assumes "outs_closed m" "ins_closed bbs m" "DF m = block_defs code"
    and "\<forall>b. \<forall>u \<in> code_uses code b. use_done (fst u) b m"
  shows "live_path bbs code r (b # bs) \<Longrightarrow> r \<in> LI m b"
proof (induction bs arbitrary: b)
  case Nil
  then have "use_done r b m" using assms(4) by auto
  then show ?case using Nil assms(3) by (simp add: use_done_def)
next
  case (Cons c bs)
  then have "r \<in> LI m c" "b \<in> set (preds (bbs ! c))" by auto
  then have "r \<in> LO m b" using assms(2) by (simp add: ins_closed_def)
  then show ?case using Cons.prems assms(1,3) by (auto simp: outs_closed_def)
qed

text \<open>Everything the analysis establishes, for one run on the code of a function.\<close>

definition analysis_result :: "basic_block list \<Rightarrow> code \<Rightarrow> liveness \<Rightarrow> bool" where
  "analysis_result bbs code lv \<longleftrightarrow>
     visit_inv bbs code (block_data lv)
   \<and> (\<forall>b. \<forall>u \<in> code_uses code b. use_done (fst u) b (block_data lv))
   \<and> (\<forall>j < length code. block_ranged j (code ! j) lv)
   \<and> (distinct (map fst (code_insts code)) \<longrightarrow> (\<forall>j < length code. \<forall>i < length (snd (code ! j)).
          inst_to_pp lv (fst (snd (code ! j) ! i)) = Some (pt (of_nat j) (i + 1))))"

lemma analyze_code_result:
  assumes ok: "code_ok bbs code"
  shows "\<exists>lv. analyze_code bbs code new_liveness = Some lv \<and> analysis_result bbs code lv"
proof -
  have regs: "\<forall>bc \<in> set code. \<forall>i \<in> set (snd bc). regs_ok (snd i)" and dist: "distinct (map fst code)"
    using ok by (auto simp: code_ok_def)
  obtain m0 where m0: "set_def code Map.empty = Some m0" using set_def_total [OF regs] by blast
  have "visit_inv bbs code m0"
    using set_def_sets [OF m0 dist]
    by (simp add: visit_inv_def justified_def outs_closed_def ins_closed_def block_sets)
  then obtain m where m: "visit bbs code m0 = Some m" "visit_inv bbs code m"
      "\<forall>b. \<forall>u \<in> code_uses code b. use_done (fst u) b m"
    using visit_correct [OF ok] by blast
  let ?lv = "new_liveness\<lparr>block_data := m\<rparr>"
  have blocks: "\<exists>d. m (fst bc) = Some d \<and> live_out d \<subseteq> block_defs_of (snd bc) \<union> live_in d" if bc: "bc \<in> set code" for bc
  proof -
    have "fst bc \<in> dom m" using m(2) bc by (simp add: visit_inv_def)
    then obtain d where d: "m (fst bc) = Some d" by blast
    have uniq: "bc' = bc" if "bc' \<in> set code" "fst bc' = fst bc" for bc'
      using dist bc that by (metis eq_key_imp_eq_value prod.collapse)
    have "block_defs code (fst bc) = block_defs_of (snd bc)"
      unfolding block_defs_def block_defs_of_def using bc uniq by (auto split: if_splits)
    moreover have "outs_closed m" "DF m = block_defs code"
      using m(2) by (auto simp: visit_inv_def justified_def)
    then have "LO m (fst bc) \<subseteq> DF m (fst bc) \<union> LI m (fst bc)" "DF m = block_defs code"
      unfolding outs_closed_def by blast+
    ultimately show ?thesis
      using d block_sets_Some [of m "fst bc" d, OF d] by simp
  qed
  obtain lv where lv: "compute_program_points code ?lv = Some lv" "lrs_extend ?lv lv"
      "\<forall>j < length code. block_ranged j (code ! j) lv"
      "distinct (map fst (code_insts code)) \<longrightarrow> (\<forall>j < length code. \<forall>i < length (snd (code ! j)).
          inst_to_pp lv (fst (snd (code ! j) ! i)) = Some (pt (of_nat j) (i + 1)))"
    using compute_program_points_from [of code ?lv 0] blocks regs
    unfolding compute_program_points_def by auto
  have "block_data lv = m" using lv(2) by (simp add: lrs_extend_def)
  then have "analysis_result bbs code lv"
    using m lv unfolding analysis_result_def by simp
  moreover have "analyze_code bbs code new_liveness = Some lv"
    using m0 m(1) lv(1) by (simp add: analyze_code_def new_liveness_def)
  ultimately show ?thesis by blast
qed

end
