(* ===== verification/Mach_Build.thy ===== *)
theory Mach_Build
  imports Mach_Func
begin

section \<open>Building a machine function\<close>

text \<open>
  Model of the skeleton of \<open>compile_function\<close> in \<open>src/codegen/lower/mod.rs\<close>: one machine
  block per IR block in layout order, the translation of the predecessor and successor sets through
  \<open>block_map\<close>, and the loop that creates the instructions selected for a block and appends them
  to the layout.  The instruction sequences chosen by the target's lowering, and the slots
  and virtual registers it creates on the way, are arguments.
\<close>

record ir_block =
  ib_id :: nat
  ib_preds :: "nat list"
  ib_succs :: "nat list"

type_synonym build_state = "mdata \<times> layout \<times> (nat \<rightharpoonup> nat)"

definition make_block :: "ir_block \<Rightarrow> build_state \<Rightarrow> build_state option" where
  "make_block ib st = (case st of (d, l, m) \<Rightarrow>
     (case create_block d of (b, d) \<Rightarrow> do {
        l \<leftarrow> append_block b l;
        Some (d, l, m(ib_id ib \<mapsto> b)) }))"

definition link_block :: "(nat \<rightharpoonup> nat) \<Rightarrow> ir_block \<Rightarrow> mdata \<Rightarrow> mdata option" where
  "link_block m ib d = do {
     b \<leftarrow> m (ib_id ib);
     ps \<leftarrow> those (map m (ib_preds ib));
     ss \<leftarrow> those (map m (ib_succs ib));
     if b < length (basic_blocks d)
     then Some (d\<lparr>basic_blocks := (basic_blocks d)[b := \<lparr>preds = ps, succs = ss\<rparr>]\<rparr>)
     else None }"

definition emit_inst :: "nat \<Rightarrow> inst_data \<Rightarrow> mdata \<times> layout \<Rightarrow> (mdata \<times> layout) option" where
  "emit_inst b i st = (case st of (d, l) \<Rightarrow>
     (case create_inst (new_instruction i b) d of (k, d) \<Rightarrow> do {
        l \<leftarrow> append_inst k b l;
        Some (d, l) }))"

definition emit_block :: "(nat \<rightharpoonup> nat) \<Rightarrow> ir_block \<times> inst_data list \<Rightarrow> mdata \<times> layout \<Rightarrow> (mdata \<times> layout) option" where
  "emit_block m bi st = do {
     b \<leftarrow> m (ib_id (fst bi));
     fold_opt (emit_inst b) (snd bi) st }"

definition compile_function :: "types \<Rightarrow> bool \<Rightarrow> slots \<Rightarrow> vregs \<Rightarrow> (ir_block \<times> inst_data list) list \<Rightarrow> mfunc option" where
  "compile_function T decl sl vs bis = do {
     (d, l, m) \<leftarrow> fold_opt make_block (map fst bis) (new_data, new_layout, Map.empty);
     d \<leftarrow> fold_opt (link_block m) (map fst bis) d;
     (d, l) \<leftarrow> fold_opt (emit_block m) bis (d\<lparr>d_vregs := vs\<rparr>, l);
     Some \<lparr>f_data = d, f_layout = l, f_slots = sl, f_types = T, is_declaration = decl\<rparr> }"

subsection \<open>The blocks\<close>

lemma make_blocks:
  assumes "distinct (map ib_id ibs)" "layout_rep l [0..<n] (\<lambda>_. [])" "length (basic_blocks d) = n"
    and "instructions d = []" "users_exact d" "insts l = Map.empty"
    and "\<And>i. i \<in> set (map ib_id ibs) \<Longrightarrow> m i = None"
  shows "\<exists>d' l' m'. fold_opt make_block ibs (d, l, m) = Some (d', l', m')
    \<and> layout_rep l' [0..<n + length ibs] (\<lambda>_. []) \<and> length (basic_blocks d') = n + length ibs
    \<and> instructions d' = [] \<and> users_exact d' \<and> insts l' = Map.empty
    \<and> (\<forall>j < length ibs. m' (ib_id (ibs ! j)) = Some (n + j))
    \<and> (\<forall>i. i \<notin> set (map ib_id ibs) \<longrightarrow> m' i = m i)"
  using assms
proof (induction ibs arbitrary: d l m n)
  case (Cons ib ibs)
  have fr: "n \<notin> set [0..<n]" by simp
  obtain l1 where l1: "append_block n l = Some l1" "layout_rep l1 ([0..<n] @ [n]) ((\<lambda>_. [])(n := []))" "insts l1 = insts l"
    using append_block_refines [OF Cons.prems(2) fr] by blast
  let ?d = "d\<lparr>basic_blocks := basic_blocks d @ [\<lparr>preds = [], succs = []\<rparr>]\<rparr>"
  have step: "make_block ib (d, l, m) = Some (?d, l1, m(ib_id ib \<mapsto> n))"
    using l1(1) Cons.prems(3) by (simp add: make_block_def create_block_def)
  have e: "((\<lambda>_. [])(n := [])) = (\<lambda>_. [] :: nat list)" by auto
  have rep: "layout_rep l1 [0..<Suc n] (\<lambda>_. [])"
    using l1(2) unfolding e by simp
  have ue: "users_exact ?d" using Cons.prems(5) by (simp add: users_exact_def)
  have "\<exists>d' l' m'. fold_opt make_block ibs (?d, l1, m(ib_id ib \<mapsto> n)) = Some (d', l', m')
    \<and> layout_rep l' [0..<Suc n + length ibs] (\<lambda>_. []) \<and> length (basic_blocks d') = Suc n + length ibs
    \<and> instructions d' = [] \<and> users_exact d' \<and> insts l' = Map.empty
    \<and> (\<forall>j < length ibs. m' (ib_id (ibs ! j)) = Some (Suc n + j))
    \<and> (\<forall>i. i \<notin> set (map ib_id ibs) \<longrightarrow> m' i = (m(ib_id ib \<mapsto> n)) i)"
  proof (rule Cons.IH)
    show "distinct (map ib_id ibs)" using Cons.prems(1) by simp
    show "length (basic_blocks ?d) = Suc n" "instructions ?d = []" using Cons.prems(3,4) by simp_all
    show "insts l1 = Map.empty" using l1(3) Cons.prems(6) by simp
    show "(m(ib_id ib \<mapsto> n)) i = None" if "i \<in> set (map ib_id ibs)" for i
      using Cons.prems(1) Cons.prems(7) [of i] that by (cases "i = ib_id ib") simp_all
  qed (fact rep ue)+
  then obtain d' l' m' where IH: "fold_opt make_block ibs (?d, l1, m(ib_id ib \<mapsto> n)) = Some (d', l', m')"
    "layout_rep l' [0..<Suc n + length ibs] (\<lambda>_. [])" "length (basic_blocks d') = Suc n + length ibs"
    "instructions d' = []" "users_exact d'" "insts l' = Map.empty"
    "\<forall>j < length ibs. m' (ib_id (ibs ! j)) = Some (Suc n + j)"
    "\<forall>i. i \<notin> set (map ib_id ibs) \<longrightarrow> m' i = (m(ib_id ib \<mapsto> n)) i"
    by blast
  have "m' (ib_id ((ib # ibs) ! j)) = Some (n + j)" if "j < length (ib # ibs)" for j
    using that IH(7,8) Cons.prems(1) by (cases j) auto
  then show ?case using step IH by auto
qed auto

text \<open>Linking a block changes its predecessors and successors only.\<close>

definition same_but_edges :: "mdata \<Rightarrow> mdata \<Rightarrow> bool" where
  "same_but_edges d d' \<longleftrightarrow> instructions d' = instructions d \<and> vreg_users d' = vreg_users d
     \<and> length (basic_blocks d') = length (basic_blocks d)"

lemma those_map_Some: "(\<And>x. x \<in> set xs \<Longrightarrow> m x \<noteq> None) \<Longrightarrow> those (map m xs) = Some (map (\<lambda>x. the (m x)) xs)"
  by (rule those_map_total) fastforce

lemma link_block_step:
  assumes "m (ib_id ib) = Some b" "b < length (basic_blocks d)"
    and "\<forall>p \<in> set (ib_preds ib) \<union> set (ib_succs ib). m p \<noteq> None"
  shows "link_block m ib d = Some (d\<lparr>basic_blocks := (basic_blocks d)[b :=
    \<lparr>preds = map (\<lambda>p. the (m p)) (ib_preds ib), succs = map (\<lambda>p. the (m p)) (ib_succs ib)\<rparr>]\<rparr>)"
proof -
  have "those (map m (ib_preds ib)) = Some (map (\<lambda>p. the (m p)) (ib_preds ib))"
    "those (map m (ib_succs ib)) = Some (map (\<lambda>p. the (m p)) (ib_succs ib))"
    using assms(3) by (auto intro: those_map_Some)
  then show ?thesis using assms(1,2) by (simp add: link_block_def)
qed

lemma link_blocks:
  assumes "distinct (map ib_id ibs)" "\<And>j. j < length ibs \<Longrightarrow> m (ib_id (ibs ! j)) = Some (n + j)"
    and "\<forall>ib \<in> set ibs. \<forall>p \<in> set (ib_preds ib) \<union> set (ib_succs ib). m p \<noteq> None"
    and "n + length ibs = length (basic_blocks d)"
  shows "\<exists>d'. fold_opt (link_block m) ibs d = Some d' \<and> same_but_edges d d'
    \<and> (\<forall>j < length ibs. basic_blocks d' ! (n + j) =
        \<lparr>preds = map (\<lambda>p. the (m p)) (ib_preds (ibs ! j)), succs = map (\<lambda>p. the (m p)) (ib_succs (ibs ! j))\<rparr>)
    \<and> (\<forall>b < n. basic_blocks d' ! b = basic_blocks d ! b)"
  using assms
proof (induction ibs arbitrary: d n)
  case Nil
  then show ?case by (simp add: same_but_edges_def)
next
  case (Cons ib ibs)
  let ?bb = "\<lparr>preds = map (\<lambda>p. the (m p)) (ib_preds ib), succs = map (\<lambda>p. the (m p)) (ib_succs ib)\<rparr>"
  let ?d = "d\<lparr>basic_blocks := (basic_blocks d)[n := ?bb]\<rparr>"
  have hd: "m (ib_id ib) = Some n" using Cons.prems(2) [of 0] by simp
  have step: "link_block m ib d = Some ?d"
    by (rule link_block_step [where m = m and ib = ib and b = n, OF hd]) (use Cons.prems(3,4) in auto)
  have tl: "m (ib_id (ibs ! j)) = Some (Suc n + j)" if "j < length ibs" for j
    using Cons.prems(2) [of "Suc j"] that by simp
  obtain d' where IH: "fold_opt (link_block m) ibs ?d = Some d'" "same_but_edges ?d d'"
    "\<forall>j < length ibs. basic_blocks d' ! (Suc n + j) =
        \<lparr>preds = map (\<lambda>p. the (m p)) (ib_preds (ibs ! j)), succs = map (\<lambda>p. the (m p)) (ib_succs (ibs ! j))\<rparr>"
    "\<forall>b < Suc n. basic_blocks d' ! b = basic_blocks ?d ! b"
    using Cons.IH [where n = "Suc n" and d = ?d] Cons.prems tl by auto
  have "basic_blocks d' ! n = ?bb" using IH(4) Cons.prems(4) by simp
  then have "basic_blocks d' ! (n + j) =
      \<lparr>preds = map (\<lambda>p. the (m p)) (ib_preds ((ib # ibs) ! j)), succs = map (\<lambda>p. the (m p)) (ib_succs ((ib # ibs) ! j))\<rparr>"
    if "j < length (ib # ibs)" for j
    using that IH(3) by (cases j) auto
  then show ?case using step IH by (auto simp: same_but_edges_def)
qed

subsection \<open>The instructions\<close>

text \<open>
  Appending the instructions of one block: the new instructions get the next identifiers, stand at the
  end of their block in order, and are entered into the use lists.
\<close>

lemma emit_insts:
  assumes "layout_rep l bs f" "b \<in> set bs" "users_exact d"
    and "dom (insts l) \<subseteq> {..<length (instructions d)}"
  shows "\<exists>d' l'. fold_opt (emit_inst b) is (d, l) = Some (d', l')
    \<and> layout_rep l' bs (f(b := f b @ [length (instructions d)..<length (instructions d) + length is]))
    \<and> users_exact d' \<and> basic_blocks d' = basic_blocks d
    \<and> map in_data (instructions d') = map in_data (instructions d) @ is
    \<and> dom (insts l') \<subseteq> {..<length (instructions d')}"
  using assms
proof (induction "is" arbitrary: d l f)
  case Nil
  then show ?case by simp
next
  case (Cons i "is")
  let ?k = "length (instructions d)"
  obtain d1 where d1: "create_inst (new_instruction i b) d = (?k, d1)"
    by (simp add: create_inst_def Let_def)
  have d1': "map in_data (instructions d1) = map in_data (instructions d) @ [i]"
    "basic_blocks d1 = basic_blocks d" "length (instructions d1) = Suc ?k"
    using d1 by (auto simp: create_inst_def Let_def new_instruction_def)
  have ue: "users_exact d1" using users_exact_create_inst [OF Cons.prems(3), of "new_instruction i b"] d1 by simp
  have "insts l ?k = None" using Cons.prems(4) by auto
  then have det: "detached l ?k" by (simp add: detached_def)
  obtain l1 where l1: "append_inst ?k b l = Some l1" "layout_rep l1 bs (f(b := f b @ [?k]))"
    using append_inst_refines [OF Cons.prems(1,2) det] by blast
  have det1: "dom (insts l1) \<subseteq> {..<length (instructions d1)}"
    unfolding append_inst_dom [OF l1(1)] d1'(3) using Cons.prems(4) by auto
  obtain d' l' where IH: "fold_opt (emit_inst b) is (d1, l1) = Some (d', l')"
    "layout_rep l' bs ((f(b := f b @ [?k]))(b := (f(b := f b @ [?k])) b @ [length (instructions d1)..<length (instructions d1) + length is]))"
    "users_exact d'" "basic_blocks d' = basic_blocks d1"
    "map in_data (instructions d') = map in_data (instructions d1) @ is"
    "dom (insts l') \<subseteq> {..<length (instructions d')}"
    using Cons.IH [OF l1(2) Cons.prems(2) ue det1] by blast
  have run: "fold_opt (emit_inst b) (i # is) (d, l) = Some (d', l')"
    using d1 l1(1) IH(1) by (simp add: emit_inst_def)
  have "?k # [Suc ?k..<Suc ?k + length is] = [?k..<?k + length (i # is)]"
    by (simp add: upt_conv_Cons del: upt_Suc)
  then have rep: "layout_rep l' bs (f(b := f b @ [?k..<?k + length (i # is)]))"
    using IH(2) unfolding d1'(3) by (simp del: upt_Suc)
  have dat: "map in_data (instructions d') = map in_data (instructions d) @ i # is"
    using IH(5) d1'(1) by simp
  show ?case using run rep IH(3,4,6) dat d1'(2) by metis
qed

definition first_id :: "nat \<Rightarrow> (ir_block \<times> inst_data list) list \<Rightarrow> nat \<Rightarrow> nat" where
  "first_id k bis j = k + length (concat (map snd (take j bis)))"

lemma emit_blocks:
  assumes "layout_rep l [0..<N] g" "users_exact d" "dom (insts l) \<subseteq> {..<length (instructions d)}"
    and "\<forall>j < length bis. m (ib_id (fst (bis ! j))) = Some (n + j)" "n + length bis \<le> N" "\<forall>b \<ge> n. g b = []"
  shows "\<exists>d' l' g'. fold_opt (emit_block m) bis (d, l) = Some (d', l') \<and> layout_rep l' [0..<N] g'
    \<and> users_exact d' \<and> dom (insts l') \<subseteq> {..<length (instructions d')} \<and> basic_blocks d' = basic_blocks d
    \<and> map in_data (instructions d') = map in_data (instructions d) @ concat (map snd bis)
    \<and> (\<forall>b < n. g' b = g b)
    \<and> (\<forall>j < length bis. g' (n + j) = [first_id (length (instructions d)) bis j..<
          first_id (length (instructions d)) bis j + length (snd (bis ! j))])"
  using assms
proof (induction bis arbitrary: d l g n)
  case Nil
  then show ?case by auto
next
  case (Cons bi bis)
  let ?k = "length (instructions d)"
  have b: "n \<in> set [0..<N]" using Cons.prems(5) by simp
  have mb: "m (ib_id (fst bi)) = Some n" using Cons.prems(4) by (auto dest: spec [of _ 0])
  obtain d1 l1 where e: "fold_opt (emit_inst n) (snd bi) (d, l) = Some (d1, l1)"
    "layout_rep l1 [0..<N] (g(n := g n @ [?k..<?k + length (snd bi)]))" "users_exact d1"
    "basic_blocks d1 = basic_blocks d" "map in_data (instructions d1) = map in_data (instructions d) @ snd bi"
    "dom (insts l1) \<subseteq> {..<length (instructions d1)}"
    using emit_insts [OF Cons.prems(1) b Cons.prems(2,3), of "snd bi"] by blast
  let ?g = "g(n := g n @ [?k..<?k + length (snd bi)])"
  have k1: "length (instructions d1) = ?k + length (snd bi)"
    using arg_cong [OF e(5), of length] by simp
  have tl: "\<forall>j < length bis. m (ib_id (fst (bis ! j))) = Some (Suc n + j)"
    using Cons.prems(4) by (auto dest: spec [of _ "Suc _"])
  have n1: "Suc n + length bis \<le> N" "\<forall>b \<ge> Suc n. ?g b = []" using Cons.prems(5,6) by auto
  obtain d' l' g' where IH: "fold_opt (emit_block m) bis (d1, l1) = Some (d', l')" "layout_rep l' [0..<N] g'"
    "users_exact d'" "dom (insts l') \<subseteq> {..<length (instructions d')}" "basic_blocks d' = basic_blocks d1"
    "map in_data (instructions d') = map in_data (instructions d1) @ concat (map snd bis)"
    "\<forall>b < Suc n. g' b = ?g b"
    "\<forall>j < length bis. g' (Suc n + j) = [first_id (length (instructions d1)) bis j..<
          first_id (length (instructions d1)) bis j + length (snd (bis ! j))]"
    using Cons.IH [OF e(2,3,6) tl n1] by blast
  have run: "fold_opt (emit_block m) (bi # bis) (d, l) = Some (d', l')"
    using mb e(1) IH(1) by (simp add: emit_block_def)
  have seg: "g' (n + j) = [first_id ?k (bi # bis) j..<first_id ?k (bi # bis) j + length (snd ((bi # bis) ! j))]"
    if "j < length (bi # bis)" for j
  proof (cases j)
    case 0
    then show ?thesis using IH(7) Cons.prems(6) by (simp add: first_id_def)
  next
    case (Suc j')
    then have "first_id ?k (bi # bis) j = first_id (length (instructions d1)) bis j'"
      by (simp add: first_id_def k1)
    then show ?thesis using IH(8) that Suc by simp
  qed
  have old: "\<forall>b < n. g' b = g b" using IH(7) by simp
  show ?case using run IH(2-6) e(4,5) old seg by (intro exI [of _ d'] exI [of _ l'] exI [of _ g']) simp
qed

text \<open>The code of the built function: block \<open>j\<close> carries the \<open>j\<close>-th sequence.\<close>

definition emitted_code :: "(ir_block \<times> inst_data list) list \<Rightarrow> (nat \<times> (nat \<times> inst_data) list) list" where
  "emitted_code bis = map (\<lambda>j. (j, enumerate (first_id 0 bis j) (snd (bis ! j)))) [0..<length bis]"

definition cfg_wf :: "ir_block list \<Rightarrow> bool" where
  "cfg_wf ibs \<longleftrightarrow> distinct (map ib_id ibs)
     \<and> (\<forall>ib \<in> set ibs. set (ib_preds ib) \<union> set (ib_succs ib) \<subseteq> set (map ib_id ibs))"

lemma nth_concat_take:
  assumes "j < length xss" "i < length (xss ! j)"
  shows "concat xss ! (length (concat (take j xss)) + i) = xss ! j ! i"
    "length (concat (take j xss)) + i < length (concat xss)"
proof -
  have "concat xss = concat (take j xss) @ xss ! j @ concat (drop (Suc j) xss)"
    using id_take_nth_drop [OF assms(1)] by (metis concat.simps(2) concat_append)
  then show "concat xss ! (length (concat (take j xss)) + i) = xss ! j ! i"
    "length (concat (take j xss)) + i < length (concat xss)"
    using assms(2) by (simp_all add: nth_append)
qed

lemma compile_function_correct:
  assumes "cfg_wf (map fst bis)"
  shows "\<exists>f g. compile_function T decl sl vs bis = Some f
    \<and> layout_rep (f_layout f) [0..<length bis] g \<and> dom (insts (f_layout f)) \<subseteq> {..<length (instructions (f_data f))}
    \<and> users_exact (f_data f) \<and> func_code f = Some (emitted_code bis)
    \<and> length (basic_blocks (f_data f)) = length bis
    \<and> (\<forall>j < length bis. set (preds (basic_blocks (f_data f) ! j)) \<subseteq> {..<length bis})
    \<and> is_declaration f = decl \<and> f_slots f = sl \<and> f_types f = T"
proof -
  let ?ibs = "map fst bis"
  have dist: "distinct (map ib_id ?ibs)" and cl: "\<forall>ib \<in> set ?ibs. set (ib_preds ib) \<union> set (ib_succs ib) \<subseteq> set (map ib_id ?ibs)"
    using assms by (auto simp: cfg_wf_def)
  obtain d0 l0 m where mk: "fold_opt make_block ?ibs (new_data, new_layout, Map.empty) = Some (d0, l0, m)"
    "layout_rep l0 [0..<length ?ibs] (\<lambda>_. [])" "length (basic_blocks d0) = length ?ibs" "instructions d0 = []"
    "users_exact d0" "insts l0 = Map.empty" "\<forall>j < length ?ibs. m (ib_id (?ibs ! j)) = Some j"
    using make_blocks [OF dist, of new_layout 0 new_data Map.empty] layout_rep_empty users_exact_new
    by (auto simp: new_data_def new_layout_def)
  have mdef: "\<exists>k < length bis. m p = Some k" if p: "p \<in> set (map ib_id ?ibs)" for p
  proof -
    obtain k where "k < length (map ib_id ?ibs)" "map ib_id ?ibs ! k = p"
      using p unfolding in_set_conv_nth by blast
    then show ?thesis using mk(7) by (intro exI [of _ k]) auto
  qed
  have edges: "\<forall>ib \<in> set ?ibs. \<forall>p \<in> set (ib_preds ib) \<union> set (ib_succs ib). m p \<noteq> None"
  proof (intro ballI)
    fix ib p assume "ib \<in> set ?ibs" "p \<in> set (ib_preds ib) \<union> set (ib_succs ib)"
    then have "p \<in> set (map ib_id ?ibs)" using cl by blast
    then show "m p \<noteq> None" using mdef [of p] by auto
  qed
  obtain d1 where lk: "fold_opt (link_block m) ?ibs d0 = Some d1" "same_but_edges d0 d1"
    "\<forall>j < length ?ibs. basic_blocks d1 ! j = \<lparr>preds = map (\<lambda>p. the (m p)) (ib_preds (?ibs ! j)),
        succs = map (\<lambda>p. the (m p)) (ib_succs (?ibs ! j))\<rparr>"
    using link_blocks [OF dist _ edges, of 0 d0] mk(3,7) by auto
  let ?d1 = "d1\<lparr>d_vregs := vs\<rparr>"
  have ue1: "users_exact ?d1" using mk(5) lk(2) by (simp add: users_exact_def same_but_edges_def)
  have i1: "instructions ?d1 = []" using lk(2) mk(4) by (simp add: same_but_edges_def)
  have ids: "\<forall>j < length bis. m (ib_id (fst (bis ! j))) = Some (0 + j)" using mk(7) by simp
  obtain d2 l2 g where em: "fold_opt (emit_block m) bis (?d1, l0) = Some (d2, l2)" "layout_rep l2 [0..<length bis] g"
    "users_exact d2" "dom (insts l2) \<subseteq> {..<length (instructions d2)}" "basic_blocks d2 = basic_blocks ?d1"
    "map in_data (instructions d2) = concat (map snd bis)"
    "\<forall>j < length bis. g j = [first_id 0 bis j..<first_id 0 bis j + length (snd (bis ! j))]"
    using emit_blocks [of l0 "length bis" "\<lambda>_. []" ?d1 bis m 0] mk(2,6) ue1 i1 ids by auto
  let ?f = "\<lparr>f_data = d2, f_layout = l2, f_slots = sl, f_types = T, is_declaration = decl\<rparr>"
  have run: "compile_function T decl sl vs bis = Some ?f"
    using mk(1) lk(1) em(1) by (simp add: compile_function_def)
  have dat: "first_id 0 bis j + i < length (instructions d2)
      \<and> in_data (instructions d2 ! (first_id 0 bis j + i)) = snd (bis ! j) ! i"
    if "j < length bis" "i < length (snd (bis ! j))" for i j
  proof -
    have "first_id 0 bis j + i < length (map in_data (instructions d2))"
      using nth_concat_take(2) [of j "map snd bis" i] that em(6) by (simp add: first_id_def take_map)
    moreover have "map in_data (instructions d2) ! (first_id 0 bis j + i) = snd (bis ! j) ! i"
      using nth_concat_take(1) [of j "map snd bis" i] that em(6) by (simp add: first_id_def take_map)
    ultimately show ?thesis by simp
  qed
  have "func_code ?f = Some (map (\<lambda>b. (b, map (\<lambda>i. (i, in_data (instructions (f_data ?f) ! i))) (g b))) [0..<length bis])"
  proof (rule func_code_rep)
    show "layout_rep (f_layout ?f) [0..<length bis] g" using em(2) by simp
    fix b i assume b: "b \<in> set [0..<length bis]" and i: "i \<in> set (g b)"
    then have "i \<in> dom (insts l2)" using layout_rep_memberD [OF em(2) b i] by blast
    then show "i < length (instructions (f_data ?f))" using em(4) by auto
  qed
  moreover have "map (\<lambda>i. (i, in_data (instructions d2 ! i))) (g j) = enumerate (first_id 0 bis j) (snd (bis ! j))"
    if "j < length bis" for j
    by (rule nth_equalityI) (use that em(7) dat in \<open>simp_all add: nth_enumerate_eq\<close>)
  ultimately have "func_code ?f = Some (emitted_code bis)"
    by (simp add: emitted_code_def)
  moreover have "set (preds (basic_blocks d2 ! j)) \<subseteq> {..<length bis}" if j: "j < length bis" for j
  proof -
    have ib: "fst (bis ! j) \<in> set ?ibs" using j by simp
    have "the (m p) < length bis" if "p \<in> set (ib_preds (fst (bis ! j)))" for p
    proof -
      have "p \<in> set (map ib_id ?ibs)" using cl ib that by blast
      then show ?thesis using mdef [of p] by auto
    qed
    then show ?thesis using lk(3) em(5) j by auto
  qed
  moreover have "length (basic_blocks d2) = length bis"
    using em(5) lk(2) mk(3) by (simp add: same_but_edges_def)
  ultimately show ?thesis using run em by auto
qed

text \<open>The registers of the function are the ones lowering made.\<close>

lemma emit_block_vregs: "emit_block m ibs (d, l) = Some (d', l') \<Longrightarrow> d_vregs d' = d_vregs d"
proof -
  assume "emit_block m ibs (d, l) = Some (d', l')"
  then obtain b where run: "fold_opt (emit_inst b) (snd ibs) (d, l) = Some (d', l')"
    by (auto simp: emit_block_def elim!: bind_SomeE split: prod.splits)
  have "d_vregs (fst (d', l')) = d_vregs (fst (d, l))"
    by (rule fold_opt_invariant [where P = "\<lambda>s. d_vregs (fst s) = d_vregs (fst (d, l))", OF run])
      (auto simp: emit_inst_def create_inst_def Let_def elim!: bind_SomeE split: prod.splits)
  then show "d_vregs d' = d_vregs d" by simp
qed

lemma compile_function_vregs: "compile_function T decl sl vs bis = Some f \<Longrightarrow> d_vregs (f_data f) = vs"
proof -
  assume "compile_function T decl sl vs bis = Some f"
  then obtain m d l d' l' where run: "fold_opt (emit_block m) bis (d\<lparr>d_vregs := vs\<rparr>, l) = Some (d', l')" and f: "f_data f = d'"
    by (auto simp: compile_function_def elim!: bind_SomeE split: prod.splits)
  have "d_vregs (fst (d', l')) = vs"
    by (rule fold_opt_invariant [where P = "\<lambda>s. d_vregs (fst s) = vs", OF run])
      (use emit_block_vregs in fastforce)+
  then show "d_vregs (f_data f) = vs" using f by simp
qed

text \<open>An instruction from its opcode and operands, for examples.\<close>

definition mk_inst :: "opcode \<Rightarrow> operand list \<Rightarrow> inst_data" where
  "mk_inst c ops = \<lparr>opcode = c, operands = ops\<rparr>"

end
