(* ===== verification/Liveness_Theorems.thy ===== *)
theory Liveness_Theorems
  imports Liveness_Ranges Mach_Build
begin

section \<open>Theorems about the liveness analysis\<close>

text \<open>
  The properties of \<open>analyze_function\<close>, with two small functions on which they are evaluated: a
  loop without phi instructions and a loop whose phi reads a value that its own block defines.
\<close>

definition i32_vregs :: "nat \<Rightarrow> vregs" where
  "i32_vregs n = ((\<lambda>vs. snd (add_vreg_data I32 vs)) ^^ n) new_vregs"

lemma i32_vregs: "wf_vregs (i32_vregs n) \<and> vr_cur (i32_vregs n) = n"
proof (induction n)
  case 0
  then show ?case by (simp add: i32_vregs_def wf_new_vregs) (simp add: new_vregs_def)
next
  case (Suc n)
  obtain v vs where a: "add_vreg_data I32 (i32_vregs n) = (v, vs)" by fastforce
  then have s: "i32_vregs (Suc n) = vs" by (simp add: i32_vregs_def)
  have "vr_cur vs = Suc (vr_cur (i32_vregs n))" using a by (auto simp: add_vreg_data_def Let_def)
  then show ?case unfolding s using Suc add_vreg_data_fresh(2) [OF _ a] by simp
qed

definition loop_blocks :: "(ir_block \<times> inst_data list) list" where
  "loop_blocks =
     [(\<lparr>ib_id = 10, ib_preds = [], ib_succs = [11]\<rparr>,
         [mk_inst MOVri [op_out (OVReg (VReg 0)), op_new (OInt32 5)], mk_inst JMPi [op_new (OBlock 1)]]),
      (\<lparr>ib_id = 11, ib_preds = [10, 11], ib_succs = [11, 12]\<rparr>,
         [mk_inst ADDri [op_out (OVReg (VReg 1)), op_in (OVReg (VReg 0)), op_new (OInt32 1)],
          mk_inst CJMPr [op_in (OVReg (VReg 1)), op_new (OBlock 1)]]),
      (\<lparr>ib_id = 12, ib_preds = [11], ib_succs = []\<rparr>,
         [mk_inst MOVrr [op_out (OReg (gr_reg R0)), op_in (OVReg (VReg 1))], mk_inst RET []])]"

definition loop_function :: "mfunc option" where
  "loop_function = compile_function (new_types 0) False new_slots (i32_vregs 4) loop_blocks"

definition phi_loop_function :: "mfunc option" where
  "phi_loop_function = compile_function (new_types 0) False new_slots (i32_vregs 4)
     [(\<lparr>ib_id = 0, ib_preds = [], ib_succs = [1]\<rparr>,
         [mk_inst MOVri [op_out (OVReg (VReg 0)), op_new (OInt32 5)], mk_inst JMPi [op_new (OBlock 1)]]),
      (\<lparr>ib_id = 1, ib_preds = [0, 1], ib_succs = [1, 2]\<rparr>,
         [mk_inst Phi [op_out (OVReg (VReg 1)), op_in (OVReg (VReg 0)), op_new (OBlock 0),
                       op_in (OVReg (VReg 2)), op_new (OBlock 1)],
          mk_inst ADDri [op_out (OVReg (VReg 2)), op_in (OVReg (VReg 1)), op_new (OInt32 1)],
          mk_inst GTE [op_out (OVReg (VReg 3)), op_in (OVReg (VReg 2)), op_in (OVReg (VReg 1))],
          mk_inst ASSERTri [op_in (OVReg (VReg 1)), op_new (OInt32 1)],
          mk_inst CJMPr [op_in (OVReg (VReg 3)), op_new (OBlock 1)]]),
      (\<lparr>ib_id = 2, ib_preds = [1], ib_succs = []\<rparr>, [mk_inst RET []])]"

subsection \<open>Consequences of the result of the analysis\<close>

lemma spans_points:
  assumes "spans x n e a c" "16 * e < 2 ^ 32" "a \<le> e"
  shows "seg_start x \<le> pt n a" "pt n c \<le> seg_end x"
proof -
  obtain a' c' where x: "seg_start x = pt n a'" "seg_end x = pt n c'" "a' \<le> a" "c \<le> c'" "c' \<le> e"
    using assms(1) by (auto simp: spans_def)
  have b: "16 * a' < 2 ^ 32" "16 * a < 2 ^ 32" "16 * c < 2 ^ 32" "16 * c' < 2 ^ 32"
    using assms(2,3) x(3-5) by linarith+
  show "seg_start x \<le> pt n a" unfolding x(1) pt_le_iff [OF b(1,2)] by (rule x(3))
  show "pt n c \<le> seg_end x" unfolding x(2) pt_le_iff [OF b(3,4)] by (rule x(4))
qed

lemma range_spans_contains:
  assumes "range_spans lv v n e a c" "16 * e < 2 ^ 32" "a \<le> e"
  shows "\<exists>x \<in> set (ranges (vreg_lrs_map lv) v). seg_start x \<le> pt n a \<and> pt n c \<le> seg_end x"
  using assms spans_points unfolding range_spans_def by blast

text \<open>The part of a live range that contains the points from \<open>p\<close> to \<open>q\<close>.\<close>

definition covered :: "liveness \<Rightarrow> vreg \<Rightarrow> program_point \<Rightarrow> program_point \<Rightarrow> bool" where
  "covered lv v p q \<longleftrightarrow> (\<exists>s \<in> set (ranges (vreg_lrs_map lv) v). seg_start s \<le> p \<and> q \<le> seg_end s)"

definition block_points_covered :: "nat \<Rightarrow> nat \<times> (nat \<times> inst_data) list \<Rightarrow> liveness \<Rightarrow> bool" where
  "block_points_covered j bc lv \<longleftrightarrow>
     (let b = fst bc; is = snd bc; point = (\<lambda>k. PP (of_nat j) (of_nat (16 * k))); exit = length is + 1 in
       (\<forall>i < length is. inst_to_pp lv (fst (is ! i)) = Some (point (i + 1))
          \<and> (\<forall>v \<in> touched (snd (is ! i)). covered lv v (point (i + 1)) (point (i + 1))))
     \<and> (\<forall>v. Virt v \<in> LI (block_data lv) b \<longrightarrow> covered lv v (point 0) (point 0))
     \<and> (\<forall>v. Virt v \<in> LO (block_data lv) b \<longrightarrow> covered lv v (point exit) (point exit))
     \<and> (\<forall>v. Virt v \<in> LI (block_data lv) b \<longrightarrow> Virt v \<in> LO (block_data lv) b \<longrightarrow> covered lv v (point 0) (point exit)))"

lemma range_spans_covered:
  "range_spans lv v n e a c \<Longrightarrow> 16 * e < 2 ^ 32 \<Longrightarrow> a \<le> e \<Longrightarrow> covered lv v (pt n a) (pt n c)"
  using range_spans_contains unfolding covered_def by blast

lemma block_ranged_points:
  assumes br: "block_ranged j bc lv" and e: "16 * (length (snd bc) + 1) < 2 ^ 32"
    and num: "\<forall>i < length (snd bc). inst_to_pp lv (fst (snd bc ! i)) = Some (pt (of_nat j) (i + 1))"
  shows "block_points_covered j bc lv"
proof -
  let ?n = "of_nat j :: 32 word" and ?e = "length (snd bc) + 1"
  obtain d where d: "block_data lv (fst bc) = Some d"
    using br by (auto simp: block_ranged_def split: option.splits)
  note sets = block_sets_Some [of "block_data lv" "fst bc" d, OF d]
  have touch: "range_spans lv v ?n ?e (i + 1) (i + 1)" if "i < length (snd bc)" "v \<in> touched (snd (snd bc ! i))" for i v
    using br d that by (simp add: block_ranged_def Let_def)
  have edge: "Virt v \<in> live_in d \<Longrightarrow> range_spans lv v ?n ?e 0 0"
    "Virt v \<in> live_out d \<Longrightarrow> range_spans lv v ?n ?e ?e ?e"
    "Virt v \<in> live_in d \<Longrightarrow> Virt v \<in> live_out d \<Longrightarrow> range_spans lv v ?n ?e 0 ?e" for v
    using br d by (simp_all add: block_ranged_def Let_def)
  have P: "(\<lambda>k. PP ?n (of_nat (16 * k))) = pt ?n" by (simp add: pt_def fun_eq_iff)
  show ?thesis
    unfolding block_points_covered_def P Let_def sets
    using num range_spans_covered [OF touch e] range_spans_covered [OF edge(1) e]
      range_spans_covered [OF edge(2) e] range_spans_covered [OF edge(3) e] by simp
qed

lemma analyze_function_result:
  assumes "func_code f = Some code" "code_ok (basic_blocks (f_data f)) code"
  shows "\<exists>lv. analyze_function f new_liveness = Some lv \<and> analysis_result (basic_blocks (f_data f)) code lv"
  using analyze_code_result [OF assms(2)] assms(1) by (simp add: analyze_function_def)

lemma analysis_exact:
  assumes "code_ok bbs code" "analysis_result bbs code lv" "phi_free code"
  shows "r \<in> LI (block_data lv) b \<longleftrightarrow> live_at_entry bbs code r b"
    and "r \<in> LO (block_data lv) b \<longleftrightarrow> live_at_exit bbs code r b"
proof -
  let ?m = "block_data lv"
  have inv: "justified bbs code ?m" "outs_closed ?m" "ins_closed bbs ?m"
    and uses: "\<forall>b. \<forall>u \<in> code_uses code b. use_done (fst u) b ?m"
    using assms(2,3) by (auto simp: analysis_result_def visit_inv_def)
  have df: "DF ?m = block_defs code" using inv(1) by (simp add: justified_def)
  have entry: "r \<in> LI ?m c" if "live_at_entry bbs code r c" for c
    using that live_path_complete [OF inv(2,3) df uses] by (auto simp: live_at_entry_def)
  show "r \<in> LI ?m b \<longleftrightarrow> live_at_entry bbs code r b"
    using entry inv(1) by (auto simp: justified_def)
  show "r \<in> LO ?m b \<longleftrightarrow> live_at_exit bbs code r b"
    using entry inv(1,3) by (auto simp: justified_def ins_closed_def live_at_exit_def)
qed

subsection \<open>The properties\<close>

text \<open>
  C6: on every well-formed function the analysis returns without a panic, and its block sets are sound:
  a register is only live-in (live-out) at a block if a definition-free path leads from the block (from a
  successor) to a use; every used register is defined in its block or live-in there; every live-out
  register is defined in its block or live-in there.
\<close>

theorem liveness_total_sound:
  assumes "func_code f = Some code" "code_ok (basic_blocks (f_data f)) code"
  shows "\<exists>lv. analyze_function f new_liveness = Some lv
    \<and> (\<forall>b r. r \<in> LI (block_data lv) b \<longrightarrow> live_at_entry (basic_blocks (f_data f)) code r b)
    \<and> (\<forall>b r. r \<in> LO (block_data lv) b \<longrightarrow> live_at_exit (basic_blocks (f_data f)) code r b)
    \<and> (\<forall>b. \<forall>(r, phi) \<in> code_uses code b. r \<in> block_defs code b \<or> r \<in> LI (block_data lv) b)
    \<and> (\<forall>b r. r \<in> LO (block_data lv) b \<longrightarrow> r \<in> block_defs code b \<or> r \<in> LI (block_data lv) b)"
proof -
  obtain lv where "analyze_function f new_liveness = Some lv"
    and res: "analysis_result (basic_blocks (f_data f)) code lv"
    using analyze_function_result [OF assms] by blast
  moreover have "justified (basic_blocks (f_data f)) code (block_data lv)" "outs_closed (block_data lv)"
    using res by (simp_all add: analysis_result_def visit_inv_def)
  moreover have "\<forall>b. \<forall>u \<in> code_uses code b. use_done (fst u) b (block_data lv)"
    using res by (simp add: analysis_result_def)
  ultimately show ?thesis
    by (fastforce simp: justified_def outs_closed_def use_done_def)
qed

theorem liveness_total_sound_witness:
  "\<exists>f lv. loop_function = Some f \<and> analyze_function f new_liveness = Some lv
     \<and> Virt (VReg 0) \<in> LI (block_data lv) 1"
proof -
  have ok: "map_option (\<lambda>f. map_option (\<lambda>c. (code_ok (basic_blocks (f_data f)) c, block_defs c 1 = {Virt (VReg 1)},
      (Virt (VReg 0), None) \<in> code_uses c 1)) (func_code f)) loop_function = Some (Some (True, True, True))"
    by code_simp
  then obtain f c where f: "loop_function = Some f" "func_code f = Some c" "code_ok (basic_blocks (f_data f)) c"
    and c: "block_defs c 1 = {Virt (VReg 1)}" "(Virt (VReg 0), None) \<in> code_uses c 1" by auto
  show ?thesis using liveness_total_sound [OF f(2,3)] f(1) c by fastforce
qed

text \<open>
  Liveness instruction by instruction: before instruction \<open>k\<close> of a block, a register is live if the
  instruction reads it, or does not write it and it is live behind the instruction; at the end of a block it
  is live if it is at the start of a successor.
\<close>

definition inst_reads :: "inst_data \<Rightarrow> lreg set" where
  "inst_reads i = Virt ` set (input_vregs i) \<union> Phys ` set (List.map_filter to_reg_unit (input_regs i))"

inductive live_before :: "basic_block list \<Rightarrow> code \<Rightarrow> lreg \<Rightarrow> nat \<Rightarrow> nat \<Rightarrow> bool" for bbs code r where
  live_read: "(b, is) \<in> set code \<Longrightarrow> k < length is \<Longrightarrow> r \<in> inst_reads (snd (is ! k)) \<Longrightarrow> live_before bbs code r b k"
| live_skip: "(b, is) \<in> set code \<Longrightarrow> k < length is \<Longrightarrow> r \<notin> inst_defs (snd (is ! k)) \<Longrightarrow>
    live_before bbs code r b (Suc k) \<Longrightarrow> live_before bbs code r b k"
| live_succ: "(b, is) \<in> set code \<Longrightarrow> b \<in> set (preds (bbs ! c)) \<Longrightarrow> live_before bbs code r c 0 \<Longrightarrow>
    live_before bbs code r b (length is)"

text \<open>A block that writes a register does so before it reads it, as in code where a register is written once.\<close>

definition written_first :: "code \<Rightarrow> bool" where
  "written_first code \<longleftrightarrow> (\<forall>(b, is) \<in> set code. \<forall>k < length is. \<forall>r \<in> inst_reads (snd (is ! k)).
     (\<exists>i \<in> set is. r \<in> inst_defs (snd i)) \<longrightarrow> (\<exists>j < k. r \<in> inst_defs (snd (is ! j))))"

lemma inst_uses_reads: "inst_uses i = Some us \<Longrightarrow> fst ` set us = inst_reads i"
proof -
  assume "inst_uses i = Some us"
  then obtain ps where ps: "in_units i = Some ps"
    "us = map (\<lambda>(k, v). (Virt v, if is_phi i then block_at i (k + 1) else None)) (input_vregs_with_indexes i) @ map (\<lambda>u. (Phys u, None)) ps"
    by (auto simp: inst_uses_def bind_eq_Some_iff)
  have "fst ` set us = Virt ` snd ` set (input_vregs_with_indexes i) \<union> Phys ` set ps"
    unfolding ps(2) by (simp add: image_Un image_image split_beta)
  moreover have "snd ` set (input_vregs_with_indexes i) = set (input_vregs i)" by (force simp: input_vregs_indexes)
  ultimately show ?thesis unfolding inst_reads_def using in_units_set [OF ps(1)] by (simp add: map_filter_set)
qed

lemma code_block_unique: "code_ok bbs code \<Longrightarrow> (b, is) \<in> set code \<Longrightarrow> bc \<in> set code \<Longrightarrow> fst bc = b \<Longrightarrow> bc = (b, is)"
  unfolding code_ok_def by (metis eq_key_imp_eq_value prod.collapse)

lemma code_block_UN:
  assumes "code_ok bbs code" "(b, is) \<in> set code"
  shows "(\<Union>bc \<in> set code. if fst bc = b then g bc else {}) = g (b, is)"
proof -
  have "bc \<in> {bc \<in> set code. fst bc = b} \<longleftrightarrow> bc = (b, is)" for bc
    using code_block_unique [OF assms, of bc] assms(2) by auto
  then have "{bc \<in> set code. fst bc = b} = {(b, is)}" by blast
  moreover have "(\<Union>bc \<in> set code. if fst bc = b then g bc else {}) = (\<Union>bc \<in> {bc \<in> set code. fst bc = b}. g bc)" by auto
  ultimately show ?thesis by simp
qed

lemma block_defs_code: "code_ok bbs code \<Longrightarrow> (b, is) \<in> set code \<Longrightarrow> r \<in> block_defs code b \<longleftrightarrow> (\<exists>i \<in> set is. r \<in> inst_defs (snd i))"
  unfolding block_defs_def by (subst code_block_UN) auto

lemma code_uses_code:
  assumes "code_ok bbs code" "(b, is) \<in> set code"
  shows "r \<in> fst ` code_uses code b \<longleftrightarrow> (\<exists>k < length is. r \<in> inst_reads (snd (is ! k)))"
proof -
  have u: "inst_uses (snd i) \<noteq> None" if "i \<in> set is" for i
    using assms that regs_ok_units(1) by (fastforce simp: code_ok_def inst_uses_def)
  have "fst ` code_uses code b = (\<Union>i \<in> set is. fst ` (case inst_uses (snd i) of None \<Rightarrow> {} | Some us \<Rightarrow> set us))"
    unfolding code_uses_def by (subst code_block_UN [OF assms]) (simp add: image_UN)
  also have "\<dots> = (\<Union>i \<in> set is. inst_reads (snd i))"
  proof (rule SUP_cong [OF refl])
    fix i assume "i \<in> set is"
    then obtain us where "inst_uses (snd i) = Some us" using u by blast
    then show "fst ` (case inst_uses (snd i) of None \<Rightarrow> {} | Some us \<Rightarrow> set us) = inst_reads (snd i)"
      using inst_uses_reads by simp
  qed
  finally have "r \<in> fst ` code_uses code b \<longleftrightarrow> (\<exists>i \<in> set is. r \<in> inst_reads (snd i))" by simp
  then show ?thesis by (metis in_set_conv_nth)
qed

lemma live_before_entry:
  assumes ok: "code_ok bbs code" and first: "written_first code"
  shows "live_before bbs code r b k \<Longrightarrow> (b, is) \<in> set code \<Longrightarrow> \<forall>j < k. r \<notin> inst_defs (snd (is ! j)) \<Longrightarrow> live_at_entry bbs code r b"
proof (induction arbitrary: "is" rule: live_before.induct)
  case (live_read b js k)
  have [simp]: "js = is" using code_block_unique [OF ok live_read.prems(1) live_read.hyps(1)] by simp
  have "r \<notin> block_defs code b"
    using first live_read unfolding block_defs_code [OF ok live_read.prems(1)] written_first_def by fastforce
  moreover have "r \<in> fst ` code_uses code b" using live_read unfolding code_uses_code [OF ok live_read.prems(1)] by auto
  ultimately show ?case by (rule live_at_entry_use)
next
  case (live_skip b js k)
  have "js = is" using code_block_unique [OF ok live_skip.prems(1) live_skip.hyps(1)] by simp
  then show ?case using live_skip by (simp add: less_Suc_eq)
next
  case (live_succ b js c)
  have js: "js = is" using code_block_unique [OF ok live_succ.prems(1) live_succ.hyps(1)] by simp
  obtain ks where "(c, ks) \<in> set code" using live_succ.hyps(3) by cases auto
  then have "live_at_exit bbs code r b" using live_succ.IH live_succ.hyps(2) unfolding live_at_exit_def by blast
  moreover have "r \<notin> block_defs code b"
    using live_succ.prems(2) unfolding js block_defs_code [OF ok live_succ.prems(1)] by (metis in_set_conv_nth)
  ultimately show ?case by (rule live_at_entry_step [rotated])
qed

lemma live_before_back:
  assumes "(b, is) \<in> set code" "live_before bbs code r b k" "k \<le> length is" "\<forall>j < k. r \<notin> inst_defs (snd (is ! j))"
  shows "live_before bbs code r b 0"
  using assms(2-4)
proof (induction k rule: nat.induct)
  case (Suc k)
  have "live_before bbs code r b k" by (rule live_skip [OF assms(1)]) (use Suc.prems in auto)
  then show ?case using Suc by simp
qed

lemma entry_live_before:
  assumes ok: "code_ok bbs code"
  shows "live_path bbs code r (b # bs) \<Longrightarrow> live_before bbs code r b 0"
proof (induction bs arbitrary: b)
  case Nil
  then obtain "is" where b: "(b, is) \<in> set code" by (auto simp: code_uses_def split: if_splits)
  then obtain k where k: "k < length is" "r \<in> inst_reads (snd (is ! k))" using Nil code_uses_code [OF ok b] by auto
  show ?case by (rule live_before_back [OF b live_read [OF b k]])
    (use Nil k in \<open>auto simp: block_defs_code [OF ok b]\<close>)
next
  case (Cons c bs)
  then have "live_before bbs code r c 0" by simp
  moreover obtain "is" where b: "(b, is) \<in> set code" using live_path_blocks [OF ok Cons.prems] by auto
  ultimately have "live_before bbs code r b (length is)" using Cons.prems by (auto intro: live_succ)
  then show ?case by (rule live_before_back [OF b]) (use Cons.prems in \<open>auto simp: block_defs_code [OF ok b]\<close>)
qed

lemma live_before_blocks:
  assumes "code_ok bbs code" "written_first code" "(b, is) \<in> set code"
  shows "live_before bbs code r b 0 \<longleftrightarrow> live_at_entry bbs code r b"
    and "live_before bbs code r b (length is) \<longleftrightarrow> live_at_exit bbs code r b"
proof -
  show entry: "live_before bbs code r b 0 \<longleftrightarrow> live_at_entry bbs code r b"
    using live_before_entry [OF assms(1,2) _ assms(3)] entry_live_before [OF assms(1)] by (auto simp: live_at_entry_def)
  have "\<exists>c. b \<in> set (preds (bbs ! c)) \<and> live_before bbs code r c 0" if "live_before bbs code r b (length is)"
    using that code_block_unique [OF assms(1,3)] by cases auto
  moreover have "live_before bbs code r c 0 \<Longrightarrow> live_at_entry bbs code r c" for c
  proof -
    assume c: "live_before bbs code r c 0"
    then obtain js where "(c, js) \<in> set code" by cases auto
    then show ?thesis using live_before_entry [OF assms(1,2) c] by simp
  qed
  moreover have "live_at_entry bbs code r c \<Longrightarrow> live_before bbs code r c 0" for c
    using entry_live_before [OF assms(1)] by (auto simp: live_at_entry_def)
  ultimately show "live_before bbs code r b (length is) \<longleftrightarrow> live_at_exit bbs code r b"
    using live_succ [OF assms(3)] unfolding live_at_exit_def by blast
qed



text \<open>
  A register that a block reads before it writes it is live before the block, but not in the live-in set, as
  with an argument register that is copied and then set for a call.
\<close>

definition read_then_written :: "mfunc option" where
  "read_then_written = compile_function (new_types 0) False new_slots (i32_vregs 4)
     [(\<lparr>ib_id = 0, ib_preds = [], ib_succs = []\<rparr>,
         [mk_inst MOVrr [op_out (OVReg (VReg 0)), op_in (OReg (gr_reg R1))],
          mk_inst MOVri [op_out (OReg (gr_reg R1)), op_new (OInt32 5)], mk_inst RET []])]"

theorem read_then_written_not_live_in:
  "\<exists>f code lv. read_then_written = Some f \<and> func_code f = Some code \<and> analyze_function f new_liveness = Some lv
     \<and> live_before (basic_blocks (f_data f)) code (Phys (gr_unit R1)) 0 0 \<and> Phys (gr_unit R1) \<notin> LI (block_data lv) 0"
proof -
  have "map_option (\<lambda>f. (map_option (\<lambda>c. (length c = 1, fst (c ! 0) = 0, 0 < length (snd (c ! 0)), Phys (gr_unit R1) \<in> inst_reads (snd (snd (c ! 0) ! 0))))
      (func_code f), map_option (\<lambda>lv. Phys (gr_unit R1) \<in> LI (block_data lv) 0) (analyze_function f new_liveness))) read_then_written
      = Some (Some (True, True, True, True), Some False)"
    by code_simp
  then obtain f c lv where f: "read_then_written = Some f" "func_code f = Some c" "analyze_function f new_liveness = Some lv"
      "Phys (gr_unit R1) \<notin> LI (block_data lv) 0"
    and c: "length c = 1" "fst (c ! 0) = 0" "0 < length (snd (c ! 0))" "Phys (gr_unit R1) \<in> inst_reads (snd (snd (c ! 0) ! 0))" by auto
  have "(0, snd (c ! 0)) \<in> set c" using c(1,2) nth_mem [of 0 c] by (metis less_numeral_extra(1) prod.collapse)
  from live_read [OF this c(3,4)] f show ?thesis by blast
qed

text \<open>
  C3: as long as the numbers of a block fit into 32 bits, every instruction gets a program point, and the
  live ranges cover the code: a register has a segment around each instruction that reads or writes it, a
  segment from the entry of each block where it is live-in, one up to the exit of each block where it is
  live-out, and one over the whole block where it is both.
\<close>

theorem live_ranges_cover:
  assumes "func_code f = Some code" "code_ok (basic_blocks (f_data f)) code" "distinct (map fst (code_insts code))"
    and "\<forall>bc \<in> set code. 16 * (length (snd bc) + 1) < 2 ^ 32"
  shows "\<exists>lv. analyze_function f new_liveness = Some lv \<and> (\<forall>j < length code. block_points_covered j (code ! j) lv)"
proof -
  obtain lv where lv: "analyze_function f new_liveness = Some lv"
    and res: "analysis_result (basic_blocks (f_data f)) code lv"
    using analyze_function_result [OF assms(1,2)] by blast
  have "block_points_covered j (code ! j) lv" if j: "j < length code" for j
    using res assms(3,4) j by (intro block_ranged_points) (simp_all add: analysis_result_def)
  then show ?thesis using lv by blast
qed

theorem live_ranges_cover_witness:
  "\<exists>f lv. loop_function = Some f \<and> analyze_function f new_liveness = Some lv
     \<and> covered lv (VReg 0) (PP 1 16) (PP 1 16)"
proof -
  have "map_option (\<lambda>f. map_option (\<lambda>c. (code_ok (basic_blocks (f_data f)) c \<and> distinct (map fst (code_insts c)),
      (\<forall>bc \<in> set c. length (snd bc) \<le> 9), (length c > 1, length (snd (c ! 1)) > 0),
      input_vregs (snd (snd (c ! 1) ! 0)) = [VReg 0])) (func_code f)) loop_function
      = Some (Some (True, True, (True, True), True))"
    by code_simp
  then obtain f c where f: "loop_function = Some f" "func_code f = Some c" "code_ok (basic_blocks (f_data f)) c"
      "distinct (map fst (code_insts c))" "\<forall>bc \<in> set c. length (snd bc) \<le> 9"
    and c: "length c > 1" "length (snd (c ! 1)) > 0" "input_vregs (snd (snd (c ! 1) ! 0)) = [VReg 0]" by auto
  have "\<forall>bc \<in> set c. 16 * (length (snd bc) + 1) < 2 ^ 32" using f(5) by fastforce
  then obtain lv where lv: "analyze_function f new_liveness = Some lv" "block_points_covered 1 (c ! 1) lv"
    using live_ranges_cover [OF f(2-4)] c(1) by blast
  have "VReg 0 \<in> touched (snd (snd (c ! 1) ! 0))" using c(3) by (simp add: touched_def)
  then have "covered lv (VReg 0) (PP (of_nat 1) (of_nat (16 * (0 + 1)))) (PP (of_nat 1) (of_nat (16 * (0 + 1))))"
    using lv(2) c(2) unfolding block_points_covered_def Let_def by blast
  then show ?thesis using f(1) lv(1) by auto
qed

text \<open>
  A phi operand can be lost.  In the loop below the phi of block 1 reads register 2 from its own
  block, but register 2 is not live-out there: \<open>propagate_reg\<close> returns as soon as the block
  defines the register, before it looks at the phi predecessor.  Its live range then ends where the range
  of register 3 begins, so the two do not interfere although register 2 is still needed.
\<close>

theorem phi_operand_lost:
  "map_option (\<lambda>f. (map_option (\<lambda>c. (Virt (VReg 2), Some 1) \<in> code_uses c 1) (func_code f),
       map_option (\<lambda>lv. (Virt (VReg 2) \<in> LO (block_data lv) 1,
         lr_interfere (ranges (vreg_lrs_map lv) (VReg 2)) (ranges (vreg_lrs_map lv) (VReg 3))))
       (analyze_function f new_liveness))) phi_loop_function = Some (Some True, Some (False, False))"
  by code_simp

end
