(* ===== verification/Data_Layout.thy ===== *)
theory Data_Layout
  imports IR_Types Word_Align
begin

section \<open>Sizes, alignments and structure layout\<close>

text \<open>
  Model of \<open>src/codegen/core/ir/module/data_layout/mod.rs\<close>.  Sizes are \<open>usize\<close> words.  A
  type may refer to itself through a named structure, and the code then recurses without end; the
  functions here run on fuel, and \<open>layout_fuel_mono\<close> shows that a result does not depend on the
  fuel that was enough.  The types with no size (functions, aliases, metadata) panic.
\<close>

type_synonym usize = "64 word"

definition prim_size :: "ty \<Rightarrow> usize option" where
  "prim_size t =
     (if t = VOID then Some 0 else if t = I1 then Some 1 else if t = I8 then Some 1
      else if t = I16 then Some 2 else if t = I32 \<or> t = I64 then Some 4 else None)"

fun size_of :: "nat \<Rightarrow> types \<Rightarrow> ty \<Rightarrow> usize option"
  and align_of :: "nat \<Rightarrow> types \<Rightarrow> ty \<Rightarrow> usize option"
  and place_elems :: "nat \<Rightarrow> types \<Rightarrow> bool \<Rightarrow> ty list \<Rightarrow> usize \<Rightarrow> usize \<Rightarrow> (usize list \<times> usize \<times> usize) option"
  and struct_layout :: "nat \<Rightarrow> types \<Rightarrow> bool \<Rightarrow> ty list \<Rightarrow> (usize list \<times> usize \<times> usize) option"
where
  "size_of 0 T t = None"
| "size_of (Suc n) T t = do {
     c \<leftarrow> get_type T t;
     (case c of
        None \<Rightarrow> prim_size t
      | Some (Array i k) \<Rightarrow> map_option (\<lambda>s. s * of_nat k) (size_of n T i)
      | Some (Pointer _ _) \<Rightarrow> Some 4
      | Some (Struct _ es packed) \<Rightarrow> map_option (fst \<circ> snd) (struct_layout n T packed es)
      | Some _ \<Rightarrow> None) }"
| "align_of 0 T t = None"
| "align_of (Suc n) T t = do {
     c \<leftarrow> get_type T t;
     (case c of
        None \<Rightarrow> prim_size t
      | Some (Array i _) \<Rightarrow> size_of n T i
      | Some (Pointer _ _) \<Rightarrow> Some 4
      | Some (Struct _ es packed) \<Rightarrow> map_option (snd \<circ> snd) (struct_layout n T packed es)
      | Some _ \<Rightarrow> None) }"
| "place_elems n T packed [] offset align = Some ([], offset, align)"
| "place_elems n T packed (e # es) offset align = (case (if packed then Some 1 else align_of n T e) of
     None \<Rightarrow> None
   | Some ea \<Rightarrow> (case word_round ea offset of
       None \<Rightarrow> None
     | Some offset \<Rightarrow> (case size_of n T e of
         None \<Rightarrow> None
       | Some sz \<Rightarrow> map_option (\<lambda>(offs, r). (offset # offs, r))
           (place_elems n T packed es (offset + sz) (max align ea)))))"
| "struct_layout n T packed es = (case place_elems n T packed es 0 1 of
     None \<Rightarrow> None
   | Some (offs, offset, align) \<Rightarrow> map_option (\<lambda>offset. (offs, offset, align)) (word_round align offset))"

definition new_struct_layout_for :: "nat \<Rightarrow> types \<Rightarrow> ty \<Rightarrow> (usize list \<times> usize \<times> usize) option option" where
  "new_struct_layout_for n T t = do {
     c \<leftarrow> get_type T t;
     (case c of
        Some (Struct _ es packed) \<Rightarrow> map_option Some (struct_layout n T packed es)
      | _ \<Rightarrow> Some None) }"

definition get_elem_offset :: "usize list \<times> usize \<times> usize \<Rightarrow> nat \<Rightarrow> usize option" where
  "get_elem_offset sl i = (if i < length (fst sl) then Some (fst sl ! i) else None)"

text \<open>One call per nesting level of the type table is enough, unless the type contains itself.\<close>

definition layout_fuel :: "types \<Rightarrow> nat" where
  "layout_fuel T = Suc (length (compound_types T))"

definition get_size_of :: "types \<Rightarrow> ty \<Rightarrow> usize option" where
  "get_size_of T t = size_of (layout_fuel T) T t"

definition get_align_of :: "types \<Rightarrow> ty \<Rightarrow> usize option" where
  "get_align_of T t = align_of (layout_fuel T) T t"

subsection \<open>Fuel\<close>

declare struct_layout.simps [simp del]

lemma layout_fuel_mono:
  "size_of n T t = Some s \<Longrightarrow> n \<le> n' \<Longrightarrow> size_of n' T t = Some s"
  "align_of n T t = Some s \<Longrightarrow> n \<le> n' \<Longrightarrow> align_of n' T t = Some s"
  "place_elems n T packed es offset align = Some r \<Longrightarrow> n \<le> n' \<Longrightarrow> place_elems n' T packed es offset align = Some r"
  "struct_layout n T packed es = Some r \<Longrightarrow> n \<le> n' \<Longrightarrow> struct_layout n' T packed es = Some r"
proof (induction n T t and n T t and n T packed es offset align and n T packed es arbitrary: n' s and n' s and n' r and n' r
    rule: size_of_align_of_place_elems_struct_layout.induct)
  case (2 n T t)
  obtain m where m: "n' = Suc m" "n \<le> m" using "2.prems"(2) by (cases n') auto
  obtain c where c: "get_type T t = Some c" using "2.prems"(1) by (cases "get_type T t") simp_all
  show ?case
  proof (cases c)
    case None
    then show ?thesis using "2.prems"(1) c m by simp
  next
    case (Some k)
    note ih = "2.IH" [OF c Some]
    show ?thesis
    proof (cases k)
      case (Array i x)
      with "2.prems"(1) c Some obtain s1 where s1: "size_of n T i = Some s1" by auto
      show ?thesis
        using "2.prems"(1) c Some Array m(1) s1 ih(1) [OF Array s1 m(2)] by simp
    next
      case (Struct a b d)
      with "2.prems"(1) c Some obtain r1 where r1: "struct_layout n T d b = Some r1" by auto
      show ?thesis
        using "2.prems"(1) c Some Struct m(1) r1 ih(2) [OF Struct r1 m(2)] by simp
    qed (use "2.prems"(1) c Some m(1) in simp_all)
  qed
next
  case (4 n T t)
  obtain m where m: "n' = Suc m" "n \<le> m" using "4.prems"(2) by (cases n') auto
  obtain c where c: "get_type T t = Some c" using "4.prems"(1) by (cases "get_type T t") simp_all
  show ?case
  proof (cases c)
    case None
    then show ?thesis using "4.prems"(1) c m by simp
  next
    case (Some k)
    note ih = "4.IH" [OF c Some]
    show ?thesis
    proof (cases k)
      case (Array i x)
      with "4.prems"(1) c Some obtain s1 where s1: "size_of n T i = Some s1" by auto
      show ?thesis
        using "4.prems"(1) c Some Array m(1) s1 ih(1) [OF Array s1 m(2)] by simp
    next
      case (Struct a b d)
      with "4.prems"(1) c Some obtain r1 where r1: "struct_layout n T d b = Some r1" by auto
      show ?thesis
        using "4.prems"(1) c Some Struct m(1) r1 ih(2) [OF Struct r1 m(2)] by simp
    qed (use "4.prems"(1) c Some m(1) in simp_all)
  qed
next
  case (6 n T packed e es offset align)
  obtain ea where ea: "(if packed then Some 1 else align_of n T e) = Some ea"
    using "6.prems"(1) by (auto split: option.splits)
  obtain o1 where o1: "word_round ea offset = Some o1"
    using "6.prems"(1) ea by (auto split: option.splits)
  obtain sz where sz: "size_of n T e = Some sz"
    using "6.prems"(1) ea o1 by (auto split: option.splits)
  obtain q where q: "place_elems n T packed es (o1 + sz) (max align ea) = Some q" "r = (case q of (offs, r) \<Rightarrow> (o1 # offs, r))"
    using "6.prems"(1) ea o1 sz by (auto split: option.splits)
  have "(if packed then Some 1 else align_of n' T e) = Some ea"
  proof (cases packed)
    case False
    then have "align_of n T e = Some ea" using ea by simp
    then have "align_of n' T e = Some ea" by (rule "6.IH"(1) [OF False _ "6.prems"(2)])
    then show ?thesis using False by simp
  qed (use ea in simp)
  moreover have "size_of n' T e = Some sz" by (rule "6.IH"(2) [OF ea o1 sz "6.prems"(2)])
  moreover have "place_elems n' T packed es (o1 + sz) (max align ea) = Some q"
    by (rule "6.IH"(3) [OF ea o1 sz q(1) "6.prems"(2)])
  ultimately show ?case using o1 q(2) by simp
next
  case (7 n T packed es)
  obtain q where q: "place_elems n T packed es 0 1 = Some q"
    using "7.prems"(1) by (auto simp: struct_layout.simps split: option.splits)
  have "place_elems n' T packed es 0 1 = Some q" by (rule "7.IH" [OF q "7.prems"(2)])
  then show ?case
    using "7.prems"(1) q by (simp add: struct_layout.simps)
qed simp_all

subsection \<open>The layout of a structure\<close>

definition elem_align :: "nat \<Rightarrow> types \<Rightarrow> bool \<Rightarrow> ty \<Rightarrow> usize option" where
  "elem_align n T packed e = (if packed then Some 1 else align_of n T e)"

text \<open>Every element has a size and an alignment that is a power of two.\<close>

definition elem_ok :: "nat \<Rightarrow> types \<Rightarrow> bool \<Rightarrow> ty \<Rightarrow> bool" where
  "elem_ok n T packed e \<longleftrightarrow> size_of n T e \<noteq> None \<and>
     (case elem_align n T packed e of None \<Rightarrow> False | Some a \<Rightarrow> pow2_align a)"

fun elem_bytes :: "nat \<Rightarrow> types \<Rightarrow> bool \<Rightarrow> ty list \<Rightarrow> nat" where
  "elem_bytes n T packed [] = 0"
| "elem_bytes n T packed (e # es) =
     unat (the (elem_align n T packed e)) + unat (the (size_of n T e)) + elem_bytes n T packed es"

text \<open>
  From a lower bound on: the offset of every element is a multiple of its alignment and not before the
  end of the previous element, and the last element ends before the upper bound.
\<close>

fun fields_placed :: "nat \<Rightarrow> types \<Rightarrow> bool \<Rightarrow> nat \<Rightarrow> ty list \<Rightarrow> usize list \<Rightarrow> nat \<Rightarrow> bool" where
  "fields_placed n T packed lo [] [] hi = (lo \<le> hi)"
| "fields_placed n T packed lo (e # es) (f # fs) hi =
     (lo \<le> unat f \<and> unat (the (elem_align n T packed e)) dvd unat f \<and>
      fields_placed n T packed (unat f + unat (the (size_of n T e))) es fs hi)"
| "fields_placed n T packed lo _ _ hi = False"

lemma fields_placed_mono: "fields_placed n T packed lo es fs hi \<Longrightarrow> hi \<le> hi' \<Longrightarrow> fields_placed n T packed lo es fs hi'"
  by (induction n T packed lo es fs hi rule: fields_placed.induct) auto

lemma fields_placed_length: "fields_placed n T packed lo es fs hi \<Longrightarrow> length fs = length es"
  by (induction n T packed lo es fs hi rule: fields_placed.induct) auto

lemma place_elems_spec:
  assumes "list_all (elem_ok n T packed) es" "pow2_align align" "unat offset + elem_bytes n T packed es < 2 ^ 64"
  shows "\<exists>fs o' a'. place_elems n T packed es offset align = Some (fs, o', a')
    \<and> fields_placed n T packed (unat offset) es fs (unat o') \<and> unat o' \<le> unat offset + elem_bytes n T packed es
    \<and> pow2_align a' \<and> align \<le> a' \<and> (\<forall>e \<in> set es. the (elem_align n T packed e) \<le> a')
    \<and> (a' = align \<or> a' \<in> (the \<circ> elem_align n T packed) ` set es)"
  using assms
proof (induction es arbitrary: offset align)
  case Nil
  then show ?case by simp
next
  case (Cons e es)
  obtain sz ea where sz: "size_of n T e = Some sz" and ea: "elem_align n T packed e = Some ea" and pa: "pow2_align ea"
    using Cons.prems(1) by (auto simp: elem_ok_def split: option.splits)
  have ea': "(if packed then Some 1 else align_of n T e) = Some ea" using ea by (simp add: elem_align_def)
  have fit: "unat offset + unat ea < 2 ^ LENGTH(64)"
    using Cons.prems(3) ea by simp
  obtain o1 where o1: "word_round ea offset = Some o1" "unat offset \<le> unat o1"
    "unat o1 < unat offset + unat ea" "unat ea dvd unat o1"
    using word_round_pow2 [OF pa fit] by blast
  have "unat o1 + unat sz < 2 ^ LENGTH(64)" using o1(3) Cons.prems(3) sz ea by simp
  then have add: "unat (o1 + sz) = unat o1 + unat sz"
    using unat_word_ariths(1) [of o1 sz] by simp
  have "unat (o1 + sz) + elem_bytes n T packed es < 2 ^ 64"
    using add o1(3) Cons.prems(3) sz ea by simp
  then obtain fs o' a' where IH: "place_elems n T packed es (o1 + sz) (max align ea) = Some (fs, o', a')"
    "fields_placed n T packed (unat (o1 + sz)) es fs (unat o')" "unat o' \<le> unat (o1 + sz) + elem_bytes n T packed es"
    "pow2_align a'" "max align ea \<le> a'" "\<forall>e \<in> set es. the (elem_align n T packed e) \<le> a'"
    "a' = max align ea \<or> a' \<in> (the \<circ> elem_align n T packed) ` set es"
    using Cons.IH [OF _ max_pow2 [OF Cons.prems(2) pa], of "o1 + sz"] Cons.prems(1) by auto
  have run: "place_elems n T packed (e # es) offset align = Some (o1 # fs, o', a')"
    using ea' o1(1) sz IH(1) by simp
  have placed: "fields_placed n T packed (unat offset) (e # es) (o1 # fs) (unat o')"
    using o1(2,4) IH(2) ea sz add by simp
  have le: "unat o' \<le> unat offset + elem_bytes n T packed (e # es)"
    using IH(3) add o1(3) ea sz by simp
  have cases: "a' = align \<or> a' \<in> (the \<circ> elem_align n T packed) ` set (e # es)"
    using IH(7) ea by (auto simp: max_def split: if_splits)
  show ?case
    using run placed le IH(4-6) ea cases by (intro exI [of _ "o1 # fs"] exI [of _ o'] exI [of _ a']) simp
qed

text \<open>
  C39: the layout of a structure whose elements have power-of-two alignments and fit into the address
  space: one offset per element, each a multiple of the alignment of its element (1 when packed), no two
  elements overlap, all elements lie within the size, and the size is a multiple of every alignment.
\<close>

theorem struct_layout_correct:
  assumes "list_all (elem_ok n T packed) es"
    and "elem_bytes n T packed es + Max (insert 1 (set (map (\<lambda>e. unat (the (elem_align n T packed e))) es))) < 2 ^ 64"
  shows "\<exists>offs size align. struct_layout n T packed es = Some (offs, size, align)
    \<and> length offs = length es \<and> fields_placed n T packed 0 es offs (unat size)
    \<and> unat align dvd unat size \<and> (\<forall>e \<in> set es. unat (the (elem_align n T packed e)) dvd unat align)"
proof -
  let ?M = "Max (insert 1 (set (map (\<lambda>e. unat (the (elem_align n T packed e))) es)))"
  have "unat (0 :: usize) + elem_bytes n T packed es < 2 ^ 64" using assms(2) by simp
  then obtain fs o' a' where pe: "place_elems n T packed es 0 1 = Some (fs, o', a')"
    "fields_placed n T packed 0 es fs (unat o')" "unat o' \<le> elem_bytes n T packed es"
    "pow2_align a'" "\<forall>e \<in> set es. the (elem_align n T packed e) \<le> a'"
    "a' = 1 \<or> a' \<in> (the \<circ> elem_align n T packed) ` set es"
    using place_elems_spec [OF assms(1) pow2_align_one, of 0] by auto
  have "unat a' \<le> ?M" using pe(6) by (intro Max_ge) auto
  then have "unat o' + unat a' < 2 ^ LENGTH(64)" using pe(3) assms(2) by simp
  then obtain y where y: "word_round a' o' = Some y" "unat o' \<le> unat y" "unat a' dvd unat y"
    using word_round_pow2 [OF pe(4)] by blast
  have len: "length fs = length es" by (rule fields_placed_length [OF pe(2)])
  have "unat (the (elem_align n T packed e)) dvd unat a'" if "e \<in> set es" for e
  proof -
    have "pow2_align (the (elem_align n T packed e))"
      using assms(1) that by (auto simp: list_all_iff elem_ok_def split: option.splits)
    then show ?thesis using pow2_dvd [OF _ pe(4)] pe(5) that by blast
  qed
  then show ?thesis
    using pe(1,2) y len fields_placed_mono by (auto simp: struct_layout.simps)
qed

theorem struct_layout_correct_witness:
  "\<exists>offs size align. struct_layout 1 (new_types 1) False [I8, I32, I16] = Some (offs, size, align)
    \<and> length offs = 3 \<and> fields_placed 1 (new_types 1) False 0 [I8, I32, I16] offs (unat size) \<and> unat align dvd unat size"
proof -
  have p: "pow2_align (1 :: usize)" "pow2_align (2 :: usize)" "pow2_align (4 :: usize)"
    unfolding pow2_align_def by (rule exI [of _ 0], simp) (rule exI [of _ 1], simp, rule exI [of _ 2], simp)
  have ok: "list_all (elem_ok 1 (new_types 1) False) [I8, I32, I16]"
    using p by (simp add: elem_ok_def elem_align_def get_type_def prim_size_def prim_defs)
  have b: "elem_bytes 1 (new_types 1) False [I8, I32, I16]
      + Max (insert 1 (set (map (\<lambda>e. unat (the (elem_align 1 (new_types 1) False e))) [I8, I32, I16]))) < 2 ^ 64"
    by (simp add: elem_align_def get_type_def prim_size_def prim_defs)
  show ?thesis using struct_layout_correct [OF ok b] by auto
qed

end
