(* ===== verification/Spiller.thy ===== *)
theory Spiller
  imports Liveness Data_Layout
begin

section \<open>The spiller\<close>

text \<open>
  Model of \<open>src/codegen/pass/spiller.rs\<close> and of the two instruction constructors it uses in
  \<open>isa/ola/instruction/mod.rs\<close>.  The spiller owns the function and its liveness; both are
  threaded through as a pair.  The recursion of \<open>insert_inst_after\<close> and
  \<open>insert_inst_before\<close> ends as soon as there is room between two program points; it is a
  \<open>partial_function\<close>, and \<open>insert_after_returns\<close> shows when it returns.
\<close>

type_synonym spill_state = "mfunc \<times> liveness"

definition vreg_operand :: "operand_data \<Rightarrow> operand list" where
  "vreg_operand s = [op_new OMemStart, op_new ONone, op_new s, op_new ONone, op_in ONone, op_in ONone, op_new ONone]"

definition store_vreg_to_slot :: "mfunc \<Rightarrow> vreg \<Rightarrow> nat \<Rightarrow> nat \<Rightarrow> instruction option" where
  "store_vreg_to_slot f v slot b = do {
     t \<leftarrow> type_for v (d_vregs (f_data f));
     sz \<leftarrow> get_size_of (f_types f) t;
     if sz = 4
     then Some (new_instruction \<lparr>opcode = MSTOREr, operands = vreg_operand (OSlot slot) @ [op_in (OVReg v)]\<rparr> b)
     else None }"

definition load_from_slot :: "mfunc \<Rightarrow> vreg \<Rightarrow> nat \<Rightarrow> nat \<Rightarrow> instruction option" where
  "load_from_slot f v slot b = do {
     t \<leftarrow> type_for v (d_vregs (f_data f));
     sz \<leftarrow> get_size_of (f_types f) t;
     if sz = 4
     then Some (new_instruction \<lparr>opcode = MLOADr, operands = op_out (OVReg v) # vreg_operand (OSlot slot)\<rparr> b)
     else None }"

definition set_layout :: "layout \<Rightarrow> mfunc \<Rightarrow> mfunc" where
  "set_layout l f = f\<lparr>f_layout := l\<rparr>"

definition set_pp :: "nat \<Rightarrow> program_point \<Rightarrow> liveness \<Rightarrow> liveness" where
  "set_pp i p lv = lv\<lparr>inst_to_pp := (inst_to_pp lv)(i \<mapsto> p)\<rparr>"

text \<open>
  \<open>insert_inst_after\<close> does nothing when \<open>after\<close> is the last instruction of its block: the
  new instruction then has neither a place nor a program point.
\<close>

partial_function (option) spill_insert_after :: "nat \<Rightarrow> nat \<Rightarrow> nat \<Rightarrow> mfunc \<times> liveness \<Rightarrow> (mfunc \<times> liveness) option" where
  "spill_insert_after after i b st = do {
     after_pp \<leftarrow> inst_to_pp (snd st) after;
     nx \<leftarrow> next_inst_of after (f_layout (fst st));
     (case nx of
        None \<Rightarrow> Some st
      | Some na \<Rightarrow> do {
          na_pp \<leftarrow> inst_to_pp (snd st) na;
          (case between after_pp na_pp of
             Some p \<Rightarrow> do {
               l \<leftarrow> insert_inst_after after i b (f_layout (fst st));
               Some (set_layout l (fst st), set_pp i p (snd st)) }
           | None \<Rightarrow> spill_insert_after after i b (fst st, recompute_program_points_after after_pp False (snd st))) }) }"

text \<open>
  Before the first instruction of a block the points are renumbered with one more step, and the new
  instruction gets a point between the block entry and the old point of \<open>before\<close>.
\<close>

partial_function (option) spill_insert_before :: "nat \<Rightarrow> nat \<Rightarrow> nat \<Rightarrow> mfunc \<times> liveness \<Rightarrow> (mfunc \<times> liveness) option" where
  "spill_insert_before before i b st = do {
     before_pp \<leftarrow> inst_to_pp (snd st) before;
     pv \<leftarrow> prev_inst_of before (f_layout (fst st));
     (prev_pp, lv) \<leftarrow> (case pv of
        Some pb \<Rightarrow> map_option (\<lambda>p. (p, snd st)) (inst_to_pp (snd st) pb)
      | None \<Rightarrow> if pp_num before_pp > 0
          then Some (PP (pp_block before_pp) 0, recompute_program_points_after before_pp True (snd st))
          else None);
     (case between prev_pp before_pp of
        Some p \<Rightarrow> do {
          l \<leftarrow> insert_inst_before before i b (f_layout (fst st));
          Some (set_layout l (fst st), set_pp i p lv) }
      | None \<Rightarrow> spill_insert_before before i b (fst st, recompute_program_points_after before_pp False lv)) }"

declare spill_insert_after.simps [code] spill_insert_before.simps [code]

subsection \<open>Spilling one register\<close>

text \<open>A stable sort by descending program point; a single definition is not compared.\<close>

definition sort_defs :: "liveness \<Rightarrow> nat list \<Rightarrow> nat list option" where
  "sort_defs lv ds =
     (if length ds \<le> 1 then Some ds
      else if (\<forall>i \<in> set ds. inst_to_pp lv i \<noteq> None)
      then Some (rev (sort_key (\<lambda>i. the (inst_to_pp lv i)) (rev ds)))
      else None)"

text \<open>
  \<open>dedup_by(|a, b| ...)\<close> compares each element \<open>a\<close> with the last one kept, \<open>b\<close>, and drops
  \<open>a\<close> when the closure holds: here, when \<open>b\<close> is the instruction before \<open>a\<close>.
\<close>

fun dedup_defs :: "layout \<Rightarrow> nat list \<Rightarrow> nat list \<Rightarrow> nat list option" where
  "dedup_defs l kept [] = Some (rev kept)"
| "dedup_defs l [] (a # ds) = dedup_defs l [a] ds"
| "dedup_defs l (b # kept) (a # ds) = (case prev_inst_of a l of
     None \<Rightarrow> None
   | Some p \<Rightarrow> if p = Some b then dedup_defs l (b # kept) ds else dedup_defs l (a # b # kept) ds)"

definition set_data :: "mdata \<Rightarrow> mfunc \<Rightarrow> mfunc" where
  "set_data d f = f\<lparr>f_data := d\<rparr>"

text \<open>A fresh register takes the place of the spilled one in an instruction.\<close>

definition rename_in :: "nat \<Rightarrow> vreg \<Rightarrow> mfunc \<Rightarrow> (vreg \<times> nat \<times> mfunc) option" where
  "rename_in k v f = do {
     (nv, vs) \<leftarrow> create_from v (d_vregs (f_data f));
     d \<leftarrow> inst_replace_vreg k v nv ((f_data f)\<lparr>d_vregs := vs\<rparr>);
     i \<leftarrow> inst_ref d k;
     Some (nv, in_parent i, set_data d f) }"

definition spill_def :: "vreg \<Rightarrow> nat \<Rightarrow> nat \<Rightarrow> spill_state \<times> vreg list \<Rightarrow> (spill_state \<times> vreg list) option" where
  "spill_def v slot k s = (case s of ((f, lv), nvs) \<Rightarrow> do {
     (nv, b, f) \<leftarrow> rename_in k v f;
     i \<leftarrow> store_vreg_to_slot f nv slot b;
     let (id, d) = create_inst i (f_data f);
     st \<leftarrow> spill_insert_after k id b (set_data d f, lv);
     Some (st, nvs @ [nv]) })"

definition insert_spill :: "vreg \<Rightarrow> nat \<Rightarrow> spill_state \<times> vreg list \<Rightarrow> (spill_state \<times> vreg list) option" where
  "insert_spill v slot s = (case s of ((f, lv), nvs) \<Rightarrow> do {
     us \<leftarrow> vreg_users (f_data f) v;
     ds \<leftarrow> sort_defs lv (map u_inst (filter u_write us));
     ds \<leftarrow> dedup_defs (f_layout f) [] ds;
     fold_opt (spill_def v slot) ds s })"

definition spill_use :: "vreg \<Rightarrow> nat \<Rightarrow> nat \<Rightarrow> spill_state \<times> vreg list \<Rightarrow> (spill_state \<times> vreg list) option" where
  "spill_use v slot k s = (case s of ((f, lv), nvs) \<Rightarrow> do {
     (nv, b, f) \<leftarrow> rename_in k v f;
     i \<leftarrow> load_from_slot f nv slot b;
     let (id, d) = create_inst i (f_data f);
     st \<leftarrow> spill_insert_before k id b (set_data d f, lv);
     Some (st, nvs @ [nv]) })"

definition insert_reload :: "vreg \<Rightarrow> nat \<Rightarrow> spill_state \<times> vreg list \<Rightarrow> (spill_state \<times> vreg list) option" where
  "insert_reload v slot s = (case s of ((f, lv), nvs) \<Rightarrow> do {
     us \<leftarrow> vreg_users (f_data f) v;
     fold_opt (spill_use v slot) (map u_inst (filter u_read us)) s })"

definition spill :: "vreg \<Rightarrow> spill_state \<Rightarrow> (spill_state \<times> vreg list) option" where
  "spill v st = (case st of (f, lv) \<Rightarrow> do {
     t \<leftarrow> type_for v (d_vregs (f_data f));
     sz \<leftarrow> get_size_of (f_types f) t;
     align \<leftarrow> get_align_of (f_types f) t;
     let (slot, sl) = add_slot t (ucast sz) (ucast align) (f_slots f);
     s \<leftarrow> insert_spill v slot ((f\<lparr>f_slots := sl\<rparr>, lv), []);
     ((f, lv), nvs) \<leftarrow> insert_reload v slot s;
     lv \<leftarrow> fold_opt (compute_live_ranges (vreg_users (f_data f))) nvs lv;
     Some ((f, remove_vreg v lv), nvs) })"

end
