(* ===== verification/Reg_Alloc.thy ===== *)
theory Reg_Alloc
  imports Spiller "HOL-Library.Product_Lexorder"
begin

section \<open>Linear-scan register allocation\<close>

text \<open>
  Model of \<open>src/codegen/pass/regalloc.rs\<close>.  The set of virtual registers is a hash set whose
  iteration order the code does not fix: the order is an argument \<open>iter\<close> of the model, any
  function that lists the elements of a finite set.  The allocation loop may spill and put new
  registers on the work list; it runs on fuel.
\<close>

definition lists_sets :: "(vreg set \<Rightarrow> vreg list) \<Rightarrow> bool" where
  "lists_sets iter \<longleftrightarrow> (\<forall>S. finite S \<longrightarrow> set (iter S) = S \<and> distinct (iter S))"

subsection \<open>Preferred registers\<close>

text \<open>
  \<open>find_preferred_registers\<close> follows the copies out of a register to physical registers.  The set
  of visited instructions grows with every recursive call, so one unit of fuel per instruction is
  enough (\<open>find_preferred_total\<close>).
\<close>

fun find_preferred :: "nat \<Rightarrow> mdata \<Rightarrow> vreg \<Rightarrow> nat set \<Rightarrow> (reg list \<times> nat set) option"
  and find_preferred_users :: "nat \<Rightarrow> mdata \<Rightarrow> vreg_user list \<Rightarrow> nat set \<Rightarrow> reg list \<Rightarrow> (reg list \<times> nat set) option"
where
  "find_preferred 0 d v vis = None"
| "find_preferred (Suc n) d v vis = (case vreg_users d v of
     None \<Rightarrow> None
   | Some us \<Rightarrow> find_preferred_users n d us vis [])"
| "find_preferred_users n d [] vis acc = Some (acc, vis)"
| "find_preferred_users n d (u # us) vis acc = (case inst_ref d (u_inst u) of
     None \<Rightarrow> None
   | Some i \<Rightarrow>
       if u_inst u \<in> vis then find_preferred_users n d us vis acc
       else if u_write u \<or> \<not> is_copy (in_data i) then find_preferred_users n d us (insert (u_inst u) vis) acc
       else (case output_regs (in_data i) of
          r # _ \<Rightarrow> find_preferred_users n d us (insert (u_inst u) vis) (r # acc)
        | [] \<Rightarrow> (case output_vregs (in_data i) of
            [] \<Rightarrow> find_preferred_users n d us (insert (u_inst u) vis) acc
          | dst # _ \<Rightarrow> (case find_preferred n d dst (insert (u_inst u) vis) of
              None \<Rightarrow> None
            | Some (l, vis) \<Rightarrow> find_preferred_users n d us vis (acc @ l)))))"

definition find_preferred_registers :: "mdata \<Rightarrow> vreg \<Rightarrow> reg list option" where
  "find_preferred_registers d v = map_option fst (find_preferred (Suc (length (instructions d))) d v {})"

definition collect_preferred_registers :: "mdata \<Rightarrow> vreg list \<Rightarrow> (vreg \<rightharpoonup> reg list) option" where
  "collect_preferred_registers d vs = fold_opt (\<lambda>v m. do {
     rs \<leftarrow> find_preferred_registers d v;
     Some (if rs = [] then m else m(v \<mapsto> rs)) }) vs Map.empty"

subsection \<open>Registers alive around a call\<close>

definition alive_around :: "liveness \<Rightarrow> vreg list \<Rightarrow> program_point \<Rightarrow> vreg list option" where
  "alive_around lv vs pp = fold_opt (\<lambda>v out. do {
     lr \<leftarrow> vreg_lrs_map lv v;
     Some (if interfere_with_segment lr (new_point pp) then out @ [v] else out) }) vs []"

definition collect_vregs_alive_around_call :: "code \<Rightarrow> liveness \<Rightarrow> vreg list \<Rightarrow> vreg list option" where
  "collect_vregs_alive_around_call code lv vs = fold_opt (\<lambda>i out.
     if is_call (snd i) then do {
       pp \<leftarrow> inst_to_pp lv (fst i);
       new \<leftarrow> alive_around lv vs pp;
       Some (out @ new) }
     else Some out) (code_insts code) []"

subsection \<open>The work list\<close>

text \<open>Sorted by the start of the first segment, then by weight; a register without a range panics.\<close>

definition range_key :: "liveness \<Rightarrow> vreg \<Rightarrow> (program_point \<times> 32 word) option" where
  "range_key lv v = do {
     lr \<leftarrow> vreg_lrs_map lv v;
     s \<leftarrow> first_seg lr;
     Some (seg_start s, lr_weight lr) }"

definition sort_worklist :: "liveness \<Rightarrow> vreg list \<Rightarrow> vreg list option" where
  "sort_worklist lv vs =
     (if length vs \<le> 1 then Some vs
      else if \<forall>v \<in> set vs. range_key lv v \<noteq> None then Some (sort_key (\<lambda>v. the (range_key lv v)) vs)
      else None)"

subsection \<open>The allocation loop\<close>

record alloc_state =
  al_func :: mfunc
  al_live :: liveness
  al_assigned :: "vreg \<rightharpoonup> reg"
  al_spilled :: "vreg set"
  al_work :: "vreg list"

text \<open>Only the first block of the function is searched for a call.\<close>

definition entry_has_call :: "code \<Rightarrow> bool" where
  "entry_has_call code = (case code of [] \<Rightarrow> False | bc # _ \<Rightarrow> list_ex (\<lambda>i. is_call (snd i)) (snd bc))"

definition availables :: "(vreg \<rightharpoonup> reg list) \<Rightarrow> vreg \<Rightarrow> alloc_state \<Rightarrow> reg list option" where
  "availables pref v st = do {
     t \<leftarrow> type_for v (d_vregs (f_data (al_func st)));
     rc \<leftarrow> for_type (f_types (al_func st)) t;
     code \<leftarrow> func_code (al_func st);
     let rs = (if entry_has_call code then csr_list rc else gpr_list rc @ csr_list rc);
     let rs = (if v \<in> al_spilled st then rs else butlast rs);
     Some ((case pref v of None \<Rightarrow> [] | Some ps \<Rightarrow> ps) @ rs) }"

text \<open>The first register without interference is assigned.\<close>

fun try_regs :: "reg list \<Rightarrow> vreg \<Rightarrow> liveness \<Rightarrow> (reg \<times> liveness) option option" where
  "try_regs [] v lv = Some None"
| "try_regs (r # rs) v lv = do {
     u \<leftarrow> to_reg_unit r;
     b \<leftarrow> interfere u v lv;
     if b then try_regs rs v lv
     else do { lv \<leftarrow> assign u v lv; Some (Some (r, lv)) } }"

definition alloc_one :: "(vreg \<rightharpoonup> reg list) \<Rightarrow> vreg \<Rightarrow> alloc_state \<Rightarrow> alloc_state option option" where
  "alloc_one pref v st = do {
     rs \<leftarrow> availables pref v st;
     r \<leftarrow> try_regs rs v (al_live st);
     Some (map_option (\<lambda>(r, lv). st\<lparr>al_live := lv, al_assigned := (al_assigned st)(v \<mapsto> r)\<rparr>) r) }"

definition spill_one :: "vreg \<Rightarrow> alloc_state \<Rightarrow> alloc_state option" where
  "spill_one v st = do {
     ((f, lv), nvs) \<leftarrow> spill v (al_func st, al_live st);
     Some (st\<lparr>al_func := f, al_live := lv, al_spilled := al_spilled st \<union> set nvs, al_work := al_work st @ nvs\<rparr>) }"

text \<open>\<open>None\<close> when the fuel is used up, \<open>Some None\<close> for a panic.\<close>

fun alloc_loop :: "nat \<Rightarrow> (vreg \<rightharpoonup> reg list) \<Rightarrow> alloc_state \<Rightarrow> alloc_state option option" where
  "alloc_loop 0 pref st = None"
| "alloc_loop (Suc n) pref st = (case al_work st of
     [] \<Rightarrow> Some (Some st)
   | v # vs \<Rightarrow> (case alloc_one pref v (st\<lparr>al_work := vs\<rparr>) of
       None \<Rightarrow> Some None
     | Some (Some st) \<Rightarrow> alloc_loop n pref st
     | Some None \<Rightarrow> (case spill_one v (st\<lparr>al_work := vs\<rparr>) of
         None \<Rightarrow> Some None
       | Some st \<Rightarrow> alloc_loop n pref st)))"

subsection \<open>Rewriting\<close>

definition rewrite_inst :: "(vreg \<rightharpoonup> reg) \<Rightarrow> inst_data \<Rightarrow> inst_data" where
  "rewrite_inst m i = fold (\<lambda>v i. case m v of None \<Rightarrow> i | Some r \<Rightarrow> rewrite_vreg v r i) (all_vregs i) i"

definition used_regs :: "(vreg \<rightharpoonup> reg) \<Rightarrow> inst_data \<Rightarrow> reg list" where
  "used_regs m i = List.map_filter m (all_vregs i)"

definition rewrite_at :: "(vreg \<rightharpoonup> reg) \<Rightarrow> nat \<Rightarrow> instruction list \<Rightarrow> instruction list" where
  "rewrite_at m k is = is[k := (is ! k)\<lparr>in_data := rewrite_inst m (in_data (is ! k))\<rparr>]"

definition rewrite_function :: "(vreg \<rightharpoonup> reg) \<Rightarrow> mfunc \<Rightarrow> mfunc option" where
  "rewrite_function m f = do {
     code \<leftarrow> func_code f;
     let d = f_data f;
     let used = concat (map (\<lambda>i. used_regs m (snd i)) (code_insts code));
     us \<leftarrow> those (map to_reg_unit used);
     Some (f\<lparr>f_data := d\<lparr>instructions := fold (\<lambda>i. rewrite_at m (fst i)) (code_insts code) (instructions d),
                          used_csr := set (filter is_csr us)\<rparr>\<rparr>) }"

text \<open>The whole pass on one function; \<open>fuel\<close> bounds the allocation loop.\<close>

definition function_vregs :: "code \<Rightarrow> vreg set" where
  "function_vregs code = set (concat (map (\<lambda>i. all_vregs (snd i)) (code_insts code)))"

definition spill_around_calls :: "vreg list \<Rightarrow> spill_state \<times> vreg set \<Rightarrow> (spill_state \<times> vreg set) option" where
  "spill_around_calls vs s = fold_opt (\<lambda>v (st, all). do {
     (st, nvs) \<leftarrow> spill v st;
     Some (st, (all - {v}) \<union> set nvs) }) vs s"

definition alloc_start :: "(vreg set \<Rightarrow> vreg list) \<Rightarrow> mfunc \<Rightarrow> ((vreg \<rightharpoonup> reg list) \<times> alloc_state) option" where
  "alloc_start iter f = do {
     lv \<leftarrow> analyze_function f new_liveness;
     code \<leftarrow> func_code f;
     let all = function_vregs code;
     calls \<leftarrow> collect_vregs_alive_around_call code lv (iter all);
     ((f, lv), all) \<leftarrow> spill_around_calls calls ((f, lv), all);
     pref \<leftarrow> collect_preferred_registers (f_data f) (iter all);
     work \<leftarrow> sort_worklist lv (iter all);
     Some (pref, \<lparr>al_func = f, al_live = lv, al_assigned = Map.empty, al_spilled = {}, al_work = work\<rparr>) }"

definition alloc_finish :: "alloc_state \<Rightarrow> (alloc_state \<times> mfunc) option" where
  "alloc_finish st = map_option (Pair st) (rewrite_function (al_assigned st) (al_func st))"

definition regalloc_function :: "(vreg set \<Rightarrow> vreg list) \<Rightarrow> nat \<Rightarrow> mfunc \<Rightarrow> (alloc_state \<times> mfunc) option option" where
  "regalloc_function iter fuel f = (case alloc_start iter f of
     None \<Rightarrow> Some None
   | Some (pref, st) \<Rightarrow> map_option (\<lambda>r. Option.bind r alloc_finish) (alloc_loop fuel pref st))"

end
