(* ===== verification/Spiller_Correct.thy ===== *)
theory Spiller_Correct
  imports Spiller Liveness_Theorems
begin

section \<open>What spilling a register does\<close>

text \<open>
  Spilling keeps the use lists exact and removes the spilled register from every instruction that read
  or wrote it.  The de-duplication of the definitions never removes one, because the list is sorted by
  descending program point while it looks for the predecessor in the wrong direction.
\<close>

subsection \<open>Use lists under renaming\<close>

lemma filter_first:
  assumes "distinct (map u_inst xs)" "dropWhile (\<lambda>u. u_inst u \<noteq> k) xs = u # ys"
  shows "u \<in> set xs" "u_inst u = k" "takeWhile (\<lambda>u. u_inst u \<noteq> k) xs @ ys = filter (\<lambda>u. u_inst u \<noteq> k) xs"
proof -
  have xs: "xs = takeWhile (\<lambda>u. u_inst u \<noteq> k) xs @ u # ys"
    using takeWhile_dropWhile_id [of "\<lambda>u. u_inst u \<noteq> k" xs] assms(2) by simp
  show u: "u \<in> set xs" by (subst xs) simp
  show k: "u_inst u = k"
    using assms(2) hd_dropWhile [of "\<lambda>u. u_inst u \<noteq> k" xs] by simp
  let ?t = "takeWhile (\<lambda>u. u_inst u \<noteq> k) xs"
  have "distinct (map u_inst (?t @ u # ys))" using assms(1) xs by simp
  then have "k \<notin> u_inst ` set ys" using k by simp
  then have ys: "filter (\<lambda>u. u_inst u \<noteq> k) ys = ys" by (auto simp: filter_id_conv)
  have t: "filter (\<lambda>u. u_inst u \<noteq> k) ?t = ?t"
    by (auto simp: filter_id_conv dest: set_takeWhileD)
  have "filter (\<lambda>u. u_inst u \<noteq> k) (?t @ u # ys) = ?t @ ys" using t ys k by simp
  then show "?t @ ys = filter (\<lambda>u. u_inst u \<noteq> k) xs" using xs by simp
qed

lemma remove_use_some:
  assumes "distinct (map u_inst (use_list us v))" "remove_use v k us = Some (Some u, us')"
  shows "u \<in> set (use_list us v)" "u_inst u = k"
    "use_list us' w = (if w = v then filter (\<lambda>u. u_inst u \<noteq> k) (use_list us v) else use_list us w)"
proof -
  obtain xs where xs: "us v = Some xs" using assms(2) by (auto simp: remove_use_def bind_eq_Some_iff)
  obtain u' ys where d: "dropWhile (\<lambda>u. u_inst u \<noteq> k) xs = u' # ys"
    using assms(2) xs by (cases "dropWhile (\<lambda>u. u_inst u \<noteq> k) xs") (auto simp: remove_use_def)
  then have u: "u' = u" "us' = us(v \<mapsto> takeWhile (\<lambda>u. u_inst u \<noteq> k) xs @ ys)"
    using assms(2) xs by (auto simp: remove_use_def)
  have dist: "distinct (map u_inst xs)" using assms(1) xs by (simp add: use_list_def)
  note ff = filter_first [OF dist d]
  show "u \<in> set (use_list us v)" "u_inst u = k" using ff(1,2) u(1) xs by (simp_all add: use_list_def)
  show "use_list us' w = (if w = v then filter (\<lambda>u. u_inst u \<noteq> k) (use_list us v) else use_list us w)"
    using ff(3) u(2) xs by (simp add: use_list_def)
qed

lemma use_list_add_use:
  "use_list (add_use v k r w us) x = use_list us x @ (if x = v then [\<lparr>u_inst = k, u_read = r, u_write = w\<rparr>] else [])"
  by (simp add: use_list_def add_use_def)

text \<open>The operands after a renaming to a register the instruction does not mention.\<close>

definition rename_ops :: "vreg \<Rightarrow> vreg \<Rightarrow> inst_data \<Rightarrow> inst_data" where
  "rename_ops from to i = i\<lparr>operands :=
     map (\<lambda>x. if op_data x = OVReg from then x\<lparr>op_data := OVReg to\<rparr> else x) (operands i)\<rparr>"

lemma rename_ops_vregs:
  assumes "to \<notin> set (all_vregs i)" "from \<noteq> to"
  shows "v \<in> set (input_vregs (rename_ops from to i)) \<longleftrightarrow>
      (if v = to then from \<in> set (input_vregs i) else v \<noteq> from \<and> v \<in> set (input_vregs i))" (is ?in)
    and "v \<in> set (output_vregs (rename_ops from to i)) \<longleftrightarrow>
      (if v = to then from \<in> set (output_vregs i) else v \<noteq> from \<and> v \<in> set (output_vregs i))" (is ?out)
    and "v \<in> set (all_vregs (rename_ops from to i)) \<longleftrightarrow>
      (if v = to then from \<in> set (all_vregs i) else v \<noteq> from \<and> v \<in> set (all_vregs i))" (is ?all)
proof -
  let ?h = "\<lambda>x. if op_data x = OVReg from then x\<lparr>op_data := OVReg to\<rparr> else x"
  have ops: "operands (rename_ops from to i) = map ?h (operands i)" by (simp add: rename_ops_def)
  have fresh: "op_data x \<noteq> OVReg to" if "x \<in> set (operands i)" for x
    using assms(1) that by (auto simp: in_all_vregs)
  have d: "op_data (?h x) = OVReg v \<longleftrightarrow> (if v = to then op_data x = OVReg from else v \<noteq> from \<and> op_data x = OVReg v)"
    if "x \<in> set (operands i)" for x
    using fresh [OF that] assms(2) by auto
  have io: "op_input (?h x) = op_input x" "op_output (?h x) = op_output x" for x by simp_all
  show ?in unfolding in_input_vregs ops set_map bex_simps io using d by (cases "v = to") auto
  show ?out unfolding in_output_vregs ops set_map bex_simps io using d by (cases "v = to") auto
  show ?all unfolding in_all_vregs ops set_map bex_simps using d by (cases "v = to") auto
qed

lemma accessed_all_vregs: "v \<in> set (input_vregs i) \<or> v \<in> set (output_vregs i) \<Longrightarrow> v \<in> set (all_vregs i)"
  by (auto simp: in_input_vregs in_output_vregs in_all_vregs)

lemma inst_replace_exact:
  assumes ue: "users_exact d" and run: "inst_replace_vreg k from to d = Some d'"
    and fresh: "k < length (instructions d) \<Longrightarrow> to \<notin> set (all_vregs (in_data (instructions d ! k)))" and ne: "from \<noteq> to"
  shows "users_exact d'"
    and "use_list (vreg_users d') from = filter (\<lambda>u. u_inst u \<noteq> k) (use_list (vreg_users d) from)"
    and "v \<noteq> from \<Longrightarrow> v \<noteq> to \<Longrightarrow> use_list (vreg_users d') v = use_list (vreg_users d) v"
    and "d' = d\<lparr>instructions := (instructions d)[k := (instructions d ! k)\<lparr>in_data := rename_ops from to (in_data (instructions d ! k))\<rparr>],
               vreg_users := vreg_users d'\<rparr>"
    and "k < length (instructions d)"
proof -
  obtain i where i: "inst_ref d k = Some i" using run by (auto simp: inst_replace_vreg_def bind_eq_Some_iff)
  then have k: "k < length (instructions d)" "i = instructions d ! k" by (auto simp: inst_ref_def split: if_splits)
  then have id: "in_id i = Some k" using ue by (simp add: users_exact_def)
  obtain u us where u: "remove_use from k (vreg_users d) = Some (Some u, us)"
    and d': "d' = d\<lparr>instructions := (instructions d)[k := i\<lparr>in_data := rename_ops from to (in_data i)\<rparr>],
        vreg_users := add_use to k (u_read u) (u_write u) us\<rparr>"
    using run i id by (auto simp: inst_replace_vreg_def replace_vreg_def rename_ops_def Let_def bind_eq_Some_iff)
  have dist: "distinct (map u_inst (use_list (vreg_users d) v))" and acc: "set (use_list (vreg_users d) v) = set (accesses (instructions d) v)" for v
    using ue by (auto simp: users_exact_def)
  note ru = remove_use_some [OF dist u]
  have uf: "u_read u = (from \<in> set (input_vregs (in_data i)))" "u_write u = (from \<in> set (output_vregs (in_data i)))"
    using ru(1,2) unfolding acc in_accesses k(2) by auto
  have ul: "use_list (vreg_users d') w = (if w = from then filter (\<lambda>u. u_inst u \<noteq> k) (use_list (vreg_users d) from) else use_list (vreg_users d) w)
      @ (if w = to then [\<lparr>u_inst = k, u_read = u_read u, u_write = u_write u\<rparr>] else [])" for w
    unfolding d' by (simp add: use_list_add_use ru(3))
  have nto: "to \<notin> set (all_vregs (in_data i))" using fresh k by simp
  note rn = rename_ops_vregs [OF nto ne]
  have no_to: "x \<in> set (use_list (vreg_users d) to) \<Longrightarrow> u_inst x \<noteq> k" for x
    using accessed_all_vregs nto unfolding acc in_accesses k(2) by blast
  have nth: "in_data (instructions d' ! j) = (if j = k then rename_ops from to (in_data i) else in_data (instructions d ! j))"
    if "j < length (instructions d)" for j
    unfolding d' using that k(1) by simp
  have len: "length (instructions d') = length (instructions d)" unfolding d' by simp
  show "users_exact d'"
    unfolding users_exact_def
  proof (intro conjI allI impI)
    fix w
    show "set (use_list (vreg_users d') w) = set (accesses (instructions d') w)"
    proof (rule set_eqI)
      fix x :: vreg_user
      show "x \<in> set (use_list (vreg_users d') w) \<longleftrightarrow> x \<in> set (accesses (instructions d') w)"
      proof (cases "u_inst x = k")
        case True
        then have "x \<in> set (accesses (instructions d') w) \<longleftrightarrow> (u_read x \<or> u_write x)
            \<and> u_read x = (w \<in> set (input_vregs (rename_ops from to (in_data i))))
            \<and> u_write x = (w \<in> set (output_vregs (rename_ops from to (in_data i))))"
          unfolding in_accesses len using k(1) nth by simp
        also have "\<dots> \<longleftrightarrow> x \<in> set (use_list (vreg_users d') w)"
        proof (cases "w = to")
          case w: True
          have some: "u_read u \<or> u_write u" using ru(1) unfolding acc in_accesses by blast
          have "x \<notin> set (use_list (vreg_users d) to)" using no_to True by blast
          then have "x \<in> set (use_list (vreg_users d') w) \<longleftrightarrow> x = \<lparr>u_inst = k, u_read = u_read u, u_write = u_write u\<rparr>"
            using w ne unfolding ul by simp
          also have "\<dots> \<longleftrightarrow> u_read x = u_read u \<and> u_write x = u_write u"
            using True by (cases x) simp
          finally show ?thesis
            using some unfolding rn w uf by auto
        next
          case w: False
          then show ?thesis
            using True k unfolding ul rn by (auto simp: acc in_accesses)
        qed
        finally show ?thesis by simp
      next
        case False
        then have "x \<in> set (accesses (instructions d') w) \<longleftrightarrow> x \<in> set (accesses (instructions d) w)"
          unfolding in_accesses len using nth by auto
        then show ?thesis using False unfolding ul by (auto simp: acc)
      qed
    qed
    show "distinct (map u_inst (use_list (vreg_users d') w))"
      using dist [of w] no_to ne unfolding ul by (auto simp: distinct_map_filter)
  next
    fix j assume "j < length (instructions d')"
    then show "in_id (instructions d' ! j) = Some j"
      using ue id k unfolding d' by (auto simp: users_exact_def nth_list_update)
  qed
  show "use_list (vreg_users d') from = filter (\<lambda>u. u_inst u \<noteq> k) (use_list (vreg_users d) from)"
    using ne unfolding ul by simp
  show "v \<noteq> from \<Longrightarrow> v \<noteq> to \<Longrightarrow> use_list (vreg_users d') v = use_list (vreg_users d) v"
    unfolding ul by simp
  show "d' = d\<lparr>instructions := (instructions d)[k := (instructions d ! k)\<lparr>in_data := rename_ops from to (in_data (instructions d ! k))\<rparr>],
               vreg_users := vreg_users d'\<rparr>"
    unfolding d' k(2) by simp
  show "k < length (instructions d)" by (rule k(1))
qed

subsection \<open>Insertions leave the data alone\<close>

lemma spill_insert_after_data:
  assumes "spill_insert_after a i b st = Some st'"
  shows "f_data (fst st') = f_data (fst st) \<and> f_types (fst st') = f_types (fst st) \<and> f_slots (fst st') = f_slots (fst st)"
proof (rule spill_insert_after.raw_induct [where P = "\<lambda>a i b st st'.
    f_data (fst st') = f_data (fst st) \<and> f_types (fst st') = f_types (fst st) \<and> f_slots (fst st') = f_slots (fst st)", OF _ assms], goal_cases)
  case rec: (1 F a i b st st')
  then obtain p n where p: "inst_to_pp (snd st) a = Some p" and n: "next_inst_of a (f_layout (fst st)) = Some n"
    by (auto elim!: bind_SomeE)
  show ?case
  proof (cases n)
    case None
    then show ?thesis using rec p n by simp
  next
    case (Some na)
    then obtain q where q: "inst_to_pp (snd st) na = Some q" using rec(2) p n by (auto simp: bind_eq_Some_iff)
    show ?thesis
    proof (cases "between p q")
      case None
      then show ?thesis using rec(1) [of a i b "(fst st, recompute_program_points_after p False (snd st))" st'] rec(2) p n Some q by simp
    next
      case (Some r)
      then show ?thesis using rec(2) p n \<open>n = Some na\<close> q by (auto simp: bind_eq_Some_iff set_layout_def)
    qed
  qed
qed

lemma spill_insert_before_data:
  assumes "spill_insert_before a i b st = Some st'"
  shows "f_data (fst st') = f_data (fst st) \<and> f_types (fst st') = f_types (fst st) \<and> f_slots (fst st') = f_slots (fst st)"
proof (rule spill_insert_before.raw_induct [where P = "\<lambda>a i b st st'.
    f_data (fst st') = f_data (fst st) \<and> f_types (fst st') = f_types (fst st) \<and> f_slots (fst st') = f_slots (fst st)", OF _ assms], goal_cases)
  case rec: (1 F a i b st st')
  then obtain p n where p: "inst_to_pp (snd st) a = Some p" and n: "prev_inst_of a (f_layout (fst st)) = Some n"
    by (auto simp: bind_eq_Some_iff)
  obtain q lv where q: "(case n of Some pb \<Rightarrow> map_option (\<lambda>p. (p, snd st)) (inst_to_pp (snd st) pb)
      | None \<Rightarrow> if pp_num p > 0 then Some (PP (pp_block p) 0, recompute_program_points_after p True (snd st)) else None) = Some (q, lv)"
    using rec(2) p n by (auto simp: bind_eq_Some_iff)
  show ?case
  proof (cases "between q p")
    case None
    then show ?thesis using rec(1) [of a i b "(fst st, recompute_program_points_after p False lv)" st'] rec(2) p n q by simp
  next
    case (Some r)
    then show ?thesis using rec(2) p n q by (auto simp: bind_eq_Some_iff set_layout_def)
  qed
qed

subsection \<open>The invariant of the spiller\<close>

text \<open>Registers are registered, use lists exact, and the operands mention registered registers only.\<close>

definition vregs_below :: "mdata \<Rightarrow> bool" where
  "vregs_below d \<longleftrightarrow> (\<forall>i \<in> set (instructions d). \<forall>v \<in> set (all_vregs (in_data i)). v < VReg (vr_cur (d_vregs d)))"

definition spill_inv :: "mdata \<Rightarrow> bool" where
  "spill_inv d \<longleftrightarrow> wf_vregs (d_vregs d) \<and> users_exact d \<and> vregs_below d"

lemma create_from_spec:
  assumes "wf_vregs vs" "create_from v vs = Some (nv, vs')"
  shows "nv = VReg (vr_cur vs)" "vr_cur vs' = Suc (vr_cur vs)" "wf_vregs vs'" "v < nv"
proof -
  obtain t where t: "type_for v vs = Some t" "add_vreg_data t vs = (nv, vs')"
    using assms(2) by (auto simp: create_from_def bind_eq_Some_iff)
  show "nv = VReg (vr_cur vs)" "vr_cur vs' = Suc (vr_cur vs)"
    using t(2) by (auto simp: add_vreg_data_def Let_def)
  show "wf_vregs vs'" by (rule add_vreg_data_fresh(2) [OF assms(1) t(2)])
  obtain n where "v = VReg n" "n < vr_cur vs"
    using t(1) assms(1) by (auto simp: type_for_def wf_vregs_def)
  then show "v < nv" using \<open>nv = VReg (vr_cur vs)\<close> by simp
qed

lemma rename_in_spec:
  assumes inv: "spill_inv (f_data f)" and run: "rename_in k v f = Some (nv, b, f')"
  shows "spill_inv (f_data f')" "v < nv" "nv < VReg (vr_cur (d_vregs (f_data f')))"
    "use_list (vreg_users (f_data f')) v = filter (\<lambda>u. u_inst u \<noteq> k) (use_list (vreg_users (f_data f)) v)"
proof -
  let ?d = "f_data f"
  obtain vs where cf: "create_from v (d_vregs ?d) = Some (nv, vs)"
    and rep: "inst_replace_vreg k v nv (?d\<lparr>d_vregs := vs\<rparr>) = Some (f_data f')"
    using run by (auto simp: rename_in_def set_data_def bind_eq_Some_iff)
  have wf: "wf_vregs (d_vregs ?d)" and ue: "users_exact ?d" and below: "vregs_below ?d"
    using inv by (auto simp: spill_inv_def)
  note c = create_from_spec [OF wf cf]
  have ue': "users_exact (?d\<lparr>d_vregs := vs\<rparr>)" using ue by (simp add: users_exact_def)
  have fresh: "nv \<notin> set (all_vregs (in_data (instructions (?d\<lparr>d_vregs := vs\<rparr>) ! k)))"
    if "k < length (instructions (?d\<lparr>d_vregs := vs\<rparr>))"
  proof
    assume "nv \<in> set (all_vregs (in_data (instructions (?d\<lparr>d_vregs := vs\<rparr>) ! k)))"
    then have "nv \<in> set (all_vregs (in_data (instructions ?d ! k)))" by simp
    moreover have "instructions ?d ! k \<in> set (instructions ?d)" using that by simp
    ultimately have "nv < VReg (vr_cur (d_vregs ?d))"
      using below [unfolded vregs_below_def] by blast
    then show False unfolding c(1) by (rule less_irrefl [THEN notE])
  qed
  have ne: "v \<noteq> nv" by (rule less_imp_neq [OF c(4)])
  note ex = inst_replace_exact [OF ue' rep fresh ne]
  have d': "d_vregs (f_data f') = vs"
    "instructions (f_data f') = (instructions ?d)[k := (instructions ?d ! k)\<lparr>in_data := rename_ops v nv (in_data (instructions ?d ! k))\<rparr>]"
    using arg_cong [OF ex(4), of d_vregs] arg_cong [OF ex(4), of instructions] by simp_all
  have k: "k < length (instructions ?d)" using ex(5) by simp
  have "vregs_below (f_data f')"
    unfolding vregs_below_def
  proof (intro ballI)
    fix i w assume i: "i \<in> set (instructions (f_data f'))" and w: "w \<in> set (all_vregs (in_data i))"
    have lift: "x < VReg (vr_cur (d_vregs (f_data f')))" if "x < VReg (vr_cur (d_vregs ?d))" for x
      using that c(2) d'(1) by (cases x) simp
    show "w < VReg (vr_cur (d_vregs (f_data f')))"
    proof (cases "i \<in> set (instructions ?d)")
      case True
      then show ?thesis using below w lift unfolding vregs_below_def by blast
    next
      case False
      then have "i = (instructions ?d ! k)\<lparr>in_data := rename_ops v nv (in_data (instructions ?d ! k))\<rparr>"
        using i set_update_subset_insert [of "instructions ?d" k] unfolding d'(2) by fast
      then have "w = nv \<or> w \<in> set (all_vregs (in_data (instructions ?d ! k)))"
        using w rename_ops_vregs(3) [OF _ ne, of "in_data (instructions ?d ! k)" w] fresh k by (auto split: if_splits)
      moreover have "x < VReg (vr_cur (d_vregs ?d))" if "x \<in> set (all_vregs (in_data (instructions ?d ! k)))" for x
        using below k that unfolding vregs_below_def by (meson nth_mem)
      ultimately show ?thesis using lift c(1,2) d'(1) by auto
    qed
  qed
  then show "spill_inv (f_data f')" using ex(1) c(3) d'(1) by (simp add: spill_inv_def)
  show "v < nv" by (rule c(4))
  show "nv < VReg (vr_cur (d_vregs (f_data f')))" using c(1,2) d'(1) by simp
  show "use_list (vreg_users (f_data f')) v = filter (\<lambda>u. u_inst u \<noteq> k) (use_list (vreg_users ?d) v)"
    using ex(2) by simp
qed

lemma create_inst_inv:
  assumes inv: "spill_inv d" and i: "\<forall>v \<in> set (all_vregs (in_data i)). v < VReg (vr_cur (d_vregs d))"
    and run: "create_inst i d = (k, d')"
  shows "spill_inv d'" "v \<notin> set (all_vregs (in_data i)) \<Longrightarrow> use_list (vreg_users d') v = use_list (vreg_users d) v"
proof -
  have d': "d' = snd (create_inst i d)" using run by simp
  have "users_exact d'" unfolding d' using inv users_exact_create_inst by (simp add: spill_inv_def)
  then show "spill_inv d'"
    using inv i unfolding d' by (auto simp: spill_inv_def vregs_below_def create_inst_def Let_def)
  assume "v \<notin> set (all_vregs (in_data i))"
  then have "v \<notin> set (input_vregs (in_data i))" "v \<notin> set (output_vregs (in_data i))"
    using accessed_all_vregs by blast+
  then show "use_list (vreg_users d') v = use_list (vreg_users d) v"
    unfolding d' by (simp add: create_inst_def Let_def use_list_add_uses)
qed

lemma store_vregs: "store_vreg_to_slot f nv slot b = Some i \<Longrightarrow> set (all_vregs (in_data i)) = {nv}"
  by (auto simp: store_vreg_to_slot_def new_instruction_def vreg_operand_def op_defs in_all_vregs bind_eq_Some_iff split: if_splits)

lemma load_vregs: "load_from_slot f nv slot b = Some i \<Longrightarrow> set (all_vregs (in_data i)) = {nv}"
  by (auto simp: load_from_slot_def new_instruction_def vreg_operand_def op_defs in_all_vregs bind_eq_Some_iff split: if_splits)

subsection \<open>One definition, one use, all of them\<close>

text \<open>The users of a register that are left after some instructions have been renamed.\<close>

definition left_users :: "vreg \<Rightarrow> nat list \<Rightarrow> mfunc \<Rightarrow> mfunc \<Rightarrow> bool" where
  "left_users v ks f f' \<longleftrightarrow> spill_inv (f_data f') \<and>
     use_list (vreg_users (f_data f')) v = filter (\<lambda>u. u_inst u \<notin> set ks) (use_list (vreg_users (f_data f)) v)"

lemma renamed_and_inserted:
  assumes inv: "spill_inv (f_data f)" and rn: "rename_in k v f = Some (nv, b, f1)"
    and regs: "set (all_vregs (in_data i)) = {nv}" and cr: "create_inst i (f_data f1) = (j, d)"
    and dat: "f_data f2 = d"
  shows "left_users v [k] f f2"
proof -
  note r = rename_in_spec [OF inv rn]
  have below: "\<forall>w \<in> set (all_vregs (in_data i)). w < VReg (vr_cur (d_vregs (f_data f1)))"
    using regs r(3) by simp
  note c = create_inst_inv [OF r(1) below cr]
  have "v \<notin> set (all_vregs (in_data i))" using regs less_imp_neq [OF r(2)] by simp
  then show ?thesis using c r(4) dat by (simp add: left_users_def)
qed

lemma spill_def_users:
  assumes "spill_inv (f_data f)" "spill_def v slot k ((f, lv), nvs) = Some ((f', lv'), nvs')"
  shows "left_users v [k] f f'" "\<exists>nv. nvs' = nvs @ [nv] \<and> v < nv"
proof -
  obtain nv b f1 i j d where run: "rename_in k v f = Some (nv, b, f1)" "store_vreg_to_slot f1 nv slot b = Some i"
    "create_inst i (f_data f1) = (j, d)" "spill_insert_after k j b (set_data d f1, lv) = Some (f', lv')" "nvs' = nvs @ [nv]"
    using assms(2) by (auto simp: spill_def_def Let_def elim!: bind_SomeE split: prod.splits)
  have "f_data f' = d" using spill_insert_after_data [OF run(4)] by (simp add: set_data_def)
  then show "left_users v [k] f f'"
    by (rule renamed_and_inserted [OF assms(1) run(1) store_vregs [OF run(2)] run(3)])
  show "\<exists>nv. nvs' = nvs @ [nv] \<and> v < nv" using run(5) rename_in_spec(2) [OF assms(1) run(1)] by blast
qed

lemma spill_use_users:
  assumes "spill_inv (f_data f)" "spill_use v slot k ((f, lv), nvs) = Some ((f', lv'), nvs')"
  shows "left_users v [k] f f'" "\<exists>nv. nvs' = nvs @ [nv] \<and> v < nv"
proof -
  obtain nv b f1 i j d where run: "rename_in k v f = Some (nv, b, f1)" "load_from_slot f1 nv slot b = Some i"
    "create_inst i (f_data f1) = (j, d)" "spill_insert_before k j b (set_data d f1, lv) = Some (f', lv')" "nvs' = nvs @ [nv]"
    using assms(2) by (auto simp: spill_use_def Let_def elim!: bind_SomeE split: prod.splits)
  have "f_data f' = d" using spill_insert_before_data [OF run(4)] by (simp add: set_data_def)
  then show "left_users v [k] f f'"
    by (rule renamed_and_inserted [OF assms(1) run(1) load_vregs [OF run(2)] run(3)])
  show "\<exists>nv. nvs' = nvs @ [nv] \<and> v < nv" using run(5) rename_in_spec(2) [OF assms(1) run(1)] by blast
qed

text \<open>Neither of the steps touches the stack slots, and spilling adds exactly one.\<close>

lemma rename_in_slots: "rename_in k v f = Some (nv, b, f') \<Longrightarrow> f_slots f' = f_slots f"
  by (auto simp: rename_in_def set_data_def elim!: bind_SomeE)

lemma spill_def_slots: "spill_def v slot k s = Some s' \<Longrightarrow> f_slots (fst (fst s')) = f_slots (fst (fst s))"
  using spill_insert_after_data rename_in_slots
  by (fastforce simp: spill_def_def set_data_def Let_def elim!: bind_SomeE split: prod.splits)

lemma spill_use_slots: "spill_use v slot k s = Some s' \<Longrightarrow> f_slots (fst (fst s')) = f_slots (fst (fst s))"
  using spill_insert_before_data rename_in_slots
  by (fastforce simp: spill_use_def set_data_def Let_def elim!: bind_SomeE split: prod.splits)

lemma fold_opt_slots:
  assumes "fold_opt g ks s = Some s'" "\<And>k s s'. g k s = Some s' \<Longrightarrow> f_slots (fst (fst s')) = f_slots (fst (fst s))"
  shows "f_slots (fst (fst s')) = f_slots (fst (fst s))"
  by (rule fold_opt_invariant [where P = "\<lambda>t. f_slots (fst (fst t)) = f_slots (fst (fst s))", OF assms(1)])
    (use assms(2) in fastforce)+

lemma insert_spill_slots: "insert_spill v slot s = Some s' \<Longrightarrow> f_slots (fst (fst s')) = f_slots (fst (fst s))"
  by (auto simp: insert_spill_def elim!: bind_SomeE intro: spill_def_slots dest!: fold_opt_slots split: prod.splits)

lemma insert_reload_slots: "insert_reload v slot s = Some s' \<Longrightarrow> f_slots (fst (fst s')) = f_slots (fst (fst s))"
  by (auto simp: insert_reload_def elim!: bind_SomeE intro: spill_use_slots dest!: fold_opt_slots split: prod.splits)

lemma spill_adds_slot:
  assumes "spill v (f, lv) = Some ((f', lv'), nvs)"
  shows "length (arena (f_slots f')) = Suc (length (arena (f_slots f)))"
proof -
  obtain t sz align sl slot s s' where run: "add_slot t sz align (f_slots f) = (slot, sl)"
    "insert_spill v slot ((f\<lparr>f_slots := sl\<rparr>, lv), []) = Some s" "insert_reload v slot s = Some s'" "fst (fst s') = f'"
    using assms by (auto simp: spill_def Let_def elim!: bind_SomeE split: prod.splits)
  have "f_slots (fst (fst s)) = sl"
    using insert_spill_slots [OF run(2)] by simp
  moreover have "f_slots (fst (fst s')) = f_slots (fst (fst s))"
    by (rule insert_reload_slots [OF run(3)])
  moreover have "length (arena sl) = Suc (length (arena (f_slots f)))"
    using run(1) by (auto simp: add_slot_def)
  ultimately show ?thesis using run(4) by simp
qed

text \<open>The loops over the definitions and over the uses, for a step that treats one instruction.\<close>

lemma spill_steps_users:
  assumes step: "\<And>k f lv nvs f' lv' nvs'. spill_inv (f_data f) \<Longrightarrow> g k ((f, lv), nvs) = Some ((f', lv'), nvs') \<Longrightarrow>
      left_users v [k] f f' \<and> (\<exists>nv. nvs' = nvs @ [nv] \<and> v < nv)"
    and inv: "spill_inv (f_data f)" and run: "fold_opt g ks ((f, lv), nvs) = Some ((f', lv'), nvs')"
  shows "left_users v ks f f' \<and> (\<exists>new. nvs' = nvs @ new \<and> (\<forall>nv \<in> set new. v < nv))"
  using inv run
proof (induction ks arbitrary: f lv nvs)
  case Nil
  then show ?case by (simp add: left_users_def)
next
  case (Cons k ks)
  obtain f1 lv1 nvs1 where g: "g k ((f, lv), nvs) = Some ((f1, lv1), nvs1)"
    and rest: "fold_opt g ks ((f1, lv1), nvs1) = Some ((f', lv'), nvs')"
    using Cons.prems(2) by (auto elim!: bind_SomeE)
  have s: "left_users v [k] f f1" and n1: "\<exists>nv. nvs1 = nvs @ [nv] \<and> v < nv" using step [OF Cons.prems(1) g] by blast+
  have "spill_inv (f_data f1)" using s by (simp add: left_users_def)
  from Cons.IH [OF this rest] have t: "left_users v ks f1 f'" and n2: "\<exists>new. nvs' = nvs1 @ new \<and> (\<forall>nv \<in> set new. v < nv)" by blast+
  have "left_users v (k # ks) f f'"
    using s t by (auto simp: left_users_def intro!: filter_cong)
  moreover have "\<exists>new. nvs' = nvs @ new \<and> (\<forall>nv \<in> set new. v < nv)" using n1 n2 by auto
  ultimately show ?case by blast
qed

subsection \<open>The order of the definitions\<close>

text \<open>Program points increase along the instruction lists of the layout.\<close>

definition points_increase :: "layout \<Rightarrow> liveness \<Rightarrow> bool" where
  "points_increase l lv \<longleftrightarrow> (\<forall>a b. prev_inst_of a l = Some (Some b) \<longrightarrow>
     (\<exists>p q. inst_to_pp lv a = Some p \<and> inst_to_pp lv b = Some q \<and> q < p))"

lemma points_increase_numbered:
  assumes rep: "layout_rep l bs g"
    and num: "\<forall>j < length bs. \<forall>i < length (g (bs ! j)). inst_to_pp lv (g (bs ! j) ! i) = Some (pt (of_nat j) (i + 1))"
    and small: "\<forall>b \<in> set bs. 16 * (length (g b) + 1) < 2 ^ 32"
  shows "points_increase l lv"
  unfolding points_increase_def
proof (intro allI impI)
  fix a b assume "prev_inst_of a l = Some (Some b)"
  then obtain nd where nd: "insts l a = Some nd" "in_prev nd = Some b"
    by (auto simp: prev_inst_of_def)
  have "clean_nodes (insts l) bs g" using rep by (simp add: layout_rep_def)
  then have "case in_block nd of None \<Rightarrow> in_prev nd = None \<and> in_next nd = None | Some b \<Rightarrow> b \<in> set bs \<and> a \<in> set (g b)"
    using nd(1) unfolding clean_nodes_def by blast
  then obtain c where c: "c \<in> set bs" "a \<in> set (g c)" using nd(2) by (cases "in_block nd") auto
  obtain ys zs where yz: "g c = ys @ a # zs" using split_list [OF c(2)] by blast
  have "last_opt ys = Some b"
    using prev_next_inst_of_rep(1) [OF rep c(1) yz] nd by (simp add: prev_inst_of_def)
  then obtain ys' where ys: "g c = ys' @ b # a # zs" using last_opt_SomeD yz by fastforce
  obtain j where j: "j < length bs" "c = bs ! j" using c(1) by (auto simp: in_set_conv_nth)
  let ?k = "length ys'"
  have "16 * (length (g c) + 1) < 2 ^ 32" using small c(1) by blast
  then have k: "16 * (?k + 1) < 2 ^ 32" "16 * (?k + 2) < 2 ^ 32" using ys by simp_all
  have at: "inst_to_pp lv (g c ! i) = Some (pt (of_nat j) (i + 1))" if "i < length (g c)" for i
    using num j that by simp
  have "inst_to_pp lv b = Some (pt (of_nat j) (?k + 1))" using at [of ?k] ys by simp
  moreover have "inst_to_pp lv a = Some (pt (of_nat j) (?k + 2))" using at [of "?k + 1"] ys by (simp add: nth_append)
  moreover have "pt (of_nat j) (?k + 1) < pt (of_nat j) (?k + 2)"
    unfolding not_le [symmetric] pt_le_iff [OF k(2,1)] by simp
  ultimately show "\<exists>p q. inst_to_pp lv a = Some p \<and> inst_to_pp lv b = Some q \<and> q < p" by blast
qed

text \<open>The analysis numbers the instructions of a function in this way.\<close>

lemma points_increase_analyzed:
  assumes rep: "layout_rep (f_layout f) bs g" "dom (insts (f_layout f)) \<subseteq> {..<length (instructions (f_data f))}"
    and code: "func_code f = Some code" "code_ok (basic_blocks (f_data f)) code" "distinct (map fst (code_insts code))"
    and small: "\<forall>bc \<in> set code. 16 * (length (snd bc) + 1) < 2 ^ 32"
    and lv: "analyze_function f new_liveness = Some lv"
  shows "points_increase (f_layout f) lv"
proof (rule points_increase_numbered [OF rep(1)])
  have c: "code = map (\<lambda>b. (b, map (\<lambda>i. (i, in_data (instructions (f_data f) ! i))) (g b))) bs"
    using func_code_rep [OF rep(1)] layout_rep_memberD [OF rep(1)] rep(2) code(1) by fastforce
  show "\<forall>b \<in> set bs. 16 * (length (g b) + 1) < 2 ^ 32" using small unfolding c by simp
  have "analysis_result (basic_blocks (f_data f)) code lv"
    using analyze_function_result [OF code(1,2)] lv by simp
  then have "\<forall>j < length code. \<forall>i < length (snd (code ! j)). inst_to_pp lv (fst (snd (code ! j) ! i)) = Some (pt (of_nat j) (i + 1))"
    using code(3) by (simp add: analysis_result_def)
  then show "\<forall>j < length bs. \<forall>i < length (g (bs ! j)). inst_to_pp lv (g (bs ! j) ! i) = Some (pt (of_nat j) (i + 1))"
    unfolding c by simp
qed

lemma dedup_keeps:
  assumes inc: "points_increase l lv"
    and desc: "sorted_wrt (\<lambda>a b. the (inst_to_pp lv b) \<le> the (inst_to_pp lv a)) (rev kept @ ds)"
    and run: "dedup_defs l kept ds = Some rs"
  shows "rs = rev kept @ ds"
  using inc desc run
proof (induction l kept ds arbitrary: rs rule: dedup_defs.induct)
  case (3 l b kept a ds)
  obtain p where p: "prev_inst_of a l = Some p" using "3.prems"(3) by (auto split: option.splits)
  have "the (inst_to_pp lv a) \<le> the (inst_to_pp lv b)"
    using "3.prems"(2) by (auto simp: sorted_wrt_append)
  moreover have "the (inst_to_pp lv b) < the (inst_to_pp lv a)" if "p = Some b"
  proof -
    obtain q r where "inst_to_pp lv a = Some q" "inst_to_pp lv b = Some r" "r < q"
      using "3.prems"(1) [unfolded points_increase_def, rule_format, of a b] p \<open>p = Some b\<close> by blast
    then show ?thesis by simp
  qed
  ultimately have "p \<noteq> Some b" by force
  then show ?case using "3.IH"(2) [OF p] "3.prems" p by simp
qed auto

lemma sort_defs_spec:
  assumes "sort_defs lv ds = Some rs"
  shows "set rs = set ds" "sorted_wrt (\<lambda>a b. the (inst_to_pp lv b) \<le> the (inst_to_pp lv a)) rs"
proof -
  let ?key = "\<lambda>i. the (inst_to_pp lv i)"
  have one: "sorted_wrt (\<lambda>a b. ?key b \<le> ?key a) ds" if "length ds \<le> 1"
    using that by (cases ds; cases "tl ds") auto
  have "sorted_wrt (\<lambda>a b. ?key b \<le> ?key a) (rev (sort_key ?key (rev ds)))"
    unfolding sorted_wrt_rev using sorted_sort_key [of ?key "rev ds"] by (simp add: sorted_map)
  then show "set rs = set ds" "sorted_wrt (\<lambda>a b. ?key b \<le> ?key a) rs"
    using assms one by (auto simp: sort_defs_def split: if_splits)
qed

text \<open>
  The de-duplication of the definitions drops nothing: after the sort by descending point, the
  instruction in front of \<open>a\<close> comes behind \<open>a\<close> in the list.
\<close>

lemma dedup_sorted_defs:
  assumes "points_increase l lv" "sort_defs lv ds = Some rs" "dedup_defs l [] rs = Some rs'"
  shows "rs' = rs"
  using dedup_keeps [OF assms(1) _ assms(3)] sort_defs_spec(2) [OF assms(2)] by simp

lemma insert_spill_users:
  assumes inv: "spill_inv (f_data f)" and inc: "points_increase (f_layout f) lv"
    and run: "insert_spill v slot ((f, lv), nvs) = Some ((f', lv'), nvs')"
  shows "spill_inv (f_data f')" "\<forall>u \<in> set (use_list (vreg_users (f_data f')) v). u_read u"
    "\<exists>new. nvs' = nvs @ new \<and> (\<forall>nv \<in> set new. v < nv)"
proof -
  obtain us ds ds' where us: "vreg_users (f_data f) v = Some us" "sort_defs lv (map u_inst (filter u_write us)) = Some ds"
    "dedup_defs (f_layout f) [] ds = Some ds'" "fold_opt (spill_def v slot) ds' ((f, lv), nvs) = Some ((f', lv'), nvs')"
    using run by (auto simp: insert_spill_def elim!: bind_SomeE)
  have "ds' = ds" by (rule dedup_sorted_defs [OF inc us(2,3)])
  then have ks: "set ds' = u_inst ` set (filter u_write us)" using sort_defs_spec(1) [OF us(2)] by simp
  have l: "left_users v ds' f f' \<and> (\<exists>new. nvs' = nvs @ new \<and> (\<forall>nv \<in> set new. v < nv))"
    by (rule spill_steps_users [OF _ inv us(4)]) (use spill_def_users in blast)
  then show "spill_inv (f_data f')" "\<exists>new. nvs' = nvs @ new \<and> (\<forall>nv \<in> set new. v < nv)" by (auto simp: left_users_def)
  have ul: "use_list (vreg_users (f_data f)) v = us" using us(1) by (simp add: use_list_def)
  have rw: "u_read u \<or> u_write u" if "u \<in> set us" for u
    using inv that ul unfolding spill_inv_def users_exact_def by (metis in_accesses)
  show "\<forall>u \<in> set (use_list (vreg_users (f_data f')) v). u_read u"
    using l rw ks unfolding left_users_def ul by auto
qed

lemma insert_reload_users:
  assumes inv: "spill_inv (f_data f)" and rd: "\<forall>u \<in> set (use_list (vreg_users (f_data f)) v). u_read u"
    and run: "insert_reload v slot ((f, lv), nvs) = Some ((f', lv'), nvs')"
  shows "spill_inv (f_data f')" "use_list (vreg_users (f_data f')) v = []"
    "\<exists>new. nvs' = nvs @ new \<and> (\<forall>nv \<in> set new. v < nv)"
proof -
  obtain us where us: "vreg_users (f_data f) v = Some us"
    "fold_opt (spill_use v slot) (map u_inst (filter u_read us)) ((f, lv), nvs) = Some ((f', lv'), nvs')"
    using run by (auto simp: insert_reload_def elim!: bind_SomeE)
  have l: "left_users v (map u_inst (filter u_read us)) f f' \<and> (\<exists>new. nvs' = nvs @ new \<and> (\<forall>nv \<in> set new. v < nv))"
    by (rule spill_steps_users [OF _ inv us(2)]) (use spill_use_users in blast)
  then show "spill_inv (f_data f')" "\<exists>new. nvs' = nvs @ new \<and> (\<forall>nv \<in> set new. v < nv)" by (auto simp: left_users_def)
  show "use_list (vreg_users (f_data f')) v = []"
    using l rd us(1) by (auto simp: left_users_def use_list_def filter_empty_conv)
qed

text \<open>
  C5: spilling a register in a function with exact use lists and increasing program points keeps the use
  lists exact, leaves no instruction that reads or writes the register, forgets its live range, and
  introduces only fresh registers.
\<close>

theorem spill_removes_register:
  assumes "spill_inv (f_data f)" "points_increase (f_layout f) lv" "spill v (f, lv) = Some ((f', lv'), nvs)"
  shows "spill_inv (f_data f') \<and> vreg_lrs_map lv' v = None \<and> (\<forall>nv \<in> set nvs. v < nv)
    \<and> (\<forall>i \<in> set (instructions (f_data f')). v \<notin> set (input_vregs (in_data i)) \<and> v \<notin> set (output_vregs (in_data i)))"
proof -
  obtain sl slot s f1 lv1 nvs1 lv2 where run: "insert_spill v slot ((f\<lparr>f_slots := sl\<rparr>, lv), []) = Some ((f1, lv1), nvs1)"
    "insert_reload v slot ((f1, lv1), nvs1) = Some ((f', lv2), nvs)"
    "\<exists>lv3. fold_opt (compute_live_ranges (vreg_users (f_data f'))) nvs lv2 = Some lv3 \<and> lv' = remove_vreg v lv3"
    using assms(3) by (auto simp: spill_def Let_def elim!: bind_SomeE split: prod.splits)
  have inv0: "spill_inv (f_data (f\<lparr>f_slots := sl\<rparr>))" "points_increase (f_layout (f\<lparr>f_slots := sl\<rparr>)) lv"
    using assms(1,2) by simp_all
  note a = insert_spill_users [OF inv0 run(1)]
  note b = insert_reload_users [OF a(1,2) run(2)]
  have none: "vreg_lrs_map lv' v = None" using run(3) by (auto simp: remove_vreg_def)
  have gone: "v \<notin> set (input_vregs (in_data i)) \<and> v \<notin> set (output_vregs (in_data i))"
    if "i \<in> set (instructions (f_data f'))" for i
  proof (rule ccontr)
    assume c: "\<not> (v \<notin> set (input_vregs (in_data i)) \<and> v \<notin> set (output_vregs (in_data i)))"
    obtain k where k: "k < length (instructions (f_data f'))" "instructions (f_data f') ! k = i"
      using \<open>i \<in> _\<close> by (auto simp: in_set_conv_nth)
    then have "\<lparr>u_inst = k, u_read = v \<in> set (input_vregs (in_data i)), u_write = v \<in> set (output_vregs (in_data i))\<rparr>
        \<in> set (accesses (instructions (f_data f')) v)"
      using c by (simp add: in_accesses)
    then show False using b(1,2) unfolding spill_inv_def users_exact_def by (metis empty_iff list.set(1))
  qed
  show ?thesis using b(1,3) a(3) none gone by auto
qed

theorem spill_removes_register_witness:
  "\<exists>f lv f' lv' nvs. loop_function = Some f \<and> analyze_function f new_liveness = Some lv
     \<and> spill (VReg 0) (f, lv) = Some ((f', lv'), nvs) \<and> vreg_lrs_map lv' (VReg 0) = None"
proof -
  obtain T decl sl bis where lf: "loop_function = compile_function T decl sl (i32_vregs 4) bis" "cfg_wf (map fst bis)"
  proof
    show "loop_function = compile_function (new_types 0) False new_slots (i32_vregs 4) loop_blocks"
      by (rule loop_function_def)
    show "cfg_wf (map fst loop_blocks)" by code_simp
  qed
  obtain f g where f: "loop_function = Some f" "layout_rep (f_layout f) [0..<length bis] g"
    "dom (insts (f_layout f)) \<subseteq> {..<length (instructions (f_data f))}" "users_exact (f_data f)"
    using compile_function_correct [OF lf(2), of T decl sl "i32_vregs 4"] lf(1) by auto
  have vs: "d_vregs (f_data f) = i32_vregs 4" by (rule compile_function_vregs [OF f(1) [unfolded lf(1)]])
  have "map_option (\<lambda>f. map_option (\<lambda>c. (code_ok (basic_blocks (f_data f)) c \<and> distinct (map fst (code_insts c)),
      (\<forall>bc \<in> set c. length (snd bc) \<le> 9), (\<forall>i \<in> set (instructions (f_data f)). \<forall>v \<in> set (all_vregs (in_data i)). v < VReg 4),
      map_option (\<lambda>lv. spill (VReg 0) (f, lv) \<noteq> None) (analyze_function f new_liveness))) (func_code f)) loop_function
      = Some (Some (True, True, True, Some True))"
    by code_simp
  then obtain c lv f' lv' nvs where c: "func_code f = Some c" "code_ok (basic_blocks (f_data f)) c" "distinct (map fst (code_insts c))"
      "\<forall>bc \<in> set c. length (snd bc) \<le> 9" "\<forall>i \<in> set (instructions (f_data f)). \<forall>v \<in> set (all_vregs (in_data i)). v < VReg 4"
    and lv: "analyze_function f new_liveness = Some lv" "spill (VReg 0) (f, lv) = Some ((f', lv'), nvs)"
    unfolding f(1) by auto
  have "\<forall>bc \<in> set c. 16 * (length (snd bc) + 1) < 2 ^ 32" using c(4) by fastforce
  then have inc: "points_increase (f_layout f) lv" by (rule points_increase_analyzed [OF f(2,3) c(1-3) _ lv(1)])
  have "spill_inv (f_data f)"
    using f(4) c(5) i32_vregs [of 4] vs by (simp add: spill_inv_def vregs_below_def)
  then show ?thesis using spill_removes_register [OF _ inc lv(2)] f(1) lv by blast
qed

end
