(* ===== verification/Reg_Alloc_Correct.thy ===== *)
theory Reg_Alloc_Correct
  imports Reg_Alloc Spiller_Correct
begin

section \<open>What the register allocator guarantees\<close>

text \<open>
  When nothing has to be spilled, two virtual registers that share a register unit never interfere, no
  virtual register interferes with the uses of its unit in the input, and no virtual register is left in
  the rewritten code.  The search for preferred registers always returns.  The last part shows what a
  lost phi operand does to the allocation.
\<close>

subsection \<open>The search for preferred registers\<close>

text \<open>A search with enough fuel for the instructions that are still to be visited returns.\<close>

definition to_visit :: "mdata \<Rightarrow> nat set \<Rightarrow> nat" where
  "to_visit d vis = card ({..<length (instructions d)} - vis)"

lemma to_visit_insert:
  assumes "k < length (instructions d)" "k \<notin> vis"
  shows "to_visit d (insert k vis) < to_visit d vis"
  unfolding to_visit_def by (rule psubset_card_mono) (use assms in auto)

lemma to_visit_mono: "vis \<subseteq> vis' \<Longrightarrow> to_visit d vis' \<le> to_visit d vis"
  unfolding to_visit_def by (rule card_mono) auto

text \<open>The users of every register that a copy writes are registered, and name instructions.\<close>

definition users_closed :: "mdata \<Rightarrow> bool" where
  "users_closed d \<longleftrightarrow>
     (\<forall>v us. vreg_users d v = Some us \<longrightarrow> (\<forall>u \<in> set us. u_inst u < length (instructions d)))
   \<and> (\<forall>i \<in> set (instructions d). \<forall>v \<in> set (output_vregs (in_data i)). vreg_users d v \<noteq> None)"

lemma find_preferred_returns:
  assumes cl: "users_closed d"
  shows "vreg_users d v \<noteq> None \<Longrightarrow> to_visit d vis < n \<Longrightarrow>
      \<exists>l vis'. find_preferred n d v vis = Some (l, vis') \<and> vis \<subseteq> vis'"
    and "\<forall>u \<in> set us. u_inst u < length (instructions d) \<Longrightarrow> to_visit d vis \<le> n \<Longrightarrow>
      \<exists>l vis'. find_preferred_users n d us vis acc = Some (l, vis') \<and> vis \<subseteq> vis'"
  using cl
proof (induction n d v vis and n d us vis acc rule: find_preferred_find_preferred_users.induct)
  case (2 n d v vis)
  obtain us where us: "vreg_users d v = Some us" using "2.prems"(1) by blast
  have "\<forall>u \<in> set us. u_inst u < length (instructions d)" using "2.prems"(3) us by (auto simp: users_closed_def)
  then show ?case using "2.IH" [OF us _ _ "2.prems"(3)] "2.prems"(2) us by simp
next
  case (4 n d u us vis acc)
  let ?k = "u_inst u"
  have k: "?k < length (instructions d)" and us: "\<forall>u \<in> set us. u_inst u < length (instructions d)"
    using "4.prems"(1) by simp_all
  obtain i where i: "inst_ref d ?k = Some i" "i \<in> set (instructions d)" using k by (simp add: inst_ref_def)
  show ?case
  proof (cases "?k \<in> vis")
    case True
    then show ?thesis using "4.IH"(1) [OF i(1) True us "4.prems"(2,3)] i(1) by simp
  next
    case False
    have less: "to_visit d (insert ?k vis) < n"
      using to_visit_insert [OF k False] "4.prems"(2) by linarith
    show ?thesis
    proof (cases "u_write u \<or> \<not> is_copy (in_data i)")
      case True
      then show ?thesis
        using "4.IH"(2) [OF i(1) False True us _ "4.prems"(3)] less False i(1) by auto
    next
      case copy: False
      show ?thesis
      proof (cases "output_regs (in_data i)")
        case (Cons r rs)
        then show ?thesis
          using "4.IH"(6) [OF i(1) False copy Cons us _ "4.prems"(3)] less False copy i(1) by auto
      next
        case regs: Nil
        show ?thesis
        proof (cases "output_vregs (in_data i)")
          case Nil
          then show ?thesis
            using "4.IH"(3) [OF i(1) False copy regs Nil us _ "4.prems"(3)] less False copy regs i(1) by auto
        next
          case (Cons dst ds)
          have "vreg_users d dst \<noteq> None"
            using "4.prems"(3) i(2) Cons unfolding users_closed_def by (metis list.set_intros(1))
          then obtain l w where l: "find_preferred n d dst (insert ?k vis) = Some (l, w)" "insert ?k vis \<subseteq> w"
            using "4.IH"(4) [OF i(1) False copy regs Cons _ less "4.prems"(3)] by blast
          have "to_visit d w \<le> n" using to_visit_mono [OF l(2), of d] less by linarith
          then show ?thesis
            using "4.IH"(5) [OF i(1) False copy regs Cons l(1) refl us _ "4.prems"(3)] l False copy regs Cons i(1) by auto
        qed
      qed
    qed
  qed
qed auto

lemma users_exact_closed:
  assumes "users_exact d"
  shows "users_closed d"
proof -
  have acc: "set (use_list (vreg_users d) v) = set (accesses (instructions d) v)" for v
    using assms by (simp add: users_exact_def)
  have "u_inst u < length (instructions d)" if "vreg_users d v = Some us" "u \<in> set us" for v us u
    using acc [of v] that by (auto simp: use_list_def dest: accesses_inst_less)
  moreover have "vreg_users d v \<noteq> None" if "i \<in> set (instructions d)" "v \<in> set (output_vregs (in_data i))" for i v
  proof
    assume none: "vreg_users d v = None"
    obtain k where k: "k < length (instructions d)" "instructions d ! k = i" using \<open>i \<in> set (instructions d)\<close> unfolding in_set_conv_nth by blast
    have "\<lparr>u_inst = k, u_read = v \<in> set (input_vregs (in_data i)), u_write = True\<rparr> \<in> set (accesses (instructions d) v)"
      using k that(2) by (simp add: in_accesses)
    then show False using acc [of v] none by (simp add: use_list_def)
  qed
  ultimately show ?thesis unfolding users_closed_def by blast
qed

lemma find_preferred_total:
  assumes "users_exact d" "vreg_users d v \<noteq> None"
  shows "find_preferred_registers d v \<noteq> None"
proof -
  have "to_visit d {} \<le> length (instructions d)" by (simp add: to_visit_def)
  then show ?thesis
    using find_preferred_returns(1) [OF users_exact_closed [OF assms(1)] assms(2), of "{}" "Suc (length (instructions d))"]
    by (auto simp: find_preferred_registers_def)
qed

subsection \<open>The allocation loop\<close>

text \<open>
  The state of a run that has not spilled: the ranges of the virtual registers are those of the
  analysis, and the ranges of the units are those of the analysis together with the ranges of the
  registers assigned to them.
\<close>

definition unit_of :: "(vreg \<rightharpoonup> reg) \<Rightarrow> vreg \<Rightarrow> reg_unit option" where
  "unit_of m v = Option.bind (m v) to_reg_unit"

definition no_conflict :: "liveness \<Rightarrow> (vreg \<rightharpoonup> reg) \<Rightarrow> bool" where
  "no_conflict lv m \<longleftrightarrow> (\<forall>v \<in> dom m. \<exists>u. unit_of m v = Some u
     \<and> \<not> lr_interfere (ranges (vreg_lrs_map lv) v) (ranges (reg_lrs_map lv) u)
     \<and> (\<forall>w. w \<noteq> v \<longrightarrow> unit_of m w = Some u \<longrightarrow> \<not> lr_interfere (ranges (vreg_lrs_map lv) v) (ranges (vreg_lrs_map lv) w)))"

definition alloc_inv :: "liveness \<Rightarrow> alloc_state \<Rightarrow> bool" where
  "alloc_inv lv st \<longleftrightarrow>
     vreg_lrs_map (al_live st) = vreg_lrs_map lv
   \<and> (\<forall>u. set (ranges (reg_lrs_map lv) u) \<subseteq> set (ranges (reg_lrs_map (al_live st)) u))
   \<and> (\<forall>v u. unit_of (al_assigned st) v = Some u \<longrightarrow> set (ranges (vreg_lrs_map lv) v) \<subseteq> set (ranges (reg_lrs_map (al_live st)) u))
   \<and> no_conflict lv (al_assigned st)"

lemma lr_interfere_mono: "lr_interfere xs ys \<Longrightarrow> set ys \<subseteq> set zs \<Longrightarrow> lr_interfere xs zs"
  unfolding lr_interfere_def by blast

lemma interfere_ranges:
  "interfere u v lv = Some b \<Longrightarrow> b = lr_interfere (ranges (vreg_lrs_map lv) v) (ranges (reg_lrs_map lv) u)"
  by (auto simp: interfere_def ranges_def split: option.splits)

lemma assign_ranges:
  assumes "assign u v lv = Some lv'"
  shows "vreg_lrs_map lv' = vreg_lrs_map lv"
    and "set (ranges (reg_lrs_map lv') w) = set (ranges (reg_lrs_map lv) w) \<union> (if w = u then set (ranges (vreg_lrs_map lv) v) else {})"
  using assms by (auto simp: assign_def ranges_def Let_def elim!: bind_SomeE split: option.splits)

lemma try_regs_spec:
  "try_regs rs v lv = Some (Some (r, lv')) \<Longrightarrow> r \<in> set rs \<and> (\<exists>u. to_reg_unit r = Some u \<and> interfere u v lv = Some False \<and> assign u v lv = Some lv')"
  by (induction rs) (auto elim!: bind_SomeE split: if_splits)

lemma no_conflict_insert:
  assumes nc: "no_conflict lv m" and r: "to_reg_unit r = Some u"
    and phys: "\<not> lr_interfere (ranges (vreg_lrs_map lv) v) (ranges (reg_lrs_map lv) u)"
    and other: "\<And>w. unit_of m w = Some u \<Longrightarrow> \<not> lr_interfere (ranges (vreg_lrs_map lv) v) (ranges (vreg_lrs_map lv) w)"
  shows "no_conflict lv (m(v \<mapsto> r))"
  unfolding no_conflict_def
proof
  fix x assume x: "x \<in> dom (m(v \<mapsto> r))"
  have unit: "unit_of (m(v \<mapsto> r)) w = (if w = v then Some u else unit_of m w)" for w
    using r by (simp add: unit_of_def)
  show "\<exists>u. unit_of (m(v \<mapsto> r)) x = Some u
     \<and> \<not> lr_interfere (ranges (vreg_lrs_map lv) x) (ranges (reg_lrs_map lv) u)
     \<and> (\<forall>w. w \<noteq> x \<longrightarrow> unit_of (m(v \<mapsto> r)) w = Some u \<longrightarrow> \<not> lr_interfere (ranges (vreg_lrs_map lv) x) (ranges (vreg_lrs_map lv) w))"
  proof (cases "x = v")
    case True
    then show ?thesis using phys other by (auto simp: unit)
  next
    case False
    then obtain y where y: "unit_of m x = Some y" "\<not> lr_interfere (ranges (vreg_lrs_map lv) x) (ranges (reg_lrs_map lv) y)"
      "\<And>w. w \<noteq> x \<Longrightarrow> unit_of m w = Some y \<Longrightarrow> \<not> lr_interfere (ranges (vreg_lrs_map lv) x) (ranges (vreg_lrs_map lv) w)"
      using nc x unfolding no_conflict_def by (auto simp: domIff)
    have "\<not> lr_interfere (ranges (vreg_lrs_map lv) x) (ranges (vreg_lrs_map lv) v)" if "y = u"
      using other [of x] y(1) that lr_interfere_sym by blast
    then show ?thesis using False y by (intro exI [of _ y]) (auto simp: unit)
  qed
qed

lemma alloc_one_inv:
  assumes inv: "alloc_inv lv st" and run: "alloc_one pref v st = Some (Some st')" and new: "al_assigned st v = None"
  shows "alloc_inv lv st'" "al_func st' = al_func st" "dom (al_assigned st') = insert v (dom (al_assigned st))"
    "al_work st' = al_work st"
proof -
  obtain rs r lv' where t: "try_regs rs v (al_live st) = Some (Some (r, lv'))"
    and st': "st' = st\<lparr>al_live := lv', al_assigned := (al_assigned st)(v \<mapsto> r)\<rparr>"
    using run by (auto simp: alloc_one_def elim!: bind_SomeE)
  obtain u where u: "to_reg_unit r = Some u" "interfere u v (al_live st) = Some False" "assign u v (al_live st) = Some lv'"
    using try_regs_spec [OF t] by blast
  let ?v = "ranges (vreg_lrs_map lv)" and ?p = "ranges (reg_lrs_map (al_live st))" and ?q = "ranges (reg_lrs_map lv')"
  have same: "vreg_lrs_map (al_live st) = vreg_lrs_map lv"
    and base: "set (ranges (reg_lrs_map lv) w) \<subseteq> set (?p w)"
    and incl: "unit_of (al_assigned st) x = Some w \<Longrightarrow> set (?v x) \<subseteq> set (?p w)"
    and nc: "no_conflict lv (al_assigned st)" for w x
    using inv by (simp_all add: alloc_inv_def)
  have free: "\<not> lr_interfere (?v v) (?p u)" using interfere_ranges [OF u(2)] same by simp
  have grow: "set (?p w) \<subseteq> set (?q w)" and self: "set (?v v) \<subseteq> set (?q u)" for w
    using assign_ranges(2) [OF u(3)] same by simp_all
  have unit: "unit_of (al_assigned st') w = (if w = v then Some u else unit_of (al_assigned st) w)" for w
    unfolding st' using u(1) by (simp add: unit_of_def)
  have "no_conflict lv ((al_assigned st)(v \<mapsto> r))"
    by (rule no_conflict_insert [OF nc u(1)]) (use free lr_interfere_mono base incl in blast)+
  then have "no_conflict lv (al_assigned st')" unfolding st' by simp
  moreover have "unit_of (al_assigned st') x = Some w \<Longrightarrow> set (?v x) \<subseteq> set (?q w)" for x w
    using incl [of x w] self grow [of w] unfolding unit by (auto split: if_splits)
  moreover have "set (ranges (reg_lrs_map lv) w) \<subseteq> set (?q w)" for w using base grow by blast
  moreover have "vreg_lrs_map (al_live st') = vreg_lrs_map lv" "al_live st' = lv'"
    using assign_ranges(1) [OF u(3)] same unfolding st' by simp_all
  ultimately show "alloc_inv lv st'" unfolding alloc_inv_def by simp
  show "al_func st' = al_func st" "dom (al_assigned st') = insert v (dom (al_assigned st))" "al_work st' = al_work st"
    unfolding st' by auto
qed

lemma alloc_one_func: "alloc_one pref v st = Some (Some st') \<Longrightarrow> al_func st' = al_func st"
  by (auto simp: alloc_one_def elim!: bind_SomeE)

abbreviation slot_count :: "mfunc \<Rightarrow> nat" where
  "slot_count f \<equiv> length (arena (f_slots f))"

lemma spill_one_slots: "spill_one v st = Some st' \<Longrightarrow> slot_count (al_func st') = Suc (slot_count (al_func st))"
  using spill_adds_slot by (fastforce simp: spill_one_def elim!: bind_SomeE)

text \<open>The three ways in which one round of the loop goes on.\<close>

lemma alloc_loop_step:
  assumes "alloc_loop (Suc n) pref st = Some (Some st')"
  obtains (finished) "al_work st = []" "st' = st"
  | (assigned) v vs t where "al_work st = v # vs" "alloc_one pref v (st\<lparr>al_work := vs\<rparr>) = Some (Some t)"
      "alloc_loop n pref t = Some (Some st')"
  | (spilled) v vs t where "al_work st = v # vs" "spill_one v (st\<lparr>al_work := vs\<rparr>) = Some t" "alloc_loop n pref t = Some (Some st')"
  using assms by (auto split: list.splits option.splits)

lemma alloc_loop_slots: "alloc_loop n pref st = Some (Some st') \<Longrightarrow> slot_count (al_func st) \<le> slot_count (al_func st')"
proof (induction n arbitrary: st)
  case (Suc n)
  from Suc.prems show ?case
  proof (cases rule: alloc_loop_step)
    case (assigned v vs t)
    then show ?thesis using Suc.IH [OF assigned(3)] alloc_one_func [OF assigned(2)] by simp
  next
    case (spilled v vs t)
    then show ?thesis using Suc.IH [OF spilled(3)] spill_one_slots [OF spilled(2)] by simp
  qed simp
qed simp

lemma alloc_loop_no_spill:
  assumes "alloc_loop n pref st = Some (Some st')" "slot_count (al_func st') = slot_count (al_func st)"
    and "alloc_inv lv st" "distinct (al_work st)" "set (al_work st) \<inter> dom (al_assigned st) = {}"
  shows "alloc_inv lv st' \<and> al_func st' = al_func st \<and> dom (al_assigned st') = dom (al_assigned st) \<union> set (al_work st)"
  using assms
proof (induction n arbitrary: st)
  case (Suc n)
  from Suc.prems(1) show ?case
  proof (cases rule: alloc_loop_step)
    case finished
    then show ?thesis using Suc.prems by simp
  next
    case (spilled v vs t)
    have False using spill_one_slots [OF spilled(2)] alloc_loop_slots [OF spilled(3)] Suc.prems(2) by simp
    then show ?thesis ..
  next
    case (assigned v vs t)
    have inv: "alloc_inv lv (st\<lparr>al_work := vs\<rparr>)" using Suc.prems(3) by (simp add: alloc_inv_def)
    have new: "al_assigned (st\<lparr>al_work := vs\<rparr>) v = None" using Suc.prems(5) assigned(1) by auto
    note a = alloc_one_inv [OF inv assigned(2) new]
    have w: "distinct (al_work t)" "set (al_work t) \<inter> dom (al_assigned t) = {}"
      using Suc.prems(4,5) assigned(1) a(3,4) by auto
    have s: "slot_count (al_func st') = slot_count (al_func t)" using Suc.prems(2) a(2) by simp
    show ?thesis using Suc.IH [OF assigned(3) s a(1) w] a assigned(1) by auto
  qed
qed simp

lemma alloc_loop_mono: "alloc_loop n pref st \<noteq> None \<Longrightarrow> n \<le> m \<Longrightarrow> alloc_loop m pref st = alloc_loop n pref st"
proof (induction n arbitrary: m st)
  case (Suc n)
  then obtain k where k: "m = Suc k" "n \<le> k" by (cases m) auto
  show ?case using Suc.IH [OF _ k(2)] Suc.prems(1) unfolding k(1) by (auto split: list.split option.split)
qed simp

subsection \<open>Rewriting\<close>

lemma rewrite_inst_vregs: "set (all_vregs (rewrite_inst m i)) = set (all_vregs i) - dom m"
proof -
  have "set (all_vregs (fold (\<lambda>v i. case m v of None \<Rightarrow> i | Some r \<Rightarrow> rewrite_vreg v r i) vs i))
      = set (all_vregs i) - (set vs \<inter> dom m)" for vs i
    by (induction vs arbitrary: i) (auto simp: all_vregs_rewrite split: option.splits)
  then show ?thesis unfolding rewrite_inst_def by blast
qed

lemma rewrite_insts:
  fixes "is" :: "(nat \<times> inst_data) list"
  assumes "\<forall>i \<in> set is. fst i < length xs"
  shows "length (fold (\<lambda>i. rewrite_at m (fst i)) is xs) = length xs
    \<and> (\<forall>k < length xs. k \<in> fst ` set is \<longrightarrow>
         set (all_vregs (in_data (fold (\<lambda>i. rewrite_at m (fst i)) is xs ! k))) = set (all_vregs (in_data (xs ! k))) - dom m)"
  using assms
proof (induction "is" arbitrary: xs)
  case (Cons i "is")
  let ?xs = "rewrite_at m (fst i) xs"
  have at: "set (all_vregs (in_data (?xs ! k))) = set (all_vregs (in_data (xs ! k))) - (if k = fst i then dom m else {})"
    if "k < length xs" for k
    using that by (simp add: rewrite_at_def rewrite_inst_vregs nth_list_update)
  have len: "length ?xs = length xs" by (simp add: rewrite_at_def)
  have keep: "set (all_vregs (in_data (fold (\<lambda>i. rewrite_at m (fst i)) js ys ! k))) = set (all_vregs (in_data (ys ! k)))"
    if "k \<notin> fst ` set js" for k ys and js :: "(nat \<times> inst_data) list"
    using that by (induction js arbitrary: ys) (auto simp: rewrite_at_def)
  have "\<forall>i \<in> set is. fst i < length ?xs" using Cons.prems len by simp
  note IH = Cons.IH [OF this]
  have "set (all_vregs (in_data (fold (\<lambda>i. rewrite_at m (fst i)) (i # is) xs ! k))) = set (all_vregs (in_data (xs ! k))) - dom m"
    if k: "k < length xs" "k \<in> fst ` set (i # is)" for k
  proof (cases "k \<in> fst ` set is")
    case True
    then show ?thesis using IH k at [OF k(1)] len by auto
  next
    case False
    then show ?thesis using keep [OF False, of ?xs] k at [OF k(1)] by auto
  qed
  then show ?case using IH len by simp
qed simp

lemma those_eq_Some: "those xs = Some ys \<longleftrightarrow> xs = map Some ys"
proof (induction xs arbitrary: ys)
  case (Cons x xs)
  then show ?case by (cases x; cases ys) auto
qed auto

lemma func_code_inst:
  assumes "func_code f = Some code" "(k, i) \<in> set (code_insts code)"
  shows "\<exists>j. inst_ref (f_data f) k = Some j \<and> in_data j = i"
proof -
  obtain bs where bs: "map (\<lambda>b. map_option (Pair b) (block_code f b)) bs = map Some code"
    using assms(1) by (auto simp: func_code_def those_eq_Some elim!: bind_SomeE)
  obtain bc where bc: "bc \<in> set code" "(k, i) \<in> set (snd bc)" using assms(2) by (auto simp: code_insts_def)
  then have "Some bc \<in> set (map (\<lambda>b. map_option (Pair b) (block_code f b)) bs)" unfolding bs by simp
  then obtain b where "block_code f b = Some (snd bc)" by (auto simp: eq_commute [of "Some bc"])
  then obtain "is" where "map (\<lambda>i. map_option (\<lambda>x. (i, in_data x)) (inst_ref (f_data f) i)) is = map Some (snd bc)"
    by (auto simp: block_code_def those_eq_Some elim!: bind_SomeE)
  then have "Some (k, i) \<in> set (map (\<lambda>i. map_option (\<lambda>x. (i, in_data x)) (inst_ref (f_data f) i)) is)"
    using bc(2) by simp
  then show ?thesis by (auto simp: eq_commute [of "Some (k, i)"])
qed

lemma rewrite_function_spec:
  assumes code: "func_code f = Some code" and run: "rewrite_function m f = Some f'"
  shows "f_layout f' = f_layout f" "\<forall>(k, i) \<in> set (code_insts code).
      \<exists>j. inst_ref (f_data f') k = Some j \<and> set (all_vregs (in_data j)) = set (all_vregs i) - dom m"
proof -
  let ?is = "code_insts code" and ?xs = "instructions (f_data f)"
  obtain us where f': "f' = f\<lparr>f_data := (f_data f)\<lparr>instructions := fold (\<lambda>i. rewrite_at m (fst i)) ?is ?xs, used_csr := us\<rparr>\<rparr>"
    using run code by (auto simp: rewrite_function_def Let_def elim!: bind_SomeE)
  show "f_layout f' = f_layout f" unfolding f' by simp
  have dat: "k < length ?xs \<and> in_data (?xs ! k) = i" if "(k, i) \<in> set ?is" for k i
    using func_code_inst [OF code that] by (auto simp: inst_ref_def split: if_splits)
  then have "\<forall>i \<in> set ?is. fst i < length ?xs" by auto
  note rw = rewrite_insts [OF this, of m]
  show "\<forall>(k, i) \<in> set ?is. \<exists>j. inst_ref (f_data f') k = Some j \<and> set (all_vregs (in_data j)) = set (all_vregs i) - dom m"
  proof (clarify)
    fix k i assume ki: "(k, i) \<in> set ?is"
    then have "k \<in> fst ` set ?is" by force
    then show "\<exists>j. inst_ref (f_data f') k = Some j \<and> set (all_vregs (in_data j)) = set (all_vregs i) - dom m"
      using rw dat [OF ki] unfolding f' by (simp add: inst_ref_def)
  qed
qed

subsection \<open>The pass\<close>

lemma spill_around_calls_slots:
  "spill_around_calls vs ((f, lv), all) = Some ((f', lv'), all') \<Longrightarrow> slot_count f' = slot_count f + length vs"
proof (induction vs arbitrary: f lv all)
  case (Cons v vs)
  then obtain f1 lv1 nvs where s: "spill v (f, lv) = Some ((f1, lv1), nvs)"
    "spill_around_calls vs ((f1, lv1), (all - {v}) \<union> set nvs) = Some ((f', lv'), all')"
    by (auto simp: spill_around_calls_def elim!: bind_SomeE)
  show ?case using Cons.IH [OF s(2)] spill_adds_slot [OF s(1)] by simp
qed (simp add: spill_around_calls_def)

lemma sort_worklist_set: "sort_worklist lv vs = Some ws \<Longrightarrow> set ws = set vs \<and> distinct ws = distinct vs"
  by (auto simp: sort_worklist_def split: if_splits)

lemma regalloc_stages:
  assumes run: "regalloc_function iter fuel f = Some (Some (st, f'))" and iter: "lists_sets iter"
    and none: "slot_count (al_func st) = slot_count f"
    and code: "func_code f = Some code" "analyze_function f new_liveness = Some lv"
  shows "al_func st = f" "no_conflict lv (al_assigned st)" "dom (al_assigned st) = function_vregs code"
    "rewrite_function (al_assigned st) f = Some f'"
proof -
  obtain calls f1 lv1 all pref work where stages:
    "spill_around_calls calls ((f, lv), function_vregs code) = Some ((f1, lv1), all)" "sort_worklist lv1 (iter all) = Some work"
    "alloc_loop fuel pref \<lparr>al_func = f1, al_live = lv1, al_assigned = Map.empty, al_spilled = {}, al_work = work\<rparr> = Some (Some st)"
    "rewrite_function (al_assigned st) (al_func st) = Some f'"
    using run code
    by (auto simp: regalloc_function_def alloc_start_def alloc_finish_def Let_def elim!: bind_SomeE split: option.splits)
  let ?st = "\<lparr>al_func = f1, al_live = lv1, al_assigned = Map.empty, al_spilled = {}, al_work = work\<rparr> :: alloc_state"
  have "slot_count f1 \<le> slot_count f" using alloc_loop_slots [OF stages(3)] none by simp
  then have "calls = []" using spill_around_calls_slots [OF stages(1)] by simp
  then have same: "f1 = f" "lv1 = lv" "all = function_vregs code"
    using stages(1) by (simp_all add: spill_around_calls_def)
  have fin: "finite (function_vregs code)" by (simp add: function_vregs_def)
  have work: "set work = function_vregs code" "distinct work"
    using sort_worklist_set [OF stages(2)] iter fin same(3) by (simp_all add: lists_sets_def)
  have inv: "alloc_inv lv ?st" using same by (simp add: alloc_inv_def no_conflict_def unit_of_def)
  have slots: "slot_count (al_func st) = slot_count (al_func ?st)" using none same by simp
  have end_: "alloc_inv lv st \<and> al_func st = al_func ?st \<and> dom (al_assigned st) = dom (al_assigned ?st) \<union> set (al_work ?st)"
    by (rule alloc_loop_no_spill [OF stages(3) slots inv]) (use work in simp_all)
  then show f: "al_func st = f" using same by simp
  show "no_conflict lv (al_assigned st)" "dom (al_assigned st) = function_vregs code"
    using end_ work by (simp_all add: alloc_inv_def)
  show "rewrite_function (al_assigned st) f = Some f'" using stages(4) f by simp
qed


subsection \<open>Functions that need no spilling\<close>

text \<open>
  The registers that are tried for a virtual register that was not made by spilling, and the condition
  under which one of them is always free: fewer registers interfere with it than there are candidates.
\<close>

definition candidates_for :: "mfunc \<Rightarrow> code \<Rightarrow> vreg \<Rightarrow> reg list option" where
  "candidates_for f code v = do {
     t \<leftarrow> type_for v (d_vregs (f_data f));
     rc \<leftarrow> for_type (f_types f) t;
     Some (butlast (if entry_has_call code then csr_list rc else gpr_list rc @ csr_list rc)) }"

definition neighbours :: "liveness \<Rightarrow> code \<Rightarrow> vreg \<Rightarrow> vreg set" where
  "neighbours lv code v = {w \<in> function_vregs code. w \<noteq> v \<and> lr_interfere (ranges (vreg_lrs_map lv) v) (ranges (vreg_lrs_map lv) w)}"

definition blocked_units :: "liveness \<Rightarrow> reg list \<Rightarrow> vreg \<Rightarrow> reg_unit set" where
  "blocked_units lv rs v = {u \<in> set (List.map_filter to_reg_unit rs). lr_interfere (ranges (vreg_lrs_map lv) v) (ranges (reg_lrs_map lv) u)}"

definition few_neighbours :: "liveness \<Rightarrow> mfunc \<Rightarrow> code \<Rightarrow> bool" where
  "few_neighbours lv f code \<longleftrightarrow> (\<forall>v \<in> function_vregs code. \<exists>rs. candidates_for f code v = Some rs \<and>
     card (neighbours lv code v) + card (blocked_units lv rs v) < length rs)"

text \<open>What the lowering guarantees: all virtual registers are read or written, and the use lists are exact.\<close>

definition alloc_ready :: "mfunc \<Rightarrow> code \<Rightarrow> bool" where
  "alloc_ready f code \<longleftrightarrow> code_ok (basic_blocks (f_data f)) code \<and> users_exact (f_data f) \<and>
     (\<forall>i \<in> set (instructions (f_data f)). regs_ok (in_data i)) \<and>
     (\<forall>i \<in> set (code_insts code). set (all_vregs (snd i)) \<subseteq> touched (snd i))"

lemma finite_function_vregs [simp]: "finite (function_vregs code)"
  by (simp add: function_vregs_def)

lemma alloc_ready_ranges:
  assumes ready: "alloc_ready f code" and code: "func_code f = Some code" and lv: "analyze_function f new_liveness = Some lv"
    and v: "v \<in> function_vregs code"
  shows "ranges (vreg_lrs_map lv) v \<noteq> []"
proof -
  obtain bc i where i: "bc \<in> set code" "i \<in> set (snd bc)" "v \<in> set (all_vregs (snd i))"
    using v by (auto simp: function_vregs_def code_insts_def)
  then have "v \<in> touched (snd i)" using ready by (auto simp: alloc_ready_def code_insts_def)
  moreover obtain j k where jk: "j < length code" "code ! j = bc" "k < length (snd bc)" "snd bc ! k = i"
    using i(1,2) by (metis in_set_conv_nth)
  moreover have "analysis_result (basic_blocks (f_data f)) code lv"
    using analyze_function_result [OF code] ready lv by (auto simp: alloc_ready_def)
  then have "block_ranged j bc lv" using jk(1,2) by (auto simp: analysis_result_def)
  ultimately have "range_spans lv v (of_nat j) (length (snd bc) + 1) (k + 1) (k + 1)"
    by (auto simp: block_ranged_def Let_def split: option.splits)
  then show ?thesis by (auto simp: range_spans_def)
qed

lemma alloc_ready_users:
  assumes "alloc_ready f code" "func_code f = Some code" "v \<in> function_vregs code"
  shows "vreg_users (f_data f) v \<noteq> None"
proof -
  obtain k i where ki: "(k, i) \<in> set (code_insts code)" "v \<in> set (all_vregs i)"
    using assms(3) by (auto simp: function_vregs_def)
  obtain x where "inst_ref (f_data f) k = Some x" "in_data x = i" using func_code_inst [OF assms(2) ki(1)] by blast
  moreover have "v \<in> touched i" using assms(1) ki unfolding alloc_ready_def by fastforce
  ultimately have "\<lparr>u_inst = k, u_read = v \<in> set (input_vregs i), u_write = v \<in> set (output_vregs i)\<rparr> \<in> set (accesses (instructions (f_data f)) v)"
    by (auto simp: in_accesses touched_def inst_ref_def split: if_splits)
  moreover have "set (use_list (vreg_users (f_data f)) v) = set (accesses (instructions (f_data f)) v)"
    using assms(1) by (simp add: alloc_ready_def users_exact_def)
  ultimately have "use_list (vreg_users (f_data f)) v \<noteq> []" by (metis empty_iff empty_set)
  then show ?thesis by (cases "vreg_users (f_data f) v") (simp_all add: use_list_def)
qed

text \<open>Preferred registers are registers of the code.\<close>

lemma find_preferred_regs:
  assumes "\<forall>i \<in> set (instructions d). regs_ok (in_data i)"
  shows "find_preferred n d v vis = Some (l, w) \<Longrightarrow> \<forall>r \<in> set l. to_reg_unit r \<noteq> None"
    and "find_preferred_users n d us vis acc = Some (l, w) \<Longrightarrow> \<forall>r \<in> set acc. to_reg_unit r \<noteq> None \<Longrightarrow> \<forall>r \<in> set l. to_reg_unit r \<noteq> None"
  using assms
proof (induction n d v vis and n d us vis acc arbitrary: l w and l w rule: find_preferred_find_preferred_users.induct)
  case (2 n d v vis)
  then show ?case by (auto split: option.splits)
next
  case (4 n d u us vis acc)
  obtain i where i: "inst_ref d (u_inst u) = Some i" using "4.prems"(1) by (auto split: option.splits)
  then have ok: "regs_ok (in_data i)" using "4.prems"(3) by (auto simp: inst_ref_def split: if_splits)
  show ?case
  proof (cases "u_inst u \<in> vis \<or> u_write u \<or> \<not> is_copy (in_data i)")
    case True
    then show ?thesis using "4.IH"(1,2) [OF i] "4.prems" i by (auto split: if_splits)
  next
    case copy: False
    show ?thesis
    proof (cases "output_regs (in_data i)")
      case (Cons r rs)
      then have "to_reg_unit r \<noteq> None" using ok by (auto simp: regs_ok_def)
      then show ?thesis using "4.IH"(6) [OF i _ _ Cons] "4.prems" i copy Cons by auto
    next
      case regs: Nil
      show ?thesis
      proof (cases "output_vregs (in_data i)")
        case Nil
        then show ?thesis using "4.IH"(3) [OF i _ _ regs Nil] "4.prems" i copy regs by auto
      next
        case (Cons dst ds)
        obtain m w' where m: "find_preferred n d dst (insert (u_inst u) vis) = Some (m, w')"
          using "4.prems"(1) i copy regs Cons by (auto split: option.splits)
        have "\<forall>r \<in> set m. to_reg_unit r \<noteq> None" using "4.IH"(4) [OF i _ _ regs Cons m "4.prems"(3)] copy by simp
        then show ?thesis using "4.IH"(5) [OF i _ _ regs Cons m refl] "4.prems" i copy regs Cons m by auto
      qed
    qed
  qed
qed auto

lemma collect_preferred_total:
  assumes ready: "alloc_ready f code" and code: "func_code f = Some code" and vs: "set vs \<subseteq> function_vregs code"
  shows "\<exists>pref. collect_preferred_registers (f_data f) vs = Some pref \<and> (\<forall>v rs. pref v = Some rs \<longrightarrow> (\<forall>r \<in> set rs. to_reg_unit r \<noteq> None))"
proof -
  have "\<exists>pref. fold_opt (\<lambda>v m. do {
       rs \<leftarrow> find_preferred_registers (f_data f) v;
       Some (if rs = [] then m else m(v \<mapsto> rs)) }) vs p = Some pref \<and> (\<forall>v rs. pref v = Some rs \<longrightarrow> (\<forall>r \<in> set rs. to_reg_unit r \<noteq> None))"
    if "\<forall>v rs. p v = Some rs \<longrightarrow> (\<forall>r \<in> set rs. to_reg_unit r \<noteq> None)" for p
    using vs that
  proof (induction vs arbitrary: p)
    case (Cons v vs)
    have "users_exact (f_data f)" "\<forall>i \<in> set (instructions (f_data f)). regs_ok (in_data i)"
      using ready by (simp_all add: alloc_ready_def)
    moreover from this obtain rs where rs: "find_preferred_registers (f_data f) v = Some rs"
      using find_preferred_total alloc_ready_users [OF ready code] Cons.prems(1) by fastforce
    moreover from this obtain w where "find_preferred (Suc (length (instructions (f_data f)))) (f_data f) v {} = Some (rs, w)"
      by (auto simp: find_preferred_registers_def simp del: find_preferred.simps)
    ultimately have "\<forall>r \<in> set rs. to_reg_unit r \<noteq> None" by (intro find_preferred_regs(1))
    then show ?case using Cons.IH [of "if rs = [] then p else p(v \<mapsto> rs)"] Cons.prems rs by (auto split: if_splits)
  qed simp
  from this [of Map.empty] show ?thesis by (simp add: collect_preferred_registers_def)
qed

lemma sort_worklist_total: "(\<And>v. v \<in> set vs \<Longrightarrow> ranges (vreg_lrs_map lv) v \<noteq> []) \<Longrightarrow> \<exists>ws. sort_worklist lv vs = Some ws"
proof -
  assume r: "\<And>v. v \<in> set vs \<Longrightarrow> ranges (vreg_lrs_map lv) v \<noteq> []"
  have "range_key lv v \<noteq> None" if "v \<in> set vs" for v
    using r [OF that] by (cases "vreg_lrs_map lv v") (auto simp: range_key_def ranges_def first_seg_def split: list.split)
  then show ?thesis by (simp add: sort_worklist_def)
qed

lemma interfere_total: "vreg_lrs_map lv v \<noteq> None \<Longrightarrow> interfere u v lv = Some (lr_interfere (ranges (vreg_lrs_map lv) v) (ranges (reg_lrs_map lv) u))"
  by (cases "reg_lrs_map lv u"; cases "vreg_lrs_map lv v") (simp_all add: interfere_def ranges_def lr_interfere_def)

lemma try_regs_total:
  assumes "\<forall>r \<in> set rs. to_reg_unit r \<noteq> None" "vreg_lrs_map lv v \<noteq> None"
    and "\<exists>r \<in> set rs. \<exists>u. to_reg_unit r = Some u \<and> \<not> lr_interfere (ranges (vreg_lrs_map lv) v) (ranges (reg_lrs_map lv) u)"
  shows "\<exists>r lv'. try_regs rs v lv = Some (Some (r, lv'))"
  using assms
proof (induction rs)
  case (Cons r rs)
  obtain u where u: "to_reg_unit r = Some u" using Cons.prems(1) by auto
  have "assign u v lv \<noteq> None" using Cons.prems(2) by (auto simp: assign_def)
  then show ?case using Cons u interfere_total [OF Cons.prems(2), of u] by (auto simp: Let_def)
qed simp


text \<open>The ranges of a unit are those of the analysis and of the registers assigned to it.\<close>

definition units_exact :: "liveness \<Rightarrow> alloc_state \<Rightarrow> bool" where
  "units_exact lv st \<longleftrightarrow> (\<forall>u. \<forall>x \<in> set (ranges (reg_lrs_map (al_live st)) u).
     x \<in> set (ranges (reg_lrs_map lv) u) \<or> (\<exists>w. unit_of (al_assigned st) w = Some u \<and> x \<in> set (ranges (vreg_lrs_map lv) w)))"

lemma units_exact_assign:
  assumes ex: "units_exact lv st" and same: "vreg_lrs_map (al_live st) = vreg_lrs_map lv" and new: "al_assigned st v = None"
    and u: "to_reg_unit r = Some u" "assign u v (al_live st) = Some lv'"
  shows "units_exact lv (st\<lparr>al_live := lv', al_assigned := (al_assigned st)(v \<mapsto> r)\<rparr>)"
proof -
  have unit: "unit_of ((al_assigned st)(v \<mapsto> r)) w = (if w = v then Some u else unit_of (al_assigned st) w)" for w
    using u(1) by (simp add: unit_of_def)
  have old: "unit_of (al_assigned st) v = None" using new by (simp add: unit_of_def)
  show ?thesis unfolding units_exact_def
  proof (intro allI ballI)
    fix y x assume "x \<in> set (ranges (reg_lrs_map (al_live (st\<lparr>al_live := lv', al_assigned := (al_assigned st)(v \<mapsto> r)\<rparr>))) y)"
    then have "x \<in> set (ranges (reg_lrs_map (al_live st)) y) \<or> y = u \<and> x \<in> set (ranges (vreg_lrs_map lv) v)"
      using assign_ranges(2) [OF u(2), of y] same by (auto split: if_splits)
    then consider "x \<in> set (ranges (reg_lrs_map lv) y)" | w where "unit_of (al_assigned st) w = Some y" "x \<in> set (ranges (vreg_lrs_map lv) w)"
      | "y = u" "x \<in> set (ranges (vreg_lrs_map lv) v)"
      using ex unfolding units_exact_def by blast
    then show "x \<in> set (ranges (reg_lrs_map lv) y) \<or>
        (\<exists>w. unit_of (al_assigned (st\<lparr>al_live := lv', al_assigned := (al_assigned st)(v \<mapsto> r)\<rparr>)) w = Some y \<and> x \<in> set (ranges (vreg_lrs_map lv) w))"
    proof cases
      case (2 w)
      then have "unit_of ((al_assigned st)(v \<mapsto> r)) w = Some y" using old unit [of w] by auto
      then show ?thesis using 2(2) by auto
    next
      case 3
      then show ?thesis using unit [of v] by auto
    qed simp
  qed
qed

lemma candidates_regs:
  assumes "candidates_for f code v = Some rs"
  shows "distinct rs" "\<forall>r \<in> set rs. to_reg_unit r \<noteq> None" "inj_on to_reg_unit (set rs)"
proof -
  obtain rc where "rs = butlast (if entry_has_call code then csr_list rc else gpr_list rc @ csr_list rc)"
    using assms by (auto simp: candidates_for_def elim!: bind_SomeE)
  then show "distinct rs" "\<forall>r \<in> set rs. to_reg_unit r \<noteq> None" "inj_on to_reg_unit (set rs)"
    by (cases rc; simp add: gr_reg_def inj_on_def)+
qed

text \<open>One of the candidates is free.\<close>

lemma candidate_free:
  assumes ex: "units_exact lv st" and v: "al_assigned st v = None" "dom (al_assigned st) \<subseteq> function_vregs code"
    and rs: "candidates_for f code v = Some rs"
    and few: "card (neighbours lv code v) + card (blocked_units lv rs v) < length rs"
  shows "\<exists>r \<in> set rs. \<exists>u. to_reg_unit r = Some u \<and> \<not> lr_interfere (ranges (vreg_lrs_map lv) v) (ranges (reg_lrs_map (al_live st)) u)"
proof (rule ccontr)
  assume none: "\<not> ?thesis"
  let ?U = "the ` to_reg_unit ` set rs" and ?V = "ranges (vreg_lrs_map lv)"
  note c = candidates_regs [OF rs]
  have units: "?U \<subseteq> set (List.map_filter to_reg_unit rs)" using c(2) by (force simp: map_filter_set)
  have "inj_on (the \<circ> to_reg_unit) (set rs)"
  proof (rule inj_onI)
    fix x y assume xy: "x \<in> set rs" "y \<in> set rs" "(the \<circ> to_reg_unit) x = (the \<circ> to_reg_unit) y"
    then have "to_reg_unit x = to_reg_unit y" using c(2) by (metis comp_apply option.collapse)
    then show "x = y" using c(3) xy by (simp add: inj_on_def)
  qed
  then have card: "card ?U = length rs" using card_image [of "the \<circ> to_reg_unit" "set rs"] distinct_card [OF c(1)]
    by (simp add: image_comp)
  have "u \<in> blocked_units lv rs v \<union> (the \<circ> unit_of (al_assigned st)) ` neighbours lv code v" if u: "u \<in> ?U" for u
  proof -
    obtain r where r: "r \<in> set rs" "to_reg_unit r = Some u" using u c(2) by auto
    then have "lr_interfere (?V v) (ranges (reg_lrs_map (al_live st)) u)" using none by blast
    then obtain x y where xy: "x \<in> set (?V v)" "y \<in> set (ranges (reg_lrs_map (al_live st)) u)" "seg_interfere x y"
      by (auto simp: lr_interfere_def)
    from ex xy(2) consider "y \<in> set (ranges (reg_lrs_map lv) u)"
      | w where "unit_of (al_assigned st) w = Some u" "y \<in> set (?V w)"
      unfolding units_exact_def by blast
    then show ?thesis
    proof cases
      case 1
      then have "u \<in> blocked_units lv rs v" using u units xy by (auto simp: blocked_units_def lr_interfere_def)
      then show ?thesis ..
    next
      case (2 w)
      have "w \<noteq> v" "w \<in> function_vregs code" using 2(1) v by (auto simp: unit_of_def bind_eq_Some_iff)
      then have "w \<in> neighbours lv code v" using 2(2) xy by (auto simp: neighbours_def lr_interfere_def)
      then show ?thesis using 2(1) by force
    qed
  qed
  then have "?U \<subseteq> blocked_units lv rs v \<union> (the \<circ> unit_of (al_assigned st)) ` neighbours lv code v" by blast
  moreover have "finite (neighbours lv code v)" "finite (blocked_units lv rs v)" by (simp_all add: neighbours_def blocked_units_def)
  ultimately have "card ?U \<le> card (blocked_units lv rs v) + card ((the \<circ> unit_of (al_assigned st)) ` neighbours lv code v)"
    by (meson card_Un_le card_mono finite_UnI finite_imageI le_trans)
  also have "\<dots> \<le> card (blocked_units lv rs v) + card (neighbours lv code v)"
    using card_image_le [OF \<open>finite (neighbours lv code v)\<close>] by simp
  finally show False using few card by simp
qed

definition loop_state :: "liveness \<Rightarrow> mfunc \<Rightarrow> code \<Rightarrow> alloc_state \<Rightarrow> bool" where
  "loop_state lv f code st \<longleftrightarrow> alloc_inv lv st \<and> units_exact lv st \<and> al_func st = f \<and> al_spilled st = {} \<and>
     distinct (al_work st) \<and> set (al_work st) \<inter> dom (al_assigned st) = {} \<and>
     set (al_work st) \<union> dom (al_assigned st) \<subseteq> function_vregs code"

lemma alloc_one_total:
  assumes st: "loop_state lv f code st" and work: "al_work st = v # vs"
    and code: "func_code f = Some code" and few: "few_neighbours lv f code"
    and ranges: "ranges (vreg_lrs_map lv) v \<noteq> []" and pref: "\<forall>v rs. pref v = Some rs \<longrightarrow> (\<forall>r \<in> set rs. to_reg_unit r \<noteq> None)"
  shows "\<exists>t. alloc_one pref v (st\<lparr>al_work := vs\<rparr>) = Some (Some t) \<and> loop_state lv f code t \<and> al_work t = vs"
proof -
  let ?st = "st\<lparr>al_work := vs\<rparr>"
  have inv: "alloc_inv lv ?st" "units_exact lv ?st" "al_func ?st = f" "al_spilled ?st = {}" "al_assigned ?st v = None"
    "dom (al_assigned ?st) \<subseteq> function_vregs code" "v \<in> function_vregs code"
    using st work by (auto simp: loop_state_def alloc_inv_def units_exact_def)
  have same: "vreg_lrs_map (al_live ?st) = vreg_lrs_map lv" using inv(1) by (simp add: alloc_inv_def)
  obtain cs where cs: "candidates_for f code v = Some cs" "card (neighbours lv code v) + card (blocked_units lv cs v) < length cs"
    using few inv(7) by (auto simp: few_neighbours_def)
  obtain ps where av: "availables pref v ?st = Some (ps @ cs)" and ps: "\<forall>r \<in> set ps. to_reg_unit r \<noteq> None"
  proof (rule that [of "case pref v of None \<Rightarrow> [] | Some ps \<Rightarrow> ps"])
    show "availables pref v ?st = Some ((case pref v of None \<Rightarrow> [] | Some ps \<Rightarrow> ps) @ cs)"
      using cs(1) code inv(3,4) by (auto simp: availables_def candidates_for_def Let_def bind_eq_Some_iff)
    show "\<forall>r \<in> set (case pref v of None \<Rightarrow> [] | Some ps \<Rightarrow> ps). to_reg_unit r \<noteq> None"
      using pref by (cases "pref v") simp_all
  qed
  have "\<exists>r lv'. try_regs (ps @ cs) v (al_live ?st) = Some (Some (r, lv'))"
  proof (rule try_regs_total)
    show "\<forall>r \<in> set (ps @ cs). to_reg_unit r \<noteq> None" using ps candidates_regs(2) [OF cs(1)] by auto
    show "vreg_lrs_map (al_live ?st) v \<noteq> None" using ranges unfolding same by (cases "vreg_lrs_map lv v") (simp_all add: ranges_def)
    show "\<exists>r \<in> set (ps @ cs). \<exists>u. to_reg_unit r = Some u \<and>
        \<not> lr_interfere (ranges (vreg_lrs_map (al_live ?st)) v) (ranges (reg_lrs_map (al_live ?st)) u)"
      using candidate_free [OF inv(2,5,6) cs] unfolding same by auto
  qed
  then obtain r lv' where r: "try_regs (ps @ cs) v (al_live ?st) = Some (Some (r, lv'))" by blast
  let ?t = "?st\<lparr>al_live := lv', al_assigned := (al_assigned ?st)(v \<mapsto> r)\<rparr>"
  have one: "alloc_one pref v ?st = Some (Some ?t)" using av r by (simp add: alloc_one_def)
  obtain u where u: "to_reg_unit r = Some u" "assign u v (al_live ?st) = Some lv'" using try_regs_spec [OF r] by blast
  have "loop_state lv f code ?t"
    using alloc_one_inv(1) [OF inv(1) one inv(5)] units_exact_assign [OF inv(2) same inv(5) u] st work inv(7)
    by (auto simp: loop_state_def)
  then show ?thesis using one by simp
qed

lemma alloc_loop_total:
  assumes "loop_state lv f code st" "length (al_work st) < n"
    and "func_code f = Some code" "few_neighbours lv f code" "\<And>v. v \<in> function_vregs code \<Longrightarrow> ranges (vreg_lrs_map lv) v \<noteq> []"
    and "\<forall>v rs. pref v = Some rs \<longrightarrow> (\<forall>r \<in> set rs. to_reg_unit r \<noteq> None)"
  shows "\<exists>st'. alloc_loop n pref st = Some (Some st') \<and> al_func st' = f \<and> alloc_inv lv st'"
  using assms(1,2)
proof (induction n arbitrary: st)
  case (Suc n)
  show ?case
  proof (cases "al_work st")
    case Nil
    then show ?thesis using Suc.prems(1) by (simp add: loop_state_def)
  next
    case (Cons v vs)
    then have "v \<in> function_vregs code" using Suc.prems(1) by (auto simp: loop_state_def)
    from alloc_one_total [OF Suc.prems(1) Cons assms(3,4) assms(5) [OF this] assms(6)]
    obtain t where t: "alloc_one pref v (st\<lparr>al_work := vs\<rparr>) = Some (Some t)" "loop_state lv f code t" "al_work t = vs" by blast
    then show ?thesis using Suc.IH [OF t(2)] Suc.prems(2) Cons by simp
  qed
qed simp

lemma rewrite_function_total:
  assumes "func_code f = Some code" "no_conflict lv m"
  shows "\<exists>f'. rewrite_function m f = Some f'"
proof -
  let ?used = "concat (map (\<lambda>i. used_regs m (snd i)) (code_insts code))"
  have "to_reg_unit r \<noteq> None" if r: "r \<in> set ?used" for r
  proof -
    obtain i where "r \<in> set (List.map_filter m (all_vregs i))" using r by (auto simp: used_regs_def)
    then obtain v where "m v = Some r" unfolding map_filter_set by blast
    then show ?thesis using assms(2) unfolding no_conflict_def unit_of_def by (metis bind.bind_lunit domI option.distinct(1))
  qed
  then have "those (map to_reg_unit ?used) \<noteq> None" by (rule those_total)
  then show ?thesis using assms(1) by (auto simp: rewrite_function_def Let_def)
qed

subsection \<open>The allocator\<close>

text \<open>What is wanted of an allocation that the code \<open>f'\<close> comes from.\<close>

definition allocated :: "liveness \<Rightarrow> code \<Rightarrow> mfunc \<Rightarrow> alloc_state \<Rightarrow> mfunc \<Rightarrow> bool" where
  "allocated lv code f st f' \<longleftrightarrow> no_conflict lv (al_assigned st) \<and> dom (al_assigned st) = function_vregs code
    \<and> f_layout f' = f_layout f
    \<and> (\<forall>(k, i) \<in> set (code_insts code). \<exists>j. inst_ref (f_data f') k = Some j \<and> all_vregs (in_data j) = [])"

lemma regalloc_allocated:
  assumes "regalloc_function iter fuel f = Some (Some (st, f'))" "lists_sets iter"
    and "slot_count (al_func st) = slot_count f"
    and "func_code f = Some code" "analyze_function f new_liveness = Some lv"
  shows "allocated lv code f st f'"
proof -
  note s = regalloc_stages [OF assms]
  note r = rewrite_function_spec [OF assms(4) s(4)]
  have "\<exists>j. inst_ref (f_data f') k = Some j \<and> all_vregs (in_data j) = []" if ki: "(k, i) \<in> set (code_insts code)" for k i
  proof -
    obtain j where j: "inst_ref (f_data f') k = Some j" "set (all_vregs (in_data j)) = set (all_vregs i) - dom (al_assigned st)"
      using r(2) ki by blast
    have "set (all_vregs i) \<subseteq> function_vregs code" unfolding function_vregs_def using ki by force
    then have "all_vregs (in_data j) = []" using j(2) unfolding s(3) by (metis Diff_eq_empty_iff set_empty)
    then show ?thesis using j(1) by blast
  qed
  then show ?thesis using s(2,3) r(1) unfolding allocated_def by blast
qed

lemma regalloc_total:
  assumes iter: "lists_sets iter" and code: "func_code f = Some code" and lv: "analyze_function f new_liveness = Some lv"
    and ready: "alloc_ready f code" and calls: "collect_vregs_alive_around_call code lv (iter (function_vregs code)) = Some []"
    and few: "few_neighbours lv f code" and fuel: "card (function_vregs code) < fuel"
  shows "\<exists>st f'. regalloc_function iter fuel f = Some (Some (st, f')) \<and> al_func st = f"
proof -
  let ?vs = "iter (function_vregs code)"
  have vs: "set ?vs = function_vregs code" "distinct ?vs" using iter by (simp_all add: lists_sets_def)
  note ranges = alloc_ready_ranges [OF ready code lv]
  obtain pref where pref: "collect_preferred_registers (f_data f) ?vs = Some pref"
    "\<forall>v rs. pref v = Some rs \<longrightarrow> (\<forall>r \<in> set rs. to_reg_unit r \<noteq> None)"
    using collect_preferred_total [OF ready code, of ?vs] vs(1) by blast
  obtain ws where ws: "sort_worklist lv ?vs = Some ws" using sort_worklist_total [of ?vs lv] ranges vs(1) by blast
  have work: "set ws = function_vregs code" "distinct ws" using sort_worklist_set [OF ws] vs by simp_all
  let ?st = "\<lparr>al_func = f, al_live = lv, al_assigned = Map.empty, al_spilled = {}, al_work = ws\<rparr> :: alloc_state"
  have start: "alloc_start iter f = Some (pref, ?st)"
    using lv code calls pref(1) ws by (simp add: alloc_start_def spill_around_calls_def)
  have "loop_state lv f code ?st"
    using work by (auto simp: loop_state_def alloc_inv_def units_exact_def no_conflict_def unit_of_def)
  moreover have "length (al_work ?st) < fuel" using fuel distinct_card [OF work(2)] work(1) by simp
  ultimately obtain st where st: "alloc_loop fuel pref ?st = Some (Some st)" "al_func st = f" "alloc_inv lv st"
    using alloc_loop_total [OF _ _ code few ranges pref(2)] by blast
  moreover obtain f' where "rewrite_function (al_assigned st) f = Some f'"
    using rewrite_function_total [OF code, of lv "al_assigned st"] st(3) unfolding alloc_inv_def by blast
  ultimately show ?thesis using start by (simp add: regalloc_function_def alloc_finish_def)
qed

text \<open>
  C4: when the allocator returns without having spilled, two virtual registers on the same register unit never
  have interfering live ranges, none interferes with the live range its unit has in the input, every
  virtual register of the code is assigned, and the rewritten code mentions no virtual register.  It does
  return so, without a panic, with any fuel above the number of virtual registers, when no register is alive
  across a call and every register has fewer interfering virtual registers and interfering units than
  candidates.  More fuel never changes a result.
\<close>

theorem regalloc_correct:
  assumes "lists_sets iter" "func_code f = Some code" "analyze_function f new_liveness = Some lv"
  shows "(\<forall>fuel st f'. regalloc_function iter fuel f = Some (Some (st, f')) \<and> slot_count (al_func st) = slot_count f \<longrightarrow>
      allocated lv code f st f') \<and>
    (alloc_ready f code \<and> collect_vregs_alive_around_call code lv (iter (function_vregs code)) = Some [] \<and> few_neighbours lv f code \<longrightarrow>
      (\<forall>fuel > card (function_vregs code). \<exists>st f'.
        regalloc_function iter fuel f = Some (Some (st, f')) \<and> al_func st = f \<and> allocated lv code f st f')) \<and>
    (\<forall>fuel r more. regalloc_function iter fuel f = Some r \<and> fuel \<le> more \<longrightarrow> regalloc_function iter more f = Some r)"
proof (intro conjI allI impI)
  show "allocated lv code f st f'" if "regalloc_function iter fuel f = Some (Some (st, f')) \<and> slot_count (al_func st) = slot_count f"
    for fuel st f'
    using regalloc_allocated [OF _ assms(1) _ assms(2,3)] that by blast
  show "\<exists>st f'. regalloc_function iter fuel f = Some (Some (st, f')) \<and> al_func st = f \<and> allocated lv code f st f'"
    if "alloc_ready f code \<and> collect_vregs_alive_around_call code lv (iter (function_vregs code)) = Some [] \<and> few_neighbours lv f code"
      "card (function_vregs code) < fuel" for fuel
    using regalloc_total [OF assms _ _ _ that(2)] regalloc_allocated [OF _ assms(1) _ assms(2,3)] that(1) by metis
  show "regalloc_function iter more f = Some r" if "regalloc_function iter fuel f = Some r \<and> fuel \<le> more" for fuel r more
    using that alloc_loop_mono [of fuel _ _ more] by (fastforce simp: regalloc_function_def split: option.splits prod.splits)
qed

lemma sorted_list_of_set_lists: "lists_sets sorted_list_of_set"
  by (simp add: lists_sets_def)

theorem regalloc_correct_witness:
  "\<exists>f code lv. loop_function = Some f \<and> func_code f = Some code \<and> analyze_function f new_liveness = Some lv \<and>
     (\<forall>fuel > card (function_vregs code). \<exists>st f'. regalloc_function sorted_list_of_set fuel f = Some (Some (st, f')) \<and> allocated lv code f st f')"
proof -
  obtain bis where lf: "loop_function = compile_function (new_types 0) False new_slots (i32_vregs 4) bis" "cfg_wf (map fst bis)"
  proof
    show "loop_function = compile_function (new_types 0) False new_slots (i32_vregs 4) loop_blocks" by (rule loop_function_def)
    show "cfg_wf (map fst loop_blocks)" by code_simp
  qed
  obtain f where f: "loop_function = Some f" "users_exact (f_data f)"
    using compile_function_correct [OF lf(2)] lf(1) by metis
  have ready: "map_option (\<lambda>f. map_option (\<lambda>c. (code_ok (basic_blocks (f_data f)) c,
      (\<forall>i \<in> set (instructions (f_data f)). regs_ok (in_data i)),
      (\<forall>i \<in> set (code_insts c). set (all_vregs (snd i)) \<subseteq> touched (snd i)))) (func_code f)) loop_function
      = Some (Some (True, True, True))"
    by code_simp
  have calls: "map_option (\<lambda>f. map_option (\<lambda>c. map_option (\<lambda>lv.
        collect_vregs_alive_around_call c lv (sorted_list_of_set (function_vregs c)) = Some [])
        (analyze_function f new_liveness)) (func_code f)) loop_function = Some (Some (Some True))"
    by code_simp
  have near: "map_option (\<lambda>f. map_option (\<lambda>c. map_option (\<lambda>lv.
        \<forall>v \<in> function_vregs c. case candidates_for f c v of None \<Rightarrow> False | Some rs \<Rightarrow> card (neighbours lv c v) < 2)
        (analyze_function f new_liveness)) (func_code f)) loop_function = Some (Some (Some True))"
    by code_simp
  have units: "map_option (\<lambda>f. map_option (\<lambda>c. map_option (\<lambda>lv.
        \<forall>v \<in> function_vregs c. case candidates_for f c v of None \<Rightarrow> False | Some rs \<Rightarrow> card (blocked_units lv rs v) < 2)
        (analyze_function f new_liveness)) (func_code f)) loop_function = Some (Some (Some True))"
    by code_simp
  have many: "map_option (\<lambda>f. map_option (\<lambda>c. 
        \<forall>v \<in> function_vregs c. case candidates_for f c v of None \<Rightarrow> False | Some rs \<Rightarrow> drop 2 rs \<noteq> [])
        (func_code f)) loop_function = Some (Some True)"
    by code_simp
  obtain c where c: "func_code f = Some c" "code_ok (basic_blocks (f_data f)) c"
      "\<forall>i \<in> set (instructions (f_data f)). regs_ok (in_data i)" "\<forall>i \<in> set (code_insts c). set (all_vregs (snd i)) \<subseteq> touched (snd i)"
    using ready unfolding f(1) by auto
  obtain lv where lv: "analyze_function f new_liveness = Some lv" "collect_vregs_alive_around_call c lv (sorted_list_of_set (function_vregs c)) = Some []"
    using calls unfolding f(1) by (auto simp: c(1))
  have few: "\<exists>rs. candidates_for f c v = Some rs \<and> card (neighbours lv c v) + card (blocked_units lv rs v) < length rs"
    if "v \<in> function_vregs c" for v
  proof -
    note at_v = bspec [OF _ that]
    note eval = f(1) c(1) lv(1) option.map option.inject
    have "case candidates_for f c v of None \<Rightarrow> False | Some rs \<Rightarrow> drop 2 rs \<noteq> []"
      using many unfolding eval simp_thms by (rule at_v)
    then obtain rs where rs: "candidates_for f c v = Some rs" "drop 2 rs \<noteq> []" by (cases "candidates_for f c v") simp_all
    have "case candidates_for f c v of None \<Rightarrow> False | Some rs \<Rightarrow> card (neighbours lv c v) < 2"
      using near unfolding eval simp_thms by (rule at_v)
    moreover have "case candidates_for f c v of None \<Rightarrow> False | Some rs \<Rightarrow> card (blocked_units lv rs v) < 2"
      using units unfolding eval simp_thms by (rule at_v)
    ultimately have "card (neighbours lv c v) < 2" "card (blocked_units lv rs v) < 2" unfolding rs(1) option.case by blast+
    then show ?thesis using rs by simp
  qed
  have "alloc_ready f c" using c f(2) by (simp add: alloc_ready_def)
  moreover have "few_neighbours lv f c" using few by (simp add: few_neighbours_def)
  ultimately show ?thesis
    using regalloc_correct [OF sorted_list_of_set_lists c(1) lv(1), THEN conjunct2, THEN conjunct1, rule_format, OF conjI, OF _ conjI, OF _ lv(2)]
      lv(1) c(1) f(1) by metis
qed

subsection \<open>A value that is overwritten\<close>

text \<open>
  The lost phi operand becomes a wrong program.  In \<open>phi_loop_function\<close> register 2 carries a value to the
  phi of the next round and register 3 is the branch condition; the allocator gives both the same physical
  register, and the comparison overwrites the value before the back edge is taken.
\<close>

theorem phi_value_clobbered:
  "\<exists>f st f'. phi_loop_function = Some f \<and> regalloc_function sorted_list_of_set 9 f = Some (Some (st, f'))
     \<and> al_assigned st (VReg 2) = Some (gr_reg R2) \<and> al_assigned st (VReg 3) = Some (gr_reg R2)"
proof -
  have "map_option (\<lambda>f. map_option (map_option (\<lambda>(st, f'). (al_assigned st (VReg 2), al_assigned st (VReg 3))))
      (regalloc_function sorted_list_of_set 9 f)) phi_loop_function
    = Some (Some (Some (Some (gr_reg R2), Some (gr_reg R2))))"
    by code_simp
  then show ?thesis by auto
qed

end
