(* ===== verification/Ola_Peephole.thy ===== *)
theory Ola_Peephole
  imports Mach_Build Inst_Order
begin

section \<open>Peephole passes on machine code\<close>

text \<open>
  Models of \<open>isa/ola/pass/add_peephole.rs\<close> and \<open>isa/ola/pass/simple_reg_coalescing.rs\<close>.  Both
  walk over the code, collect instructions, and delete or rewrite them afterwards.  The proofs use the
  interface \<open>inst_order\<close> through its interpretation \<open>lay\<close> on the layout.
\<close>

subsection \<open>Removing and rewriting instructions\<close>

definition operand_at :: "inst_data \<Rightarrow> nat \<Rightarrow> operand_data option" where
  "operand_at i k = (if k < length (operands i) then Some (op_data (operands i ! k)) else None)"

definition edit_insts :: "(inst_data \<Rightarrow> inst_data) \<Rightarrow> nat list \<Rightarrow> instruction list \<Rightarrow> instruction list" where
  "edit_insts h ks is = fold (\<lambda>k is. is[k := (is ! k)\<lparr>in_data := h (in_data (is ! k))\<rparr>]) ks is"

text \<open>The end of a pass: the collected instructions leave the layout, others are rewritten in place.\<close>

definition finish_pass :: "nat list \<Rightarrow> (inst_data \<Rightarrow> inst_data) \<Rightarrow> nat list \<Rightarrow> mfunc \<Rightarrow> mfunc option" where
  "finish_pass dead h repl f = do {
     l \<leftarrow> remove_all remove_inst dead (f_layout f);
     Some (f\<lparr>f_layout := l, f_data := (f_data f)\<lparr>instructions := edit_insts h repl (instructions (f_data f))\<rparr>\<rparr>) }"

subsection \<open>Additions of zero\<close>

datatype peep = Keep | Dead | Replace

definition peep_add :: "inst_data \<Rightarrow> peep option" where
  "peep_add i =
     (if opcode i = ADDrr \<or> opcode i = ADDri then do {
        o2 \<leftarrow> operand_at i 2;
        let imm = (case sext_as_i64 o2 of Some n \<Rightarrow> n | None \<Rightarrow> 1);
        if imm = 0 then do {
          o1 \<leftarrow> operand_at i 1;
          (case o1 of
             OInt32 n \<Rightarrow> Some Replace
           | OInt64 n \<Rightarrow> Some Replace
           | OReg r \<Rightarrow> do { o0 \<leftarrow> operand_at i 0; r0 \<leftarrow> as_reg o0; Some (if r = r0 then Dead else Keep) }
           | OVReg r \<Rightarrow> do { o0 \<leftarrow> operand_at i 0; r0 \<leftarrow> as_vreg o0; Some (if r = r0 then Dead else Keep) }
           | _ \<Rightarrow> None) }
        else Some Keep }
      else Some Keep)"

definition add_to_mov :: "inst_data \<Rightarrow> inst_data" where
  "add_to_mov i = \<lparr>opcode = MOVri, operands = butlast (operands i)\<rparr>"

definition add_peephole :: "mfunc \<Rightarrow> mfunc option" where
  "add_peephole f = do {
     code \<leftarrow> func_code f;
     marks \<leftarrow> those (map (\<lambda>(k, i). map_option (Pair k) (peep_add i)) (code_insts code));
     finish_pass [k. (k, p) \<leftarrow> marks, p = Dead] add_to_mov [k. (k, p) \<leftarrow> marks, p = Replace] f }"

subsection \<open>Moves of a register to itself\<close>

definition self_move :: "inst_data \<Rightarrow> bool option" where
  "self_move i =
     (if opcode i = MOVrr then do {
        o0 \<leftarrow> operand_at i 0; r0 \<leftarrow> as_reg o0; u0 \<leftarrow> to_reg_unit r0;
        o1 \<leftarrow> operand_at i 1; r1 \<leftarrow> as_reg o1; u1 \<leftarrow> to_reg_unit r1;
        Some (u0 = u1) }
      else Some False)"

definition simple_reg_coalescing :: "mfunc \<Rightarrow> mfunc option" where
  "simple_reg_coalescing f = do {
     code \<leftarrow> func_code f;
     marks \<leftarrow> those (map (\<lambda>(k, i). map_option (Pair k) (self_move i)) (code_insts code));
     finish_pass [k. (k, p) \<leftarrow> marks, p] (\<lambda>i. i) [] f }"

subsection \<open>What the end of a pass does to the code of a block\<close>

text \<open>A function whose layout is well-formed and lists existing instructions only.\<close>

definition func_rep :: "mfunc \<Rightarrow> nat list \<Rightarrow> (nat \<Rightarrow> nat list) \<Rightarrow> bool" where
  "func_rep f bs g \<longleftrightarrow> layout_rep (f_layout f) bs g
     \<and> (\<forall>b \<in> set bs. \<forall>i \<in> set (g b). i < length (instructions (f_data f)))"

abbreviation inst_of :: "mfunc \<Rightarrow> nat \<Rightarrow> inst_data" where
  "inst_of f k \<equiv> in_data (instructions (f_data f) ! k)"

lemma func_rep_code:
  assumes "func_rep f bs g"
  shows "func_code f = Some (map (\<lambda>b. (b, map (\<lambda>i. (i, inst_of f i)) (g b))) bs)"
    and "b \<in> set bs \<Longrightarrow> block_code f b = Some (map (\<lambda>i. (i, inst_of f i)) (g b))"
  using assms func_code_rep [of f bs g] block_code_rep [of f bs g b] by (auto simp: func_rep_def)

lemma code_insts_rep:
  "code_insts (map (\<lambda>b. (b, map (\<lambda>i. (i, h i)) (g b))) bs) = map (\<lambda>(b, i). (i, h i)) (all_insts bs g)"
  by (induction bs) (auto simp: code_insts_def)

lemma distinct_all_insts:
  assumes "layout_rep l bs g"
  shows "distinct (map snd (all_insts bs g))"
proof -
  have "distinct (map snd (all_insts cs g))" if "distinct cs" "set cs \<subseteq> set bs" for cs
    using that
  proof (induction cs)
    case (Cons c cs)
    have "set (g c) \<inter> set (map snd (all_insts cs g)) = {}"
      using Cons.prems lay.rep_unique [OF assms, of c] by force
    then show ?case using Cons lay.rep_distinct [OF assms, of c] by (simp add: o_def)
  qed simp
  then show ?thesis using assms by (simp add: layout_rep_def)
qed

lemma edit_insts_length [simp]: "length (edit_insts h ks is) = length is"
  unfolding edit_insts_def by (induction ks arbitrary: "is") simp_all

lemma edit_insts_nth:
  "distinct ks \<Longrightarrow> k < length is \<Longrightarrow>
     in_data (edit_insts h ks is ! k) = (if k \<in> set ks then h (in_data (is ! k)) else in_data (is ! k))"
proof (induction ks arbitrary: "is")
  case (Cons j ks)
  let ?is = "is[j := (is ! j)\<lparr>in_data := h (in_data (is ! j))\<rparr>]"
  have "edit_insts h (j # ks) is = edit_insts h ks ?is" by (simp add: edit_insts_def)
  moreover have "?is ! k = (if j = k then (is ! k)\<lparr>in_data := h (in_data (is ! k))\<rparr> else is ! k)"
    using Cons.prems(2) by (cases "j = k") simp_all
  ultimately show ?case using Cons.IH [of ?is] Cons.prems by (cases "k = j") simp_all
qed (simp add: edit_insts_def)

lemma finish_pass_code:
  assumes rep: "func_rep f bs g" and dead: "distinct dead" "\<forall>i \<in> set dead. \<exists>b \<in> set bs. i \<in> set (g b)"
    and repl: "distinct repl"
  shows "\<exists>f'. finish_pass dead h repl f = Some f' \<and> func_rep f' bs (\<lambda>b. filter (\<lambda>i. i \<notin> set dead) (g b))
    \<and> (\<forall>b \<in> set bs. \<forall>i \<in> set (g b). inst_of f' i = (if i \<in> set repl then h (inst_of f i) else inst_of f i))"
proof -
  have l: "layout_rep (f_layout f) bs g" and ins: "\<forall>b \<in> set bs. \<forall>i \<in> set (g b). i < length (instructions (f_data f))"
    using rep by (simp_all add: func_rep_def)
  obtain l' where l': "remove_all remove_inst dead (f_layout f) = Some l'" "layout_rep l' bs (\<lambda>b. filter (\<lambda>i. i \<notin> set dead) (g b))"
    using lay.remove_all_rep [OF l dead(1)] dead(2) by blast
  then show ?thesis using ins repl by (auto simp: finish_pass_def func_rep_def edit_insts_nth)
qed

text \<open>Deleting instructions without effect and replacing others by equivalent ones keeps the effect of a block.\<close>

definition block_effect :: "(inst_data \<Rightarrow> 's \<Rightarrow> 's) \<Rightarrow> (nat \<times> inst_data) list \<Rightarrow> 's \<Rightarrow> 's" where
  "block_effect exec code s = fold (\<lambda>i. exec (snd i)) code s"

lemma edited_block_effect:
  assumes "\<forall>i \<in> set is. i \<in> D \<longrightarrow> exec (a i) = (\<lambda>s. s)" "\<forall>i \<in> set is. i \<notin> D \<longrightarrow> exec (b i) = exec (a i)"
  shows "block_effect exec (map (\<lambda>i. (i, b i)) (filter (\<lambda>i. i \<notin> D) is)) s = block_effect exec (map (\<lambda>i. (i, a i)) is) s"
  using assms by (induction "is" arbitrary: s) (auto simp: block_effect_def)

subsection \<open>The passes preserve the effect of the code\<close>

text \<open>
  The virtual machine that runs the code is not part of the repository.  What the passes rely on: an
  addition writes the sum of its two sources to its destination and a move copies its source, where
  the sources are registers or immediates and the registers hold elements of a ring.
\<close>

fun source :: "(reg \<Rightarrow> 'f::ring_1) \<Rightarrow> operand_data \<Rightarrow> 'f option" where
  "source rs (OReg r) = Some (rs r)"
| "source rs (OInt8 n) = Some (of_int (sint n))"
| "source rs (OInt32 n) = Some (of_int (sint n))"
| "source rs (OInt64 n) = Some (of_int (sint n))"
| "source rs _ = None"

definition adds_and_moves :: "(inst_data \<Rightarrow> (reg \<Rightarrow> 'f::ring_1) \<times> 'm \<Rightarrow> (reg \<Rightarrow> 'f) \<times> 'm) \<Rightarrow> bool" where
  "adds_and_moves exec \<longleftrightarrow> (\<forall>i d a b rs m x y.
     (opcode i \<in> {ADDri, ADDrr} \<longrightarrow> map op_data (operands i) = [OReg d, a, b] \<longrightarrow>
        source rs a = Some x \<longrightarrow> source rs b = Some y \<longrightarrow> exec i (rs, m) = (rs(d := x + y), m))
   \<and> (opcode i \<in> {MOVri, MOVrr} \<longrightarrow> map op_data (operands i) = [OReg d, a] \<longrightarrow>
        source rs a = Some x \<longrightarrow> exec i (rs, m) = (rs(d := x), m)))"

text \<open>After register allocation, additions and moves have physical registers and immediates as operands.\<close>

fun is_source :: "operand_data \<Rightarrow> bool" where
  "is_source (OReg (Reg c x)) = (c = 0)"
| "is_source (OInt32 n) = True"
| "is_source (OInt64 n) = True"
| "is_source _ = False"

fun add_shape :: "operand_data list \<Rightarrow> bool" where
  "add_shape [OReg d, a, b] = (is_source a \<and> is_source b)"
| "add_shape _ = False"

fun mov_shape :: "operand_data list \<Rightarrow> bool" where
  "mov_shape [OReg (Reg c x), OReg (Reg d y)] = (c = 0 \<and> d = 0)"
| "mov_shape _ = False"

definition shaped :: "inst_data \<Rightarrow> bool" where
  "shaped i \<longleftrightarrow> (opcode i = ADDri \<or> opcode i = ADDrr \<longrightarrow> add_shape (map op_data (operands i)))
     \<and> (opcode i = MOVrr \<longrightarrow> mov_shape (map op_data (operands i)))"

lemma shaped_addE:
  assumes "shaped i" "opcode i = ADDri \<or> opcode i = ADDrr"
  obtains d a b where "map op_data (operands i) = [OReg d, a, b]" "is_source a" "is_source b"
proof -
  have "add_shape (map op_data (operands i))" using assms by (auto simp: shaped_def)
  then show ?thesis using that by (cases "map op_data (operands i)" rule: add_shape.cases) auto
qed

lemma shaped_movE:
  assumes "shaped i" "opcode i = MOVrr"
  obtains x y where "map op_data (operands i) = [OReg (Reg 0 x), OReg (Reg 0 y)]"
proof -
  have "mov_shape (map op_data (operands i))" using assms by (auto simp: shaped_def)
  then show ?thesis using that by (cases "map op_data (operands i)" rule: mov_shape.cases) auto
qed

lemma is_source_source: "is_source a \<Longrightarrow> \<exists>x. source rs a = Some x"
  by (cases a) auto

lemma operand_at_map: "operand_at i k = (if k < length (map op_data (operands i)) then Some (map op_data (operands i) ! k) else None)"
  by (simp add: operand_at_def)

lemma sext_source:
  assumes "sext_as_i64 b = Some n" "n = 0"
  shows "source rs b = Some 0"
proof -
  have z32: "m = 0" if "(scast m :: 64 word) = 0" for m :: "32 word"
    by (rule signed_word_eqI) (use sint_up_scast [where 'b = 64, of m] that in \<open>simp add: is_up\<close>)
  have z8: "m = 0" if "(scast m :: 64 word) = 0" for m :: "8 word"
    by (rule signed_word_eqI) (use sint_up_scast [where 'b = 64, of m] that in \<open>simp add: is_up\<close>)
  show ?thesis using assms by (cases b) (auto dest!: z8 z32)
qed

lemma dead_add:
  assumes exec: "adds_and_moves exec" and i: "shaped i" "peep_add i = Some Dead"
  shows "exec i = (\<lambda>s. s)"
proof -
  have op: "opcode i = ADDrr \<or> opcode i = ADDri" using i(2) by (auto simp: peep_add_def split: if_splits)
  obtain d a b where ops: "map op_data (operands i) = [OReg d, a, b]" "is_source a" "is_source b"
    using shaped_addE [OF i(1)] op by blast
  obtain n where b: "sext_as_i64 b = Some n" "n = 0"
    using i(2) op ops(1) by (auto simp: peep_add_def operand_at_map Let_def split: if_splits option.splits)
  have a: "a = OReg d"
    using i(2) op ops b by (auto simp: peep_add_def operand_at_map split: operand_data.splits if_splits)
  have "exec i (rs, m) = (rs, m)" for rs m
  proof -
    have "exec i (rs, m) = (rs(d := rs d + 0), m)"
      using exec op ops(1) sext_source [OF b, of rs] a unfolding adds_and_moves_def by fastforce
    then show ?thesis by simp
  qed
  then show ?thesis by auto
qed

lemma replaced_add:
  assumes exec: "adds_and_moves exec" and i: "shaped i" "peep_add i = Some Replace"
  shows "exec (add_to_mov i) = exec i"
proof -
  have op: "opcode i = ADDrr \<or> opcode i = ADDri" using i(2) by (auto simp: peep_add_def split: if_splits)
  obtain d a b where ops: "map op_data (operands i) = [OReg d, a, b]" "is_source a" "is_source b"
    using shaped_addE [OF i(1)] op by blast
  obtain n where b: "sext_as_i64 b = Some n" "n = 0"
    using i(2) op ops(1) by (auto simp: peep_add_def operand_at_map Let_def split: if_splits option.splits)
  have mov: "map op_data (operands (add_to_mov i)) = [OReg d, a]" "opcode (add_to_mov i) = MOVri"
    using ops(1) by (simp_all add: add_to_mov_def map_butlast)
  have "exec (add_to_mov i) (rs, m) = exec i (rs, m)" for rs m
  proof -
    obtain x where x: "source rs a = Some x" using is_source_source [OF ops(2)] by blast
    have "exec i (rs, m) = (rs(d := x + 0), m)"
      using exec op ops(1) sext_source [OF b, of rs] x unfolding adds_and_moves_def by fastforce
    moreover have "exec (add_to_mov i) (rs, m) = (rs(d := x), m)"
      using exec mov x unfolding adds_and_moves_def by fastforce
    ultimately show ?thesis by simp
  qed
  then show ?thesis by auto
qed

lemma dead_move:
  assumes exec: "adds_and_moves exec" and i: "shaped i" "self_move i = Some True"
  shows "exec i = (\<lambda>s. s)"
proof -
  have op: "opcode i = MOVrr" using i(2) by (auto simp: self_move_def split: if_splits)
  obtain x y where ops: "map op_data (operands i) = [OReg (Reg 0 x), OReg (Reg 0 y)]"
    using shaped_movE [OF i(1) op] by blast
  have "x = y" using i(2) op ops by (simp add: self_move_def operand_at_map)
  then have "exec i (rs, m) = (rs(Reg 0 x := rs (Reg 0 x)), m)" for rs m
    using exec op ops unfolding adds_and_moves_def by fastforce
  then show ?thesis by auto
qed

lemma marks_of_code:
  assumes rep: "func_rep f bs g" and mark: "\<And>b i. b \<in> set bs \<Longrightarrow> i \<in> set (g b) \<Longrightarrow> mark (inst_of f i) = Some (pk i)"
  shows "\<exists>code. func_code f = Some code
    \<and> those (map (\<lambda>(k, i). map_option (Pair k) (mark i)) (code_insts code)) = Some (map (\<lambda>k. (k, pk k)) (map snd (all_insts bs g)))"
proof -
  have "those (map (\<lambda>(b, i). map_option (Pair i) (mark (inst_of f i))) (all_insts bs g))
      = Some (map (\<lambda>(b, i). (i, pk i)) (all_insts bs g))"
    by (rule those_map_total) (use mark in auto)
  then show ?thesis
    unfolding func_rep_code(1) [OF rep] by (simp add: code_insts_rep o_def case_prod_unfold)
qed

lemma pick_marked: "[k. (k, p) \<leftarrow> map (\<lambda>k. (k, h k)) ks, p = x] = filter (\<lambda>k. h k = x) ks"
  by (induction ks) auto

lemma pick_true: "[k. (k, p) \<leftarrow> map (\<lambda>k. (k, h k)) ks, p] = filter h ks"
  by (induction ks) auto

lemma peep_add_total: "shaped i \<Longrightarrow> \<exists>p. peep_add i = Some p"
proof (cases "opcode i = ADDrr \<or> opcode i = ADDri")
  case True
  assume "shaped i"
  then obtain d a b where "map op_data (operands i) = [OReg d, a, b]" "is_source a" using True by (elim shaped_addE) auto
  then show ?thesis using True by (cases a) (simp_all add: peep_add_def operand_at_map)
qed (simp add: peep_add_def)

lemma self_move_total: "shaped i \<Longrightarrow> \<exists>p. self_move i = Some p"
proof (cases "opcode i = MOVrr")
  case True
  assume "shaped i"
  then obtain x y where "map op_data (operands i) = [OReg (Reg 0 x), OReg (Reg 0 y)]" using True by (elim shaped_movE) auto
  then show ?thesis using True by (simp add: self_move_def operand_at_map)
qed (auto simp: self_move_def)

text \<open>The code of a block after a pass that deletes \<open>D\<close> and rewrites \<open>R\<close>.\<close>

lemma passed_block:
  assumes rep: "func_rep f bs g" and rep': "func_rep f' bs (\<lambda>b. filter (\<lambda>i. i \<notin> D) (g b))" and b: "b \<in> set bs"
    and dead: "\<And>i. i \<in> set (g b) \<Longrightarrow> i \<in> D \<Longrightarrow> exec (inst_of f i) = (\<lambda>s. s)"
    and same: "\<And>i. i \<in> set (g b) \<Longrightarrow> i \<notin> D \<Longrightarrow> exec (inst_of f' i) = exec (inst_of f i)"
  shows "\<exists>c c'. block_code f b = Some c \<and> block_code f' b = Some c' \<and> map fst c' = filter (\<lambda>i. i \<notin> D) (map fst c)
    \<and> (\<forall>(i, x) \<in> set c'. i \<in> set (g b) \<and> i \<notin> D \<and> x = inst_of f' i)
    \<and> (\<forall>s. block_effect exec c' s = block_effect exec c s)"
  unfolding func_rep_code(2) [OF rep b] func_rep_code(2) [OF rep' b]
  using edited_block_effect [of "g b" D exec "inst_of f" "inst_of f'"] dead same
  by (auto simp: o_def)

text \<open>
  C10: on code after register allocation the peephole pass does not panic and leaves no addition of zero
  it could still simplify; on every machine whose additions and moves behave as such, each block has the
  same effect as before.
\<close>

theorem add_peephole_preserves:
  assumes "func_rep f bs g" "adds_and_moves exec" "\<forall>b \<in> set bs. \<forall>i \<in> set (g b). shaped (inst_of f i)"
  shows "\<exists>f'. add_peephole f = Some f' \<and> (\<forall>b \<in> set bs. \<exists>c c'. block_code f b = Some c \<and> block_code f' b = Some c'
    \<and> (\<forall>(i, x) \<in> set c'. peep_add x = Some Keep) \<and> (\<forall>s. block_effect exec c' s = block_effect exec c s))"
proof -
  let ?pk = "\<lambda>i. the (peep_add (inst_of f i))" and ?ids = "map snd (all_insts bs g)"
  have mark: "peep_add (inst_of f i) = Some (?pk i)" if "b \<in> set bs" "i \<in> set (g b)" for b i
    using peep_add_total assms(3) that by fastforce
  let ?D = "filter (\<lambda>i. ?pk i = Dead) ?ids" and ?R = "filter (\<lambda>i. ?pk i = Replace) ?ids"
  have dist: "distinct ?ids" by (rule distinct_all_insts [of "f_layout f"]) (use assms(1) in \<open>simp add: func_rep_def\<close>)
  have listed: "\<forall>i \<in> set ?D. \<exists>b \<in> set bs. i \<in> set (g b)" by force
  obtain f' where f': "finish_pass ?D add_to_mov ?R f = Some f'" "func_rep f' bs (\<lambda>b. filter (\<lambda>i. i \<notin> set ?D) (g b))"
    "\<forall>b \<in> set bs. \<forall>i \<in> set (g b). inst_of f' i = (if i \<in> set ?R then add_to_mov (inst_of f i) else inst_of f i)"
    using finish_pass_code [OF assms(1) distinct_filter [OF dist] listed distinct_filter [OF dist]] by blast
  obtain code where code: "func_code f = Some code"
    "those (map (\<lambda>(k, i). map_option (Pair k) (peep_add i)) (code_insts code)) = Some (map (\<lambda>k. (k, ?pk k)) ?ids)"
    using marks_of_code [of f bs g peep_add ?pk, OF assms(1)] mark by blast
  have run: "add_peephole f = Some f'"
    unfolding add_peephole_def by (simp only: code bind.simps pick_marked f'(1))
  have mem: "i \<in> set ?D \<longleftrightarrow> ?pk i = Dead" "i \<in> set ?R \<longleftrightarrow> ?pk i = Replace" if "b \<in> set bs" "i \<in> set (g b)" for b i
    using that by force+
  have "\<exists>c c'. block_code f b = Some c \<and> block_code f' b = Some c' \<and> (\<forall>(i, x) \<in> set c'. peep_add x = Some Keep)
      \<and> (\<forall>s. block_effect exec c' s = block_effect exec c s)" if b: "b \<in> set bs" for b
  proof -
    have sh: "shaped (inst_of f i)" if "i \<in> set (g b)" for i using assms(3) b that by blast
    have dead: "exec (inst_of f i) = (\<lambda>s. s)" if "i \<in> set (g b)" "i \<in> set ?D" for i
      using dead_add [OF assms(2) sh [OF that(1)]] mark [OF b that(1)] mem(1) [OF b that(1)] that(2) by simp
    have same: "exec (inst_of f' i) = exec (inst_of f i)" if "i \<in> set (g b)" "i \<notin> set ?D" for i
    proof -
      have "inst_of f' i = (if ?pk i = Replace then add_to_mov (inst_of f i) else inst_of f i)"
        using bspec [OF bspec [OF f'(3) b] that(1)] unfolding mem(2) [OF b that(1)] .
      then show ?thesis
        using replaced_add [OF assms(2) sh [OF that(1)]] mark [OF b that(1)] by (cases "?pk i = Replace") simp_all
    qed
    have keep: "peep_add (inst_of f' i) = Some Keep" if "i \<in> set (g b)" "i \<notin> set ?D" for i
    proof (cases "?pk i")
      case Keep
      then show ?thesis using mark [OF b that(1)] mem(2) [OF b that(1)] f'(3) b that(1) by simp
    next
      case Dead
      then show ?thesis using mem(1) [OF b that(1)] that(2) by simp
    next
      case Replace
      then have "inst_of f' i = add_to_mov (inst_of f i)" using mem(2) [OF b that(1)] f'(3) b that(1) by simp
      then show ?thesis by (simp add: peep_add_def add_to_mov_def)
    qed
    obtain c c' where c: "block_code f b = Some c" "block_code f' b = Some c'"
      "\<forall>(i, x) \<in> set c'. i \<in> set (g b) \<and> i \<notin> set ?D \<and> x = inst_of f' i" "\<forall>s. block_effect exec c' s = block_effect exec c s"
      using passed_block [OF assms(1) f'(2) b dead same] by blast
    then show ?thesis using keep by fastforce
  qed
  then show ?thesis using run by blast
qed

text \<open>
  C11: the coalescing pass does not panic on code after register allocation, leaves no move of a register
  to itself, and each block has the same effect as before.
\<close>

theorem simple_reg_coalescing_preserves:
  assumes "func_rep f bs g" "adds_and_moves exec" "\<forall>b \<in> set bs. \<forall>i \<in> set (g b). shaped (inst_of f i)"
  shows "\<exists>f'. simple_reg_coalescing f = Some f' \<and> (\<forall>b \<in> set bs. \<exists>c c'. block_code f b = Some c \<and> block_code f' b = Some c'
    \<and> (\<forall>(i, x) \<in> set c'. self_move x = Some False) \<and> (\<forall>s. block_effect exec c' s = block_effect exec c s))"
proof -
  let ?pk = "\<lambda>i. the (self_move (inst_of f i))" and ?ids = "map snd (all_insts bs g)"
  have mark: "self_move (inst_of f i) = Some (?pk i)" if "b \<in> set bs" "i \<in> set (g b)" for b i
    using self_move_total assms(3) that by fastforce
  let ?D = "filter ?pk ?ids"
  have dist: "distinct ?ids" by (rule distinct_all_insts [of "f_layout f"]) (use assms(1) in \<open>simp add: func_rep_def\<close>)
  have listed: "\<forall>i \<in> set ?D. \<exists>b \<in> set bs. i \<in> set (g b)" by force
  obtain f' where f': "finish_pass ?D (\<lambda>i. i) [] f = Some f'" "func_rep f' bs (\<lambda>b. filter (\<lambda>i. i \<notin> set ?D) (g b))"
    "\<forall>b \<in> set bs. \<forall>i \<in> set (g b). inst_of f' i = (if i \<in> set ([] :: nat list) then inst_of f i else inst_of f i)"
    using finish_pass_code [OF assms(1) distinct_filter [OF dist] listed, of "[]" "\<lambda>i. i"] by simp blast
  obtain code where code: "func_code f = Some code"
    "those (map (\<lambda>(k, i). map_option (Pair k) (self_move i)) (code_insts code)) = Some (map (\<lambda>k. (k, ?pk k)) ?ids)"
    using marks_of_code [of f bs g self_move ?pk, OF assms(1)] mark by blast
  have run: "simple_reg_coalescing f = Some f'"
    unfolding simple_reg_coalescing_def by (simp only: code bind.simps pick_true f'(1))
  have mem: "i \<in> set ?D \<longleftrightarrow> ?pk i" if "b \<in> set bs" "i \<in> set (g b)" for b i
    using that by force
  have "\<exists>c c'. block_code f b = Some c \<and> block_code f' b = Some c' \<and> (\<forall>(i, x) \<in> set c'. self_move x = Some False)
      \<and> (\<forall>s. block_effect exec c' s = block_effect exec c s)" if b: "b \<in> set bs" for b
  proof -
    have dead: "exec (inst_of f i) = (\<lambda>s. s)" if "i \<in> set (g b)" "i \<in> set ?D" for i
      using dead_move [OF assms(2)] assms(3) b mark [OF b that(1)] mem [OF b that(1)] that by simp
    have eff: "exec (inst_of f' i) = exec (inst_of f i)" if "i \<in> set (g b)" "i \<notin> set ?D" for i
      using f'(3) b that(1) by simp
    have same: "inst_of f' i = inst_of f i" if "i \<in> set (g b)" for i using f'(3) b that by simp
    have keep: "self_move (inst_of f' i) = Some False" if "i \<in> set (g b)" "i \<notin> set ?D" for i
      using mark [OF b that(1)] mem [OF b that(1)] same [OF that(1)] that(2) by simp
    obtain c c' where "block_code f b = Some c" "block_code f' b = Some c'"
      "\<forall>(i, x) \<in> set c'. i \<in> set (g b) \<and> i \<notin> set ?D \<and> x = inst_of f' i" "\<forall>s. block_effect exec c' s = block_effect exec c s"
      using passed_block [OF assms(1) f'(2) b dead eff] by blast
    then show ?thesis using keep by fastforce
  qed
  then show ?thesis using run by blast
qed

subsection \<open>An example\<close>

lemma compile_function_rep:
  assumes "cfg_wf (map fst bis)"
  shows "\<exists>f g. compile_function T decl sl vs bis = Some f \<and> func_rep f [0..<length bis] g"
proof -
  obtain f g where f: "compile_function T decl sl vs bis = Some f" "layout_rep (f_layout f) [0..<length bis] g"
    "dom (insts (f_layout f)) \<subseteq> {..<length (instructions (f_data f))}"
    using compile_function_correct [OF assms] by blast
  have "func_rep f [0..<length bis] g"
    unfolding func_rep_def using f(2,3) layout_rep_memberD [OF f(2)] by blast
  then show ?thesis using f(1) by blast
qed

lemma func_rep_all:
  assumes "func_rep f bs g" "func_code f = Some code" "list_all (\<lambda>i. P (snd i)) (code_insts code)"
  shows "\<forall>b \<in> set bs. \<forall>i \<in> set (g b). P (inst_of f i)"
  using assms(2,3) unfolding func_rep_code(1) [OF assms(1)] by (auto simp: code_insts_rep list_all_iff)

definition ola_alu :: "inst_data \<Rightarrow> (reg \<Rightarrow> int) \<times> unit \<Rightarrow> (reg \<Rightarrow> int) \<times> unit" where
  "ola_alu i s = (case map op_data (operands i) of
     [OReg d, a, b] \<Rightarrow> (case (source (fst s) a, source (fst s) b) of
         (Some x, Some y) \<Rightarrow> if opcode i \<in> {ADDri, ADDrr} then ((fst s)(d := x + y), snd s) else s
       | _ \<Rightarrow> s)
   | [OReg d, a] \<Rightarrow> (case source (fst s) a of
         Some x \<Rightarrow> if opcode i \<in> {MOVri, MOVrr} then ((fst s)(d := x), snd s) else s
       | _ \<Rightarrow> s)
   | _ \<Rightarrow> s)"

lemma adds_and_moves_alu: "adds_and_moves ola_alu"
  by (simp add: adds_and_moves_def ola_alu_def)

definition peep_blocks :: "(ir_block \<times> inst_data list) list" where
  "peep_blocks = [(\<lparr>ib_id = 0, ib_preds = [], ib_succs = []\<rparr>,
     [mk_inst ADDri [op_out (OReg (gr_reg R1)), op_in (OInt32 7), op_new (OInt32 0)],
      mk_inst ADDri [op_out (OReg (gr_reg R1)), op_in (OReg (gr_reg R1)), op_new (OInt32 0)],
      mk_inst MOVrr [op_out (OReg (gr_reg R1)), op_in (OReg (gr_reg R1))],
      mk_inst RET []])]"

definition peep_function :: "mfunc option" where
  "peep_function = compile_function (new_types 0) False new_slots new_vregs peep_blocks"

lemma peep_function_shaped:
  obtains f g where "peep_function = Some f" "func_rep f [0] g" "\<forall>b \<in> set [0]. \<forall>i \<in> set (g b). shaped (inst_of f i)"
proof -
  have "cfg_wf (map fst peep_blocks)" by code_simp
  then obtain f g where f: "peep_function = Some f" "func_rep f [0..<length peep_blocks] g"
    using compile_function_rep unfolding peep_function_def by blast
  have one: "[0..<length peep_blocks] = [0]" by code_simp
  have "map_option (\<lambda>f. map_option (\<lambda>c. list_all (\<lambda>i. shaped (snd i)) (code_insts c)) (func_code f)) peep_function = Some (Some True)"
    by code_simp
  then obtain c where c: "func_code f = Some c" "list_all (\<lambda>i. shaped (snd i)) (code_insts c)" unfolding f(1) by auto
  show ?thesis using that [OF f(1) f(2) [unfolded one] func_rep_all [OF f(2) [unfolded one] c]] .
qed

theorem add_peephole_preserves_witness:
  "\<exists>f f' c c'. peep_function = Some f \<and> add_peephole f = Some f' \<and> block_code f 0 = Some c
     \<and> block_code f' 0 = Some c' \<and> (\<forall>s. block_effect ola_alu c' s = block_effect ola_alu c s)"
proof -
  obtain f g where f: "peep_function = Some f" "func_rep f [0] g" "\<forall>b \<in> set [0]. \<forall>i \<in> set (g b). shaped (inst_of f i)"
    by (rule peep_function_shaped)
  show ?thesis using add_peephole_preserves [OF f(2) adds_and_moves_alu f(3)] f(1) by fastforce
qed

theorem simple_reg_coalescing_preserves_witness:
  "\<exists>f f' c c'. peep_function = Some f \<and> simple_reg_coalescing f = Some f' \<and> block_code f 0 = Some c
     \<and> block_code f' 0 = Some c' \<and> (\<forall>s. block_effect ola_alu c' s = block_effect ola_alu c s)"
proof -
  obtain f g where f: "peep_function = Some f" "func_rep f [0] g" "\<forall>b \<in> set [0]. \<forall>i \<in> set (g b). shaped (inst_of f i)"
    by (rule peep_function_shaped)
  show ?thesis using simple_reg_coalescing_preserves [OF f(2) adds_and_moves_alu f(3)] f(1) by fastforce
qed

end
