(* ===== verification/Eliminate_Phi.thy ===== *)
theory Eliminate_Phi
  imports Ola_Peephole "HOL-Library.Multiset"
begin

section \<open>Elimination of phi instructions\<close>

text \<open>
  Model of \<open>isa/ola/pass/eliminate_phi.rs\<close>.  The arguments of all phi instructions with the same
  output register are collected in a hash map, here a list of entries; for every entry and every argument
  a move is placed in front of the last instruction of the predecessor block.  The order in which the map
  is walked is not fixed by the code: \<open>iter\<close> is any reordering of the entries.
\<close>

type_synonym phi_map = "(reg \<times> (operand_data \<times> nat) list) list"

definition reorders :: "(phi_map \<Rightarrow> phi_map) \<Rightarrow> bool" where
  "reorders iter \<longleftrightarrow> (\<forall>m. mset (iter m) = mset m)"

text \<open>\<open>entry(output).or_insert_with(Vec::new).push(...)\<close> for the arguments of one phi.\<close>

fun push_args :: "reg \<Rightarrow> (operand_data \<times> nat) list \<Rightarrow> phi_map \<Rightarrow> phi_map" where
  "push_args r xs [] = [(r, xs)]"
| "push_args r xs ((q, ys) # m) = (if q = r then (q, ys @ xs) # m else (q, ys) # push_args r xs m)"

text \<open>The arguments of a phi come in pairs of a value and a block.\<close>

fun arg_pairs :: "operand_data list \<Rightarrow> (operand_data \<times> nat) list option" where
  "arg_pairs [] = Some []"
| "arg_pairs [x] = None"
| "arg_pairs (x # y # zs) = do { b \<leftarrow> as_block y; rest \<leftarrow> arg_pairs zs; Some ((x, b) # rest) }"

definition add_phi :: "inst_data \<Rightarrow> phi_map \<Rightarrow> phi_map option" where
  "add_phi i m = do {
     o0 \<leftarrow> operand_at i 0;
     output \<leftarrow> as_reg o0;
     args \<leftarrow> arg_pairs (map op_data (tl (operands i)));
     Some (if args = [] then m else push_args output args m) }"

definition phi_copy :: "reg \<Rightarrow> operand_data \<Rightarrow> inst_data option" where
  "phi_copy output arg = (case arg of
     OInt32 n \<Rightarrow> Some \<lparr>opcode = MOVri, operands = [op_out (OReg output), op_new arg]\<rparr>
   | OInt64 n \<Rightarrow> Some \<lparr>opcode = MOVri, operands = [op_out (OReg output), op_new arg]\<rparr>
   | OReg r \<Rightarrow> Some \<lparr>opcode = MOVrr, operands = [op_out (OReg output), op_in arg]\<rparr>
   | _ \<Rightarrow> None)"

definition place_copy :: "reg \<times> operand_data \<times> nat \<Rightarrow> mdata \<times> layout \<Rightarrow> (mdata \<times> layout) option" where
  "place_copy c st = (case (c, st) of ((output, arg, block), (d, l)) \<Rightarrow> do {
     t \<leftarrow> last_inst_of block l;
     maybe_term \<leftarrow> t;
     copy \<leftarrow> phi_copy output arg;
     let (k, d) = create_inst (new_instruction copy block) d;
     l \<leftarrow> insert_inst_before maybe_term k block l;
     Some (d, l) })"

definition phi_entries :: "(phi_map \<Rightarrow> phi_map) \<Rightarrow> phi_map \<Rightarrow> (reg \<times> operand_data \<times> nat) list" where
  "phi_entries iter m = concat (map (\<lambda>(r, xs). map (Pair r) xs) (iter m))"

definition eliminate_phi :: "(phi_map \<Rightarrow> phi_map) \<Rightarrow> mfunc \<Rightarrow> mfunc option" where
  "eliminate_phi iter f = do {
     code \<leftarrow> func_code f;
     let phis = filter (\<lambda>i. is_phi (snd i)) (code_insts code);
     m \<leftarrow> fold_opt (\<lambda>i. add_phi (snd i)) phis [];
     (d, l) \<leftarrow> fold_opt place_copy (phi_entries iter m) (f_data f, f_layout f);
     finish_pass (map fst phis) (\<lambda>i. i) [] (f\<lparr>f_data := d, f_layout := l\<rparr>) }"

subsection \<open>Placing the copies\<close>

definition last_part :: "'a list \<Rightarrow> 'a list" where
  "last_part xs = (if xs = [] then [] else [last xs])"

lemma butlast_last_part [simp]: "butlast xs @ last_part xs = xs"
  by (simp add: last_part_def)

text \<open>The moves an entry list puts into a block, in order.\<close>

definition copies_in :: "(reg \<times> operand_data \<times> nat) list \<Rightarrow> nat \<Rightarrow> inst_data list" where
  "copies_in cs b = [the (phi_copy r a). (r, a, c) \<leftarrow> cs, c = b]"

lemma copies_in_simps [simp]:
  "copies_in [] b = []"
  "copies_in ((r, a, c) # cs) b = (if c = b then [the (phi_copy r a)] else []) @ copies_in cs b"
  by (simp_all add: copies_in_def)

definition entry_ok :: "nat list \<Rightarrow> (nat \<Rightarrow> nat list) \<Rightarrow> reg \<times> operand_data \<times> nat \<Rightarrow> bool" where
  "entry_ok bs g c = (case c of (r, a, b) \<Rightarrow> b \<in> set bs \<and> g b \<noteq> [] \<and> phi_copy r a \<noteq> None)"

lemma place_copies:
  assumes "layout_rep l bs g" "dom (insts l) \<subseteq> {..<length (instructions d)}" "\<forall>c \<in> set cs. entry_ok bs g c"
  shows "\<exists>d' l' ids. fold_opt place_copy cs (d, l) = Some (d', l')
    \<and> layout_rep l' bs (\<lambda>b. butlast (g b) @ ids b @ last_part (g b)) \<and> dom (insts l') \<subseteq> {..<length (instructions d')}
    \<and> length (instructions d) \<le> length (instructions d') \<and> take (length (instructions d)) (instructions d') = instructions d
    \<and> (\<forall>b. (\<forall>i \<in> set (ids b). length (instructions d) \<le> i \<and> i < length (instructions d'))
         \<and> map (\<lambda>i. in_data (instructions d' ! i)) (ids b) = copies_in cs b)"
  using assms
proof (induction cs arbitrary: d l g)
  case Nil
  then show ?case by (intro exI [of _ d] exI [of _ l] exI [of _ "\<lambda>_. []"]) simp
next
  case (Cons c cs)
  obtain r a b where c: "c = (r, a, b)" by (cases c) auto
  then have b: "b \<in> set bs" "g b \<noteq> []" and "phi_copy r a \<noteq> None"
    using Cons.prems(3) by (auto simp: entry_ok_def)
  then obtain copy where copy: "phi_copy r a = Some copy" by blast
  let ?n = "length (instructions d)"
  define d1 where "d1 = snd (create_inst (new_instruction copy b) d)"
  have d1: "create_inst (new_instruction copy b) d = (?n, d1)" "instructions d1 = instructions d @ [(new_instruction copy b)\<lparr>in_id := Some ?n\<rparr>]"
    unfolding d1_def by (simp_all add: create_inst_def Let_def)
  have fresh: "fresh_inst (l) ?n" using Cons.prems(2) by (auto simp: fresh_inst_def)
  let ?g1 = "g(b := butlast (g b) @ [?n, last (g b)])"
  obtain l1 where l1: "do { t \<leftarrow> last_inst_of b l; t \<leftarrow> t; insert_inst_before t ?n b l } = Some l1" "layout_rep l1 bs ?g1"
    "\<forall>j. fresh_inst l1 j \<longleftrightarrow> fresh_inst l j \<and> j \<noteq> ?n"
    using edit.ins_before_last [OF Cons.prems(1) b(1) fresh b(2)] by blast
  have step: "place_copy c (d, l) = Some (d1, l1)"
    using l1(1) d1(1) copy unfolding place_copy_def c by (auto simp: bind_eq_Some_iff Let_def)
  have dom1: "dom (insts l1) \<subseteq> {..<length (instructions d1)}"
  proof
    fix j assume "j \<in> dom (insts l1)"
    then have "j \<in> dom (insts l) \<or> j = ?n" using spec [OF l1(3), of j] unfolding fresh_inst_def domIff by metis
    then show "j \<in> {..<length (instructions d1)}" using Cons.prems(2) d1(2) by auto
  qed
  have ok1: "\<forall>c \<in> set cs. entry_ok bs ?g1 c" using Cons.prems(3) by (auto simp: entry_ok_def)
  obtain d' l' ids where IH: "fold_opt place_copy cs (d1, l1) = Some (d', l')"
    "layout_rep l' bs (\<lambda>x. butlast (?g1 x) @ ids x @ last_part (?g1 x))" "dom (insts l') \<subseteq> {..<length (instructions d')}"
    "length (instructions d1) \<le> length (instructions d')" "take (length (instructions d1)) (instructions d') = instructions d1"
    "\<forall>b. (\<forall>i \<in> set (ids b). length (instructions d1) \<le> i \<and> i < length (instructions d'))
         \<and> map (\<lambda>i. in_data (instructions d' ! i)) (ids b) = copies_in cs b"
    using Cons.IH [OF l1(2) dom1 ok1] by blast
  let ?ids = "\<lambda>x. if x = b then ?n # ids x else ids x"
  have "(\<lambda>x. butlast (?g1 x) @ ids x @ last_part (?g1 x)) = (\<lambda>x. butlast (g x) @ ?ids x @ last_part (g x))"
    using b(2) by (auto simp: last_part_def butlast_append)
  moreover have "take ?n (instructions d') = instructions d"
    using arg_cong [OF IH(5), of "take ?n"] d1(2) by (simp add: min_def)
  moreover have at: "in_data (instructions d' ! ?n) = copy" "?n < length (instructions d')"
  proof -
    show "?n < length (instructions d')" using IH(4) d1(2) by simp
    have "instructions d' ! ?n = instructions d1 ! ?n" using IH(5) d1(2) by (metis length_append_singleton lessI nth_take)
    then show "in_data (instructions d' ! ?n) = copy" using d1(2) by (simp add: new_instruction_def)
  qed
  moreover have "\<forall>x. (\<forall>i \<in> set (?ids x). ?n \<le> i \<and> i < length (instructions d'))
      \<and> map (\<lambda>i. in_data (instructions d' ! i)) (?ids x) = copies_in (c # cs) x"
  proof
    fix x
    have "\<forall>i \<in> set (ids x). Suc ?n \<le> i \<and> i < length (instructions d')" "map (\<lambda>i. in_data (instructions d' ! i)) (ids x) = copies_in cs x"
      using IH(6) d1(2) by simp_all
    then show "(\<forall>i \<in> set (?ids x). ?n \<le> i \<and> i < length (instructions d'))
      \<and> map (\<lambda>i. in_data (instructions d' ! i)) (?ids x) = copies_in (c # cs) x"
      using at copy unfolding c by (cases "x = b") auto
  qed
  moreover have "fold_opt place_copy (c # cs) (d, l) = Some (d', l')" using step IH(1) by simp
  moreover have "?n \<le> length (instructions d')" using IH(4) d1(2) by simp
  ultimately show ?case
    using IH(2,3) by (intro exI [of _ d'] exI [of _ l'] exI [of _ ?ids]) simp
qed

subsection \<open>The pass\<close>

definition phis_of :: "(nat \<times> (nat \<times> inst_data) list) list \<Rightarrow> (nat \<times> inst_data) list" where
  "phis_of code = filter (\<lambda>i. is_phi (snd i)) (code_insts code)"

abbreviation no_phi :: "inst_data \<Rightarrow> bool" where
  "no_phi i \<equiv> \<not> is_phi i"

lemma last_part_map: "last_part (map h xs) = map h (last_part xs)"
  by (simp add: last_part_def last_map)

text \<open>
  C8: the pass removes the phi instructions and puts the copies of every block, in the order in which the
  hash map is walked, in front of its last instruction; the rest of the code keeps its order.
\<close>

theorem eliminate_phi_code:
  assumes rep: "func_rep f bs g" "dom (insts (f_layout f)) \<subseteq> {..<length (instructions (f_data f))}"
    and m: "func_code f = Some code" "fold_opt (\<lambda>i. add_phi (snd i)) (phis_of code) [] = Some m"
    and ok: "\<forall>c \<in> set (phi_entries iter m). entry_ok bs g c"
  shows "\<exists>f'. eliminate_phi iter f = Some f' \<and> (\<forall>b \<in> set bs. \<exists>c c'. block_code f b = Some c \<and> block_code f' b = Some c'
    \<and> map snd c' = filter no_phi (butlast (map snd c)) @ copies_in (phi_entries iter m) b @ filter no_phi (last_part (map snd c)))"
proof -
  let ?d = "f_data f" and ?n = "length (instructions (f_data f))" and ?D = "map fst (phis_of code)"
  have l: "layout_rep (f_layout f) bs g" and ins: "\<forall>b \<in> set bs. \<forall>i \<in> set (g b). i < ?n"
    using rep(1) by (simp_all add: func_rep_def)
  obtain d' l' ids where pl: "fold_opt place_copy (phi_entries iter m) (?d, f_layout f) = Some (d', l')"
    "layout_rep l' bs (\<lambda>b. butlast (g b) @ ids b @ last_part (g b))"
    "?n \<le> length (instructions d')" "take ?n (instructions d') = instructions ?d"
    "\<forall>b. (\<forall>i \<in> set (ids b). ?n \<le> i \<and> i < length (instructions d'))
       \<and> map (\<lambda>i. in_data (instructions d' ! i)) (ids b) = copies_in (phi_entries iter m) b"
    using place_copies [OF l rep(2) ok] by blast
  let ?f1 = "f\<lparr>f_data := d', f_layout := l'\<rparr>" and ?g1 = "\<lambda>b. butlast (g b) @ ids b @ last_part (g b)"
  have sub: "set (butlast (g b)) \<subseteq> set (g b)" "set (last_part (g b)) \<subseteq> set (g b)" for b
    by (auto simp: last_part_def dest: in_set_butlastD)
  have bound: "i < length (instructions d')" if "b \<in> set bs" "i \<in> set (?g1 b)" for b i
    using that ins pl(3,5) sub [of b] by fastforce
  have rep1: "func_rep ?f1 bs ?g1" using pl(2) bound by (simp add: func_rep_def)
  have old: "inst_of ?f1 i = inst_of f i" if "i < ?n" for i
    using nth_take [OF that, of "instructions d'"] pl(4) by simp
  have D: "i \<in> set ?D \<longleftrightarrow> is_phi (inst_of f i)" if "b \<in> set bs" "i \<in> set (g b)" for b i
    using m(1) that unfolding func_rep_code(1) [OF rep(1)] by (force simp: phis_of_def code_insts_rep)
  have D': "i \<in> set ?D \<Longrightarrow> i < ?n \<and> (\<exists>b \<in> set bs. i \<in> set (g b) \<and> is_phi (inst_of f i))" for i
    using m(1) ins unfolding func_rep_code(1) [OF rep(1)] by (auto simp: phis_of_def code_insts_rep)
  have "map fst (code_insts code) = map snd (all_insts bs g)"
    using m(1) unfolding func_rep_code(1) [OF rep(1)] by (auto simp: code_insts_rep)
  then have "distinct (map fst (code_insts code))" using distinct_all_insts [OF l] by simp
  then have dist: "distinct ?D" unfolding phis_of_def by (simp add: distinct_map_filter)
  have listed: "\<forall>i \<in> set ?D. \<exists>b \<in> set bs. i \<in> set (?g1 b)"
    using D' butlast_last_part by (metis Un_iff set_append)
  obtain f' where f': "finish_pass ?D (\<lambda>i. i) [] ?f1 = Some f'" "func_rep f' bs (\<lambda>b. filter (\<lambda>i. i \<notin> set ?D) (?g1 b))"
    "\<forall>b \<in> set bs. \<forall>i \<in> set (?g1 b). inst_of f' i = inst_of ?f1 i"
    using finish_pass_code [OF rep1 dist listed, of "[]" "\<lambda>i. i"] by auto
  have run: "eliminate_phi iter f = Some f'"
    unfolding eliminate_phi_def Let_def phis_of_def [symmetric] by (simp only: m bind.simps pl(1) f'(1) prod.case phis_of_def [symmetric])
  have "\<exists>c c'. block_code f b = Some c \<and> block_code f' b = Some c'
    \<and> map snd c' = filter no_phi (butlast (map snd c)) @ copies_in (phi_entries iter m) b @ filter no_phi (last_part (map snd c))"
    if b: "b \<in> set bs" for b
  proof -
    have part: "map (inst_of f') (filter (\<lambda>i. i \<notin> set ?D) xs) = filter no_phi (map (inst_of f) xs)" if "set xs \<subseteq> set (g b)" "set xs \<subseteq> set (?g1 b)" for xs
    proof -
      have "\<forall>i \<in> set xs. inst_of f' i = inst_of f i \<and> (i \<notin> set ?D) = no_phi (inst_of f i)"
      proof
        fix i assume "i \<in> set xs"
        then have i: "i \<in> set (g b)" "i \<in> set (?g1 b)" using that by blast+
        have "inst_of f' i = inst_of f i" using bspec [OF bspec [OF f'(3) b] i(2)] old ins b i(1) by simp
        then show "inst_of f' i = inst_of f i \<and> (i \<notin> set ?D) = no_phi (inst_of f i)" using D [OF b i(1)] by simp
      qed
      then show ?thesis by (induction xs) auto
    qed
    have cp: "map (inst_of f') (filter (\<lambda>i. i \<notin> set ?D) (ids b)) = copies_in (phi_entries iter m) b"
    proof -
      have "\<forall>i \<in> set (ids b). inst_of f' i = in_data (instructions d' ! i) \<and> i \<notin> set ?D"
        using f'(3) b pl(5) D' by fastforce
      then have "map (inst_of f') (filter (\<lambda>i. i \<notin> set ?D) (ids b)) = map (\<lambda>i. in_data (instructions d' ! i)) (ids b)"
        by (simp add: filter_True cong: map_cong)
      then show ?thesis using pl(5) by simp
    qed
    have sub': "set (butlast (g b)) \<subseteq> set (?g1 b)" "set (last_part (g b)) \<subseteq> set (?g1 b)" by auto
    have "map snd (map (\<lambda>i. (i, inst_of f' i)) (filter (\<lambda>i. i \<notin> set ?D) (?g1 b)))
        = filter no_phi (butlast (map (inst_of f) (g b))) @ copies_in (phi_entries iter m) b @ filter no_phi (last_part (map (inst_of f) (g b)))"
      using part [OF sub(1) sub'(1)] part [OF sub(2) sub'(2)] cp by (simp add: o_def map_butlast last_part_map)
    then show ?thesis
      unfolding func_rep_code(2) [OF rep(1) b] func_rep_code(2) [OF f'(2) b] by (simp add: o_def)
  qed
  then show ?thesis using run by blast
qed

subsection \<open>What the copies do\<close>

text \<open>
  The copies of a block run one after the other.  They act as the parallel assignment of the phi
  instructions as long as no copy reads the output of another one.
\<close>

definition block_entries :: "(reg \<times> operand_data \<times> nat) list \<Rightarrow> nat \<Rightarrow> (reg \<times> operand_data) list" where
  "block_entries cs b = [(r, a). (r, a, c) \<leftarrow> cs, c = b]"

lemma block_entries_simps [simp]:
  "block_entries [] b = []"
  "block_entries ((r, a, c) # cs) b = (if c = b then [(r, a)] else []) @ block_entries cs b"
  by (simp_all add: block_entries_def)

lemma phi_copy_effect:
  assumes "adds_and_moves exec" "phi_copy r a = Some i"
  shows "exec i (rs, m) = (rs(r := the (source rs a)), m)"
proof -
  obtain x where x: "source rs a = Some x" using assms(2) by (cases a) (auto simp: phi_copy_def)
  have "opcode i \<in> {MOVri, MOVrr}" "map op_data (operands i) = [OReg r, a]"
    using assms(2) by (cases a; auto simp: phi_copy_def op_defs)+
  then show ?thesis using assms(1) x unfolding adds_and_moves_def by fastforce
qed

text \<open>
  C9: if no copy of a block reads the output of another copy of the block, running the copies assigns to
  every output the value its argument had before the first copy, and changes nothing else.
\<close>

theorem phi_copies_parallel:
  assumes "adds_and_moves exec" "\<forall>(r, a, c) \<in> set cs. phi_copy r a \<noteq> None"
    and "distinct (map fst (block_entries cs b))"
    and "\<forall>(r, a) \<in> set (block_entries cs b). \<forall>(q, c) \<in> set (block_entries cs b). a = OReg q \<longrightarrow> r = q"
  shows "fold exec (copies_in cs b) (rs, m)
    = (\<lambda>r. case map_of (block_entries cs b) r of Some a \<Rightarrow> the (source rs a) | None \<Rightarrow> rs r, m)"
  using assms
proof (induction cs arbitrary: rs)
  case (Cons e cs)
  obtain r a c where e: "e = (r, a, c)" by (cases e) auto
  have ok: "\<forall>(r, a, c) \<in> set cs. phi_copy r a \<noteq> None" using Cons.prems(2) by simp
  show ?case
  proof (cases "c = b")
    case False
    then show ?thesis using Cons e by simp
  next
    case True
    let ?E = "block_entries cs b" and ?rs = "rs(r := the (source rs a))"
    have r: "r \<notin> fst ` set ?E" and dist: "distinct (map fst ?E)" using Cons.prems(3) e True by simp_all
    have par: "\<forall>(q, c) \<in> set ?E. \<forall>(q', d) \<in> set ?E. c = OReg q' \<longrightarrow> q = q'"
    proof -
      have "set ?E \<subseteq> set (block_entries (e # cs) b)" using e by auto
      then show ?thesis using Cons.prems(4) by blast
    qed
    have reads: "c \<noteq> OReg r" if "(q, c) \<in> set ?E" for q c
      using Cons.prems(4) e True that r by force
    have src: "source ?rs c = source rs c" if "(q, c) \<in> set ?E" for q c
      using reads [OF that] by (cases c) auto
    obtain i where i: "phi_copy r a = Some i" using Cons.prems(2) e by auto
    have "fold exec (copies_in (e # cs) b) (rs, m) = fold exec (copies_in cs b) (?rs, m)"
      using e True i phi_copy_effect [OF Cons.prems(1) i, of rs m] by simp
    also have "\<dots> = (\<lambda>r. case map_of ?E r of Some a \<Rightarrow> the (source ?rs a) | None \<Rightarrow> ?rs r, m)"
      by (rule Cons.IH [OF Cons.prems(1) ok dist par])
    also have "(\<lambda>r. case map_of ?E r of Some a \<Rightarrow> the (source ?rs a) | None \<Rightarrow> ?rs r)
        = (\<lambda>q. case map_of (block_entries (e # cs) b) q of Some a \<Rightarrow> the (source rs a) | None \<Rightarrow> rs q)"
    proof
      fix q
      show "(case map_of ?E q of Some a \<Rightarrow> the (source ?rs a) | None \<Rightarrow> ?rs q)
        = (case map_of (block_entries (e # cs) b) q of Some a \<Rightarrow> the (source rs a) | None \<Rightarrow> rs q)"
      proof (cases "q = r")
        case q: True
        then have "map_of ?E q = None" using r by (simp add: map_of_eq_None_iff)
        then show ?thesis using q e True by simp
      next
        case q: False
        then show ?thesis using e True src by (auto split: option.splits dest: map_of_SomeD)
      qed
    qed
    finally show ?thesis .
  qed
qed simp

subsection \<open>Examples\<close>

text \<open>A loop whose two phi instructions exchange their registers in every round.\<close>

definition swap_blocks :: "(ir_block \<times> inst_data list) list" where
  "swap_blocks =
     [(\<lparr>ib_id = 0, ib_preds = [], ib_succs = [1]\<rparr>, [mk_inst JMPi [op_new (OBlock 1)]]),
      (\<lparr>ib_id = 1, ib_preds = [0, 1], ib_succs = [1]\<rparr>,
         [mk_inst Phi [op_out (OReg (gr_reg R1)), op_new (OInt32 1), op_new (OBlock 0), op_in (OReg (gr_reg R2)), op_new (OBlock 1)],
          mk_inst Phi [op_out (OReg (gr_reg R2)), op_new (OInt32 2), op_new (OBlock 0), op_in (OReg (gr_reg R1)), op_new (OBlock 1)],
          mk_inst JMPi [op_new (OBlock 1)]])]"

definition swap_function :: "mfunc option" where
  "swap_function = compile_function (new_types 0) False new_slots new_vregs swap_blocks"

definition up_order :: "phi_map \<Rightarrow> phi_map" where
  "up_order m = m"

definition down_order :: "phi_map \<Rightarrow> phi_map" where
  "down_order m = rev m"

lemma reorders_orders: "reorders up_order" "reorders down_order"
  by (simp_all add: reorders_def up_order_def down_order_def)

theorem eliminate_phi_code_witness:
  "\<exists>f f' c'. swap_function = Some f \<and> eliminate_phi up_order f = Some f' \<and> block_code f' 0 = Some c'
     \<and> map snd c' = [mk_inst MOVri [op_out (OReg (gr_reg R1)), op_new (OInt32 1)],
                     mk_inst MOVri [op_out (OReg (gr_reg R2)), op_new (OInt32 2)], mk_inst JMPi [op_new (OBlock 1)]]"
proof -
  have wf: "cfg_wf (map fst swap_blocks)" by code_simp
  have len: "[0..<length swap_blocks] = [0, 1]" by code_simp
  obtain f g where f: "swap_function = Some f" "layout_rep (f_layout f) [0, 1] g"
    "dom (insts (f_layout f)) \<subseteq> {..<length (instructions (f_data f))}"
    using compile_function_correct [OF wf, of "new_types 0" False new_slots new_vregs] unfolding swap_function_def len by blast
  have rep: "func_rep f [0, 1] g"
    unfolding func_rep_def using f(2,3) layout_rep_memberD [OF f(2)] by blast
  have "map_option (\<lambda>f. map_option (\<lambda>c. (map_option (phi_entries up_order) (fold_opt (\<lambda>i. add_phi (snd i)) (phis_of c) []),
      map (\<lambda>bc. snd bc \<noteq> []) c)) (func_code f)) swap_function
    = Some (Some (Some [(gr_reg R1, OInt32 1, 0), (gr_reg R1, OReg (gr_reg R2), 1), (gr_reg R2, OInt32 2, 0), (gr_reg R2, OReg (gr_reg R1), 1)], [True, True]))"
    by code_simp
  then obtain code m where code: "func_code f = Some code" "fold_opt (\<lambda>i. add_phi (snd i)) (phis_of code) [] = Some m"
    "phi_entries up_order m = [(gr_reg R1, OInt32 1, 0), (gr_reg R1, OReg (gr_reg R2), 1), (gr_reg R2, OInt32 2, 0), (gr_reg R2, OReg (gr_reg R1), 1)]"
    "map (\<lambda>bc. snd bc \<noteq> []) code = [True, True]"
    unfolding f(1) by auto
  have "g 0 \<noteq> []" "g 1 \<noteq> []" using code(4) code(1) unfolding func_rep_code(1) [OF rep] by auto
  then have ok: "\<forall>c \<in> set (phi_entries up_order m). entry_ok [0, 1] g c"
    unfolding code(3) by (simp add: entry_ok_def phi_copy_def)
  obtain f' c c' where f': "eliminate_phi up_order f = Some f'" "block_code f 0 = Some c" "block_code f' 0 = Some c'"
    "map snd c' = filter no_phi (butlast (map snd c)) @ copies_in (phi_entries up_order m) 0 @ filter no_phi (last_part (map snd c))"
    using eliminate_phi_code [OF rep f(3) code(1,2) ok] by (metis list.set_intros(1))
  have "map_option (\<lambda>f. map_option (map snd) (block_code f 0)) swap_function = Some (Some [mk_inst JMPi [op_new (OBlock 1)]])"
    by code_simp
  then have "map snd c = [mk_inst JMPi [op_new (OBlock 1)]]" using f'(2) unfolding f(1) by simp
  then have "map snd c' = [mk_inst MOVri [op_out (OReg (gr_reg R1)), op_new (OInt32 1)],
      mk_inst MOVri [op_out (OReg (gr_reg R2)), op_new (OInt32 2)], mk_inst JMPi [op_new (OBlock 1)]]"
    using f'(4) unfolding code(3) by (simp add: last_part_def phi_copy_def mk_inst_def is_phi_def)
  then show ?thesis using f(1) f'(1,3) by (intro exI [of _ f] exI [of _ f'] exI [of _ c']) simp
qed

theorem phi_copies_parallel_witness:
  "fold ola_alu (copies_in [(gr_reg R1, OReg (gr_reg R2), 0), (gr_reg R3, OInt32 5, 0)] 0) (\<lambda>r. 9, ())
    = (\<lambda>r. case map_of (block_entries [(gr_reg R1, OReg (gr_reg R2), 0), (gr_reg R3, OInt32 5, 0)] 0) r of
         Some a \<Rightarrow> the (source (\<lambda>r. 9) a) | None \<Rightarrow> 9, ())"
  by (rule phi_copies_parallel [OF adds_and_moves_alu]) (simp_all add: phi_copy_def gr_reg_def)

text \<open>The two registers hold the same value at the end of block 1, whatever they held before.\<close>

definition swap_equal :: "mfunc \<Rightarrow> bool" where
  "swap_equal f \<longleftrightarrow> (\<exists>c. block_code f 1 = Some c \<and> (\<forall>s. fst (block_effect ola_alu c s) (gr_reg R1) = fst (block_effect ola_alu c s) (gr_reg R2)))"

text \<open>
  The copies of phi instructions that exchange two registers lose one of the values: in whatever order
  the hash map is walked, both registers hold the same value at the end of the loop block.
\<close>

theorem phi_swap_lost:
  "\<exists>f f1 f2. swap_function = Some f \<and> eliminate_phi up_order f = Some f1 \<and> swap_equal f1
     \<and> eliminate_phi down_order f = Some f2 \<and> swap_equal f2"
proof -
  let ?mv = "\<lambda>d r. mk_inst MOVrr [op_out (OReg (gr_reg d)), op_in (OReg (gr_reg r))]"
  let ?code = "\<lambda>order. map_option (\<lambda>f. map_option (\<lambda>f'. map_option (map snd) (block_code f' 1)) (eliminate_phi order f)) swap_function"
  have up: "?code up_order = Some (Some (Some [?mv R1 R2, ?mv R2 R1, mk_inst JMPi [op_new (OBlock 1)]]))" by code_simp
  have down: "?code down_order = Some (Some (Some [?mv R2 R1, ?mv R1 R2, mk_inst JMPi [op_new (OBlock 1)]]))" by code_simp
  have eff: "block_effect exec c = fold exec (map snd c)" for exec :: "inst_data \<Rightarrow> 's \<Rightarrow> 's" and c :: "(nat \<times> inst_data) list"
    by (rule ext) (simp add: block_effect_def fold_map o_def)
  have alu: "ola_alu (?mv d r) s = ((fst s)(gr_reg d := fst s (gr_reg r)), snd s)" "ola_alu (mk_inst JMPi [op_new (OBlock b)]) s = s" for d r s b
    by (simp_all add: ola_alu_def mk_inst_def op_defs)
  obtain f f1 c1 where f1: "swap_function = Some f" "eliminate_phi up_order f = Some f1" "block_code f1 1 = Some c1"
    "map snd c1 = [?mv R1 R2, ?mv R2 R1, mk_inst JMPi [op_new (OBlock 1)]]"
    using up by auto
  obtain f2 c2 where f2: "eliminate_phi down_order f = Some f2" "block_code f2 1 = Some c2"
    "map snd c2 = [?mv R2 R1, ?mv R1 R2, mk_inst JMPi [op_new (OBlock 1)]]"
    using down unfolding f1(1) by auto
  have "swap_equal f1" unfolding swap_equal_def eff using f1(3,4) by (simp add: alu)
  moreover have "swap_equal f2" unfolding swap_equal_def eff using f2(2,3) by (simp add: alu)
  ultimately show ?thesis using f1(1,2) f2(1) by blast
qed

end
