(* ===== verification/Eliminate_Slot.thy ===== *)
theory Eliminate_Slot
  imports Ola_Peephole Slots "HOL-Library.Signed_Division"
begin

section \<open>Elimination of stack slots\<close>

text \<open>
  Model of \<open>isa/ola/pass/eliminate_slot.rs\<close>: the offsets of the stack slots are computed, and every
  operand that names a slot becomes an address relative to the frame register \<open>r9\<close>, in words of four
  bytes below the frame pointer.  A function with calls reserves two more words for the return address
  and the frame pointer of the caller.
\<close>

fun is_slot :: "operand_data \<Rightarrow> bool" where
  "is_slot (OSlot s) = True"
| "is_slot _ = False"

definition has_slot :: "inst_data \<Rightarrow> bool" where
  "has_slot i \<longleftrightarrow> list_ex (\<lambda>x. is_slot (op_data x)) (operands i)"

text \<open>Signed division by four of machine integers, rounding towards zero.\<close>

definition div4 :: "'w::len word \<Rightarrow> 'w word" where
  "div4 x = word_of_int (sint x sdiv 4)"

definition below_frame :: "'w::len word \<Rightarrow> 'w word" where
  "below_frame sz = (if sint sz > 0 then - sz else sz)"

text \<open>The six operands of a memory address, after the operand \<open>MemStart\<close>.\<close>

definition set_mem :: "operand_data \<Rightarrow> operand list \<Rightarrow> operand list" where
  "set_mem imm mem = mem[1 := (mem ! 1)\<lparr>op_data := ONone\<rparr>, 2 := (mem ! 2)\<lparr>op_data := imm\<rparr>,
     3 := (mem ! 3)\<lparr>op_data := OReg (gr_reg R9)\<rparr>]"

definition fix_mem :: "bool \<Rightarrow> slots \<Rightarrow> operand list \<Rightarrow> operand list option" where
  "fix_mem call sl mem = (case (op_data (mem ! 1), op_data (mem ! 2)) of
     (OSlot s, ONone) \<Rightarrow> do {
       x \<leftarrow> get_slot s sl;
       let sz = div4 (0 - slot_offset x);
       let sz = (if call then sz - 2 else sz);
       Some (set_mem (OInt32 (below_frame sz)) mem) }
   | (OSlot s, OInt32 imm) \<Rightarrow> do {
       x \<leftarrow> get_slot s sl;
       let sz = div4 (- imm - slot_offset x);
       let sz = (if call then sz - 2 else sz);
       Some (set_mem (OInt32 (below_frame sz)) mem) }
   | (OSlot s, OInt64 imm) \<Rightarrow> do {
       x \<leftarrow> get_slot s sl;
       let sz = div4 (imm - ucast (slot_offset x));
       let sz = (if call then sz - 2 else sz);
       Some (set_mem (OInt64 (below_frame sz)) mem) }
   | (OSlot s, OReg r) \<Rightarrow> Some (set_mem (OReg r) mem)
   | _ \<Rightarrow> None)"

fun fix_operands :: "bool \<Rightarrow> slots \<Rightarrow> operand list \<Rightarrow> operand list option" where
  "fix_operands call sl [] = Some []"
| "fix_operands call sl (x # xs) =
     (if op_data x \<noteq> OMemStart then do { xs \<leftarrow> fix_operands call sl xs; Some (x # xs) }
      else if length xs < 6 then None
      else do {
        mem \<leftarrow> fix_mem call sl (take 6 xs);
        xs \<leftarrow> fix_operands call sl (drop 6 xs);
        Some (x # mem @ xs) })"

text \<open>The address of a slot, \<open>ADDri d r9 slot\<close>.\<close>

definition slot_address :: "bool \<Rightarrow> slots \<Rightarrow> nat \<Rightarrow> operand_data option" where
  "slot_address call sl s = do {
     x \<leftarrow> get_slot s sl;
     let sz = div4 (slot_offset x);
     let sz = (if call then - sz - 2 else sz);
     Some (OInt32 (below_frame sz)) }"

definition eliminate_in_inst :: "bool \<Rightarrow> slots \<Rightarrow> inst_data \<Rightarrow> inst_data option" where
  "eliminate_in_inst call sl i =
     (if opcode i = ADDri \<and> operands i \<noteq> [] \<and> is_slot (op_data (last (operands i)))
      then (case op_data (last (operands i)) of
          OSlot s \<Rightarrow> do {
            a \<leftarrow> slot_address call sl s;
            Some (i\<lparr>operands := butlast (operands i) @ [(last (operands i))\<lparr>op_data := a\<rparr>]\<rparr>) }
        | _ \<Rightarrow> None)
      else do { ops \<leftarrow> fix_operands call sl (operands i); Some (i\<lparr>operands := ops\<rparr>) })"

definition eliminate_at :: "bool \<Rightarrow> slots \<Rightarrow> nat \<Rightarrow> instruction list \<Rightarrow> instruction list option" where
  "eliminate_at call sl k is =
     (if k < length is then do {
        i \<leftarrow> eliminate_in_inst call sl (in_data (is ! k));
        Some (is[k := (is ! k)\<lparr>in_data := i\<rparr>]) }
      else None)"

definition has_call :: "(nat \<times> (nat \<times> inst_data) list) list \<Rightarrow> bool" where
  "has_call code = list_ex (\<lambda>i. is_call (snd i)) (code_insts code)"

definition reserve_call_words :: "bool \<Rightarrow> slots \<Rightarrow> slots" where
  "reserve_call_words call sl = (if call then snd (add_slot I32 4 4 (snd (add_slot I32 4 4 sl))) else sl)"

definition eliminate_slot :: "mfunc \<Rightarrow> mfunc option" where
  "eliminate_slot f = do {
     code \<leftarrow> func_code f;
     let call = has_call code;
     (_, sl) \<leftarrow> ensure_computed_offsets (reserve_call_words call (f_slots f));
     is \<leftarrow> fold_opt (eliminate_at call sl) (rev [k. (k, i) \<leftarrow> code_insts code, has_slot i]) (instructions (f_data f));
     Some (f\<lparr>f_slots := sl, f_data := (f_data f)\<lparr>instructions := is\<rparr>\<rparr>) }"

subsection \<open>No slot is left\<close>

text \<open>Slots occur as the last operand of an address computation or at their place in an address.\<close>

fun mem_shaped :: "operand list \<Rightarrow> bool" where
  "mem_shaped [] = True"
| "mem_shaped (x # xs) =
     (if op_data x = OMemStart
      then length xs \<ge> 6 \<and> \<not> is_slot (op_data (xs ! 0)) \<and> \<not> is_slot (op_data (xs ! 4)) \<and> \<not> is_slot (op_data (xs ! 5)) \<and> mem_shaped (drop 6 xs)
      else \<not> is_slot (op_data x) \<and> mem_shaped xs)"

definition slot_shaped :: "inst_data \<Rightarrow> bool" where
  "slot_shaped i \<longleftrightarrow>
     (if opcode i = ADDri \<and> operands i \<noteq> [] \<and> is_slot (op_data (last (operands i)))
      then \<not> list_ex (\<lambda>x. is_slot (op_data x)) (butlast (operands i))
      else mem_shaped (operands i))"

lemma six_elements: "length xs = 6 \<Longrightarrow> \<exists>a b c d e f. xs = [a, b, c, d, e, f]"
  by (auto simp: eval_nat_numeral length_Suc_conv)

lemma fix_mem_no_slot:
  assumes "fix_mem call sl mem = Some mem'" "length mem = 6"
    and "\<not> is_slot (op_data (mem ! 0))" "\<not> is_slot (op_data (mem ! 4))" "\<not> is_slot (op_data (mem ! 5))"
  shows "length mem' = 6 \<and> \<not> list_ex (\<lambda>x. is_slot (op_data x)) mem'"
proof -
  obtain a b c d e f where mem: "mem = [a, b, c, d, e, f]" using six_elements [OF assms(2)] by blast
  show ?thesis
    using assms(1,3-5) unfolding mem
    by (auto simp: fix_mem_def set_mem_def Let_def eval_nat_numeral elim!: bind_SomeE split: operand_data.splits)
qed

lemma fix_operands_no_slot:
  "fix_operands call sl ops = Some ops' \<Longrightarrow> mem_shaped ops \<Longrightarrow> \<not> list_ex (\<lambda>x. is_slot (op_data x)) ops'"
proof (induction call sl ops arbitrary: ops' rule: fix_operands.induct)
  case (2 call sl x xs)
  show ?case
  proof (cases "op_data x = OMemStart")
    case False
    then show ?thesis using 2 by (auto elim!: bind_SomeE)
  next
    case True
    then have len: "\<not> length xs < 6" using "2.prems"(2) by simp
    then obtain mem ys where run: "fix_mem call sl (take 6 xs) = Some mem" "fix_operands call sl (drop 6 xs) = Some ys" "ops' = x # mem @ ys"
      using "2.prems"(1) True by (auto elim!: bind_SomeE)
    have "\<not> list_ex (\<lambda>x. is_slot (op_data x)) ys"
      using "2.IH"(2) [OF _ len run(1,2)] True "2.prems"(2) by simp
    moreover have "\<not> list_ex (\<lambda>x. is_slot (op_data x)) mem"
      using fix_mem_no_slot [OF run(1)] True "2.prems"(2) len by simp
    ultimately show ?thesis using run(3) True by simp
  qed
qed simp

lemma eliminate_in_inst_no_slot:
  assumes "eliminate_in_inst call sl i = Some i'" "slot_shaped i"
  shows "\<not> has_slot i'"
proof (cases "opcode i = ADDri \<and> operands i \<noteq> [] \<and> is_slot (op_data (last (operands i)))")
  case True
  then show ?thesis
    using assms by (auto simp: eliminate_in_inst_def slot_shaped_def has_slot_def slot_address_def Let_def
      elim!: bind_SomeE split: operand_data.splits)
next
  case False
  then show ?thesis
    using assms fix_operands_no_slot by (auto simp: eliminate_in_inst_def slot_shaped_def has_slot_def elim!: bind_SomeE split: if_splits)
qed

subsection \<open>Where the slots are\<close>

lemma sint_of_int_small:
  "- (2 ^ (LENGTH('w) - 1)) \<le> z \<Longrightarrow> z < 2 ^ (LENGTH('w) - 1) \<Longrightarrow> sint (word_of_int z :: 'w::len word) = z"
  by (simp add: signed_of_int signed_take_bit_int_eq_self)

lemma sint_of_int_small32: "- (2 ^ 31) \<le> z \<Longrightarrow> z < 2 ^ 31 \<Longrightarrow> sint (word_of_int z :: 32 word) = z"
  by (rule sint_of_int_small) simp_all

lemma sdiv4_neg: "(- (4 * int n)) sdiv 4 = - int n"
  by (simp add: signed_divide_int_def sgn_if)

lemma sdiv4: "(4 * int n) sdiv 4 = int n"
  by (simp add: signed_divide_int_def sgn_if)

text \<open>The word that the pass computes for the bytes from \<open>4 * k\<close> on, below an end at \<open>4 * E\<close>.\<close>

lemma slot_word_arith:
  fixes z :: "'w::len word"
  assumes "k \<le> E" "4 * int E + 8 < 2 ^ (LENGTH('w) - 1)" "c = (if call then 2 else 0)" "z = word_of_int (4 * int k - 4 * int E)"
  shows "sint (below_frame (let sz = div4 z in if call then sz - 2 else sz)) = - int (E - k + c)"
proof -
  let ?z = "- (4 * int (E - k))"
  have diff: "z = word_of_int ?z" using assms(1,4) by (simp add: of_nat_diff)
  have "sint z = ?z" unfolding diff by (rule sint_of_int_small) (use assms(2) in simp_all)
  then have "div4 z = word_of_int (- int (E - k))" unfolding div4_def by (simp only: sdiv4_neg)
  then have *: "(let sz = div4 z in if call then sz - 2 else sz) = word_of_int (- int (E - k + c))"
    using assms(3) by (simp add: Let_def)
  have "int (E - k + c) \<le> int E + 2" using assms(3) by auto
  then have "sint (word_of_int (- int (E - k + c)) :: 'w word) = - int (E - k + c)"
    by (intro sint_of_int_small) (use assms(2) in linarith)+
  then show ?thesis unfolding * by (simp add: below_frame_def)
qed

lemma laid_out_nth:
  assumes "laid_out lo sls" "i < length sls"
  shows "lo \<le> slot_start (sls ! i)" "slot_end (sls ! i) = slot_start (sls ! i) + unat (slot_size (sls ! i))"
  using assms by (induction sls arbitrary: lo i) (fastforce simp: nth_Cons split: nat.splits)+

lemma laid_out_order:
  assumes "laid_out lo sls" "i < j" "j < length sls"
  shows "slot_end (sls ! i) \<le> slot_start (sls ! j)"
  using assms
proof (induction sls arbitrary: lo i j)
  case (Cons x xs)
  obtain j' where j: "j = Suc j'" "j' < length xs" using Cons.prems(2,3) by (cases j) auto
  show ?case
  proof (cases i)
    case 0
    have "laid_out (slot_end x) xs" using Cons.prems(1) unfolding laid_out.simps by blast
    from laid_out_nth(1) [OF this j(2)] show ?thesis using j(1) 0 by simp
  next
    case (Suc i')
    have "laid_out (slot_end x) xs" "i' < j'" using Cons.prems(1,2) unfolding laid_out.simps j(1) Suc by blast+
    from Cons.IH [OF this j(2)] show ?thesis using j(1) Suc by simp
  qed
qed simp

text \<open>
  The operand that the pass puts into an address, for the slot \<open>s\<close> with the offset \<open>m\<close>, and the forms of the
  offset with which the lowering names word \<open>k\<close> of a slot: none for the first word, or the bytes, which are
  negative in 32 bits and positive in 64.
\<close>

definition slot_operand :: "bool \<Rightarrow> slots \<Rightarrow> nat \<Rightarrow> operand_data \<Rightarrow> operand_data option" where
  "slot_operand call sl s m = do {
     mem \<leftarrow> fix_mem call sl (map op_new [ONone, OSlot s, m, ONone, ONone, ONone]);
     Some (op_data (mem ! 2)) }"

definition operand_int :: "operand_data \<Rightarrow> int option" where
  "operand_int x = (case x of OInt32 w \<Rightarrow> Some (sint w) | OInt64 w \<Rightarrow> Some (sint w) | _ \<Rightarrow> None)"

definition names_word :: "operand_data \<Rightarrow> nat \<Rightarrow> bool" where
  "names_word m k \<longleftrightarrow> m = ONone \<and> k = 0 \<or> m = OInt32 (- of_nat (4 * k)) \<or> m = OInt64 (of_nat (4 * k))"

lemma six_nth: "[a, b, c, d, e, f] ! 1 = b" "[a, b, c, d, e, f] ! 2 = c"
  "set_mem imm [a, b, c, d, e, f] ! 2 = c\<lparr>op_data := imm\<rparr>"
  by (simp_all add: set_mem_def eval_nat_numeral)

lemma slot_operand_reg: "slot_operand call sl s (OReg r) = Some (OReg r)"
  by (simp add: slot_operand_def fix_mem_def op_new_def six_nth)

lemma slot_operand_cases:
  assumes "get_slot s sl = Some x"
  shows "slot_operand call sl s ONone = Some (OInt32 (below_frame (let sz = div4 (0 - slot_offset x) in if call then sz - 2 else sz)))"
    "slot_operand call sl s (OInt32 i) = Some (OInt32 (below_frame (let sz = div4 (- i - slot_offset x) in if call then sz - 2 else sz)))"
    "slot_operand call sl s (OInt64 j) = Some (OInt64 (below_frame (let sz = div4 (j - ucast (slot_offset x)) in if call then sz - 2 else sz)))"
  unfolding slot_operand_def fix_mem_def list.map op_new_def six_nth operand.select_convs operand_data.case prod.case
  by (simp_all add: assms six_nth Let_def del: One_nat_def)

lemma slot_operand_word:
  assumes "laid_out 0 (arena sl)" "s < length (arena sl)" "4 dvd slot_start (arena sl ! s)"
    and "4 dvd unat (slot_size (arena sl ! s))" "slot_end (arena sl ! s) + 8 < 2 ^ 31"
    and k: "4 * k < unat (slot_size (arena sl ! s))" and c: "c = (if call then 2 else 0)"
  shows "names_word m k \<Longrightarrow>
      Option.bind (slot_operand call sl s m) operand_int = Some (- int (slot_end (arena sl ! s) div 4 - k + c))"
    and "Option.bind (slot_address call sl s) operand_int = Some (- int (slot_end (arena sl ! s) div 4 + c))"
    and "slot_start (arena sl ! s) div 4 + c < slot_end (arena sl ! s) div 4 - k + c"
proof -
  let ?x = "arena sl ! s" let ?E = "slot_end ?x div 4"
  have e: "slot_end ?x = slot_start ?x + unat (slot_size ?x)" by (rule laid_out_nth(2) [OF assms(1,2)])
  then have E: "slot_end ?x = 4 * ?E" using assms(3,4) by (metis dvd_add dvd_mult_div_cancel)
  then have off: "slot_offset ?x = of_nat (4 * ?E)" by (simp add: slot_end_def)
  have kE: "k \<le> ?E" using k e E by linarith
  have "int (4 * ?E + 8) < int (2 ^ 31)" using E assms(5) by (simp only: of_nat_less_iff)
  then have bound: "4 * int ?E + 8 < 2 ^ 31" by simp
  then have bounds: "4 * int ?E + 8 < 2 ^ (LENGTH(32) - 1)" "4 * int ?E + 8 < 2 ^ (LENGTH(64) - 1)" by simp_all
  have g: "get_slot s sl = Some ?x" using assms(2) by (simp add: get_slot_def)
  have wide: "(ucast (slot_offset ?x) :: 64 word) = of_nat (4 * ?E)"
    unfolding off unsigned_of_nat by (subst take_bit_nat_eq_self) (use bound in simp_all)
  note arith = slot_word_arith [OF kE bounds(1) c] slot_word_arith [OF kE bounds(2) c]
  have none: "0 - slot_offset ?x = word_of_int (4 * int k - 4 * int ?E)" if "k = 0"
    using that unfolding off by simp
  have i32: "- (- of_nat (4 * k)) - slot_offset ?x = word_of_int (4 * int k - 4 * int ?E)"
    and i64: "of_nat (4 * k) - ucast (slot_offset ?x) = (word_of_int (4 * int k - 4 * int ?E) :: 64 word)"
    unfolding wide unfolding off by simp_all
  show "Option.bind (slot_operand call sl s m) operand_int = Some (- int (?E - k + c))" if "names_word m k"
    using that unfolding names_word_def
    by (elim disjE conjE) (simp_all only: slot_operand_cases [OF g] bind.simps operand_int_def operand_data.case
      arith(1) [OF none] arith(1) [OF i32] arith(2) [OF i64])
  have size: "sint (slot_offset ?x) = 4 * int ?E"
    unfolding off using sint_of_int_small [of "4 * int ?E", where 'w = 32] bound by simp
  have "div4 (slot_offset ?x) = of_nat ?E" unfolding div4_def size sdiv4 by simp
  moreover have "sint (word_of_int (- int (?E + c)) :: 32 word) = - int (?E + c)" "sint (word_of_int (int ?E) :: 32 word) = int ?E"
    by (rule sint_of_int_small32; use bound c in \<open>simp split: if_splits\<close>)+
  ultimately show "Option.bind (slot_address call sl s) operand_int = Some (- int (?E + c))"
    using c g by (auto simp: slot_address_def operand_int_def below_frame_def Let_def)
  show "slot_start ?x div 4 + c < ?E - k + c"
  proof -
    have "slot_start ?x = 4 * (slot_start ?x div 4)" using assms(3) by simp
    then show ?thesis using k e E by linarith
  qed
qed

subsection \<open>The properties\<close>

text \<open>The words that a function with calls keeps free for the return address and the caller's frame.\<close>

definition reserved_words :: "bool \<Rightarrow> nat" where
  "reserved_words call = (if call then 2 else 0)"

definition word_slots :: "slots \<Rightarrow> bool" where
  "word_slots sl \<longleftrightarrow> laid_out 0 (arena sl) \<and> (\<forall>x \<in> set (arena sl).
     4 dvd slot_start x \<and> 4 dvd unat (slot_size x) \<and> slot_end x + 8 < 2 ^ 31)"

definition slot_words :: "slots \<Rightarrow> nat \<Rightarrow> nat" where
  "slot_words sl s = unat (slot_size (arena sl ! s)) div 4"


lemma eliminate_all:
  "fold_opt (eliminate_at call sl) ks is = Some js \<Longrightarrow> distinct ks \<Longrightarrow> length js = length is
    \<and> (\<forall>k < length is. if k \<in> set ks then eliminate_in_inst call sl (in_data (is ! k)) = Some (in_data (js ! k)) else js ! k = is ! k)"
proof (induction ks arbitrary: "is")
  case (Cons j ks)
  obtain is1 where s: "eliminate_at call sl j is = Some is1" "fold_opt (eliminate_at call sl) ks is1 = Some js"
    using Cons.prems(1) by (auto elim!: bind_SomeE)
  obtain i where i: "j < length is" "eliminate_in_inst call sl (in_data (is ! j)) = Some i" "is1 = is[j := (is ! j)\<lparr>in_data := i\<rparr>]"
    using s(1) by (auto simp: eliminate_at_def elim!: bind_SomeE split: if_splits)
  have l1: "length is1 = length is" using i(3) by simp
  have IH: "length js = length is" "k < length is \<Longrightarrow> if k \<in> set ks then eliminate_in_inst call sl (in_data (is1 ! k)) = Some (in_data (js ! k)) else js ! k = is1 ! k" for k
    using Cons.IH [OF s(2)] Cons.prems(2) l1 by simp_all
  have "if k \<in> set (j # ks) then eliminate_in_inst call sl (in_data (is ! k)) = Some (in_data (js ! k)) else js ! k = is ! k"
    if "k < length is" for k
    using IH(2) [OF that] i Cons.prems(2) by (cases "k = j") (auto split: if_splits)
  then show ?case using IH(1) by blast
qed simp

lemma pick_filter: "[k. (k, i) \<leftarrow> xs, P i] = map fst (filter (\<lambda>i. P (snd i)) xs)"
  by (induction xs) auto

text \<open>
  C13: when the slot operands stand at their place in an address or at the end of an address computation,
  the pass leaves no slot operand in the code, and keeps the order of the instructions.
\<close>

theorem eliminate_slot_complete:
  assumes rep: "func_rep f bs g" and shaped: "\<forall>b \<in> set bs. \<forall>i \<in> set (g b). slot_shaped (inst_of f i)"
    and run: "eliminate_slot f = Some f'"
  shows "\<forall>b \<in> set bs. \<exists>c. block_code f' b = Some c \<and> map fst c = g b \<and> (\<forall>(k, i) \<in> set c. \<not> has_slot i)"
proof
  fix b assume b: "b \<in> set bs"
  let ?is = "instructions (f_data f)"
  obtain code call sl js where st: "func_code f = Some code"
    "fold_opt (eliminate_at call sl) (rev [k. (k, i) \<leftarrow> code_insts code, has_slot i]) ?is = Some js"
    "f' = f\<lparr>f_slots := sl, f_data := (f_data f)\<lparr>instructions := js\<rparr>\<rparr>"
    using run by (auto simp: eliminate_slot_def Let_def elim!: bind_SomeE)
  let ?work = "[k. (k, i) \<leftarrow> code_insts code, has_slot i]"
  have mem: "k \<in> set ?work \<longleftrightarrow> has_slot (inst_of f k)" if "k \<in> set (g b)" for k
    using st(1) b that unfolding func_rep_code(1) [OF rep] pick_filter by (force simp: code_insts_rep)
  have ids: "map fst (code_insts code) = map snd (all_insts bs g)"
    using st(1) unfolding func_rep_code(1) [OF rep] by (auto simp: code_insts_rep)
  have "distinct (map snd (all_insts bs g))"
    by (rule distinct_all_insts [of "f_layout f"]) (use rep in \<open>simp add: func_rep_def\<close>)
  then have "distinct (map fst (code_insts code))" unfolding ids .
  then have "distinct (rev ?work)" unfolding pick_filter by (simp add: distinct_map_filter)
  note all = eliminate_all [OF st(2) this]
  have bound: "k < length ?is" if "k \<in> set (g b)" for k using rep b that by (simp add: func_rep_def)
  have rep': "func_rep f' bs g" using rep all by (simp add: func_rep_def st(3))
  have "\<not> has_slot (inst_of f' k)" if k: "k \<in> set (g b)" for k
  proof (cases "has_slot (inst_of f k)")
    case True
    then have "eliminate_in_inst call sl (inst_of f k) = Some (inst_of f' k)"
      using all bound [OF k] mem [OF k] by (simp add: st(3) del: set_concat)
    then show ?thesis using eliminate_in_inst_no_slot shaped b k by blast
  next
    case False
    then show ?thesis using all bound [OF k] mem [OF k] by (simp add: st(3) del: set_concat)
  qed
  then show "\<exists>c. block_code f' b = Some c \<and> map fst c = g b \<and> (\<forall>(k, i) \<in> set c. \<not> has_slot i)"
    unfolding func_rep_code(2) [OF rep' b] by (auto simp: o_def)
qed

subsection \<open>Examples\<close>

definition slot_frame :: slots where
  "slot_frame = snd (add_slot I32 4 4 (snd (add_slot I32 8 4 new_slots)))"

definition slot_frame_placed :: slots where
  "slot_frame_placed = \<lparr>arena = [(arena slot_frame ! 0)\<lparr>slot_offset := 8\<rparr>, (arena slot_frame ! 1)\<lparr>slot_offset := 12\<rparr>], aligned_size = 0\<rparr>"


definition slot_blocks :: "(ir_block \<times> inst_data list) list" where
  "slot_blocks = [(\<lparr>ib_id = 0, ib_preds = [], ib_succs = []\<rparr>,
     [mk_inst MSTOREr ([op_new OMemStart, op_new ONone, op_new (OSlot 0), op_new (OInt32 (- 4)), op_in ONone, op_in ONone, op_new ONone, op_in (OReg (gr_reg R1))]),
      mk_inst ADDri [op_out (OReg (gr_reg R1)), op_new (OReg (gr_reg R9)), op_new (OSlot 1)],
      mk_inst RET []])]"

definition slot_function :: "mfunc option" where
  "slot_function = compile_function (new_types 0) False slot_frame new_vregs slot_blocks"

theorem eliminate_slot_complete_witness:
  "\<exists>f f' c. slot_function = Some f \<and> eliminate_slot f = Some f' \<and> block_code f' 0 = Some c
     \<and> list_all (\<lambda>i. \<not> has_slot (snd i)) c"
proof -
  have wf: "cfg_wf (map fst slot_blocks)" and one: "[0..<length slot_blocks] = [0]" by code_simp+
  obtain f g where f: "slot_function = Some f" "func_rep f [0] g"
    using compile_function_rep [OF wf] unfolding slot_function_def one by blast
  have "map_option (\<lambda>f. (map_option (\<lambda>c. list_all (\<lambda>i. slot_shaped (snd i)) (code_insts c)) (func_code f), eliminate_slot f \<noteq> None)) slot_function
      = Some (Some True, True)"
    by code_simp
  then obtain c f' where c: "func_code f = Some c" "list_all (\<lambda>i. slot_shaped (snd i)) (code_insts c)" "eliminate_slot f = Some f'"
    unfolding f(1) by auto
  show ?thesis using eliminate_slot_complete [OF f(2) func_rep_all [OF f(2) c(1,2)] c(3)] f(1) c(3) by (fastforce simp: list_all_iff)
qed

end
