(* ===== verification/Pro_Epi.thy ===== *)
theory Pro_Epi
  imports Eliminate_Slot
begin

section \<open>Prologue and epilogue\<close>

text \<open>
  Model of \<open>isa/ola/pass/pro_epi_inserter.rs\<close>.  The frame register \<open>r9\<close> is advanced by the
  size of the frame in words at the entry of the function and set back in front of every return; a
  function with calls stores the frame register of its caller first.
\<close>

definition roundup :: "32 word \<Rightarrow> 32 word \<Rightarrow> 32 word" where
  "roundup n align = and (n + align - 1) (not (align - 1))"

definition fp :: reg where
  "fp = gr_reg R9"

text \<open>The number of saved registers cancels out; with alignment one, \<open>roundup\<close> changes nothing.\<close>

definition frame_adjust :: "32 word \<Rightarrow> nat \<Rightarrow> 32 word" where
  "frame_adjust slot_sz saved = (let n = 1 + of_nat saved in
     div4 (roundup (slot_sz + n * 1 + 1) 1 - (n * 1 + 1)))"

definition save_caller :: inst_data where
  "save_caller = \<lparr>opcode = MSTOREr, operands = [op_out (OReg fp), op_in (OReg fp)]\<rparr>"

definition enter_frame :: "32 word \<Rightarrow> inst_data" where
  "enter_frame adj = \<lparr>opcode = ADDri, operands = [op_in_out (OReg fp), op_in_out (OReg fp), op_in (OInt32 adj)]\<rparr>"

definition leave_frame :: "32 word \<Rightarrow> inst_data" where
  "leave_frame adj = \<lparr>opcode = ADDri, operands = [op_out (OReg fp), op_in_out (OReg fp), op_in (OInt32 (- adj))]\<rparr>"

definition insert_at_entry :: "inst_data \<Rightarrow> nat \<Rightarrow> mdata \<times> layout \<Rightarrow> (mdata \<times> layout) option" where
  "insert_at_entry i b st = (case create_inst (new_instruction i b) (fst st) of (k, d) \<Rightarrow> do {
     l \<leftarrow> insert_inst_at_start k b (snd st);
     Some (d, l) })"

definition insert_epilogue :: "32 word \<Rightarrow> nat \<times> nat \<Rightarrow> mdata \<times> layout \<Rightarrow> (mdata \<times> layout) option" where
  "insert_epilogue adj br st = (case create_inst (new_instruction (leave_frame adj) (fst br)) (fst st) of (k, d) \<Rightarrow> do {
     l \<leftarrow> insert_inst_before (snd br) k (fst br) (snd st);
     Some (d, l) })"

definition returns :: "(nat \<times> (nat \<times> inst_data) list) list \<Rightarrow> (nat \<times> nat) list" where
  "returns code = concat (map (\<lambda>bc. [(fst bc, k). (k, i) \<leftarrow> snd bc, opcode i = RET]) code)"

definition pro_epi :: "mfunc \<Rightarrow> mfunc option" where
  "pro_epi f =
     (if is_declaration f then Some f
      else do {
        (slot_sz, sl) \<leftarrow> ensure_computed_offsets (f_slots f);
        let adj = frame_adjust slot_sz (card (used_csr (f_data f)));
        entry \<leftarrow> first_block (f_layout f);
        code \<leftarrow> func_code f;
        st \<leftarrow> (if has_call code then insert_at_entry save_caller entry (f_data f, f_layout f) else Some (f_data f, f_layout f));
        st \<leftarrow> (if sint adj > 0 then insert_at_entry (enter_frame adj) entry st else Some st);
        code \<leftarrow> func_code (f\<lparr>f_data := fst st, f_layout := snd st\<rparr>);
        (d, l) \<leftarrow> (if sint adj > 0 then fold_opt (insert_epilogue adj) (returns code) st else Some st);
        Some (f\<lparr>f_slots := sl, f_data := d, f_layout := l\<rparr>) })"

subsection \<open>The size of the adjustment\<close>

lemma roundup_one: "roundup n 1 = n"
  by (simp add: roundup_def)

lemma frame_adjust_size:
  assumes "unat s < 2 ^ 31"
  shows "sint (frame_adjust s n) = int (unat s div 4)"
proof -
  have u: "int (unat s) = uint s" by simp
  have "sint (word_of_int (uint s) :: 32 word) = uint s"
  proof (rule sint_of_int_small32)
    have "int (unat s) < int (2 ^ 31)" using assms by (simp only: of_nat_less_iff)
    then show "uint s < 2 ^ 31" unfolding u by simp
  qed (rule order_trans [of _ 0], simp_all)
  then have "sint s = int (unat s)" by simp
  have "frame_adjust s n = div4 s" by (simp add: frame_adjust_def Let_def roundup_one)
  also have "\<dots> = word_of_int (int (unat s) sdiv 4)"
    using \<open>sint s = int (unat s)\<close> by (simp only: div4_def)
  also have "int (unat s) sdiv 4 = int (unat s div 4)"
    by (simp add: signed_divide_int_def sgn_if zdiv_int)
  finally have adj: "frame_adjust s n = word_of_int (int (unat s div 4))" .
  show ?thesis
    unfolding adj
  proof (rule sint_of_int_small32)
    have "unat s div 4 < 2 ^ 31" using assms by linarith
    then have "int (unat s div 4) < int (2 ^ 31)" by (simp only: of_nat_less_iff)
    then show "int (unat s div 4) < 2 ^ 31" by simp
  qed simp
qed

subsection \<open>The code of the blocks\<close>

text \<open>A layout of existing instructions, as the two insertions need it.\<close>

definition placed :: "mdata \<times> layout \<Rightarrow> nat list \<Rightarrow> (nat \<Rightarrow> nat list) \<Rightarrow> bool" where
  "placed st bs g \<longleftrightarrow> layout_rep (snd st) bs g \<and> dom (insts (snd st)) \<subseteq> {..<length (instructions (fst st))}"

abbreviation data_at :: "mdata \<times> layout \<Rightarrow> nat \<Rightarrow> inst_data" where
  "data_at st i \<equiv> in_data (instructions (fst st) ! i)"

lemma placed_bound: "placed st bs g \<Longrightarrow> b \<in> set bs \<Longrightarrow> i \<in> set (g b) \<Longrightarrow> i < length (instructions (fst st))"
  using layout_rep_memberD unfolding placed_def by blast

lemma placed_code:
  assumes "placed (d, l) bs g"
  shows "func_rep (f\<lparr>f_data := d, f_layout := l\<rparr>) bs g"
  using placed_bound [OF assms] assms by (simp add: func_rep_def placed_def)

lemma insert_at_entry_code:
  assumes p: "placed st bs g" and b: "b \<in> set bs"
  shows "\<exists>st'. insert_at_entry i b st = Some st' \<and> placed st' bs (g(b := length (instructions (fst st)) # g b))
    \<and> data_at st' (length (instructions (fst st))) = i
    \<and> (\<forall>k < length (instructions (fst st)). data_at st' k = data_at st k)"
proof -
  let ?n = "length (instructions (fst st))"
  define d where "d = snd (create_inst (new_instruction i b) (fst st))"
  have d: "create_inst (new_instruction i b) (fst st) = (?n, d)"
    "instructions d = instructions (fst st) @ [(new_instruction i b)\<lparr>in_id := Some ?n\<rparr>]"
    unfolding d_def by (simp_all add: create_inst_def Let_def)
  have l: "layout_rep (snd st) bs g" and dm: "dom (insts (snd st)) \<subseteq> {..<?n}" using p by (simp_all add: placed_def)
  have fresh: "insts (snd st) ?n = None" using dm by auto
  obtain l' where l': "insert_inst_at_start ?n b (snd st) = Some l'" "layout_rep l' bs (g(b := ?n # g b))"
    using insert_inst_at_start_refines [OF l b fresh] by blast
  have dom': "dom (insts l') \<subseteq> {..<length (instructions d)}"
    using insert_inst_at_start_dom [OF l'(1)] dm d(2) by auto
  have "insert_at_entry i b st = Some (d, l')" using d(1) l'(1) by (simp add: insert_at_entry_def)
  moreover have "placed (d, l') bs (g(b := ?n # g b))" using l'(2) dom' by (simp add: placed_def)
  ultimately show ?thesis using d(2) by (intro exI [of _ "(d, l')"]) (simp add: nth_append new_instruction_def)
qed

text \<open>The epilogues, in front of the chosen instructions.\<close>

definition with_epilogues :: "32 word \<Rightarrow> (nat \<times> nat) set \<Rightarrow> nat \<Rightarrow> (nat \<Rightarrow> inst_data) \<Rightarrow> nat list \<Rightarrow> inst_data list" where
  "with_epilogues adj R b h is = concat (map (\<lambda>i. (if (b, i) \<in> R then [leave_frame adj] else []) @ [h i]) is)"

lemma with_epilogues_append:
  "with_epilogues adj R b h (xs @ ys) = with_epilogues adj R b h xs @ with_epilogues adj R b h ys"
  by (simp add: with_epilogues_def)

lemma with_epilogues_cong:
  "(\<And>i. i \<in> set is \<Longrightarrow> ((b, i) \<in> R \<longleftrightarrow> (b, i) \<in> S) \<and> h i = h' i) \<Longrightarrow> with_epilogues adj R b h is = with_epilogues adj S b h' is"
  unfolding with_epilogues_def by (intro arg_cong [where f = concat] map_cong) auto

lemma insert_epilogues_code:
  assumes "placed st bs g" "distinct rs" "\<forall>(b, r) \<in> set rs. b \<in> set bs \<and> r \<in> set (g b)"
  shows "\<exists>st' h. fold_opt (insert_epilogue adj) rs st = Some st' \<and> placed st' bs h
    \<and> (\<forall>b \<in> set bs. map (data_at st') (h b) = with_epilogues adj (set rs) b (data_at st) (g b))
    \<and> (\<forall>k < length (instructions (fst st)). data_at st' k = data_at st k)"
  using assms
proof (induction rs arbitrary: st g)
  case Nil
  then show ?case by (intro exI [of _ st] exI [of _ g]) (simp add: with_epilogues_def)
next
  case (Cons br rs)
  obtain b r where br: "br = (b, r)" by (cases br)
  let ?n = "length (instructions (fst st))"
  have b: "b \<in> set bs" and r: "r \<in> set (g b)" using Cons.prems(3) br by auto
  define d where "d = snd (create_inst (new_instruction (leave_frame adj) b) (fst st))"
  have d: "create_inst (new_instruction (leave_frame adj) b) (fst st) = (?n, d)"
    "instructions d = instructions (fst st) @ [(new_instruction (leave_frame adj) b)\<lparr>in_id := Some ?n\<rparr>]"
    unfolding d_def by (simp_all add: create_inst_def Let_def)
  have l: "layout_rep (snd st) bs g" and dm: "dom (insts (snd st)) \<subseteq> {..<?n}" using Cons.prems(1) by (simp_all add: placed_def)
  have fresh: "fresh_inst (snd st) ?n" using dm by (auto simp: fresh_inst_def)
  obtain ys zs where yz: "g b = ys @ r # zs" using split_list [OF r] by blast
  have dist: "distinct (g b)" by (rule lay.rep_distinct [OF l b])
  let ?g = "g(b := ys @ ?n # r # zs)"
  obtain l' where l': "insert_inst_before r ?n b (snd st) = Some l'" "layout_rep l' bs ?g"
    using edit.ins_before_rep [OF l b fresh yz] by blast
  have "dom (insts l') \<subseteq> {..<length (instructions d)}"
    using insert_inst_before_dom [OF l'(1)] dm d(2) by auto
  then have p': "placed (d, l') bs ?g" using l'(2) by (simp add: placed_def)
  have mem: "\<forall>(c, i) \<in> set rs. c \<in> set bs \<and> i \<in> set (?g c)"
  proof (clarify, rule conjI)
    fix c i assume "(c, i) \<in> set rs"
    then have "c \<in> set bs" "i \<in> set (g c)" using Cons.prems(3) by auto
    then show "c \<in> set bs" "i \<in> set (?g c)" using yz by auto
  qed
  have new: "(c, ?n) \<notin> set rs" for c
    using Cons.prems(3) placed_bound [OF Cons.prems(1)] by fastforce
  obtain st' h where IH: "fold_opt (insert_epilogue adj) rs (d, l') = Some st'" "placed st' bs h"
    "\<forall>c \<in> set bs. map (data_at st') (h c) = with_epilogues adj (set rs) c (data_at (d, l')) (?g c)"
    "\<forall>k < length (instructions d). data_at st' k = data_at (d, l') k"
    using Cons.IH [OF p' _ mem] Cons.prems(2) by auto
  have step: "insert_epilogue adj br st = Some (d, l')" using d(1) l'(1) br by (simp add: insert_epilogue_def)
  have old: "data_at (d, l') k = data_at st k" if "k < ?n" for k using d(2) that by (simp add: nth_append)
  have at_n: "data_at (d, l') ?n = leave_frame adj" using d(2) by (simp add: new_instruction_def)
  have "map (data_at st') (h c) = with_epilogues adj (set (br # rs)) c (data_at st) (g c)" if c: "c \<in> set bs" for c
  proof -
    have bound: "i < ?n" if "i \<in> set (g c)" for i by (rule placed_bound [OF Cons.prems(1) c that])
    show ?thesis
    proof (cases "c = b")
      case False
      then have "map (data_at st') (h c) = with_epilogues adj (set rs) c (data_at (d, l')) (g c)"
        using IH(3) c by simp
      also have "\<dots> = with_epilogues adj (set (br # rs)) c (data_at st) (g c)"
        by (rule with_epilogues_cong) (use False br old bound in auto)
      finally show ?thesis .
    next
      case True
      have side: "with_epilogues adj (set rs) b (data_at (d, l')) is = with_epilogues adj (set (br # rs)) b (data_at st) is"
        if "set is \<subseteq> set ys \<union> set zs" for "is"
        by (rule with_epilogues_cong) (use that br old bound dist yz True in auto)
      have "map (data_at st') (h c) = with_epilogues adj (set rs) b (data_at (d, l')) (ys @ ?n # r # zs)"
        using IH(3) c True by simp
      also have "\<dots> = with_epilogues adj (set rs) b (data_at (d, l')) ys @ [leave_frame adj, data_at st r] @ with_epilogues adj (set rs) b (data_at (d, l')) zs"
        using new [of b] at_n old [OF bound [of r]] Cons.prems(2) br yz True
        by (simp add: with_epilogues_def)
      also have "\<dots> = with_epilogues adj (set (br # rs)) b (data_at st) (ys @ r # zs)"
        using side [of ys] side [of zs] br by (simp add: with_epilogues_append) (simp add: with_epilogues_def)
      finally show ?thesis using yz True by simp
    qed
  qed
  moreover have "\<forall>k < ?n. data_at st' k = data_at st k" using IH(4) old d(2) by simp
  ultimately show ?case using step IH(1,2) by auto
qed

subsection \<open>The pass\<close>

definition prologue :: "32 word \<Rightarrow> bool \<Rightarrow> inst_data list" where
  "prologue adj call = (if sint adj > 0 then [enter_frame adj] else []) @ (if call then [save_caller] else [])"

definition epilogue :: "32 word \<Rightarrow> inst_data \<Rightarrow> inst_data list" where
  "epilogue adj i = (if sint adj > 0 \<and> opcode i = RET then [leave_frame adj] else [])"

lemma pick_pairs: "concat (map (\<lambda>x. if P x then [(b, x)] else []) is) = map (Pair b) (filter P is)"
  by (induction "is") auto

lemma returns_code:
  assumes "code = map (\<lambda>b. (b, map (\<lambda>i. (i, h i)) (g b))) bs"
  shows "set (returns code) = {(b, i). b \<in> set bs \<and> i \<in> set (g b) \<and> opcode (h i) = RET}"
    and "distinct bs \<Longrightarrow> \<forall>b \<in> set bs. distinct (g b) \<Longrightarrow> distinct (returns code)"
proof -
  have r: "returns code = concat (map (\<lambda>b. map (Pair b) (filter (\<lambda>i. opcode (h i) = RET) (g b))) bs)"
    unfolding assms returns_def by (simp add: o_def pick_pairs)
  show "set (returns code) = {(b, i). b \<in> set bs \<and> i \<in> set (g b) \<and> opcode (h i) = RET}"
    unfolding r by auto
  show "distinct (returns code)" if "distinct bs" "\<forall>b \<in> set bs. distinct (g b)"
    unfolding r using that by (induction bs) (auto simp: distinct_map inj_on_def)
qed

text \<open>The entry of the function after the prologue has been inserted.\<close>

lemma prologue_code:
  assumes p: "placed st (e # bs) g"
  shows "\<exists>st1 st2 g'. (if call then insert_at_entry save_caller e st else Some st) = Some st1
    \<and> (if sint adj > 0 then insert_at_entry (enter_frame adj) e st1 else Some st1) = Some st2
    \<and> placed st2 (e # bs) g' \<and> (\<forall>b \<in> set (e # bs). map (data_at st2) (g' b) = (if b = e then prologue adj call else []) @ map (data_at st) (g b))"
proof -
  obtain st1 g1 where 1: "(if call then insert_at_entry save_caller e st else Some st) = Some st1" "placed st1 (e # bs) g1"
    "\<forall>b \<in> set (e # bs). map (data_at st1) (g1 b) = (if b = e \<and> call then [save_caller] else []) @ map (data_at st) (g b)"
  proof (cases call)
    case True
    obtain st' where st': "insert_at_entry save_caller e st = Some st'" "placed st' (e # bs) (g(e := length (instructions (fst st)) # g e))"
      "data_at st' (length (instructions (fst st))) = save_caller" "\<forall>k < length (instructions (fst st)). data_at st' k = data_at st k"
      using insert_at_entry_code [OF p, of e save_caller] by auto
    show ?thesis
      by (rule that [of st' "g(e := length (instructions (fst st)) # g e)"]) (use st' True placed_bound [OF p] in auto)
  qed (use that [of st g] p in simp)
  show ?thesis
  proof (cases "sint adj > 0")
    case True
    obtain st' where st': "insert_at_entry (enter_frame adj) e st1 = Some st'" "placed st' (e # bs) (g1(e := length (instructions (fst st1)) # g1 e))"
      "data_at st' (length (instructions (fst st1))) = enter_frame adj" "\<forall>k < length (instructions (fst st1)). data_at st' k = data_at st1 k"
      using insert_at_entry_code [OF 1(2), of e "enter_frame adj"] by auto
    have "map (data_at st') (g1 b) = map (data_at st1) (g1 b)" if "b \<in> set (e # bs)" for b
      using st'(4) placed_bound [OF 1(2) that] by simp
    then show ?thesis
      using 1 st' True by (intro exI [of _ st1] exI [of _ st'] exI [of _ "g1(e := length (instructions (fst st1)) # g1 e)"]) (simp add: prologue_def)
  next
    case False
    then show ?thesis using 1 by (intro exI [of _ st1] exI [of _ g1]) (simp add: prologue_def)
  qed
qed

text \<open>
  C14: in a function with a body whose frame is smaller than \<open>2^31\<close> bytes, the pass advances the
  frame register at the entry by the number of words of the frame, stores the caller's frame register
  there exactly if the function has a call, sets the frame register back by the same amount directly in
  front of every return, and changes nothing else.
\<close>

theorem pro_epi_code:
  assumes rep: "func_rep f (e # bs) g" "dom (insts (f_layout f)) \<subseteq> {..<length (instructions (f_data f))}"
    and decl: "\<not> is_declaration f" and slots: "ensure_computed_offsets (f_slots f) = Some (tot, sl)" "unat tot < 2 ^ 31"
    and code: "func_code f = Some code"
  shows "\<exists>f' adj. pro_epi f = Some f' \<and> sint adj = int (unat tot div 4) \<and> (\<forall>b \<in> set (e # bs). \<exists>c c'.
      block_code f b = Some c \<and> block_code f' b = Some c'
      \<and> map snd c' = (if b = e then prologue adj (has_call code) else []) @ concat (map (\<lambda>i. epilogue adj i @ [i]) (map snd c)))"
proof -
  let ?adj = "frame_adjust tot (card (used_csr (f_data f)))" and ?st = "(f_data f, f_layout f)"
  have size: "sint ?adj = int (unat tot div 4)" by (rule frame_adjust_size [OF slots(2)])
  have p: "placed ?st (e # bs) g" using rep by (simp add: placed_def func_rep_def)
  have entry: "first_block (f_layout f) = Some e" using rep(1) by (simp add: func_rep_def layout_rep_def)
  obtain st1 st2 g2 where pro: "(if has_call code then insert_at_entry save_caller e ?st else Some ?st) = Some st1"
    "(if sint ?adj > 0 then insert_at_entry (enter_frame ?adj) e st1 else Some st1) = Some st2" "placed st2 (e # bs) g2"
    "\<forall>b \<in> set (e # bs). map (data_at st2) (g2 b) = (if b = e then prologue ?adj (has_call code) else []) @ map (inst_of f) (g b)"
    using prologue_code [OF p, of "has_call code" ?adj] by auto
  let ?f2 = "f\<lparr>f_data := fst st2, f_layout := snd st2\<rparr>"
  have rep2: "func_rep ?f2 (e # bs) g2" using placed_code [of "fst st2" "snd st2"] pro(3) by simp
  obtain code2 where code2: "func_code ?f2 = Some code2" "code2 = map (\<lambda>b. (b, map (\<lambda>i. (i, data_at st2 i)) (g2 b))) (e # bs)"
    using func_rep_code(1) [OF rep2] by simp
  have l2: "layout_rep (snd st2) (e # bs) g2" using pro(3) by (simp add: placed_def)
  note ret = returns_code [OF code2(2)]
  have dist: "distinct (returns code2)"
    using ret(2) l2 lay.rep_distinct [OF l2] by (auto simp: layout_rep_def)
  obtain st3 g3 where epi: "(if sint ?adj > 0 then fold_opt (insert_epilogue ?adj) (returns code2) st2 else Some st2) = Some st3"
    "placed st3 (e # bs) g3" "\<forall>b \<in> set (e # bs). map (data_at st3) (g3 b) = concat (map (\<lambda>i. epilogue ?adj i @ [i]) (map (data_at st2) (g2 b)))"
  proof (cases "sint ?adj > 0")
    case True
    have mem: "\<forall>(b, r) \<in> set (returns code2). b \<in> set (e # bs) \<and> r \<in> set (g2 b)" unfolding ret(1) by simp
    obtain st3 g3 where s3: "fold_opt (insert_epilogue ?adj) (returns code2) st2 = Some st3" "placed st3 (e # bs) g3"
      "\<forall>b \<in> set (e # bs). map (data_at st3) (g3 b) = with_epilogues ?adj (set (returns code2)) b (data_at st2) (g2 b)"
      using insert_epilogues_code [OF pro(3) dist mem] by blast
    have "with_epilogues ?adj (set (returns code2)) b (data_at st2) (g2 b) = concat (map (\<lambda>i. epilogue ?adj i @ [i]) (map (data_at st2) (g2 b)))"
      if "b \<in> set (e # bs)" for b
      unfolding with_epilogues_def ret(1) map_map o_def epilogue_def using that True
      by (intro arg_cong [where f = concat] map_cong) auto
    then show ?thesis using that [of st3 g3] s3 True by simp
  next
    case False
    have none: "concat (map (\<lambda>i. epilogue ?adj i @ [i]) xs) = xs" for xs
      by (induction xs) (use False in \<open>simp_all add: epilogue_def\<close>)
    show ?thesis
    proof (rule that [of st2 g2])
      show "(if sint ?adj > 0 then fold_opt (insert_epilogue ?adj) (returns code2) st2 else Some st2) = Some st2"
        using False by simp
      show "\<forall>b \<in> set (e # bs). map (data_at st2) (g2 b) = concat (map (\<lambda>i. epilogue ?adj i @ [i]) (map (data_at st2) (g2 b)))"
        unfolding none by blast
    qed (rule pro(3))
  qed
  let ?f3 = "f\<lparr>f_slots := sl, f_data := fst st3, f_layout := snd st3\<rparr>"
  have rep3: "func_rep ?f3 (e # bs) g3" using placed_bound [OF epi(2)] epi(2) by (simp add: func_rep_def placed_def)
  have run: "pro_epi f = Some ?f3"
    unfolding pro_epi_def Let_def case_prod_unfold
    by (simp only: decl if_False slots(1) bind.simps fst_conv snd_conv entry code pro(1,2) code2(1) epi(1))
  have saves: "epilogue adj i = []" if "i \<in> set (prologue adj' call)" for adj adj' call i
    using that by (auto simp: prologue_def epilogue_def enter_frame_def save_caller_def split: if_splits)
  have "\<exists>c c'. block_code f b = Some c \<and> block_code ?f3 b = Some c'
      \<and> map snd c' = (if b = e then prologue ?adj (has_call code) else []) @ concat (map (\<lambda>i. epilogue ?adj i @ [i]) (map snd c))"
    if b: "b \<in> set (e # bs)" for b
  proof -
    have keep: "concat (map (\<lambda>i. epilogue ?adj i @ [i]) xs) = xs" if "set xs \<subseteq> set (prologue ?adj (has_call code))" for xs
      using that saves by (induction xs) auto
    have "map (data_at st3) (g3 b) = (if b = e then prologue ?adj (has_call code) else []) @ concat (map (\<lambda>i. epilogue ?adj i @ [i]) (map (inst_of f) (g b)))"
      unfolding bspec [OF epi(3) b] bspec [OF pro(4) b] map_append concat_append
      by (subst keep) auto
    then show ?thesis
      unfolding func_rep_code(2) [OF rep(1) b] func_rep_code(2) [OF rep3 b] by (simp add: o_def)
  qed
  then show ?thesis using run size by blast
qed

definition frame_blocks :: "(ir_block \<times> inst_data list) list" where
  "frame_blocks = [(\<lparr>ib_id = 0, ib_preds = [], ib_succs = []\<rparr>,
     [mk_inst CALL [op_new (OLabel ''f'')], mk_inst RET []])]"

definition frame_function :: "mfunc option" where
  "frame_function = compile_function (new_types 0) False slot_frame new_vregs frame_blocks"

theorem pro_epi_code_witness:
  "\<exists>f f' adj c'. frame_function = Some f \<and> pro_epi f = Some f' \<and> sint adj = 3 \<and> block_code f' 0 = Some c'
     \<and> map snd c' = [enter_frame adj, save_caller, mk_inst CALL [op_new (OLabel ''f'')], leave_frame adj, mk_inst RET []]"
proof -
  have wf: "cfg_wf (map fst frame_blocks)" and one: "[0..<length frame_blocks] = [0]" by code_simp+
  obtain f g where f: "frame_function = Some f" "layout_rep (f_layout f) [0] g"
    "dom (insts (f_layout f)) \<subseteq> {..<length (instructions (f_data f))}"
    using compile_function_correct [OF wf, of "new_types 0" False slot_frame new_vregs] unfolding frame_function_def one by blast
  have rep: "func_rep f [0] g"
    unfolding func_rep_def using f(2,3) layout_rep_memberD [OF f(2)] by blast
  have "map_option (\<lambda>f. (is_declaration f, map_option fst (ensure_computed_offsets (f_slots f)), map_option has_call (func_code f),
      map_option (map snd) (block_code f 0))) frame_function
    = Some (False, Some 12, Some True, Some [mk_inst CALL [op_new (OLabel ''f'')], mk_inst RET []])"
    by code_simp
  then obtain sl code where e: "\<not> is_declaration f" "ensure_computed_offsets (f_slots f) = Some (12, sl)" "func_code f = Some code" "has_call code"
    "map_option (map snd) (block_code f 0) = Some [mk_inst CALL [op_new (OLabel ''f'')], mk_inst RET []]"
    unfolding f(1) by auto
  obtain f' adj c c' where r: "pro_epi f = Some f'" "sint adj = int (unat (12 :: 32 word) div 4)" "block_code f 0 = Some c" "block_code f' 0 = Some c'"
    "map snd c' = prologue adj True @ concat (map (\<lambda>i. epilogue adj i @ [i]) (map snd c))"
    using pro_epi_code [OF rep f(3) e(1,2) _ e(3)] e(4) by auto
  have "sint adj = 3" using r(2) by simp
  moreover have "map snd c' = [enter_frame adj, save_caller, mk_inst CALL [op_new (OLabel ''f'')], leave_frame adj, mk_inst RET []]"
  proof -
    have "map snd c = [mk_inst CALL [op_new (OLabel ''f'')], mk_inst RET []]" using r(3) e(5) by simp
    then show ?thesis using \<open>sint adj = 3\<close> unfolding r(5) by (simp add: prologue_def epilogue_def mk_inst_def)
  qed
  ultimately show ?thesis using f(1) r(1,4) by (intro exI [of _ f] exI [of _ f'] exI [of _ adj] exI [of _ c']) simp
qed

end
