(* ===== verification/Sema_Ty.thy ===== *)
theory Sema_Ty
  imports Prelude
begin

section \<open>The types of the language\<close>

text \<open>
  Model of \<open>Type\<close> and \<open>ArrayLength\<close> in \<open>src/sema/ast.rs\<close>.  A number of a structure,
  an enum, a contract or a user type is an index into the vectors of the namespace.
\<close>

datatype array_length = Fixed int | Dynamic | AnyFixed

text \<open>The names of the key and the value of a mapping are not compared and are left out.\<close>

datatype (plugins only: code size) sty =
    TBool
  | TUint nat
  | TAddress
  | THash
  | TField
  | TDynamicBytes
  | TString
  | TArray sty "array_length list"
  | TEnum nat
  | TStruct nat
  | TMapping sty sty
  | TContract nat
  | TRef sty
  | TStorageRef sty
  | TFunction "sty list" "sty list"
  | TExternalFunction "sty list" "sty list"
  | TUserType nat
  | TVoid
  | TUnreachable
  | TSlice sty
  | TUnresolved
  | TBufferPointer

definition fixed_length :: "array_length \<Rightarrow> int option" where
  "fixed_length d = (case d of Fixed n \<Rightarrow> Some n | _ \<Rightarrow> None)"

definition get_type_size :: "sty \<Rightarrow> nat option" where
  "get_type_size t = (case t of TUint n \<Rightarrow> Some n | TField \<Rightarrow> Some 64 | TBool \<Rightarrow> Some 1 | _ \<Rightarrow> None)"

end
