(* ===== verification/Diagnostics.thy ===== *)
theory Diagnostics
  imports Sema_Ty
begin

section \<open>Locations and diagnostics\<close>

text \<open>
  Model of the source locations (\<open>ola-parser/src/program.rs\<close>), of one diagnostic
  (\<open>ola-parser/src/diagnostics.rs\<close>) and of the collection of diagnostics of a compilation
  (\<open>sema/diagnostics.rs\<close>; its printing functions and the order of \<open>sort_and_dedup\<close> are left
  out).  The text of a message is kept as a constructor with the values that are formatted into it.
\<close>

subsection \<open>Locations\<close>

datatype loc = Builtin | CommandLine | Implicit | IRgen | File nat nat nat

fun begin_range :: "loc \<Rightarrow> loc" where
  "begin_range (File n s e) = File n s s"
| "begin_range l = l"

fun end_range :: "loc \<Rightarrow> loc" where
  "end_range (File n s e) = File n e e"
| "end_range l = l"

fun try_file_no :: "loc \<Rightarrow> nat option" where
  "try_file_no (File n s e) = Some n"
| "try_file_no l = None"

fun loc_start :: "loc \<Rightarrow> nat option" where
  "loc_start (File n s e) = Some s"
| "loc_start l = None"

fun loc_end :: "loc \<Rightarrow> nat option" where
  "loc_end (File n s e) = Some e"
| "loc_end l = None"

fun use_end_from :: "loc \<Rightarrow> loc \<Rightarrow> loc option" where
  "use_end_from (File n s e) (File n' s' e') = Some (File n s e')"
| "use_end_from l l' = None"

fun use_start_from :: "loc \<Rightarrow> loc \<Rightarrow> loc option" where
  "use_start_from (File n s e) (File n' s' e') = Some (File n s' e)"
| "use_start_from l l' = None"

subsection \<open>One diagnostic\<close>

datatype level = Debug | Info | Warning | Error

datatype error_type = NoType | ParserError | SyntaxError | DeclarationError | CastError | TypeError | WarningType

text \<open>
  \<open>Format\<close> is a text with its arguments, like the macro \<open>format!\<close>; the quotation marks around an
  argument are left out.
\<close>

datatype message_argument = AStr string | ANum int | ATy sty

datatype (plugins only: code size) message =
    DivideByZero | NegativeExponent | CannotLeftShift int | CannotRightShift int | NotConstant
  | PowerNotPossible int | LeftShiftNotPossible int | LeftShiftMayOverflow int | RightShiftNotPossible int
  | NegativeValue | DoesNotFit int nat | ExceedsField int
  | AlreadyDeclared string | AlreadyUsed string | PreviousDeclaration | FoundPrevious
  | ShadowsBuiltin string | AlreadyDefined string string | PreviousDefinition
  | ShadowsCorelib string | Shadows string string | PreviousOf string
  | NotFound string | IsA string string | TypeNotFound string
  | ZeroSizeArray | NegativeSizeArray | DimensionTooLarge int | NotANumber
  | MappingKey string | ExpressionFound
  | ConversionNotPossible sty sty | WouldTruncate sty sty | CannotConvert sty sty | ImplicitNotAllowed sty sty
  | TypeNotAllowed sty | ExpectedInteger sty | TooLarge int
  | Text string | Format string "message_argument list"

record diagnostic =
  dg_loc :: loc
  dg_level :: level
  dg_type :: error_type
  dg_message :: message
  dg_notes :: "(loc \<times> message) list"

definition diag_of :: "level \<Rightarrow> error_type \<Rightarrow> loc \<Rightarrow> message \<Rightarrow> (loc \<times> message) list \<Rightarrow> diagnostic" where
  "diag_of lv ty l m ns = \<lparr>dg_loc = l, dg_level = lv, dg_type = ty, dg_message = m, dg_notes = ns\<rparr>"

definition diag_debug :: "loc \<Rightarrow> message \<Rightarrow> diagnostic" where
  "diag_debug l m = diag_of Debug NoType l m []"

definition diag_info :: "loc \<Rightarrow> message \<Rightarrow> diagnostic" where
  "diag_info l m = diag_of Info NoType l m []"

definition diag_parser_error :: "loc \<Rightarrow> message \<Rightarrow> diagnostic" where
  "diag_parser_error l m = diag_of Error ParserError l m []"

definition diag_error :: "loc \<Rightarrow> message \<Rightarrow> diagnostic" where
  "diag_error l m = diag_of Error SyntaxError l m []"

definition diag_decl_error :: "loc \<Rightarrow> message \<Rightarrow> diagnostic" where
  "diag_decl_error l m = diag_of Error DeclarationError l m []"

definition diag_cast_error :: "loc \<Rightarrow> message \<Rightarrow> diagnostic" where
  "diag_cast_error l m = diag_of Error CastError l m []"

definition diag_cast_error_with_note :: "loc \<Rightarrow> message \<Rightarrow> loc \<Rightarrow> message \<Rightarrow> diagnostic" where
  "diag_cast_error_with_note l m nl n = diag_of Error CastError l m [(nl, n)]"

definition diag_type_error :: "loc \<Rightarrow> message \<Rightarrow> diagnostic" where
  "diag_type_error l m = diag_of Error TypeError l m []"

definition diag_cast_warning :: "loc \<Rightarrow> message \<Rightarrow> diagnostic" where
  "diag_cast_warning l m = diag_of Warning CastError l m []"

definition diag_warning :: "loc \<Rightarrow> message \<Rightarrow> diagnostic" where
  "diag_warning l m = diag_of Warning WarningType l m []"

definition diag_warning_with_notes :: "loc \<Rightarrow> message \<Rightarrow> (loc \<times> message) list \<Rightarrow> diagnostic" where
  "diag_warning_with_notes l m ns = diag_of Warning WarningType l m ns"

definition diag_error_with_note :: "loc \<Rightarrow> message \<Rightarrow> loc \<Rightarrow> message \<Rightarrow> diagnostic" where
  "diag_error_with_note l m nl n = diag_of Error NoType l m [(nl, n)]"

definition diag_error_with_notes :: "loc \<Rightarrow> message \<Rightarrow> (loc \<times> message) list \<Rightarrow> diagnostic" where
  "diag_error_with_notes l m ns = diag_of Error NoType l m ns"

lemmas diag_defs = diag_of_def diag_debug_def diag_info_def diag_parser_error_def diag_error_def
  diag_decl_error_def diag_cast_error_def diag_cast_error_with_note_def diag_type_error_def
  diag_cast_warning_def diag_warning_def diag_warning_with_notes_def diag_error_with_note_def
  diag_error_with_notes_def

subsection \<open>The collection\<close>

record diagnostics =
  contents :: "diagnostic list"
  has_error :: bool

definition no_diagnostics :: diagnostics where
  "no_diagnostics = \<lparr>contents = [], has_error = False\<rparr>"

definition is_error :: "diagnostic \<Rightarrow> bool" where
  "is_error m \<longleftrightarrow> dg_level m = Error"

definition any_errors :: "diagnostics \<Rightarrow> bool" where
  "any_errors d = has_error d"

definition push_diag :: "diagnostic \<Rightarrow> diagnostics \<Rightarrow> diagnostics" where
  "push_diag x d =
    (let d = (if is_error x then d\<lparr>has_error := True\<rparr> else d)
     in d\<lparr>contents := contents d @ [x]\<rparr>)"

definition extend_diags :: "diagnostics \<Rightarrow> diagnostics \<Rightarrow> diagnostics" where
  "extend_diags d new =
    d\<lparr>has_error := has_error d \<or> has_error new, contents := contents d @ contents new\<rparr>"

definition append_diags :: "diagnostics \<Rightarrow> diagnostic list \<Rightarrow> diagnostics" where
  "append_diags d new =
    (let d = (if \<not> has_error d then d\<lparr>has_error := list_ex is_error new\<rparr> else d)
     in d\<lparr>contents := contents d @ new\<rparr>)"

definition extend_non_casting :: "diagnostics \<Rightarrow> diagnostics \<Rightarrow> bool \<times> diagnostics" where
  "extend_non_casting d other =
    (let others = filter (\<lambda>x. dg_type x \<noteq> CastError) (contents other)
     in if others = [] then (False, d) else (True, append_diags d others))"

definition first_error :: "diagnostics \<Rightarrow> message option" where
  "first_error d = map_option dg_message (find is_error (contents d))"

definition errors :: "diagnostics \<Rightarrow> diagnostic list" where
  "errors d = filter is_error (contents d)"

definition warnings :: "diagnostics \<Rightarrow> diagnostic list" where
  "warnings d = filter (\<lambda>m. dg_level m = Warning) (contents d)"

definition count_warnings :: "diagnostics \<Rightarrow> nat" where
  "count_warnings d = length (filter (\<lambda>m. dg_level m = Warning) (contents d))"

text \<open>\<open>find_or_first\<close> falls back on the first element when no element satisfies the test.\<close>

definition first_warning :: "diagnostics \<Rightarrow> diagnostic option" where
  "first_warning d = (case find (\<lambda>m. dg_level m = Warning) (contents d) of
      Some m \<Rightarrow> Some m
    | None \<Rightarrow> hd_opt (contents d))"

definition warning_contains :: "diagnostics \<Rightarrow> message \<Rightarrow> bool" where
  "warning_contains d t = list_ex (\<lambda>m. dg_message m = t) (warnings d)"

definition contains_message :: "diagnostics \<Rightarrow> message \<Rightarrow> bool" where
  "contains_message d t = list_ex (\<lambda>m. dg_message m = t) (contents d)"

subsection \<open>The error flag\<close>

definition diags_ok :: "diagnostics \<Rightarrow> bool" where
  "diags_ok d \<longleftrightarrow> has_error d = list_ex is_error (contents d)"

lemma diags_ok_empty [simp]: "diags_ok no_diagnostics"
  by (simp add: diags_ok_def no_diagnostics_def)

lemma contents_push [simp]: "contents (push_diag x d) = contents d @ [x]"
  by (simp add: push_diag_def Let_def)

lemma diags_ok_push [simp]: "diags_ok d \<Longrightarrow> diags_ok (push_diag x d)"
  by (auto simp: diags_ok_def push_diag_def Let_def)

lemma diags_ok_extend: "diags_ok d \<Longrightarrow> diags_ok n \<Longrightarrow> diags_ok (extend_diags d n)"
  by (auto simp: diags_ok_def extend_diags_def)

lemma diags_ok_append: "diags_ok d \<Longrightarrow> diags_ok (append_diags d ns)"
  by (auto simp: diags_ok_def append_diags_def Let_def)

lemma diags_ok_extend_non_casting:
  "diags_ok d \<Longrightarrow> diags_ok (snd (extend_non_casting d n))"
  by (auto simp: extend_non_casting_def Let_def diags_ok_append)

inductive collected :: "diagnostics \<Rightarrow> bool" where
  collected_new: "collected no_diagnostics"
| collected_push: "collected d \<Longrightarrow> collected (push_diag x d)"
| collected_extend: "collected d \<Longrightarrow> collected n \<Longrightarrow> collected (extend_diags d n)"
| collected_append: "collected d \<Longrightarrow> collected (append_diags d ns)"
| collected_non_casting: "collected d \<Longrightarrow> collected n \<Longrightarrow> collected (snd (extend_non_casting d n))"

lemma collected_ok: "collected d \<Longrightarrow> diags_ok d"
  by (induction rule: collected.induct) (simp_all add: diags_ok_extend diags_ok_append diags_ok_extend_non_casting)

text \<open>
  C28: however a collection of diagnostics was built, its error flag is set exactly when it holds an
  error, which is exactly when \<open>first_error\<close> returns; the filtered lists and the warning count
  agree.
\<close>

theorem any_errors_exact:
  assumes "collected d"
  shows "(any_errors d \<longleftrightarrow> errors d \<noteq> []) \<and> (first_error d \<noteq> None \<longleftrightarrow> any_errors d) \<and>
    count_warnings d = length (warnings d)"
proof -
  have *: "has_error d = list_ex is_error (contents d)" using collected_ok [OF assms] by (simp add: diags_ok_def)
  show ?thesis
    using * by (auto simp: any_errors_def errors_def first_error_def list_ex_iff filter_empty_conv
        find_None_iff count_warnings_def warnings_def)
qed

theorem any_errors_exact_witness:
  "any_errors (push_diag (diag_error Builtin DivideByZero)
     (snd (extend_non_casting no_diagnostics (push_diag (diag_cast_warning Implicit NegativeValue) no_diagnostics))))"
  (is "any_errors ?d")
proof -
  have "collected ?d" by (intro collected.intros)
  then have "any_errors ?d \<longleftrightarrow> errors ?d \<noteq> []" by (rule any_errors_exact [THEN conjunct1])
  then show ?thesis by (simp add: errors_def is_error_def diag_defs)
qed

end
