(* ===== verification/Sema_Parse.thy ===== *)
theory Sema_Parse
  imports Diagnostics
begin

section \<open>The parse tree\<close>

text \<open>
  Model of the tree that the parser hands to the semantic analysis, \<open>ola-parser/src/program.rs\<close>:
  expressions, types as they are written, and statements.  Expressions with one operand and no other
  part, and those with an operator between two operands, are one constructor each with the operator as an
  argument; these operators are shared with the typed tree.  There is no assignment operator for
  \<open>Power\<close>.
\<close>

record ident =
  id_loc :: loc
  id_name :: string

datatype storage_location = Memory loc | Storage loc

datatype arith = Add | Subtract | Multiply | Divide | Modulo | Power
  | BitwiseOr | BitwiseAnd | BitwiseXor | ShiftLeft | ShiftRight

datatype comparison = More | Less | MoreEqual | LessEqual | Equal | NotEqual

datatype p_unary = PIncrement | PDecrement | PNew | PParenthesis | PNot | PBitwiseNot | PDelete

datatype p_binary = POperator arith | PComparison comparison | PAnd | POr | PAssign | PAssignOperator arith

datatype 'e p_parameter = PParameter (pa_loc: loc) (pa_ty: 'e) (pa_name: "ident option")

datatype 'e named_argument = NamedArgument (na_loc: loc) (na_name: ident) (na_expr: 'e)

datatype 'e variable_declaration = VariableDeclaration (vd_loc: loc) (vd_ty: 'e)
  (vd_storage: "storage_location option") (vd_name: "ident option")

text \<open>Types as they are written and statements; \<open>'e\<close> is the type of the expressions in them.\<close>

datatype 'e pty = PTBool | PTUint nat | PTAddress | PTString | PTField | PTHash | PTDynamicBytes
  | PTMapping loc 'e "ident option" 'e "ident option"

datatype 'e pstatement =
    PSBlock loc "'e pstatement list"
  | PSArgs loc "'e named_argument list"
  | PSIf loc 'e "'e pstatement" "'e pstatement option"
  | PSWhile loc 'e "'e pstatement"
  | PSExpression loc 'e
  | PSVariableDefinition loc "'e variable_declaration" "'e option"
  | PSFor loc "'e pstatement option" "'e option" "'e option" "'e pstatement option"
  | PSDoWhile loc "'e pstatement" 'e
  | PSContinue loc
  | PSBreak loc
  | PSError loc
  | PSReturn loc "'e option"

datatype (plugins only: code size) pexpr =
    PUnary p_unary loc pexpr
  | PBinary p_binary loc pexpr pexpr
  | PArraySubscript loc pexpr "pexpr option"
  | PArraySlice loc pexpr "pexpr option" "pexpr option"
  | PMemberAccess loc pexpr ident
  | PFunctionCall loc pexpr "pexpr list"
  | PFunctionCallBlock loc pexpr "pexpr pstatement"
  | PNamedFunctionCall loc pexpr "pexpr named_argument list"
  | PConditional loc pexpr pexpr pexpr
  | PBool loc bool
  | PNumber loc string
  | PHexNumber loc string
  | PFields loc string
  | PString "(loc \<times> string) list"
  | PAddress loc string
  | PHash loc string
  | PType loc "pexpr pty"
  | PVariable ident
  | PList loc "(loc \<times> pexpr p_parameter option) list"
  | PArrayLiteral loc "pexpr list"

primrec pstatement_loc :: "'e pstatement \<Rightarrow> loc" where
  "pstatement_loc (PSBlock l _) = l" | "pstatement_loc (PSArgs l _) = l" | "pstatement_loc (PSIf l _ _ _) = l"
| "pstatement_loc (PSWhile l _ _) = l" | "pstatement_loc (PSExpression l _) = l"
| "pstatement_loc (PSVariableDefinition l _ _) = l" | "pstatement_loc (PSFor l _ _ _ _) = l"
| "pstatement_loc (PSDoWhile l _ _) = l" | "pstatement_loc (PSContinue l) = l" | "pstatement_loc (PSBreak l) = l"
| "pstatement_loc (PSError l) = l" | "pstatement_loc (PSReturn l _) = l"

definition storage_location_loc :: "storage_location \<Rightarrow> loc" where
  "storage_location_loc s = (case s of Memory l \<Rightarrow> l | Storage l \<Rightarrow> l)"

definition storage_location_str :: "storage_location \<Rightarrow> string" where
  "storage_location_str s = (case s of Memory _ \<Rightarrow> ''memory'' | Storage _ \<Rightarrow> ''storage'')"

text \<open>The location of a string literal is the one of its first part; an empty list of parts panics.\<close>

definition pexpr_loc :: "pexpr \<Rightarrow> loc option" where
  "pexpr_loc e = (case e of
      PUnary _ l _ \<Rightarrow> Some l | PBinary _ l _ _ \<Rightarrow> Some l | PArraySubscript l _ _ \<Rightarrow> Some l
    | PArraySlice l _ _ _ \<Rightarrow> Some l | PMemberAccess l _ _ \<Rightarrow> Some l | PFunctionCall l _ _ \<Rightarrow> Some l
    | PFunctionCallBlock l _ _ \<Rightarrow> Some l | PNamedFunctionCall l _ _ \<Rightarrow> Some l | PConditional l _ _ _ \<Rightarrow> Some l
    | PBool l _ \<Rightarrow> Some l | PNumber l _ \<Rightarrow> Some l | PHexNumber l _ \<Rightarrow> Some l | PFields l _ \<Rightarrow> Some l
    | PString v \<Rightarrow> map_option fst (hd_opt v)
    | PAddress l _ \<Rightarrow> Some l | PHash l _ \<Rightarrow> Some l | PType l _ \<Rightarrow> Some l | PVariable x \<Rightarrow> Some (id_loc x)
    | PList l _ \<Rightarrow> Some l | PArrayLiteral l _ \<Rightarrow> Some l)"

definition remove_parenthesis :: "pexpr \<Rightarrow> pexpr" where
  "remove_parenthesis e = (case e of PUnary PParenthesis _ e \<Rightarrow> e | _ \<Rightarrow> e)"

text \<open>The type of a contract, and the parts of the source that the declarations are resolved from.\<close>

datatype contract_ty = Contract loc | Interface loc | Library loc

record enum_definition =
  ed_loc :: loc
  ed_name :: "ident option"
  ed_values :: "ident option list"

record type_definition =
  td_loc :: loc
  td_name :: ident
  td_ty :: pexpr

record struct_definition =
  sf_loc :: loc
  sf_name :: "ident option"
  sf_fields :: "pexpr variable_declaration list"

datatype variable_attribute = AttrConstant loc | AttrMutable loc

record variable_definition =
  vf_loc :: loc
  vf_ty :: pexpr
  vf_attrs :: "variable_attribute list"
  vf_name :: "ident option"
  vf_initializer :: "pexpr option"

text \<open>The location of the name of a function is not used and is left out.\<close>

type_synonym parameter_list = "(loc \<times> pexpr p_parameter option) list"

record function_definition =
  ff_loc :: loc
  ff_name :: "ident option"
  ff_params :: parameter_list
  ff_returns :: parameter_list
  ff_body :: "pexpr pstatement option"

datatype contract_part = StructPart struct_definition | EnumPart enum_definition | VariablePart variable_definition
  | FunctionPart function_definition | TypePart type_definition | StraySemicolon loc

record contract_definition =
  cd_loc :: loc
  cd_ty :: contract_ty
  cd_name :: "ident option"
  cd_parts :: "contract_part list"

definition contract_ty_str :: "contract_ty \<Rightarrow> string" where
  "contract_ty_str t = (case t of Contract _ \<Rightarrow> ''contract'' | Interface _ \<Rightarrow> ''interface'' | Library _ \<Rightarrow> ''library'')"

lemma size_remove_parenthesis [simp]: "size (remove_parenthesis e) \<le> size e"
  by (cases e) (auto simp: remove_parenthesis_def split: p_unary.splits)

end
