(* ===== verification/Sema_AST.thy ===== *)
theory Sema_AST
  imports Sema_Parse "HOL-Library.Word"
begin

section \<open>The typed syntax tree\<close>

text \<open>
  Model of the expressions and statements of \<open>src/sema/ast.rs\<close>, with the parts of the namespace that the
  other theories about the semantic analysis use.  The eleven arithmetic constructors of
  \<open>Expression\<close> have the same fields and become one constructor with an operator, and so do the six
  comparisons and the expressions with a single operand and its type.  \<open>BigInt\<close> is \<open>int\<close>,
  an index into a vector of the namespace is a natural number.
\<close>

datatype unary = Load | GetRef | StorageLoad | ZeroExt | Trunc | Cast | Increment | Decrement | BitwiseNot

datatype lib_func = U32Sqrt | ArrayPush | ArrayPop | ArrayLength | ArraySort | Assert | AbiDecode | AbiEncode
  | AbiEncodeWithSignature | PoseidonHash | FieldsConcat | Print | BlockNumber | BlockTimestamp | SequenceAddress
  | TransactionVersion | ChainId | OriginAddress | Nonce | SignatureLength | Signature | TransactionHash
  | CallerAddress | CodeAddress | CurrentAddress | CheckECDSA | GetSelector

datatype call_ty = Regular | Delegate | Static

datatype 'e string_location = CompileTime "8 word list" | RunTime 'e

datatype (plugins only: code size) expr =
    EBool loc bool
  | EBytes loc sty "8 word list"
  | ENumber loc sty int
  | EStruct loc sty "expr list"
  | EAddress loc sty "int list"
  | EHash loc sty "int list"
  | EArray loc sty "nat list" "expr list"
  | EConstArray loc sty "nat list" "expr list"
  | EArith arith loc sty expr expr
  | EVariable loc sty nat
  | EConstantVariable loc sty "nat option" nat
  | EStorageVariable loc sty nat nat
  | EUnary unary loc sty expr
  | EBytesCast loc sty sty expr
  | EAssign loc sty expr expr
  | ECompare comparison loc expr expr
  | ENot loc expr
  | EConditional loc sty expr expr expr
  | ESubscript loc sty sty expr expr
  | EArraySlice loc sty sty expr "expr option" "expr option"
  | EStructMember loc sty expr nat
  | EAllocDynamicBytes loc sty expr "64 word list option"
  | EStorageArrayLength loc sty expr sty
  | EStringCompare loc "expr string_location" "expr string_location"
  | EStringConcat loc sty "expr string_location" "expr string_location"
  | EOr loc expr expr
  | EAnd loc expr expr
  | EFunction loc sty nat "string option"
  | EExternalFunction loc sty expr nat
  | EFunctionCall loc "sty list" expr "expr list"
  | EExternalFunctionCall loc "sty list" expr "expr list" "expr option" "expr option" "expr option"
  | EExternalFunctionCallRaw loc call_ty expr expr "expr option" "expr option" "expr option"
  | ELibFunction loc "sty list" lib_func "expr list"
  | EList loc "expr list"

fun expr_loc :: "expr \<Rightarrow> loc" where
  "expr_loc (EBool l _) = l" | "expr_loc (EBytes l _ _) = l" | "expr_loc (ENumber l _ _) = l"
| "expr_loc (EStruct l _ _) = l" | "expr_loc (EAddress l _ _) = l" | "expr_loc (EHash l _ _) = l"
| "expr_loc (EArray l _ _ _) = l" | "expr_loc (EConstArray l _ _ _) = l" | "expr_loc (EArith _ l _ _ _) = l"
| "expr_loc (EVariable l _ _) = l" | "expr_loc (EConstantVariable l _ _ _) = l" | "expr_loc (EStorageVariable l _ _ _) = l"
| "expr_loc (EUnary _ l _ _) = l" | "expr_loc (EBytesCast l _ _ _) = l" | "expr_loc (EAssign l _ _ _) = l"
| "expr_loc (ECompare _ l _ _) = l" | "expr_loc (ENot l _) = l" | "expr_loc (EConditional l _ _ _ _) = l"
| "expr_loc (ESubscript l _ _ _ _) = l" | "expr_loc (EArraySlice l _ _ _ _ _) = l" | "expr_loc (EStructMember l _ _ _) = l"
| "expr_loc (EAllocDynamicBytes l _ _ _) = l" | "expr_loc (EStorageArrayLength l _ _ _) = l" | "expr_loc (EStringCompare l _ _) = l"
| "expr_loc (EStringConcat l _ _ _) = l" | "expr_loc (EOr l _ _) = l" | "expr_loc (EAnd l _ _) = l"
| "expr_loc (EFunction l _ _ _) = l" | "expr_loc (EExternalFunction l _ _ _) = l" | "expr_loc (EFunctionCall l _ _ _) = l"
| "expr_loc (EExternalFunctionCall l _ _ _ _ _ _) = l" | "expr_loc (EExternalFunctionCallRaw l _ _ _ _ _ _) = l"
| "expr_loc (ELibFunction l _ _ _) = l" | "expr_loc (EList l _) = l"

subsection \<open>The type of an expression\<close>

text \<open>\<open>ty\<close> asserts that a call or a list has a single value.\<close>

definition single :: "'a list \<Rightarrow> 'a option" where
  "single xs = (case xs of [x] \<Rightarrow> Some x | _ \<Rightarrow> None)"

primrec expr_ty :: "expr \<Rightarrow> sty option" where
  "expr_ty (EBool l b) = Some TBool"
| "expr_ty (EBytes l t bs) = Some t"
| "expr_ty (ENumber l t n) = Some t"
| "expr_ty (EStruct l t vs) = Some t"
| "expr_ty (EAddress l t v) = Some t"
| "expr_ty (EHash l t v) = Some t"
| "expr_ty (EArray l t ds vs) = Some t"
| "expr_ty (EConstArray l t ds vs) = Some t"
| "expr_ty (EArith a l t x y) = Some t"
| "expr_ty (EVariable l t v) = Some t"
| "expr_ty (EConstantVariable l t c v) = Some t"
| "expr_ty (EStorageVariable l t c v) = Some t"
| "expr_ty (EUnary u l t x) = Some t"
| "expr_ty (EBytesCast l t t' x) = Some t'"
| "expr_ty (EAssign l t x y) = Some t"
| "expr_ty (ECompare c l x y) = Some TBool"
| "expr_ty (ENot l x) = Some TBool"
| "expr_ty (EConditional l t c x y) = Some t"
| "expr_ty (ESubscript l t t' x y) = Some t"
| "expr_ty (EArraySlice l t t' x s e) = Some TDynamicBytes"
| "expr_ty (EStructMember l t x m) = Some t"
| "expr_ty (EAllocDynamicBytes l t x i) = Some t"
| "expr_ty (EStorageArrayLength l t x t') = Some t"
| "expr_ty (EStringCompare l x y) = Some TBool"
| "expr_ty (EStringConcat l t x y) = Some t"
| "expr_ty (EOr l x y) = Some TBool"
| "expr_ty (EAnd l x y) = Some TBool"
| "expr_ty (EFunction l t n s) = Some t"
| "expr_ty (EExternalFunction l t x n) = Some t"
| "expr_ty (EFunctionCall l ts x args) = single ts"
| "expr_ty (EExternalFunctionCall l ts x args a g v) = single ts"
| "expr_ty (EExternalFunctionCallRaw l c addr args a g v) = Some TDynamicBytes"
| "expr_ty (ELibFunction l ts b xs) = single ts"
| "expr_ty (EList l xs) = (case single (map expr_ty xs) of Some t \<Rightarrow> t | None \<Rightarrow> None)"

definition expr_tys :: "expr \<Rightarrow> sty list option" where
  "expr_tys e = (case e of
      ELibFunction _ ts _ _ \<Rightarrow> Some ts
    | EFunctionCall _ ts _ _ \<Rightarrow> Some ts
    | EList _ xs \<Rightarrow> those (map expr_ty xs)
    | EExternalFunctionCallRaw _ _ _ _ _ _ _ \<Rightarrow> Some [TDynamicBytes]
    | _ \<Rightarrow> map_option (\<lambda>t. [t]) (expr_ty e))"

subsection \<open>Walking over an expression\<close>

text \<open>
  \<open>Expression::recurse\<close> calls \<open>f\<close> on the expression and, when it answers true, on the
  operands.  The state \<open>cx\<close> is threaded through the calls.  Not every operand is visited: the ones
  of \<open>GetRef\<close>, \<open>ArraySlice\<close>, \<open>ExternalFunction\<close> and \<open>ExternalFunctionCall\<close>,
  and the address of a call, are skipped.
\<close>

definition visit_all :: "('c \<Rightarrow> 'c) list \<Rightarrow> 'c \<Rightarrow> 'c" where
  "visit_all gs cx = fold (\<lambda>g. g) gs cx"

definition visit_option :: "('c \<Rightarrow> 'c) option \<Rightarrow> 'c \<Rightarrow> 'c" where
  "visit_option g cx = (case g of Some g \<Rightarrow> g cx | None \<Rightarrow> cx)"

definition visit_string :: "('c \<Rightarrow> 'c) string_location \<Rightarrow> 'c \<Rightarrow> 'c" where
  "visit_string g cx = (case g of RunTime g \<Rightarrow> g cx | CompileTime _ \<Rightarrow> cx)"

definition descend :: "bool \<times> 'c \<Rightarrow> ('c \<Rightarrow> 'c) \<Rightarrow> 'c" where
  "descend r g = (case r of (go, cx) \<Rightarrow> if go then g cx else cx)"

primrec recurse :: "(expr \<Rightarrow> 'c \<Rightarrow> bool \<times> 'c) \<Rightarrow> expr \<Rightarrow> 'c \<Rightarrow> 'c" where
  "recurse f (EBool l b) cx = snd (f (EBool l b) cx)"
| "recurse f (EBytes l t bs) cx = snd (f (EBytes l t bs) cx)"
| "recurse f (ENumber l t n) cx = snd (f (ENumber l t n) cx)"
| "recurse f (EStruct l t vs) cx = descend (f (EStruct l t vs) cx) (visit_all (map (recurse f) vs))"
| "recurse f (EAddress l t v) cx = snd (f (EAddress l t v) cx)"
| "recurse f (EHash l t v) cx = snd (f (EHash l t v) cx)"
| "recurse f (EArray l t ds vs) cx = descend (f (EArray l t ds vs) cx) (visit_all (map (recurse f) vs))"
| "recurse f (EConstArray l t ds vs) cx = descend (f (EConstArray l t ds vs) cx) (visit_all (map (recurse f) vs))"
| "recurse f (EArith a l t x y) cx = descend (f (EArith a l t x y) cx) (recurse f y \<circ> recurse f x)"
| "recurse f (EVariable l t v) cx = snd (f (EVariable l t v) cx)"
| "recurse f (EConstantVariable l t c v) cx = snd (f (EConstantVariable l t c v) cx)"
| "recurse f (EStorageVariable l t c v) cx = snd (f (EStorageVariable l t c v) cx)"
| "recurse f (EUnary u l t x) cx = descend (f (EUnary u l t x) cx) (if u = GetRef then (\<lambda>c. c) else recurse f x)"
| "recurse f (EBytesCast l t t' x) cx = descend (f (EBytesCast l t t' x) cx) (recurse f x)"
| "recurse f (EAssign l t x y) cx = descend (f (EAssign l t x y) cx) (recurse f y \<circ> recurse f x)"
| "recurse f (ECompare c l x y) cx = descend (f (ECompare c l x y) cx) (recurse f y \<circ> recurse f x)"
| "recurse f (ENot l x) cx = descend (f (ENot l x) cx) (recurse f x)"
| "recurse f (EConditional l t c x y) cx = descend (f (EConditional l t c x y) cx) (recurse f y \<circ> recurse f x \<circ> recurse f c)"
| "recurse f (ESubscript l t t' x y) cx = descend (f (ESubscript l t t' x y) cx) (recurse f y \<circ> recurse f x)"
| "recurse f (EArraySlice l t t' x s e) cx = snd (f (EArraySlice l t t' x s e) cx)"
| "recurse f (EStructMember l t x m) cx = descend (f (EStructMember l t x m) cx) (recurse f x)"
| "recurse f (EAllocDynamicBytes l t x i) cx = descend (f (EAllocDynamicBytes l t x i) cx) (recurse f x)"
| "recurse f (EStorageArrayLength l t x t') cx = descend (f (EStorageArrayLength l t x t') cx) (recurse f x)"
| "recurse f (EStringCompare l x y) cx =
     descend (f (EStringCompare l x y) cx) (visit_string (map_string_location (recurse f) y) \<circ> visit_string (map_string_location (recurse f) x))"
| "recurse f (EStringConcat l t x y) cx =
     descend (f (EStringConcat l t x y) cx) (visit_string (map_string_location (recurse f) y) \<circ> visit_string (map_string_location (recurse f) x))"
| "recurse f (EOr l x y) cx = descend (f (EOr l x y) cx) (recurse f y \<circ> recurse f x)"
| "recurse f (EAnd l x y) cx = descend (f (EAnd l x y) cx) (recurse f y \<circ> recurse f x)"
| "recurse f (EFunction l t n s) cx = snd (f (EFunction l t n s) cx)"
| "recurse f (EExternalFunction l t x n) cx = snd (f (EExternalFunction l t x n) cx)"
| "recurse f (EFunctionCall l ts x args) cx = descend (f (EFunctionCall l ts x args) cx) (visit_all (map (recurse f) args) \<circ> recurse f x)"
| "recurse f (EExternalFunctionCall l ts x args a g v) cx = snd (f (EExternalFunctionCall l ts x args a g v) cx)"
| "recurse f (EExternalFunctionCallRaw l c addr args a g v) cx =
     descend (f (EExternalFunctionCallRaw l c addr args a g v) cx)
       (visit_option (map_option (recurse f) v) \<circ> visit_option (map_option (recurse f) g) \<circ> recurse f addr \<circ> recurse f args)"
| "recurse f (ELibFunction l ts b xs) cx = descend (f (ELibFunction l ts b xs) cx) (visit_all (map (recurse f) xs))"
| "recurse f (EList l xs) cx = descend (f (EList l xs) cx) (visit_all (map (recurse f) xs))"

text \<open>The operands that a call of \<open>recurse\<close> visits, in the order of the visits.\<close>

fun string_operand :: "expr string_location \<Rightarrow> expr list" where
  "string_operand (RunTime e) = [e]"
| "string_operand (CompileTime bs) = []"

definition option_operand :: "expr option \<Rightarrow> expr list" where
  "option_operand x = (case x of Some e \<Rightarrow> [e] | None \<Rightarrow> [])"

primrec operands :: "expr \<Rightarrow> expr list" where
  "operands (EBool l b) = []"
| "operands (EBytes l t bs) = []"
| "operands (ENumber l t n) = []"
| "operands (EStruct l t vs) = vs"
| "operands (EAddress l t v) = []"
| "operands (EHash l t v) = []"
| "operands (EArray l t ds vs) = vs"
| "operands (EConstArray l t ds vs) = vs"
| "operands (EArith a l t x y) = [x, y]"
| "operands (EVariable l t v) = []"
| "operands (EConstantVariable l t c v) = []"
| "operands (EStorageVariable l t c v) = []"
| "operands (EUnary u l t x) = (if u = GetRef then [] else [x])"
| "operands (EBytesCast l t t' x) = [x]"
| "operands (EAssign l t x y) = [x, y]"
| "operands (ECompare c l x y) = [x, y]"
| "operands (ENot l x) = [x]"
| "operands (EConditional l t c x y) = [c, x, y]"
| "operands (ESubscript l t t' x y) = [x, y]"
| "operands (EArraySlice l t t' x s e) = []"
| "operands (EStructMember l t x m) = [x]"
| "operands (EAllocDynamicBytes l t x i) = [x]"
| "operands (EStorageArrayLength l t x t') = [x]"
| "operands (EStringCompare l x y) = string_operand x @ string_operand y"
| "operands (EStringConcat l t x y) = string_operand x @ string_operand y"
| "operands (EOr l x y) = [x, y]"
| "operands (EAnd l x y) = [x, y]"
| "operands (EFunction l t n s) = []"
| "operands (EExternalFunction l t x n) = []"
| "operands (EFunctionCall l ts x args) = x # args"
| "operands (EExternalFunctionCall l ts x args a g v) = []"
| "operands (EExternalFunctionCallRaw l c addr args a g v) = [args, addr] @ option_operand g @ option_operand v"
| "operands (ELibFunction l ts b xs) = xs"
| "operands (EList l xs) = xs"

lemma visit_all_simps [simp]: "visit_all [] = (\<lambda>c. c)" "visit_all (g # gs) = visit_all gs \<circ> g"
  by (auto simp: visit_all_def fun_eq_iff)

lemma visit_all_append [simp]: "visit_all (fs @ gs) = visit_all gs \<circ> visit_all fs"
  by (induction fs) (auto simp: fun_eq_iff)

lemma visit_option_operand [simp]: "visit_option (map_option g x) = visit_all (map g (option_operand x))"
  by (cases x) (auto simp: visit_option_def option_operand_def fun_eq_iff)

lemma visit_string_operand [simp]: "visit_string (map_string_location g x) = visit_all (map g (string_operand x))"
  by (cases x) (auto simp: visit_string_def fun_eq_iff)

lemma descend_id [simp]: "descend r (\<lambda>c. c) = snd r"
  by (cases r) (simp add: descend_def)

lemma recurse_operands: "recurse f e cx = descend (f e cx) (visit_all (map (recurse f) (operands e)))"
  by (cases e) (simp_all add: comp_def option_operand_def)

lemma string_operand_size: "size_list size (string_operand s) \<le> size_string_location size s"
  by (cases s) auto

lemma option_operand_size: "size_list size (option_operand s) \<le> size_option size s"
  by (cases s) (auto simp: option_operand_def)

lemma operand_size: "x \<in> set (operands e) \<Longrightarrow> size x < size e"
  by (cases e) (auto simp: less_Suc_eq_le trans_le_add1 trans_le_add2 split: if_splits
      dest!: size_list_estimation' [of x _ "size x" size, OF _ order_refl]
      dest!: order_trans [OF _ string_operand_size] order_trans [OF _ option_operand_size])

text \<open>The expressions below \<open>e\<close> that are visited when \<open>f\<close> answers \<open>go\<close>.\<close>

inductive visited :: "(expr \<Rightarrow> bool) \<Rightarrow> expr \<Rightarrow> expr \<Rightarrow> bool" for go where
  visited_self: "visited go e e"
| visited_operand: "go e \<Longrightarrow> x \<in> set (operands e) \<Longrightarrow> visited go x y \<Longrightarrow> visited go e y"

inductive_simps visited_iff: "visited go e y"

definition logging :: "(expr \<Rightarrow> bool) \<Rightarrow> expr \<Rightarrow> expr list \<Rightarrow> bool \<times> expr list" where
  "logging go e acc = (go e, acc @ [e])"

lemma visit_all_logging:
  assumes "\<forall>x\<in>set xs. \<forall>acc. g x acc = acc @ h x"
  shows "visit_all (map g xs) acc = acc @ concat (map h xs)"
  using assms by (induction xs arbitrary: acc) auto

lemma recurse_logging: "recurse (logging go) e acc = acc @ recurse (logging go) e []"
proof (induction e arbitrary: acc rule: measure_induct_rule [of size])
  case (less e)
  have *: "\<forall>x\<in>set (operands e). \<forall>acc. recurse (logging go) x acc = acc @ recurse (logging go) x []"
    using less operand_size by blast
  show ?case
    by (subst (1 2) recurse_operands)
      (simp add: logging_def [of go e] descend_def visit_all_logging [OF *])
qed


subsection \<open>Statements\<close>

record parameter =
  p_loc :: loc
  p_name :: "string option"
  p_ty :: sty
  p_infinite_size :: bool
  p_recursive :: bool

definition name_as_str :: "parameter \<Rightarrow> string" where
  "name_as_str p = (case p_name p of Some n \<Rightarrow> n | None \<Rightarrow> [])"

datatype destructure_field = NoField | FieldExpression expr | FieldDecl nat parameter

definition loc_opt :: "destructure_field \<Rightarrow> loc option" where
  "loc_opt d = (case d of NoField \<Rightarrow> None | FieldExpression e \<Rightarrow> Some (expr_loc e) | FieldDecl _ p \<Rightarrow> Some (p_loc p))"

datatype (plugins only: code size) statement =
    SBlock loc "statement list"
  | SVariableDecl loc nat parameter "expr option"
  | SIf loc bool expr "statement list" "statement list"
  | SWhile loc bool expr "statement list"
  | SFor loc bool "statement list" "expr option" "expr option" "statement list"
  | SDoWhile loc bool "statement list" expr
  | SDelete loc sty expr
  | SDestructure loc "destructure_field list" expr
  | SExpression loc bool expr
  | SContinue loc
  | SBreak loc
  | SReturn loc "expr option"

primrec statement_loc :: "statement \<Rightarrow> loc" where
  "statement_loc (SBlock l _) = l" | "statement_loc (SVariableDecl l _ _ _) = l"
| "statement_loc (SIf l _ _ _ _) = l" | "statement_loc (SWhile l _ _ _) = l"
| "statement_loc (SFor l _ _ _ _ _) = l" | "statement_loc (SDoWhile l _ _ _) = l"
| "statement_loc (SDelete l _ _) = l" | "statement_loc (SDestructure l _ _) = l"
| "statement_loc (SExpression l _ _) = l" | "statement_loc (SContinue l) = l"
| "statement_loc (SBreak l) = l" | "statement_loc (SReturn l _) = l"

primrec reachable :: "statement \<Rightarrow> bool" where
  "reachable (SBlock l ss) = list_all id (map reachable ss)"
| "reachable (SVariableDecl l n p e) = True"
| "reachable (SIf l r c t e) = r"
| "reachable (SWhile l r c b) = r"
| "reachable (SFor l r i c n b) = r"
| "reachable (SDoWhile l r b c) = r"
| "reachable (SDelete l t e) = True"
| "reachable (SDestructure l fs e) = True"
| "reachable (SExpression l r e) = r"
| "reachable (SContinue l) = False"
| "reachable (SBreak l) = False"
| "reachable (SReturn l e) = False"

primrec recurse_statement :: "(statement \<Rightarrow> 'c \<Rightarrow> bool \<times> 'c) \<Rightarrow> statement \<Rightarrow> 'c \<Rightarrow> 'c" where
  "recurse_statement f (SBlock l ss) cx = descend (f (SBlock l ss) cx) (visit_all (map (recurse_statement f) ss))"
| "recurse_statement f (SVariableDecl l n p e) cx = snd (f (SVariableDecl l n p e) cx)"
| "recurse_statement f (SIf l r c t e) cx =
     descend (f (SIf l r c t e) cx) (visit_all (map (recurse_statement f) e) \<circ> visit_all (map (recurse_statement f) t))"
| "recurse_statement f (SWhile l r c b) cx = descend (f (SWhile l r c b) cx) (visit_all (map (recurse_statement f) b))"
| "recurse_statement f (SFor l r i c n b) cx =
     descend (f (SFor l r i c n b) cx) (visit_all (map (recurse_statement f) b) \<circ> visit_all (map (recurse_statement f) i))"
| "recurse_statement f (SDoWhile l r b c) cx = descend (f (SDoWhile l r b c) cx) (visit_all (map (recurse_statement f) b))"
| "recurse_statement f (SDelete l t e) cx = snd (f (SDelete l t e) cx)"
| "recurse_statement f (SDestructure l fs e) cx = snd (f (SDestructure l fs e) cx)"
| "recurse_statement f (SExpression l r e) cx = snd (f (SExpression l r e) cx)"
| "recurse_statement f (SContinue l) cx = snd (f (SContinue l) cx)"
| "recurse_statement f (SBreak l) cx = snd (f (SBreak l) cx)"
| "recurse_statement f (SReturn l e) cx = snd (f (SReturn l e) cx)"

subsection \<open>Declarations\<close>

record struct_decl =
  sd_name :: string
  sd_contract :: "string option"
  sd_loc :: loc
  sd_fields :: "parameter list"
  sd_offsets :: "int list"
  sd_storage_offsets :: "int list"

record enum_decl =
  en_name :: string
  en_contract :: "string option"
  en_loc :: loc
  en_ty :: sty
  en_values :: "(string \<times> loc) list"

record user_type_decl =
  ut_name :: string
  ut_contract :: "string option"
  ut_loc :: loc
  ut_ty :: sty

record svariable =
  v_name :: string
  v_loc :: loc
  v_ty :: sty
  v_constant :: bool
  v_initializer :: "expr option"
  v_assigned :: bool
  v_read :: bool

subsection \<open>The local variables of a function\<close>

text \<open>
  The data of \<open>src/sema/symtable.rs\<close>.  The \<open>IndexMap\<close> of the variables is an association list; the
  list of scopes starts with the outermost one.
\<close>

datatype variable_usage = Parameter | ReturnVariable | AnonymousReturnVariable | LocalVariable | DestructureVariable

datatype variable_initializer = Ola "expr option"

definition has_initializer :: "variable_initializer \<Rightarrow> bool" where
  "has_initializer i = (case i of Ola e \<Rightarrow> e \<noteq> None)"

record variable =
  var_id :: ident
  var_ty :: sty
  var_pos :: nat
  var_slice :: bool
  var_initializer :: variable_initializer
  var_assigned :: bool
  var_usage :: variable_usage
  var_read :: bool
  var_location :: "storage_location option"

definition is_reference :: "variable \<Rightarrow> bool" where
  "is_reference v =
    (case var_location v of
       None \<Rightarrow> False
     | Some _ \<Rightarrow> (case var_initializer v of
         Ola (Some e) \<Rightarrow> (case e of
             EAllocDynamicBytes _ _ _ _ \<Rightarrow> False
           | EArray _ _ _ _ \<Rightarrow> False
           | EStruct _ _ _ \<Rightarrow> False
           | _ \<Rightarrow> True)
       | Ola None \<Rightarrow> False))"

record symtable =
  vars :: "(nat \<times> variable) list"
  names :: "(string \<rightharpoonup> nat) list"
  arguments :: "nat option list"
  st_returns :: "nat list"

definition symtable_new :: symtable where
  "symtable_new = \<lparr>vars = [], names = [\<lambda>_. None], arguments = [], st_returns = []\<rparr>"

subsection \<open>Functions, contracts and the namespace\<close>

text \<open>The selector and the mangled name of a function are left out.\<close>

record function_decl =
  fd_name :: string
  fd_loc :: loc
  fd_contract :: "nat option"
  fd_signature :: string
  fd_params :: "parameter list"
  fd_returns :: "parameter list"
  fd_has_body :: bool
  fd_body :: "statement list"
  fd_symtable :: symtable

text \<open>\<open>c_all_functions\<close> has the keys of the \<open>BTreeMap\<close> in their order.\<close>

record contract =
  c_name :: string
  c_loc :: loc
  c_ty :: contract_ty
  c_functions :: "nat list"
  c_all_functions :: "nat list"
  c_variables :: "svariable list"

datatype symbol =
    SymEnum loc nat
  | SymFunction "(loc \<times> nat) list"
  | SymVariable loc "nat option" nat
  | SymStruct loc nat
  | SymContract loc nat
  | SymImport loc nat
  | SymUserType loc nat

definition symbol_loc :: "symbol \<Rightarrow> loc option" where
  "symbol_loc s = (case s of
      SymEnum l _ \<Rightarrow> Some l | SymVariable l _ _ \<Rightarrow> Some l | SymStruct l _ \<Rightarrow> Some l
    | SymContract l _ \<Rightarrow> Some l | SymImport l _ \<Rightarrow> Some l | SymUserType l _ \<Rightarrow> Some l
    | SymFunction items \<Rightarrow> map_option fst (hd_opt items))"

record namespace =
  ns_enums :: "enum_decl list"
  ns_structs :: "struct_decl list"
  ns_contracts :: "contract list"
  ns_user_types :: "user_type_decl list"
  ns_functions :: "function_decl list"
  ns_constants :: "svariable list"
  ns_diagnostics :: diagnostics
  ns_function_symbols :: "nat \<times> nat option \<times> string \<rightharpoonup> symbol"
  ns_variable_symbols :: "nat \<times> nat option \<times> string \<rightharpoonup> symbol"
  ns_next_id :: nat
  ns_called_lib_functions :: "string list"

text \<open>The name of a declaration as it is printed, with the contract it is declared in.\<close>

definition qualified_name :: "string option \<Rightarrow> string \<Rightarrow> string" where
  "qualified_name c n = (case c of Some c \<Rightarrow> c @ ''.'' @ n | None \<Rightarrow> n)"

text \<open>Indexing a vector panics out of range.\<close>

definition at :: "'a list \<Rightarrow> nat \<Rightarrow> 'a option" where
  "at xs k = (if k < length xs then Some (xs ! k) else None)"

definition unwrap_user_type :: "namespace \<Rightarrow> sty \<Rightarrow> sty option" where
  "unwrap_user_type ns t = (case t of TUserType n \<Rightarrow> map_option ut_ty (at (ns_user_types ns) n) | _ \<Rightarrow> Some t)"

lemma at_Some [simp]: "at xs k = Some x \<longleftrightarrow> k < length xs \<and> xs ! k = x"
  by (simp add: at_def)

lemma at_None [simp]: "at xs k = None \<longleftrightarrow> length xs \<le> k"
  by (simp add: at_def)

end
