(* ===== verification/Sema_Types.thy ===== *)
theory Sema_Types
  imports Sema_AST
begin

section \<open>Questions about types\<close>

text \<open>
  Model of the methods of \<open>Type\<close> in \<open>src/sema/types.rs\<close>: sizes in memory and in storage,
  element types, and the predicates the resolver asks.  A panic is \<open>None\<close>.  Methods that look into the
  namespace follow user types and structures, and some of them do so without a guard against a structure
  that contains itself; these run on fuel, one unit for every step into the namespace.
\<close>

subsection \<open>Predicates on the type alone\<close>

fun ty_is_primitive :: "sty \<Rightarrow> bool" where
  "ty_is_primitive TBool = True"
| "ty_is_primitive (TUint n) = True"
| "ty_is_primitive TField = True"
| "ty_is_primitive (TRef r) = ty_is_primitive r"
| "ty_is_primitive (TStorageRef r) = ty_is_primitive r"
| "ty_is_primitive t = False"

definition elem_ty :: "sty \<Rightarrow> sty option" where
  "elem_ty t = (case t of TArray t _ \<Rightarrow> Some t | _ \<Rightarrow> None)"

definition is_fixed_reference_type :: "sty \<Rightarrow> bool option" where
  "is_fixed_reference_type t = (case t of
      TStruct _ \<Rightarrow> Some True
    | TArray _ dims \<Rightarrow> Some (\<not> list_ex (\<lambda>d. d = Dynamic) dims)
    | TBool \<Rightarrow> Some False | TAddress \<Rightarrow> Some False | THash \<Rightarrow> Some False | TField \<Rightarrow> Some False
    | TUint _ \<Rightarrow> Some False | TEnum _ \<Rightarrow> Some False | TContract _ \<Rightarrow> Some False | TDynamicBytes \<Rightarrow> Some False
    | TString \<Rightarrow> Some False | TMapping _ _ \<Rightarrow> Some False | TSlice _ \<Rightarrow> Some False | TUnresolved \<Rightarrow> Some False
    | TRef _ \<Rightarrow> Some False | TFunction _ _ \<Rightarrow> Some False | TStorageRef _ \<Rightarrow> Some False
    | _ \<Rightarrow> None)"

text \<open>The type behind the last dimension of an array, which is the outermost one.\<close>

definition drop_dimension :: "sty \<Rightarrow> array_length list \<Rightarrow> sty option" where
  "drop_dimension t dims =
    (if length dims > 1 then Some (TArray t (butlast dims))
     else if length dims = 1 then Some t else None)"

definition array_elem :: "sty \<Rightarrow> sty option" where
  "array_elem t = (case t of
      TArray t dims \<Rightarrow> drop_dimension t dims
    | TDynamicBytes \<Rightarrow> Some (TUint 32)
    | TString \<Rightarrow> Some (TUint 32)
    | _ \<Rightarrow> None)"

fun storage_array_elem :: "sty \<Rightarrow> sty option" where
  "storage_array_elem (TMapping k v) = Some (TStorageRef v)"
| "storage_array_elem TDynamicBytes = Some (TUint 32)"
| "storage_array_elem TString = Some (TUint 32)"
| "storage_array_elem (TArray t dims) = map_option TStorageRef (drop_dimension t dims)"
| "storage_array_elem (TStorageRef t) = storage_array_elem t"
| "storage_array_elem t = None"

fun ty_array_length :: "sty \<Rightarrow> int option option" where
  "ty_array_length (TStorageRef t) = ty_array_length t"
| "ty_array_length (TRef t) = ty_array_length t"
| "ty_array_length (TArray t dims) = map_option fixed_length (last_opt dims)"
| "ty_array_length TString = Some None"
| "ty_array_length TDynamicBytes = Some None"
| "ty_array_length t = None"

fun array_deref :: "sty \<Rightarrow> sty option" where
  "array_deref TString = Some (TRef (TUint 32))"
| "array_deref TDynamicBytes = Some (TRef (TUint 32))"
| "array_deref (TRef t) = array_deref t"
| "array_deref (TArray t dims) = map_option TRef (drop_dimension t dims)"
| "array_deref (TSlice t) = Some (TRef t)"
| "array_deref t = None"

definition can_have_data_location :: "sty \<Rightarrow> bool" where
  "can_have_data_location t = (case t of
      TArray _ _ \<Rightarrow> True | TStruct _ \<Rightarrow> True | TMapping _ _ \<Rightarrow> True | TString \<Rightarrow> True | TDynamicBytes \<Rightarrow> True
    | _ \<Rightarrow> False)"

definition is_contract_storage :: "sty \<Rightarrow> bool" where
  "is_contract_storage t = (case t of TStorageRef _ \<Rightarrow> True | _ \<Rightarrow> False)"

fun is_dynamic_memory :: "sty \<Rightarrow> bool" where
  "is_dynamic_memory TString = True"
| "is_dynamic_memory TDynamicBytes = True"
| "is_dynamic_memory (TSlice t) = True"
| "is_dynamic_memory (TArray t dims) = (last_opt dims = Some Dynamic)"
| "is_dynamic_memory (TRef t) = is_dynamic_memory t"
| "is_dynamic_memory t = False"

definition is_storage_bytes :: "sty \<Rightarrow> bool" where
  "is_storage_bytes t = (case t of TStorageRef t \<Rightarrow> (case t of TDynamicBytes \<Rightarrow> True | _ \<Rightarrow> False) | _ \<Rightarrow> False)"

fun is_mapping :: "sty \<Rightarrow> bool" where
  "is_mapping (TMapping k v) = True"
| "is_mapping (TStorageRef t) = is_mapping t"
| "is_mapping t = False"

definition is_address :: "sty \<Rightarrow> bool" where
  "is_address t = (case t of TAddress \<Rightarrow> True | TContract _ \<Rightarrow> True | _ \<Rightarrow> False)"

definition deref_any :: "sty \<Rightarrow> sty" where
  "deref_any t = (case t of TStorageRef r \<Rightarrow> r | TRef r \<Rightarrow> r | _ \<Rightarrow> t)"

definition deref_into :: "sty \<Rightarrow> sty" where
  "deref_into t = (case t of TStorageRef r \<Rightarrow> r | TRef r \<Rightarrow> r | _ \<Rightarrow> t)"

definition deref_memory :: "sty \<Rightarrow> sty" where
  "deref_memory t = (case t of TRef r \<Rightarrow> r | _ \<Rightarrow> t)"

subsection \<open>Looking into the namespace\<close>

definition user_type_ty :: "namespace \<Rightarrow> nat \<Rightarrow> sty option" where
  "user_type_ty ns n = map_option ut_ty (at (ns_user_types ns) n)"

definition struct_fields :: "namespace \<Rightarrow> nat \<Rightarrow> parameter list option" where
  "struct_fields ns n = map_option sd_fields (at (ns_structs ns) n)"

fun type_bits :: "namespace \<Rightarrow> nat \<Rightarrow> sty \<Rightarrow> nat option" where
  "type_bits ns k TAddress = Some 256"
| "type_bits ns k (TContract n) = Some 256"
| "type_bits ns k THash = Some 256"
| "type_bits ns k TBool = Some 1"
| "type_bits ns k TField = Some 32"
| "type_bits ns k (TUint n) = Some n"
| "type_bits ns k (TRef t) = type_bits ns k t"
| "type_bits ns k (TStorageRef t) = Some 32"
| "type_bits ns k (TEnum n) =
     (case k of 0 \<Rightarrow> None | Suc k \<Rightarrow> do { e \<leftarrow> at (ns_enums ns) n; type_bits ns k (en_ty e) })"
| "type_bits ns k t = None"

fun is_integer :: "namespace \<Rightarrow> nat \<Rightarrow> sty \<Rightarrow> bool option" where
  "is_integer ns k (TUint n) = Some True"
| "is_integer ns k TField = Some True"
| "is_integer ns k (TRef t) = is_integer ns k t"
| "is_integer ns k (TStorageRef t) = is_integer ns k t"
| "is_integer ns k (TUserType n) =
     (case k of 0 \<Rightarrow> None | Suc k \<Rightarrow> do { t \<leftarrow> user_type_ty ns n; is_integer ns k t })"
| "is_integer ns k t = Some False"

fun is_reference_type :: "namespace \<Rightarrow> nat \<Rightarrow> sty \<Rightarrow> bool option" where
  "is_reference_type ns k (TStruct n) = Some True"
| "is_reference_type ns k (TArray t dims) = Some True"
| "is_reference_type ns k TDynamicBytes = Some True"
| "is_reference_type ns k TString = Some True"
| "is_reference_type ns k (TMapping t u) = Some True"
| "is_reference_type ns k (TRef t) = is_reference_type ns k t"
| "is_reference_type ns k (TStorageRef t) = is_reference_type ns k t"
| "is_reference_type ns k (TUserType n) =
     (case k of 0 \<Rightarrow> None | Suc k \<Rightarrow> do { t \<leftarrow> user_type_ty ns n; is_reference_type ns k t })"
| "is_reference_type ns k t = Some False"

fun is_recursive :: "namespace \<Rightarrow> nat \<Rightarrow> sty \<Rightarrow> bool option" where
  "is_recursive ns k (TStruct n) = map_option (list_ex p_recursive) (struct_fields ns n)"
| "is_recursive ns k (TMapping t u) = do { a \<leftarrow> is_recursive ns k t; if a then Some True else is_recursive ns k u }"
| "is_recursive ns k (TArray t dims) = is_recursive ns k t"
| "is_recursive ns k (TRef t) = is_recursive ns k t"
| "is_recursive ns k (TSlice t) = is_recursive ns k t"
| "is_recursive ns k (TStorageRef t) = is_recursive ns k t"
| "is_recursive ns k (TUserType n) =
     (case k of 0 \<Rightarrow> None | Suc k \<Rightarrow> do { t \<leftarrow> user_type_ty ns n; is_recursive ns k t })"
| "is_recursive ns k t = Some False"

text \<open>The structures a type encapsulates, without those behind a structure.\<close>

fun user_struct_no :: "namespace \<Rightarrow> nat \<Rightarrow> sty \<Rightarrow> nat set option" where
  "user_struct_no ns k (TStruct n) = Some {n}"
| "user_struct_no ns k (TMapping t u) =
     do { a \<leftarrow> user_struct_no ns k t; b \<leftarrow> user_struct_no ns k u; Some (a \<union> b) }"
| "user_struct_no ns k (TArray t dims) = user_struct_no ns k t"
| "user_struct_no ns k (TRef t) = user_struct_no ns k t"
| "user_struct_no ns k (TSlice t) = user_struct_no ns k t"
| "user_struct_no ns k (TStorageRef t) = user_struct_no ns k t"
| "user_struct_no ns k (TUserType n) =
     (case k of 0 \<Rightarrow> None | Suc k \<Rightarrow> do { t \<leftarrow> user_type_ty ns n; user_struct_no ns k t })"
| "user_struct_no ns k t = Some {}"

subsection \<open>Guarded recursion\<close>

text \<open>
  \<open>guarded_recursion\<close>: a structure that has been visited before answers \<open>bail\<close>.  The set of
  visited structures is shared by all calls.
\<close>

definition guarded_recursion :: "sty \<Rightarrow> nat list \<Rightarrow> 'a \<Rightarrow> (nat list \<Rightarrow> ('a \<times> nat list) option) \<Rightarrow> ('a \<times> nat list) option" where
  "guarded_recursion t vis bail f = (case t of
      TStruct n \<Rightarrow> if n \<in> set vis then Some (bail, vis) else f (n # vis)
    | _ \<Rightarrow> f vis)"

text \<open>\<open>iter().any(...)\<close> with the visited structures threaded through.\<close>

fun any_visited :: "('a \<Rightarrow> nat list \<Rightarrow> (bool \<times> nat list) option) \<Rightarrow> 'a list \<Rightarrow> nat list \<Rightarrow> (bool \<times> nat list) option" where
  "any_visited f [] vis = Some (False, vis)"
| "any_visited f (x # xs) vis = do { (b, vis) \<leftarrow> f x vis; if b then Some (True, vis) else any_visited f xs vis }"

fun is_dynamic_internal :: "namespace \<Rightarrow> nat \<Rightarrow> sty \<Rightarrow> nat list \<Rightarrow> (bool \<times> nat list) option" where
  "is_dynamic_internal ns k TString vis = Some (True, vis)"
| "is_dynamic_internal ns k TDynamicBytes vis = Some (True, vis)"
| "is_dynamic_internal ns k (TRef t) vis = is_dynamic_internal ns k t vis"
| "is_dynamic_internal ns k (TArray t dims) vis =
     (if list_ex (\<lambda>d. d = Dynamic) dims then Some (True, vis) else is_dynamic_internal ns k t vis)"
| "is_dynamic_internal ns k (TStruct n) vis = guarded_recursion (TStruct n) vis False (\<lambda>vis.
     case k of 0 \<Rightarrow> None | Suc k \<Rightarrow> do {
       fs \<leftarrow> struct_fields ns n;
       any_visited (\<lambda>f. is_dynamic_internal ns k (p_ty f)) fs vis })"
| "is_dynamic_internal ns k (TStorageRef t) vis = is_dynamic_internal ns k t vis"
| "is_dynamic_internal ns k (TSlice t) vis = Some (True, vis)"
| "is_dynamic_internal ns k t vis = Some (False, vis)"

definition is_dynamic :: "namespace \<Rightarrow> nat \<Rightarrow> sty \<Rightarrow> bool option" where
  "is_dynamic ns k t = map_option fst (is_dynamic_internal ns k t [])"

fun contains_mapping_internal :: "namespace \<Rightarrow> nat \<Rightarrow> sty \<Rightarrow> nat list \<Rightarrow> (bool \<times> nat list) option" where
  "contains_mapping_internal ns k (TMapping t u) vis = Some (True, vis)"
| "contains_mapping_internal ns k (TArray t dims) vis = contains_mapping_internal ns k t vis"
| "contains_mapping_internal ns k (TStruct n) vis = guarded_recursion (TStruct n) vis False (\<lambda>vis.
     case k of 0 \<Rightarrow> None | Suc k \<Rightarrow> do {
       fs \<leftarrow> struct_fields ns n;
       any_visited (\<lambda>f. contains_mapping_internal ns k (p_ty f)) fs vis })"
| "contains_mapping_internal ns k (TStorageRef t) vis = contains_mapping_internal ns k t vis"
| "contains_mapping_internal ns k (TRef t) vis = contains_mapping_internal ns k t vis"
| "contains_mapping_internal ns k t vis = Some (False, vis)"

definition contains_mapping :: "namespace \<Rightarrow> nat \<Rightarrow> sty \<Rightarrow> bool option" where
  "contains_mapping ns k t = map_option fst (contains_mapping_internal ns k t [])"

subsection \<open>Sizes\<close>

text \<open>The product over the dimensions of an array; a dimension without a length panics.\<close>

definition dimension :: "array_length \<Rightarrow> int option" where
  "dimension d = (case d of Fixed n \<Rightarrow> Some n | Dynamic \<Rightarrow> Some 1 | AnyFixed \<Rightarrow> None)"

fun dims_product :: "array_length list \<Rightarrow> int option" where
  "dims_product [] = Some 1"
| "dims_product (d # ds) = do { n \<leftarrow> dimension d; m \<leftarrow> dims_product ds; Some (n * m) }"

fun type_size_of_internal :: "namespace \<Rightarrow> nat \<Rightarrow> sty \<Rightarrow> nat list \<Rightarrow> (int \<times> nat list) option" where
  "type_size_of_internal ns k (TEnum n) vis = Some (1, vis)"
| "type_size_of_internal ns k TBool vis = Some (1, vis)"
| "type_size_of_internal ns k TField vis = Some (1, vis)"
| "type_size_of_internal ns k (TContract n) vis = Some (1, vis)"
| "type_size_of_internal ns k TAddress vis = Some (1, vis)"
| "type_size_of_internal ns k THash vis = Some (1, vis)"
| "type_size_of_internal ns k (TUint n) vis = (if n = 32 then Some (1, vis) else None)"
| "type_size_of_internal ns k (TArray t dims) vis = do { n \<leftarrow> dims_product dims; Some (n, vis) }"
| "type_size_of_internal ns k (TStruct n) vis = guarded_recursion (TStruct n) vis 0 (\<lambda>vis.
     do { fs \<leftarrow> struct_fields ns n; Some (int (length fs), vis) })"
| "type_size_of_internal ns k TString vis = Some (1, vis)"
| "type_size_of_internal ns k TDynamicBytes vis = Some (1, vis)"
| "type_size_of_internal ns k (TRef t) vis = Some (1, vis)"
| "type_size_of_internal ns k (TSlice t) vis = Some (1, vis)"
| "type_size_of_internal ns k (TStorageRef t) vis = Some (1, vis)"
| "type_size_of_internal ns k TUnresolved vis = Some (0, vis)"
| "type_size_of_internal ns k (TUserType n) vis =
     (case k of 0 \<Rightarrow> None | Suc k \<Rightarrow> do { t \<leftarrow> user_type_ty ns n; type_size_of_internal ns k t vis })"
| "type_size_of_internal ns k t vis = None"

definition type_size_of :: "namespace \<Rightarrow> nat \<Rightarrow> sty \<Rightarrow> int option" where
  "type_size_of ns k t = map_option fst (type_size_of_internal ns k t [])"

fun memory_size_of_internal :: "namespace \<Rightarrow> nat \<Rightarrow> sty \<Rightarrow> nat list \<Rightarrow> (int \<times> nat list) option" where
  "memory_size_of_internal ns k (TEnum n) vis = Some (1, vis)"
| "memory_size_of_internal ns k TBool vis = Some (1, vis)"
| "memory_size_of_internal ns k TField vis = Some (1, vis)"
| "memory_size_of_internal ns k (TContract n) vis = Some (4, vis)"
| "memory_size_of_internal ns k TAddress vis = Some (4, vis)"
| "memory_size_of_internal ns k THash vis = Some (4, vis)"
| "memory_size_of_internal ns k (TUint n) vis = (if n = 32 then Some (1, vis) else None)"
| "memory_size_of_internal ns k (TArray t dims) vis =
     do { (m, vis) \<leftarrow> memory_size_of_internal ns k t vis; n \<leftarrow> dims_product dims; Some (m * n, vis) }"
| "memory_size_of_internal ns k (TStruct n) vis = guarded_recursion (TStruct n) vis 0 (\<lambda>vis.
     do { fs \<leftarrow> struct_fields ns n; Some (int (length fs), vis) })"
| "memory_size_of_internal ns k TString vis = Some (1, vis)"
| "memory_size_of_internal ns k TDynamicBytes vis = Some (1, vis)"
| "memory_size_of_internal ns k (TRef t) vis = Some (1, vis)"
| "memory_size_of_internal ns k (TSlice t) vis = Some (1, vis)"
| "memory_size_of_internal ns k (TStorageRef t) vis = Some (1, vis)"
| "memory_size_of_internal ns k TUnresolved vis = Some (0, vis)"
| "memory_size_of_internal ns k (TUserType n) vis =
     (case k of 0 \<Rightarrow> None | Suc k \<Rightarrow> do { t \<leftarrow> user_type_ty ns n; memory_size_of_internal ns k t vis })"
| "memory_size_of_internal ns k t vis = None"

definition memory_size_of :: "namespace \<Rightarrow> nat \<Rightarrow> sty \<Rightarrow> int option" where
  "memory_size_of ns k t = map_option fst (memory_size_of_internal ns k t [])"

definition fits_in_memory :: "namespace \<Rightarrow> nat \<Rightarrow> sty \<Rightarrow> bool option" where
  "fits_in_memory ns k t = map_option (\<lambda>n. n < 65535) (memory_size_of ns k t)"

text \<open>\<open>iter().max().unwrap()\<close>\<close>

definition max_opt :: "'a::linorder list \<Rightarrow> 'a option" where
  "max_opt xs = (case xs of [] \<Rightarrow> None | x # xs \<Rightarrow> Some (fold max xs x))"

fun struct_elem_alignment :: "namespace \<Rightarrow> nat \<Rightarrow> sty \<Rightarrow> int option" where
  "struct_elem_alignment ns k TBool = Some 1"
| "struct_elem_alignment ns k (TContract n) = Some 1"
| "struct_elem_alignment ns k TAddress = Some 1"
| "struct_elem_alignment ns k (TEnum n) = Some 1"
| "struct_elem_alignment ns k TField = Some 1"
| "struct_elem_alignment ns k (TUint n) = (if n = 32 then Some 1 else None)"
| "struct_elem_alignment ns k (TArray t dims) =
     (if list_ex (\<lambda>d. d = Dynamic) dims then Some 1 else struct_elem_alignment ns k t)"
| "struct_elem_alignment ns k (TStruct n) =
     (case k of 0 \<Rightarrow> None | Suc k \<Rightarrow> do {
        fs \<leftarrow> struct_fields ns n;
        as \<leftarrow> those (map (\<lambda>f. struct_elem_alignment ns k (p_ty f)) fs);
        max_opt as })"
| "struct_elem_alignment ns k TString = Some 1"
| "struct_elem_alignment ns k TDynamicBytes = Some 1"
| "struct_elem_alignment ns k (TRef t) = Some 1"
| "struct_elem_alignment ns k (TStorageRef t) = Some 1"
| "struct_elem_alignment ns k (TUserType n) =
     (case k of 0 \<Rightarrow> None | Suc k \<Rightarrow> do { t \<leftarrow> user_type_ty ns n; struct_elem_alignment ns k t })"
| "struct_elem_alignment ns k t = None"

fun align_of_ty :: "namespace \<Rightarrow> nat \<Rightarrow> sty \<Rightarrow> nat option" where
  "align_of_ty ns k (TStruct n) =
     (case k of 0 \<Rightarrow> None | Suc k \<Rightarrow> do {
        fs \<leftarrow> struct_fields ns n;
        as \<leftarrow> those (map (\<lambda>f. if p_recursive f then Some 1 else align_of_ty ns k (p_ty f)) fs);
        max_opt as })"
| "align_of_ty ns k t = Some 1"

fun storage_size :: "namespace \<Rightarrow> nat \<Rightarrow> sty \<Rightarrow> int option" where
  "storage_size ns k (TArray t dims) = do { m \<leftarrow> storage_size ns k t; n \<leftarrow> dims_product dims; Some (m * n) }"
| "storage_size ns k (TStruct n) = do { s \<leftarrow> at (ns_structs ns) n; Some (case last_opt (sd_offsets s) of Some z \<Rightarrow> z | None \<Rightarrow> 0) }"
| "storage_size ns k TString = Some 1"
| "storage_size ns k TDynamicBytes = Some 1"
| "storage_size ns k (TRef t) = storage_size ns k t"
| "storage_size ns k (TStorageRef t) = storage_size ns k t"
| "storage_size ns k (TUserType n) =
     (case k of 0 \<Rightarrow> None | Suc k \<Rightarrow> do { t \<leftarrow> user_type_ty ns n; storage_size ns k t })"
| "storage_size ns k t = memory_size_of ns k t"

text \<open>The slots of a structure are those of its fields; a field of infinite size is left out.\<close>

fun storage_slots :: "namespace \<Rightarrow> nat \<Rightarrow> sty \<Rightarrow> int option" where
  "storage_slots ns k (TStorageRef t) = storage_slots ns k t"
| "storage_slots ns k (TRef t) = storage_slots ns k t"
| "storage_slots ns k (TStruct n) =
     (case k of 0 \<Rightarrow> None | Suc k \<Rightarrow> do {
        fs \<leftarrow> struct_fields ns n;
        xs \<leftarrow> those (map (\<lambda>f. storage_slots ns k (p_ty f)) (filter (\<lambda>f. \<not> p_infinite_size f) fs));
        Some (sum_list xs) })"
| "storage_slots ns k (TArray t dims) = do { m \<leftarrow> storage_slots ns k t; n \<leftarrow> dims_product dims; Some (m * n) }"
| "storage_slots ns k t = Some 1"

subsection \<open>Searching through structures\<close>

text \<open>
  \<open>is_dynamic\<close> and \<open>contains_mapping\<close> are depth-first searches through the structures with a
  shared set of visited ones.  \<open>leaf\<close> says what a type is behind its references and arrays: the
  answer, or the structure to look into.  \<open>finds\<close> is the specification: some path through fields
  leads to a type whose answer is true.
\<close>

inductive finds :: "('t \<Rightarrow> bool + nat) \<Rightarrow> (nat \<Rightarrow> 't list option) \<Rightarrow> 't \<Rightarrow> bool" for leaf inner where
  finds_leaf: "leaf t = Inl True \<Longrightarrow> finds leaf inner t"
| finds_inner: "leaf t = Inr n \<Longrightarrow> inner n = Some ts \<Longrightarrow> u \<in> set ts \<Longrightarrow> finds leaf inner u \<Longrightarrow> finds leaf inner t"

definition known :: "('t \<Rightarrow> bool + nat) \<Rightarrow> nat set \<Rightarrow> 't \<Rightarrow> bool" where
  "known leaf A t \<longleftrightarrow> leaf t = Inl False \<or> (\<exists>m\<in>A. leaf t = Inr m)"

definition explored :: "('t \<Rightarrow> bool + nat) \<Rightarrow> (nat \<Rightarrow> 't list option) \<Rightarrow> nat set \<Rightarrow> nat set \<Rightarrow> bool" where
  "explored leaf inner A B \<longleftrightarrow> (\<forall>n\<in>A. \<exists>ts. inner n = Some ts \<and> (\<forall>u\<in>set ts. known leaf B u))"

definition in_range :: "('t \<Rightarrow> bool + nat) \<Rightarrow> nat \<Rightarrow> 't \<Rightarrow> bool" where
  "in_range leaf N t \<longleftrightarrow> (\<forall>n. leaf t = Inr n \<longrightarrow> n < N)"

lemma known_mono: "known leaf A t \<Longrightarrow> A \<subseteq> B \<Longrightarrow> known leaf B t"
  by (auto simp: known_def)

lemma explored_mono: "explored leaf inner A B \<Longrightarrow> B \<subseteq> C \<Longrightarrow> explored leaf inner A C"
  unfolding explored_def by (meson known_mono)

lemma explored_not_finds:
  assumes "finds leaf inner t" "explored leaf inner A A" "known leaf A t"
  shows False
  using assms by (induction rule: finds.induct) (fastforce simp: known_def explored_def)+

locale guarded_search =
  fixes srch :: "nat \<Rightarrow> 't \<Rightarrow> nat list \<Rightarrow> (bool \<times> nat list) option"
    and leaf :: "'t \<Rightarrow> bool + nat"
    and inner :: "nat \<Rightarrow> 't list option"
  assumes srch_leaf: "leaf t = Inl b \<Longrightarrow> srch k t vis = Some (b, vis)"
    and srch_seen: "leaf t = Inr n \<Longrightarrow> n \<in> set vis \<Longrightarrow> srch k t vis = Some (False, vis)"
    and srch_step: "leaf t = Inr n \<Longrightarrow> n \<notin> set vis \<Longrightarrow>
      srch (Suc k) t vis = do { ts \<leftarrow> inner n; any_visited (srch k) ts (n # vis) }"
begin

definition outcome :: "'t set \<Rightarrow> nat \<Rightarrow> nat list \<Rightarrow> bool \<Rightarrow> nat list \<Rightarrow> bool" where
  "outcome T N vis b vis' \<longleftrightarrow> set vis \<subseteq> set vis' \<and> set vis' \<subseteq> {..<N} \<and>
     (if b then \<exists>t\<in>T. finds leaf inner t
      else (\<forall>t\<in>T. known leaf (set vis') t) \<and> explored leaf inner (set vis' - set vis) (set vis'))"

lemma any_visited_outcome:
  assumes step: "\<And>t vis. t \<in> set ts \<Longrightarrow> set vis \<subseteq> {..<N} \<Longrightarrow> N \<le> k + card (set vis) \<Longrightarrow>
      \<exists>b vis'. srch k t vis = Some (b, vis') \<and> outcome {t} N vis b vis'"
    and "set vis \<subseteq> {..<N}" "N \<le> k + card (set vis)"
  shows "\<exists>b vis'. any_visited (srch k) ts vis = Some (b, vis') \<and> outcome (set ts) N vis b vis'"
  using assms
proof (induction ts arbitrary: vis)
  case Nil
  then show ?case by (intro exI [of _ False] exI [of _ vis]) (simp add: outcome_def explored_def)
next
  case (Cons t ts)
  obtain b vis1 where s: "srch k t vis = Some (b, vis1)" "outcome {t} N vis b vis1"
    using Cons.prems(1) [of t vis] Cons.prems(2,3) by auto
  show ?case
  proof (cases b)
    case True
    then show ?thesis using s by (auto simp: outcome_def)
  next
    case False
    have sub: "set vis \<subseteq> set vis1" "set vis1 \<subseteq> {..<N}" using s(2) by (simp_all add: outcome_def)
    then have "card (set vis) \<le> card (set vis1)" by (simp add: card_mono)
    then obtain c vis2 where t: "any_visited (srch k) ts vis1 = Some (c, vis2)" "outcome (set ts) N vis1 c vis2"
      using Cons.IH [of vis1] Cons.prems(1,3) sub(2) by auto
    have "outcome (set (t # ts)) N vis c vis2"
    proof (cases c)
      case True
      then show ?thesis using t(2) sub by (auto simp: outcome_def)
    next
      case F: False
      have sub2: "set vis1 \<subseteq> set vis2" using t(2) by (simp add: outcome_def)
      have "explored leaf inner (set vis1 - set vis) (set vis2)"
        using s(2) \<open>\<not> b\<close> sub2 by (auto simp: outcome_def intro: explored_mono)
      moreover have "explored leaf inner (set vis2 - set vis1) (set vis2)" using t(2) F by (simp add: outcome_def)
      ultimately have "explored leaf inner (set vis2 - set vis) (set vis2)" by (auto simp: explored_def)
      moreover have "known leaf (set vis2) t" using s(2) \<open>\<not> b\<close> sub2 by (auto simp: outcome_def intro: known_mono)
      ultimately show ?thesis using t(2) F sub by (auto simp: outcome_def)
    qed
    then show ?thesis using s(1) t(1) False by auto
  qed
qed

lemma srch_outcome:
  assumes inner: "\<And>n. n < N \<Longrightarrow> \<exists>ts. inner n = Some ts \<and> (\<forall>u\<in>set ts. in_range leaf N u)"
  shows "in_range leaf N t \<Longrightarrow> set vis \<subseteq> {..<N} \<Longrightarrow> N \<le> k + card (set vis) \<Longrightarrow>
    \<exists>b vis'. srch k t vis = Some (b, vis') \<and> outcome {t} N vis b vis'"
proof (induction k arbitrary: t vis)
  case 0
  then have "set vis = {..<N}" using card_seteq [of "{..<N}" "set vis"] by simp
  then show ?case using 0 srch_leaf srch_seen
    by (cases "leaf t") (auto simp: in_range_def outcome_def known_def explored_def intro: finds_leaf)
next
  case (Suc k)
  show ?case
  proof (cases "leaf t")
    case (Inl b)
    then show ?thesis using srch_leaf [OF Inl] Suc.prems
      by (auto simp: outcome_def known_def explored_def intro: finds_leaf)
  next
    case (Inr n)
    show ?thesis
    proof (cases "n \<in> set vis")
      case True
      then show ?thesis using srch_seen [OF Inr] Suc.prems Inr by (auto simp: outcome_def known_def explored_def)
    next
      case False
      have n: "n < N" using Suc.prems(1) Inr by (simp add: in_range_def)
      obtain ts where ts: "inner n = Some ts" "\<forall>u\<in>set ts. in_range leaf N u" using inner [OF n] by blast
      have "\<exists>b vis'. any_visited (srch k) ts (n # vis) = Some (b, vis') \<and> outcome (set ts) N (n # vis) b vis'"
      proof (rule any_visited_outcome)
        show "\<And>u vis. u \<in> set ts \<Longrightarrow> set vis \<subseteq> {..<N} \<Longrightarrow> N \<le> k + card (set vis) \<Longrightarrow>
            \<exists>b vis'. srch k u vis = Some (b, vis') \<and> outcome {u} N vis b vis'" using Suc.IH ts(2) by blast
      qed (use Suc.prems n False in auto)
      then obtain b vis' where a: "any_visited (srch k) ts (n # vis) = Some (b, vis')" "outcome (set ts) N (n # vis) b vis'"
        by blast
      have "outcome {t} N vis b vis'"
      proof (cases b)
        case True
        then show ?thesis using a(2) Inr ts(1) by (auto simp: outcome_def intro: finds_inner)
      next
        case F: False
        then have "explored leaf inner (set vis' - set vis) (set vis')"
          using a(2) ts(1) by (auto simp: outcome_def explored_def)
        then show ?thesis using a(2) Inr F by (auto simp: outcome_def known_def)
      qed
      then show ?thesis using srch_step [OF Inr False] ts(1) a(1) by simp
    qed
  qed
qed

lemma srch_exact:
  assumes "\<And>n. n < N \<Longrightarrow> \<exists>ts. inner n = Some ts \<and> (\<forall>u\<in>set ts. in_range leaf N u)" "in_range leaf N t" "N \<le> k"
  shows "map_option fst (srch k t []) = Some (finds leaf inner t)"
proof -
  obtain b vis' where s: "srch k t [] = Some (b, vis')" "outcome {t} N [] b vis'"
    using srch_outcome [OF assms(1,2), of "[]" k] assms(3) by auto
  have "finds leaf inner t = b"
    using s(2) explored_not_finds [of leaf inner t "set vis'"] by (cases b) (auto simp: outcome_def)
  then show ?thesis using s(1) by simp
qed

end

subsection \<open>Dynamic types and mappings\<close>

fun dynamic_leaf :: "sty \<Rightarrow> bool + nat" where
  "dynamic_leaf TString = Inl True"
| "dynamic_leaf TDynamicBytes = Inl True"
| "dynamic_leaf (TSlice t) = Inl True"
| "dynamic_leaf (TArray t dims) = (if list_ex (\<lambda>d. d = Dynamic) dims then Inl True else dynamic_leaf t)"
| "dynamic_leaf (TRef t) = dynamic_leaf t"
| "dynamic_leaf (TStorageRef t) = dynamic_leaf t"
| "dynamic_leaf (TStruct n) = Inr n"
| "dynamic_leaf t = Inl False"

fun mapping_leaf :: "sty \<Rightarrow> bool + nat" where
  "mapping_leaf (TMapping t u) = Inl True"
| "mapping_leaf (TArray t dims) = mapping_leaf t"
| "mapping_leaf (TRef t) = mapping_leaf t"
| "mapping_leaf (TStorageRef t) = mapping_leaf t"
| "mapping_leaf (TStruct n) = Inr n"
| "mapping_leaf t = Inl False"

definition field_types :: "namespace \<Rightarrow> nat \<Rightarrow> sty list option" where
  "field_types ns n = map_option (map p_ty) (struct_fields ns n)"

lemma any_visited_map: "any_visited (\<lambda>x. g (h x)) xs vis = any_visited g (map h xs) vis"
  by (induction xs arbitrary: vis) (simp_all cong: if_cong)

interpretation dyn: guarded_search "is_dynamic_internal ns" dynamic_leaf "field_types ns" for ns
proof
  show "dynamic_leaf t = Inl b \<Longrightarrow> is_dynamic_internal ns k t vis = Some (b, vis)" for t b k vis
    by (induction t rule: dynamic_leaf.induct) (auto split: if_splits)
  show "dynamic_leaf t = Inr n \<Longrightarrow> n \<in> set vis \<Longrightarrow> is_dynamic_internal ns k t vis = Some (False, vis)" for t n vis k
    by (induction t rule: dynamic_leaf.induct) (auto simp: guarded_recursion_def split: if_splits)
  show "dynamic_leaf t = Inr n \<Longrightarrow> n \<notin> set vis \<Longrightarrow> is_dynamic_internal ns (Suc k) t vis =
      do { ts \<leftarrow> field_types ns n; any_visited (is_dynamic_internal ns k) ts (n # vis) }" for t n vis k
    by (induction t rule: dynamic_leaf.induct)
      (auto simp: guarded_recursion_def field_types_def any_visited_map [where h = p_ty] Option.bind_map_option comp_def
        split: if_splits)
qed

interpretation map: guarded_search "contains_mapping_internal ns" mapping_leaf "field_types ns" for ns
proof
  show "mapping_leaf t = Inl b \<Longrightarrow> contains_mapping_internal ns k t vis = Some (b, vis)" for t b k vis
    by (induction t rule: mapping_leaf.induct) auto
  show "mapping_leaf t = Inr n \<Longrightarrow> n \<in> set vis \<Longrightarrow> contains_mapping_internal ns k t vis = Some (False, vis)" for t n vis k
    by (induction t rule: mapping_leaf.induct) (auto simp: guarded_recursion_def)
  show "mapping_leaf t = Inr n \<Longrightarrow> n \<notin> set vis \<Longrightarrow> contains_mapping_internal ns (Suc k) t vis =
      do { ts \<leftarrow> field_types ns n; any_visited (contains_mapping_internal ns k) ts (n # vis) }" for t n vis k
    by (induction t rule: mapping_leaf.induct)
      (auto simp: guarded_recursion_def field_types_def any_visited_map [where h = p_ty] Option.bind_map_option comp_def)
qed

text \<open>Structure numbers behind the fields are in range.\<close>

definition structs_in_range :: "(sty \<Rightarrow> bool + nat) \<Rightarrow> namespace \<Rightarrow> bool" where
  "structs_in_range leaf ns \<longleftrightarrow>
     (\<forall>d\<in>set (ns_structs ns). \<forall>f\<in>set (sd_fields d). in_range leaf (length (ns_structs ns)) (p_ty f))"

lemma field_types_in_range:
  "structs_in_range leaf ns \<Longrightarrow> n < length (ns_structs ns) \<Longrightarrow>
    \<exists>ts. field_types ns n = Some ts \<and> (\<forall>u\<in>set ts. in_range leaf (length (ns_structs ns)) u)"
  by (auto simp: field_types_def struct_fields_def at_def structs_in_range_def)

text \<open>
  C30: the guarded searches return for every type, also when structures contain themselves, and answer
  whether some path through fields, references and array elements leads to a dynamic type, or to a mapping.
\<close>

theorem guarded_searches_exact:
  assumes "structs_in_range dynamic_leaf ns" "in_range dynamic_leaf (length (ns_structs ns)) t"
    and "structs_in_range mapping_leaf ns" "in_range mapping_leaf (length (ns_structs ns)) t"
    and "length (ns_structs ns) \<le> k"
  shows "is_dynamic ns k t = Some (finds dynamic_leaf (field_types ns) t) \<and>
    contains_mapping ns k t = Some (finds mapping_leaf (field_types ns) t)"
  unfolding is_dynamic_def contains_mapping_def
  using assms by (intro conjI dyn.srch_exact map.srch_exact) (auto intro: field_types_in_range)

definition field :: "string \<Rightarrow> sty \<Rightarrow> parameter" where
  "field n t = \<lparr>p_loc = Implicit, p_name = Some n, p_ty = t, p_infinite_size = False, p_recursive = False\<rparr>"

definition struct_of :: "string \<Rightarrow> parameter list \<Rightarrow> struct_decl" where
  "struct_of n fs = \<lparr>sd_name = n, sd_contract = None, sd_loc = Implicit, sd_fields = fs, sd_offsets = [], sd_storage_offsets = []\<rparr>"

definition structs_namespace :: "struct_decl list \<Rightarrow> namespace" where
  "structs_namespace ds = \<lparr>ns_enums = [], ns_structs = ds, ns_contracts = [], ns_user_types = [], ns_functions = [], ns_constants = [],
     ns_diagnostics = no_diagnostics, ns_function_symbols = (\<lambda>_. None), ns_variable_symbols = (\<lambda>_. None), ns_next_id = 0, ns_called_lib_functions = []\<rparr>"

definition linked_struct :: namespace where
  "linked_struct = structs_namespace [struct_of ''Node'' [field ''next'' (TStruct 0), field ''label'' TString]]"

theorem guarded_searches_exact_witness:
  "is_dynamic linked_struct 1 (TArray (TStruct 0) [Fixed 3]) = Some True \<and>
   contains_mapping linked_struct 1 (TArray (TStruct 0) [Fixed 3]) = Some (finds mapping_leaf (field_types linked_struct) (TArray (TStruct 0) [Fixed 3]))"
proof -
  have "finds dynamic_leaf (field_types linked_struct) (TArray (TStruct 0) [Fixed 3])"
    by (rule finds_inner [where n = 0 and u = TString])
      (auto simp: linked_struct_def structs_namespace_def struct_of_def field_def field_types_def struct_fields_def
        at_def intro: finds_leaf)
  moreover have "is_dynamic linked_struct 1 (TArray (TStruct 0) [Fixed 3]) =
        Some (finds dynamic_leaf (field_types linked_struct) (TArray (TStruct 0) [Fixed 3])) \<and>
      contains_mapping linked_struct 1 (TArray (TStruct 0) [Fixed 3]) =
        Some (finds mapping_leaf (field_types linked_struct) (TArray (TStruct 0) [Fixed 3]))"
    by (rule guarded_searches_exact)
      (auto simp: linked_struct_def structs_namespace_def struct_of_def field_def structs_in_range_def in_range_def)
  ultimately show ?thesis by simp
qed

subsection \<open>Arrays and their elements\<close>

lemma dims_product_snoc: "dims_product (ds @ [d]) = do { n \<leftarrow> dims_product ds; m \<leftarrow> dimension d; Some (n * m) }"
  by (induction ds) (auto simp: Option.bind_assoc ac_simps split: bind_splits)

lemma dims_scale:
  "do { m \<leftarrow> x; n \<leftarrow> dims_product (ds @ [Fixed l]); Some (m * n) } =
   map_option (\<lambda>z. l * z) (do { m \<leftarrow> x; n \<leftarrow> dims_product ds; Some (m * n) })"
  by (auto simp: dims_product_snoc dimension_def ac_simps split: bind_splits)

lemma drop_dimension_snoc:
  "drop_dimension t (ds @ [d]) = Some u \<Longrightarrow> u = (if ds = [] then t else TArray t ds)"
  by (auto simp: drop_dimension_def split: if_splits)

lemma scale_one: "map_option (\<lambda>z. l * z) (do { m \<leftarrow> x; n \<leftarrow> Some 1; Some (m * n) }) = map_option (\<lambda>z. l * (z :: int)) x"
  by (cases x) auto

text \<open>
  C34: for an array of fixed outer length, the element type that the three dereferencing methods give is
  the same up to the reference, and the sizes of the array in memory, in storage and in slots are the length
  times the size of that element.
\<close>

theorem array_sizes:
  assumes "t = TArray e dims" "ty_array_length t = Some (Some l)"
  shows "\<exists>u. array_elem t = Some u \<and> array_deref t = Some (TRef u) \<and> storage_array_elem t = Some (TStorageRef u) \<and>
    storage_slots ns k t = map_option (\<lambda>z. l * z) (storage_slots ns k u) \<and>
    storage_size ns k t = map_option (\<lambda>z. l * z) (storage_size ns k u) \<and>
    memory_size_of ns k t = map_option (\<lambda>z. l * z) (memory_size_of ns k u)"
proof -
  obtain ds where dims: "dims = ds @ [Fixed l]"
    using assms by (cases dims rule: rev_cases) (auto simp: last_or_def fixed_length_def split: array_length.splits if_splits)
  obtain u where u: "drop_dimension e dims = Some u" by (cases "ds = []") (auto simp: drop_dimension_def dims)
  have *: "u = (if ds = [] then e else TArray e ds)" using drop_dimension_snoc u unfolding dims .
  have pair: "map_option fst (do { (m, vis) \<leftarrow> x; n \<leftarrow> q; Some (m * n, vis) }) =
      do { m \<leftarrow> map_option fst x; n \<leftarrow> q; Some (m * n) }" for x :: "(int \<times> nat list) option" and q
    by (auto split: bind_splits)
  have "storage_slots ns k t = map_option (\<lambda>z. l * z) (storage_slots ns k u)"
    "storage_size ns k t = map_option (\<lambda>z. l * z) (storage_size ns k u)"
    using dims_scale [of _ ds l] scale_one [of l] by (simp_all add: assms(1) * dims)
  moreover have "memory_size_of ns k t = map_option (\<lambda>z. l * z) (memory_size_of ns k u)"
    using dims_scale [of _ ds l] scale_one [of l] by (simp add: assms(1) * dims memory_size_of_def pair)
  ultimately show ?thesis using u by (simp add: assms(1) array_elem_def)
qed

theorem array_sizes_witness:
  "storage_slots linked_struct 2 (TArray (TUint 32) [Fixed 3, Fixed 4]) =
     map_option (\<lambda>z. 4 * z) (storage_slots linked_struct 2 (TArray (TUint 32) [Fixed 3]))"
  using array_sizes [of "TArray (TUint 32) [Fixed 3, Fixed 4]" "TUint 32" "[Fixed 3, Fixed 4]" 4 linked_struct 2]
  by (auto simp: array_elem_def drop_dimension_def last_or_def fixed_length_def)

end
