(* ===== verification/Sema_Layout.thy ===== *)
theory Sema_Layout
  imports Sema_Types "HOL-Library.Signed_Division"
begin

section \<open>The layout of structures\<close>

text \<open>
  Model of \<open>struct_offsets\<close> in \<open>src/sema/types.rs\<close>: the offsets of the fields of every
  structure in memory and in storage.  The size of a field that is a structure is the last entry of the
  offsets of that structure, which may not be known yet; the code repeats the pass over all structures
  until nothing changes.  The loop is a \<open>partial_function\<close>; \<open>struct_offsets_correct\<close> shows
  that it ends.
\<close>

definition pad :: "int \<Rightarrow> int \<Rightarrow> int" where
  "pad offset alignment = (let r = offset smod alignment in if r > 0 then offset + (alignment - r) else offset)"

fun memory_offsets :: "namespace \<Rightarrow> nat \<Rightarrow> parameter list \<Rightarrow> int \<Rightarrow> nat \<Rightarrow> (int list \<times> int \<times> nat) option" where
  "memory_offsets ns k [] offset largest = Some ([], offset, largest)"
| "memory_offsets ns k (f # fs) offset largest = do {
     alignment \<leftarrow> align_of_ty ns k (p_ty f);
     let largest = max alignment largest;
     let offset = pad offset (int alignment);
     sz \<leftarrow> (if p_recursive f then Some 0 else storage_size ns k (p_ty f));
     (os, offset', largest) \<leftarrow> memory_offsets ns k fs (offset + sz) largest;
     Some (offset # os, offset', largest) }"

definition struct_memory_offsets :: "namespace \<Rightarrow> nat \<Rightarrow> parameter list \<Rightarrow> int list option" where
  "struct_memory_offsets ns k fs = do {
     (os, offset, largest) \<leftarrow> memory_offsets ns k fs 0 0;
     Some (os @ [if largest > 1 then pad offset (int largest) else offset]) }"

fun slot_offsets :: "namespace \<Rightarrow> nat \<Rightarrow> parameter list \<Rightarrow> int \<Rightarrow> int \<Rightarrow> (int list \<times> int \<times> int) option" where
  "slot_offsets ns k [] offset largest = Some ([], offset, largest)"
| "slot_offsets ns k (f # fs) offset largest =
     (if \<not> p_infinite_size f then do {
        let largest = max 1 largest;
        let offset = pad offset 1;
        n \<leftarrow> storage_slots ns k (p_ty f);
        (os, offset', largest) \<leftarrow> slot_offsets ns k fs (offset + n) largest;
        Some (offset # os, offset', largest) }
      else slot_offsets ns k fs offset largest)"

definition struct_slot_offsets :: "namespace \<Rightarrow> nat \<Rightarrow> parameter list \<Rightarrow> int list option" where
  "struct_slot_offsets ns k fs = do {
     (os, offset, largest) \<leftarrow> slot_offsets ns k fs 0 0;
     Some (os @ [if largest > 1 then pad offset largest else offset]) }"

definition set_struct :: "nat \<Rightarrow> (struct_decl \<Rightarrow> struct_decl) \<Rightarrow> namespace \<Rightarrow> namespace" where
  "set_struct n g ns = ns\<lparr>ns_structs := (ns_structs ns)[n := g (ns_structs ns ! n)]\<rparr>"

text \<open>The body of the loop over the structures.\<close>

definition update_struct :: "nat \<Rightarrow> nat \<Rightarrow> bool \<times> namespace \<Rightarrow> (bool \<times> namespace) option" where
  "update_struct k n s = (case s of (changes, ns) \<Rightarrow> do {
     os \<leftarrow> struct_memory_offsets ns k (sd_fields (ns_structs ns ! n));
     let c = (sd_offsets (ns_structs ns ! n) \<noteq> os);
     let ns = (if c then set_struct n (\<lambda>d. d\<lparr>sd_offsets := os\<rparr>) ns else ns);
     ss \<leftarrow> struct_slot_offsets ns k (sd_fields (ns_structs ns ! n));
     let c' = (sd_storage_offsets (ns_structs ns ! n) \<noteq> ss);
     let ns = (if c' then set_struct n (\<lambda>d. d\<lparr>sd_storage_offsets := ss\<rparr>) ns else ns);
     Some (changes \<or> c \<or> c', ns) })"

definition offsets_pass :: "nat \<Rightarrow> namespace \<Rightarrow> (bool \<times> namespace) option" where
  "offsets_pass k ns = fold_opt (update_struct k) [0..<length (ns_structs ns)] (False, ns)"

partial_function (option) struct_offsets :: "nat \<Rightarrow> namespace \<Rightarrow> namespace option" where
  "struct_offsets k ns = do {
     (changes, ns) \<leftarrow> offsets_pass k ns;
     if changes then struct_offsets k ns else Some ns }"

subsection \<open>Every alignment is one\<close>

lemma fold_max_ones: "\<forall>x\<in>set xs. x = (1::nat) \<Longrightarrow> fold max xs 1 = 1"
  by (induction xs) auto

lemma max_opt_ones: "\<forall>x\<in>set xs. x = (1::nat) \<Longrightarrow> max_opt xs = Some a \<Longrightarrow> a = 1"
  using fold_max_ones by (cases xs) (auto simp: max_opt_def)

lemma those_iff: "those zs = Some ys \<longleftrightarrow> zs = map Some ys"
proof (induction zs arbitrary: ys)
  case (Cons z zs)
  then show ?case by (cases z; cases ys) auto
qed auto

lemma those_all:
  assumes "those (map h xs) = Some ys" "\<And>x y. x \<in> set xs \<Longrightarrow> h x = Some y \<Longrightarrow> P y"
  shows "\<forall>y\<in>set ys. P y"
proof
  fix y
  assume "y \<in> set ys"
  then have "Some y \<in> set (map Some ys)" by simp
  also have "set (map Some ys) = h ` set xs" using assms(1) by (simp add: those_iff flip: set_map)
  finally obtain x where "x \<in> set xs" "h x = Some y" by auto
  then show "P y" by (rule assms(2))
qed

lemma align_one: "align_of_ty ns k t = Some a \<Longrightarrow> a = 1"
proof (induction ns k t arbitrary: a rule: align_of_ty.induct)
  case (1 ns k n)
  then obtain j fs as where *: "k = Suc j" "struct_fields ns n = Some fs" "max_opt as = Some a"
    "those (map (\<lambda>f. if p_recursive f then Some 1 else align_of_ty ns j (p_ty f)) fs) = Some as"
    by (auto simp: bind_eq_Some_conv split: nat.splits)
  have "\<forall>y\<in>set as. y = 1" by (rule those_all [OF *(4)]) (use 1 * in \<open>auto split: if_splits\<close>)
  then show ?case using max_opt_ones *(3) by blast
qed simp_all

lemma pad_one [simp]: "pad x 1 = x"
  by (simp add: pad_def Let_def signed_modulo_int_def)

subsection \<open>Offsets are prefix sums\<close>

definition field_size :: "namespace \<Rightarrow> nat \<Rightarrow> parameter \<Rightarrow> int option" where
  "field_size ns k f = (if p_recursive f then Some 0 else storage_size ns k (p_ty f))"

definition field_slots :: "namespace \<Rightarrow> nat \<Rightarrow> parameter list \<Rightarrow> int list option" where
  "field_slots ns k fs = those (map (\<lambda>f. storage_slots ns k (p_ty f)) (filter (\<lambda>f. \<not> p_infinite_size f) fs))"

fun prefix_sums :: "int \<Rightarrow> int list \<Rightarrow> int list" where
  "prefix_sums z [] = [z]"
| "prefix_sums z (x # xs) = z # prefix_sums (z + x) xs"

definition aligned :: "namespace \<Rightarrow> nat \<Rightarrow> parameter list \<Rightarrow> bool" where
  "aligned ns k fs \<longleftrightarrow> (\<forall>f\<in>set fs. align_of_ty ns k (p_ty f) \<noteq> None)"

lemma memory_offsets_sums:
  assumes "aligned ns k fs" "those (map (field_size ns k) fs) = Some xs" "largest \<le> 1"
  shows "\<exists>os z l. memory_offsets ns k fs offset largest = Some (os, z, l) \<and> os @ [z] = prefix_sums offset xs \<and> l \<le> 1"
  using assms
proof (induction fs arbitrary: offset largest xs)
  case (Cons f fs)
  from Cons.prems(2) obtain x ys where x: "field_size ns k f = Some x" and ys: "those (map (field_size ns k) fs) = Some ys"
    and xs: "xs = x # ys" by (auto split: option.splits)
  obtain a where a: "align_of_ty ns k (p_ty f) = Some a" using Cons.prems(1) by (auto simp: aligned_def)
  then have "a = 1" by (rule align_one)
  moreover have "aligned ns k fs" using Cons.prems(1) by (simp add: aligned_def)
  moreover from Cons.IH [OF this ys, of "max 1 largest" "offset + x"] Cons.prems(3) obtain os z l where
    "memory_offsets ns k fs (offset + x) (max 1 largest) = Some (os, z, l)" "os @ [z] = prefix_sums (offset + x) ys" "l \<le> 1"
    by auto
  ultimately show ?case using a x xs by (auto simp: field_size_def Let_def)
qed simp

lemma struct_memory_offsets_sums:
  assumes "aligned ns k fs" "those (map (field_size ns k) fs) = Some xs"
  shows "struct_memory_offsets ns k fs = Some (prefix_sums 0 xs)"
proof -
  obtain os z l where "memory_offsets ns k fs 0 0 = Some (os, z, l)" "os @ [z] = prefix_sums 0 xs" "l \<le> 1"
    using memory_offsets_sums [OF assms, of 0 0] by auto
  then show ?thesis by (simp add: struct_memory_offsets_def)
qed

lemma slot_offsets_sums:
  assumes "field_slots ns k fs = Some xs" "largest \<le> 1"
  shows "\<exists>os z l. slot_offsets ns k fs offset largest = Some (os, z, l) \<and> os @ [z] = prefix_sums offset xs \<and> l \<le> 1"
  using assms
proof (induction fs arbitrary: offset largest xs)
  case Nil
  then show ?case by (simp add: field_slots_def)
next
  case (Cons f fs)
  show ?case
  proof (cases "p_infinite_size f")
    case True
    then show ?thesis using Cons by (simp add: field_slots_def)
  next
    case False
    then obtain x ys where x: "storage_slots ns k (p_ty f) = Some x" and ys: "field_slots ns k fs = Some ys"
      and xs: "xs = x # ys" using Cons.prems(1) by (auto simp: field_slots_def split: option.splits)
    from Cons.IH [OF ys, of "max 1 largest" "offset + x"] Cons.prems(2) obtain os z l where
      "slot_offsets ns k fs (offset + x) (max 1 largest) = Some (os, z, l)" "os @ [z] = prefix_sums (offset + x) ys" "l \<le> 1"
      by auto
    then show ?thesis using False x xs by (auto simp: Let_def)
  qed
qed

lemma struct_slot_offsets_sums:
  assumes "field_slots ns k fs = Some xs"
  shows "struct_slot_offsets ns k fs = Some (prefix_sums 0 xs)"
proof -
  obtain os z l where "slot_offsets ns k fs 0 0 = Some (os, z, l)" "os @ [z] = prefix_sums 0 xs" "l \<le> 1"
    using slot_offsets_sums [OF assms, of 0 0] by auto
  then show ?thesis by (simp add: struct_slot_offsets_def)
qed

subsection \<open>What a pass changes\<close>

text \<open>Two namespaces that differ in the offsets of their structures only.\<close>

definition strip :: "struct_decl \<Rightarrow> struct_decl" where
  "strip d = d\<lparr>sd_offsets := [], sd_storage_offsets := []\<rparr>"

definition same_but_offsets :: "namespace \<Rightarrow> namespace \<Rightarrow> bool" where
  "same_but_offsets ns ns' \<longleftrightarrow> ns'\<lparr>ns_structs := []\<rparr> = ns\<lparr>ns_structs := []\<rparr> \<and>
     map strip (ns_structs ns') = map strip (ns_structs ns)"

lemma same_refl [simp]: "same_but_offsets ns ns"
  by (simp add: same_but_offsets_def)

lemma same_trans: "same_but_offsets ns ns' \<Longrightarrow> same_but_offsets ns' ns'' \<Longrightarrow> same_but_offsets ns ns''"
  by (simp add: same_but_offsets_def)

lemma strip_simps [simp]: "sd_fields (strip d) = sd_fields d" "strip (d\<lparr>sd_offsets := os\<rparr>) = strip d"
  "strip (d\<lparr>sd_storage_offsets := os\<rparr>) = strip d"
  by (simp_all add: strip_def)

lemma same_length: "same_but_offsets ns ns' \<Longrightarrow> length (ns_structs ns') = length (ns_structs ns)"
  unfolding same_but_offsets_def by (metis length_map)

lemma same_fields:
  assumes "same_but_offsets ns ns'"
  shows "struct_fields ns' = struct_fields ns" "map sd_fields (ns_structs ns') = map sd_fields (ns_structs ns)"
proof -
  have "map (\<lambda>d. sd_fields (strip d)) (ns_structs ns') = map (\<lambda>d. sd_fields (strip d)) (ns_structs ns)"
    using assms unfolding same_but_offsets_def by (metis (no_types, lifting) comp_apply map_eq_conv map_map)
  then show *: "map sd_fields (ns_structs ns') = map sd_fields (ns_structs ns)" by simp
  show "struct_fields ns' = struct_fields ns"
    unfolding struct_fields_def at_def using * same_length [OF assms] by (auto simp: fun_eq_iff) (metis nth_map)
qed

lemma same_user_types: "same_but_offsets ns ns' \<Longrightarrow> user_type_ty ns' = user_type_ty ns"
  unfolding same_but_offsets_def user_type_ty_def
  by (metis (no_types, lifting) namespace.select_convs(4) namespace.surjective namespace.update_convs(2))

lemma same_set_struct:
  "n < length (ns_structs ns) \<Longrightarrow> (\<And>d. strip (g d) = strip d) \<Longrightarrow> same_but_offsets ns (set_struct n g ns)"
  by (simp add: same_but_offsets_def set_struct_def map_update) (simp add: list_update_same_conv)

subsection \<open>What the sizes depend on\<close>

lemma those_cong: "(\<And>x. x \<in> set xs \<Longrightarrow> h x = g x) \<Longrightarrow> those (map h xs) = those (map g xs)"
  by (simp cong: map_cong)

lemma same_align: "same_but_offsets ns ns' \<Longrightarrow> align_of_ty ns' k t = align_of_ty ns k t"
proof (induction ns k t rule: align_of_ty.induct)
  case (1 ns k n)
  then show ?case by (cases k; cases "struct_fields ns n")
      (auto simp: same_fields intro!: arg_cong [where f = "\<lambda>zs. Option.bind (those zs) max_opt"] list.map_cong0)
qed simp_all

lemma same_slots: "same_but_offsets ns ns' \<Longrightarrow> storage_slots ns' k t = storage_slots ns k t"
proof (induction ns k t rule: storage_slots.induct)
  case (3 ns k n)
  then show ?case by (cases k; cases "struct_fields ns n")
      (auto simp: same_fields intro!: arg_cong [where f = "\<lambda>zs. Option.bind (those zs) (\<lambda>xs. Some (sum_list xs))"] list.map_cong0)
qed simp_all

lemma same_memory_size: "same_but_offsets ns ns' \<Longrightarrow> memory_size_of_internal ns' k t vis = memory_size_of_internal ns k t vis"
proof (induction ns k t vis rule: memory_size_of_internal.induct)
  case (16 ns k n vis)
  then show ?case by (cases k; cases "user_type_ty ns n") (auto simp: same_user_types)
qed (simp_all add: same_fields)

text \<open>The structure whose recorded size \<open>storage_size\<close> reads, if any.\<close>

fun size_struct :: "namespace \<Rightarrow> nat \<Rightarrow> sty \<Rightarrow> nat option" where
  "size_struct ns k (TArray t dims) = size_struct ns k t"
| "size_struct ns k (TStruct n) = Some n"
| "size_struct ns k (TRef t) = size_struct ns k t"
| "size_struct ns k (TStorageRef t) = size_struct ns k t"
| "size_struct ns k (TUserType n) =
     (case k of 0 \<Rightarrow> None | Suc k \<Rightarrow> do { t \<leftarrow> user_type_ty ns n; size_struct ns k t })"
| "size_struct ns k t = None"

abbreviation offsets_at :: "namespace \<Rightarrow> nat \<Rightarrow> int list" where
  "offsets_at ns n \<equiv> sd_offsets (ns_structs ns ! n)"

abbreviation fields_at :: "namespace \<Rightarrow> nat \<Rightarrow> parameter list" where
  "fields_at ns n \<equiv> sd_fields (ns_structs ns ! n)"

lemma same_size:
  assumes "same_but_offsets ns ns'" "\<And>n. size_struct ns k t = Some n \<Longrightarrow> n < length (ns_structs ns) \<Longrightarrow> offsets_at ns' n = offsets_at ns n"
  shows "storage_size ns' k t = storage_size ns k t"
  using assms
proof (induction ns k t rule: storage_size.induct)
  case (2 ns k n)
  then show ?case by (auto simp: at_def same_length)
next
  case (7 ns k n)
  then show ?case by (cases k; cases "user_type_ty ns n") (auto simp: same_user_types)
qed (simp_all add: same_memory_size memory_size_of_def)

lemma same_size_None: "same_but_offsets ns ns' \<Longrightarrow> storage_size ns' k t = None \<longleftrightarrow> storage_size ns k t = None"
proof (induction ns k t rule: storage_size.induct)
  case (2 ns k n)
  then show ?case by (auto simp: at_def same_length)
next
  case (7 ns k n)
  then show ?case by (cases k; cases "user_type_ty ns n") (auto simp: same_user_types)
qed (auto simp add: same_memory_size memory_size_of_def bind_eq_None_conv)

subsection \<open>The loop ends\<close>

definition sizes_defined :: "namespace \<Rightarrow> nat \<Rightarrow> bool" where
  "sizes_defined ns k \<longleftrightarrow> (\<forall>d\<in>set (ns_structs ns). aligned ns k (sd_fields d) \<and>
     (\<forall>f\<in>set (sd_fields d). field_size ns k f \<noteq> None) \<and> field_slots ns k (sd_fields d) \<noteq> None)"

text \<open>A structure contains only structures of a lower rank, except in fields that are marked recursive.\<close>

definition structs_ordered :: "namespace \<Rightarrow> nat \<Rightarrow> (nat \<Rightarrow> nat) \<Rightarrow> bool" where
  "structs_ordered ns k rank \<longleftrightarrow> (\<forall>n < length (ns_structs ns). \<forall>f\<in>set (fields_at ns n). \<not> p_recursive f \<longrightarrow>
     (\<forall>m. size_struct ns k (p_ty f) = Some m \<longrightarrow> rank m < rank n))"

definition memory_layout :: "namespace \<Rightarrow> nat \<Rightarrow> nat \<Rightarrow> int list" where
  "memory_layout ns k n = prefix_sums 0 (map (\<lambda>f. the (field_size ns k f)) (fields_at ns n))"

definition slot_layout :: "namespace \<Rightarrow> nat \<Rightarrow> nat \<Rightarrow> int list" where
  "slot_layout ns k n = prefix_sums 0 (the (field_slots ns k (fields_at ns n)))"

definition laid_out :: "namespace \<Rightarrow> nat \<Rightarrow> nat \<Rightarrow> bool" where
  "laid_out ns k n \<longleftrightarrow> offsets_at ns n = memory_layout ns k n \<and> sd_storage_offsets (ns_structs ns ! n) = slot_layout ns k n"

lemma same_aligned: "same_but_offsets ns ns' \<Longrightarrow> aligned ns' k fs = aligned ns k fs"
  by (simp add: aligned_def same_align)

lemma same_field_slots: "same_but_offsets ns ns' \<Longrightarrow> field_slots ns' k fs = field_slots ns k fs"
  by (simp add: field_slots_def same_slots)

lemma same_field_size_None: "same_but_offsets ns ns' \<Longrightarrow> field_size ns' k f = None \<longleftrightarrow> field_size ns k f = None"
  by (simp add: field_size_def same_size_None del: not_None_eq)

lemma same_fields_at: "same_but_offsets ns ns' \<Longrightarrow> n < length (ns_structs ns) \<Longrightarrow> fields_at ns' n = fields_at ns n"
  using same_fields(2) [of ns ns'] same_length [of ns ns'] by (metis nth_map)

lemma same_slot_layout: "same_but_offsets ns ns' \<Longrightarrow> n < length (ns_structs ns) \<Longrightarrow> slot_layout ns' k n = slot_layout ns k n"
  by (simp add: slot_layout_def same_field_slots same_fields_at)

lemma same_set: "same_but_offsets ns ns' \<Longrightarrow> sd_fields ` set (ns_structs ns') = sd_fields ` set (ns_structs ns)"
  by (metis same_fields(2) list.set_map)

lemma same_sizes_defined:
  assumes "same_but_offsets ns ns'" "sizes_defined ns k"
  shows "sizes_defined ns' k"
proof -
  have "\<forall>fs\<in>sd_fields ` set (ns_structs ns). aligned ns k fs \<and> (\<forall>f\<in>set fs. field_size ns k f \<noteq> None) \<and> field_slots ns k fs \<noteq> None"
    using assms(2) by (auto simp: sizes_defined_def)
  then have "\<forall>fs\<in>sd_fields ` set (ns_structs ns'). aligned ns' k fs \<and> (\<forall>f\<in>set fs. field_size ns' k f \<noteq> None) \<and> field_slots ns' k fs \<noteq> None"
    by (simp only: same_set [OF assms(1)] same_aligned [OF assms(1)] same_field_slots [OF assms(1)] same_field_size_None [OF assms(1)])
  then show ?thesis by (auto simp: sizes_defined_def)
qed

lemma same_size_struct: "same_but_offsets ns ns' \<Longrightarrow> size_struct ns' k t = size_struct ns k t"
proof (induction ns k t rule: size_struct.induct)
  case (5 ns k n)
  then show ?case by (cases k; cases "user_type_ty ns n") (auto simp: same_user_types)
qed simp_all

lemma same_ordered: "same_but_offsets ns ns' \<Longrightarrow> structs_ordered ns k rank \<Longrightarrow> structs_ordered ns' k rank"
  unfolding structs_ordered_def by (simp add: same_length same_fields_at same_size_struct)

text \<open>The memory layout of a structure depends on the offsets of structures of lower rank only.\<close>

lemma layout_cong:
  assumes same: "same_but_offsets ns ns'" and ord: "structs_ordered ns k rank" and n: "n < length (ns_structs ns)"
    and eq: "\<And>m. m < length (ns_structs ns) \<Longrightarrow> rank m < rank n \<Longrightarrow> offsets_at ns' m = offsets_at ns m"
  shows "memory_layout ns' k n = memory_layout ns k n"
proof -
  have "field_size ns' k f = field_size ns k f" if "f \<in> set (fields_at ns n)" for f
    using same_size [OF same] eq ord n that by (simp add: field_size_def structs_ordered_def)
  then show ?thesis using same_fields_at [OF same n] by (simp add: memory_layout_def cong: map_cong)
qed

lemma those_the: "\<forall>x\<in>set xs. h x \<noteq> None \<Longrightarrow> those (map h xs) = Some (map (\<lambda>x. the (h x)) xs)"
  unfolding those_iff by auto

lemma update_struct_layouts:
  assumes def: "sizes_defined ns k" and n: "n < length (ns_structs ns)"
  shows "\<exists>c' ns'. update_struct k n (c, ns) = Some (c', ns') \<and> same_but_offsets ns ns' \<and>
    (\<forall>m < length (ns_structs ns). m \<noteq> n \<longrightarrow> ns_structs ns' ! m = ns_structs ns ! m) \<and>
    offsets_at ns' n = memory_layout ns k n \<and> sd_storage_offsets (ns_structs ns' ! n) = slot_layout ns k n \<and>
    (c' \<longleftrightarrow> c \<or> \<not> laid_out ns k n) \<and> (laid_out ns k n \<longrightarrow> ns' = ns)"
proof -
  let ?fs = "fields_at ns n"
  have d: "aligned ns k ?fs" "\<forall>f\<in>set ?fs. field_size ns k f \<noteq> None" "field_slots ns k ?fs \<noteq> None"
    using def n by (auto simp: sizes_defined_def)
  have m: "struct_memory_offsets ns k ?fs = Some (memory_layout ns k n)"
    using struct_memory_offsets_sums [OF d(1) those_the [OF d(2)]] by (simp add: memory_layout_def)
  define ns1 where "ns1 = (if offsets_at ns n \<noteq> memory_layout ns k n
    then set_struct n (\<lambda>d. d\<lparr>sd_offsets := memory_layout ns k n\<rparr>) ns else ns)"
  have s1: "same_but_offsets ns ns1" unfolding ns1_def using same_set_struct [OF n] by simp
  have "field_slots ns1 k (fields_at ns1 n) = field_slots ns k ?fs"
    by (simp add: same_field_slots [OF s1] same_fields_at [OF s1 n])
  then have s: "struct_slot_offsets ns1 k (fields_at ns1 n) = Some (slot_layout ns k n)"
    using d(3) struct_slot_offsets_sums by (auto simp: slot_layout_def)
  show ?thesis
    using m s s1 n same_set_struct [of n ns1] same_length [OF s1]
    by (auto simp: update_struct_def Let_def ns1_def [symmetric] laid_out_def intro: same_trans)
      (auto simp: ns1_def set_struct_def nth_list_update split: if_splits)
qed

text \<open>The structures of rank below \<open>i\<close> have their final memory layout.\<close>

definition settled :: "namespace \<Rightarrow> nat \<Rightarrow> (nat \<Rightarrow> nat) \<Rightarrow> nat \<Rightarrow> bool" where
  "settled ns k rank i \<longleftrightarrow> (\<forall>n < length (ns_structs ns). rank n < i \<longrightarrow> offsets_at ns n = memory_layout ns k n)"

definition pass_result :: "namespace \<Rightarrow> nat \<Rightarrow> (nat \<Rightarrow> nat) \<Rightarrow> nat \<Rightarrow> nat \<Rightarrow> bool \<Rightarrow> namespace \<Rightarrow> bool" where
  "pass_result ns k rank i j c ns' \<longleftrightarrow> same_but_offsets ns ns' \<and>
     (\<forall>n < length (ns_structs ns). rank n < i \<longrightarrow> offsets_at ns' n = offsets_at ns n) \<and>
     (\<forall>n < j. (rank n \<le> i \<longrightarrow> offsets_at ns' n = memory_layout ns k n) \<and>
        sd_storage_offsets (ns_structs ns' ! n) = slot_layout ns k n) \<and>
     (\<not> c \<longrightarrow> ns' = ns \<and> (\<forall>n < j. laid_out ns k n)) \<and>
     ((\<forall>n < length (ns_structs ns). laid_out ns k n) \<longrightarrow> \<not> c)"

lemma pass_step:
  assumes def: "sizes_defined ns k" and ord: "structs_ordered ns k rank" and st: "settled ns k rank i"
    and j: "j < length (ns_structs ns)" and r: "pass_result ns k rank i j c ns'"
  shows "\<exists>c2 ns2. update_struct k j (c, ns') = Some (c2, ns2) \<and> pass_result ns k rank i (Suc j) c2 ns2"
proof -
  have same: "same_but_offsets ns ns'" and low: "\<forall>n < length (ns_structs ns). rank n < i \<longrightarrow> offsets_at ns' n = offsets_at ns n"
    and upto: "\<forall>n < j. (rank n \<le> i \<longrightarrow> offsets_at ns' n = memory_layout ns k n) \<and>
        sd_storage_offsets (ns_structs ns' ! n) = slot_layout ns k n"
    and quiet: "\<not> c \<longrightarrow> ns' = ns \<and> (\<forall>n < j. laid_out ns k n)"
    and stay: "(\<forall>n < length (ns_structs ns). laid_out ns k n) \<longrightarrow> \<not> c"
    using r by (simp_all add: pass_result_def)
  have j': "j < length (ns_structs ns')" using j same_length [OF same] by simp
  obtain c2 ns2 where u: "update_struct k j (c, ns') = Some (c2, ns2)" "same_but_offsets ns' ns2"
    "\<forall>m < length (ns_structs ns'). m \<noteq> j \<longrightarrow> ns_structs ns2 ! m = ns_structs ns' ! m"
    "offsets_at ns2 j = memory_layout ns' k j" "sd_storage_offsets (ns_structs ns2 ! j) = slot_layout ns' k j"
    "c2 \<longleftrightarrow> c \<or> \<not> laid_out ns' k j" "laid_out ns' k j \<longrightarrow> ns2 = ns'"
    using update_struct_layouts [OF same_sizes_defined [OF same def] j', of c] by blast
  have slots: "slot_layout ns' k j = slot_layout ns k j" using same_slot_layout [OF same j] .
  have mem: "memory_layout ns' k j = memory_layout ns k j" if "rank j \<le> i"
    using layout_cong [OF same ord j] low that by simp
  have low2: "\<forall>n < length (ns_structs ns). rank n < i \<longrightarrow> offsets_at ns2 n = offsets_at ns n"
  proof (intro allI impI)
    fix n
    assume n: "n < length (ns_structs ns)" "rank n < i"
    then show "offsets_at ns2 n = offsets_at ns n"
      using u(3,4) low mem st same_length [OF same] by (cases "n = j") (auto simp: settled_def)
  qed
  have "\<forall>n < Suc j. (rank n \<le> i \<longrightarrow> offsets_at ns2 n = memory_layout ns k n) \<and>
        sd_storage_offsets (ns_structs ns2 ! n) = slot_layout ns k n"
    using upto u(3-5) mem slots j' by (auto simp: less_Suc_eq)
  moreover have "\<not> c2 \<longrightarrow> ns2 = ns \<and> (\<forall>n < Suc j. laid_out ns k n)"
    using quiet u(6,7) by (auto simp: less_Suc_eq)
  moreover have "(\<forall>n < length (ns_structs ns). laid_out ns k n) \<longrightarrow> \<not> c2"
    using stay quiet u(6) j by auto
  ultimately show ?thesis using u(1) low2 same_trans [OF same u(2)] by (auto simp: pass_result_def)
qed

lemma pass_prefix:
  assumes "sizes_defined ns k" "structs_ordered ns k rank" "settled ns k rank i" "j \<le> length (ns_structs ns)"
  shows "\<exists>c ns'. fold_opt (update_struct k) [0..<j] (False, ns) = Some (c, ns') \<and> pass_result ns k rank i j c ns'"
  using assms(4)
proof (induction j)
  case 0
  show ?case by (intro exI [of _ False] exI [of _ ns]) (simp add: pass_result_def)
next
  case (Suc j)
  then obtain c ns' where "fold_opt (update_struct k) [0..<j] (False, ns) = Some (c, ns')" "pass_result ns k rank i j c ns'"
    by auto
  then show ?case using pass_step [OF assms(1-3), of j c ns'] Suc.prems
    by (fastforce simp: fold_opt_append)
qed

text \<open>The loop stops after at most \<open>m\<close> passes over the structures.\<close>

fun stops_within :: "nat \<Rightarrow> nat \<Rightarrow> namespace \<Rightarrow> bool" where
  "stops_within k 0 ns = False"
| "stops_within k (Suc m) ns = (case offsets_pass k ns of None \<Rightarrow> False | Some (changes, ns) \<Rightarrow> changes \<longrightarrow> stops_within k m ns)"

lemma struct_offsets_settled:
  assumes "sizes_defined ns k" "structs_ordered ns k rank" "settled ns k rank i"
    and "\<forall>n < length (ns_structs ns). rank n < R"
    and "i = 0 \<or> (\<forall>n < length (ns_structs ns). sd_storage_offsets (ns_structs ns ! n) = slot_layout ns k n)"
  shows "\<exists>ns'. struct_offsets k ns = Some ns' \<and> same_but_offsets ns ns' \<and> (\<forall>n < length (ns_structs ns). laid_out ns' k n) \<and>
    stops_within k (Suc (R - i)) ns"
  using assms
proof (induction "R - i" arbitrary: i ns rule: less_induct)
  case less
  obtain c ns' where p: "offsets_pass k ns = Some (c, ns')" and r: "pass_result ns k rank i (length (ns_structs ns)) c ns'"
    using pass_prefix [OF less.prems(1-3) order_refl] by (auto simp: offsets_pass_def)
  have same: "same_but_offsets ns ns'" using r by (simp add: pass_result_def)
  note len = same_length [OF same]
  show ?case
  proof (cases c)
    case False
    then show ?thesis using p r by (subst struct_offsets.simps) (auto simp: pass_result_def)
  next
    case True
    have "i < R"
    proof (rule ccontr)
      assume "\<not> i < R"
      then have "\<forall>n < length (ns_structs ns). laid_out ns k n"
        using less.prems(3-5) by (auto simp: laid_out_def settled_def)
      then show False using r True by (simp add: pass_result_def)
    qed
    have mem: "memory_layout ns' k n = memory_layout ns k n" if "n < length (ns_structs ns)" "rank n \<le> i" for n
      using layout_cong [OF same less.prems(2) that(1)] r that(2) by (simp add: pass_result_def)
    have "settled ns' k rank (Suc i)" using r mem len by (simp add: settled_def pass_result_def)
    moreover have "\<forall>n < length (ns_structs ns'). sd_storage_offsets (ns_structs ns' ! n) = slot_layout ns' k n"
      using r len same_slot_layout [OF same] by (simp add: pass_result_def)
    moreover have "R - Suc i < R - i" using \<open>i < R\<close> by simp
    ultimately obtain ns2 where "struct_offsets k ns' = Some ns2" "same_but_offsets ns' ns2"
      "\<forall>n < length (ns_structs ns'). laid_out ns2 k n" "stops_within k (Suc (R - Suc i)) ns'"
      using less.hyps [of "Suc i" ns'] same_sizes_defined [OF same less.prems(1)]
        same_ordered [OF same less.prems(2)] less.prems(4) len by auto
    moreover have "R - i = Suc (R - Suc i)" using \<open>i < R\<close> by simp
    ultimately show ?thesis using p True len same_trans [OF same] by (subst struct_offsets.simps) auto
  qed
qed


definition nested_structs :: namespace where
  "nested_structs = structs_namespace
     [struct_of ''Outer'' [field ''a'' (TArray (TStruct 1) [Fixed 2]), field ''b'' (TUint 32)],
      struct_of ''Inner'' [field ''x'' (TUint 32), field ''y'' TAddress]]"


subsection \<open>Fields without a size\<close>

lemma memory_offsets_None:
  "f \<in> set fs \<Longrightarrow> field_size ns k f = None \<Longrightarrow> memory_offsets ns k fs offset largest = None"
  by (induction fs arbitrary: offset largest)
    (auto simp: field_size_def Let_def bind_eq_None_conv split: if_splits)

lemma fold_opt_None:
  assumes "x \<in> set xs" "P s" "\<And>t. P t \<Longrightarrow> g x t = None"
    and "\<And>y t t'. P t \<Longrightarrow> g y t = Some t' \<Longrightarrow> y \<in> set xs \<Longrightarrow> P t'"
  shows "fold_opt g xs s = None"
  using assms(1,2,4)
proof (induction xs arbitrary: s)
  case (Cons y ys)
  show ?case
  proof (cases "g y s")
    case (Some t)
    have "x \<noteq> y" using Some Cons.prems(2) assms(3) by auto
    then have "x \<in> set ys" using Cons.prems(1) by simp
    moreover have "P t" by (rule Cons.prems(3) [OF Cons.prems(2) Some]) simp
    ultimately have "fold_opt g ys t = None" by (rule Cons.IH) (erule Cons.prems(3), assumption, simp)
    then show ?thesis using Some by simp
  qed simp
qed simp

lemma update_struct_same:
  assumes n: "n < length (ns_structs ns)" and u: "update_struct k n (c, ns) = Some (c', ns')"
  shows "same_but_offsets ns ns'"
proof -
  obtain os ss where "ns' = (let ns1 = (if offsets_at ns n \<noteq> os then set_struct n (\<lambda>d. d\<lparr>sd_offsets := os\<rparr>) ns else ns)
      in if sd_storage_offsets (ns_structs ns1 ! n) \<noteq> ss then set_struct n (\<lambda>d. d\<lparr>sd_storage_offsets := ss\<rparr>) ns1 else ns1)"
    using u by (auto simp: update_struct_def Let_def bind_eq_Some_conv)
  moreover define ns1 where "ns1 = (if offsets_at ns n \<noteq> os then set_struct n (\<lambda>d. d\<lparr>sd_offsets := os\<rparr>) ns else ns)"
  ultimately have ns': "ns' = (if sd_storage_offsets (ns_structs ns1 ! n) \<noteq> ss
      then set_struct n (\<lambda>d. d\<lparr>sd_storage_offsets := ss\<rparr>) ns1 else ns1)" by (simp only: Let_def)
  have "same_but_offsets ns ns1" using same_set_struct [OF n] by (simp add: ns1_def)
  moreover from this have "same_but_offsets ns1 ns'"
    using same_set_struct [of n ns1] n same_length by (simp add: ns')
  ultimately show ?thesis by (rule same_trans)
qed

text \<open>
  C38: a structure with a field of mapping type, or of an unsigned type other than \<open>u32\<close>, makes the
  first pass over the structures panic.
\<close>

theorem unsized_field_panics:
  assumes "d \<in> set (ns_structs ns)" "f \<in> set (sd_fields d)" "\<not> p_recursive f"
    and "(\<exists>t u. p_ty f = TMapping t u) \<or> (\<exists>b. p_ty f = TUint b \<and> b \<noteq> 32)"
  shows "offsets_pass k ns = None"
proof -
  obtain n where n: "n < length (ns_structs ns)" "ns_structs ns ! n = d" using assms(1) by (auto simp: in_set_conv_nth)
  have f: "field_size ns' k f = None" for ns' using assms(3,4) by (auto simp: field_size_def memory_size_of_def)
  show ?thesis unfolding offsets_pass_def
  proof (rule fold_opt_None [where P = "\<lambda>s :: bool \<times> namespace. same_but_offsets ns (snd s)" and x = n])
    fix t :: "bool \<times> namespace"
    assume "same_but_offsets ns (snd t)"
    then have "fields_at (snd t) n = sd_fields d" using same_fields_at n by fastforce
    then show "update_struct k n t = None"
      using memory_offsets_None [OF assms(2) f] by (cases t) (simp add: update_struct_def struct_memory_offsets_def)
  next
    fix y and t t' :: "bool \<times> namespace"
    assume "same_but_offsets ns (snd t)" "update_struct k y t = Some t'" "y \<in> set [0..<length (ns_structs ns)]"
    then show "same_but_offsets ns (snd t')"
      using update_struct_same [of y "snd t" k "fst t" "fst t'" "snd t'"] same_length same_trans by auto
  qed (use n in auto)
qed

theorem unsized_field_panics_witness:
  "offsets_pass 5 (structs_namespace [struct_of ''Token'' [field ''balance'' (TUint 256)]]) = None"
  by (rule unsized_field_panics [of "struct_of ''Token'' [field ''balance'' (TUint 256)]" _ "field ''balance'' (TUint 256)"])
    (auto simp: structs_namespace_def struct_of_def field_def)

end
