(* ===== verification/Sema_Eval.thy ===== *)
theory Sema_Eval
  imports Sema_AST "HOL-Library.Signed_Division"
begin

unbundle bit_operations_syntax

section \<open>Compile-time evaluation of constant expressions\<close>

text \<open>
  Model of \<open>src/sema/eval.rs\<close>: the evaluator \<open>eval_const_number\<close> that is used where the language
  wants a constant, and the folding of literals (\<open>eval_constants_in_expression\<close>) behind the overflow
  check of every expression.  \<open>BigInt\<close> is \<open>int\<close>; its division truncates (\<open>sdiv\<close>,
  \<open>smod\<close>), its shifts multiply and divide by powers of two, its bitwise operators act on two's
  complement.  The \<open>Err(())\<close> results are \<open>Inl ()\<close>.  The outer \<open>option\<close> is \<open>None\<close>
  where the code panics or does not return; the diagnostics are threaded through.
\<close>

subsection \<open>Bit lengths\<close>

fun nat_bits :: "nat \<Rightarrow> nat" where
  "nat_bits n = (if n = 0 then 0 else Suc (nat_bits (n div 2)))"

declare nat_bits.simps [simp del]

definition bits :: "int \<Rightarrow> nat" where
  "bits n = nat_bits (nat \<bar>n\<bar>)"

lemma nat_bits_le: "nat_bits n \<le> k \<longleftrightarrow> n < 2 ^ k"
proof (induction k arbitrary: n)
  case 0
  then show ?case by (simp add: nat_bits.simps [of n])
next
  case (Suc k)
  have "n div 2 < 2 ^ k \<longleftrightarrow> n < 2 ^ Suc k" by auto
  then show ?case using Suc [of "n div 2"] by (cases "n = 0") (simp_all add: nat_bits.simps [of n])
qed

lemma bits_le: "0 \<le> n \<Longrightarrow> bits n \<le> k \<longleftrightarrow> n < 2 ^ k"
  by (simp add: bits_def nat_bits_le nat_less_iff)

subsection \<open>The overflow check\<close>

definition FIELD_ORDER :: int where
  "FIELD_ORDER = 0xFFFFFFFF00000001"

text \<open>The value of the field case is unwrapped as a \<open>u64\<close>, which panics for larger ones.\<close>

definition to_u64 :: "int \<Rightarrow> int option" where
  "to_u64 n = (if 0 \<le> n \<and> n < 2 ^ 64 then Some n else None)"

definition overflow_check :: "int \<Rightarrow> sty \<Rightarrow> loc \<Rightarrow> diagnostic option option" where
  "overflow_check result ty l =
    (if result < 0 then Some (Some (diag_error l NegativeValue))
     else (case ty of
         TUint b \<Rightarrow>
           if bits result > b then Some (Some (diag_error l (DoesNotFit result b))) else Some None
       | TField \<Rightarrow> do {
           n \<leftarrow> to_u64 result;
           Some (if n > FIELD_ORDER then Some (diag_error l (ExceedsField result)) else None)
         }
       | _ \<Rightarrow> Some None))"

lemma overflow_check_uint:
  "overflow_check n (TUint b) l = Some (if n < 0 then Some (diag_error l NegativeValue)
     else if n < 2 ^ b then None else Some (diag_error l (DoesNotFit n b)))"
proof (cases "n < 0")
  case False
  then have "bits n > b \<longleftrightarrow> \<not> n < 2 ^ b" using bits_le [of n b] by linarith
  then show ?thesis using False by (simp add: overflow_check_def)
qed (simp add: overflow_check_def)

subsection \<open>The constant evaluator\<close>

text \<open>\<open>while e.sign() == Plus \{ res *= b; e -= 1 \}\<close>\<close>

function power_loop :: "int \<Rightarrow> int \<Rightarrow> int \<Rightarrow> int" where
  "power_loop b e res = (if 0 < e then power_loop b (e - 1) (res * b) else res)"
  by auto
termination by (relation "measure (\<lambda>(b, e, res). nat e)") auto

declare power_loop.simps [simp del]

lemma power_loop: "power_loop b e res = res * b ^ nat e"
proof (induction b e res rule: power_loop.induct)
  case (1 b e res)
  show ?case
  proof (cases "0 < e")
    case True
    then have "nat e = Suc (nat (e - 1))" by simp
    with 1 True show ?thesis by (simp add: power_loop.simps [of b e res] mult.assoc)
  qed (simp add: power_loop.simps)
qed

definition to_usize :: "int \<Rightarrow> nat option" where
  "to_usize n = (if 0 \<le> n \<and> n < 2 ^ 64 then Some (nat n) else None)"

type_synonym 'a ev = "diagnostics \<Rightarrow> ((unit + 'a) \<times> diagnostics) option"

definition ev_return :: "'a \<Rightarrow> 'a ev" where
  "ev_return x = (\<lambda>d. Some (Inr x, d))"

definition ev_fail :: "diagnostic \<Rightarrow> 'a ev" where
  "ev_fail m = (\<lambda>d. Some (Inl (), push_diag m d))"

definition ev_bind :: "'a ev \<Rightarrow> ('a \<Rightarrow> 'b ev) \<Rightarrow> 'b ev" where
  "ev_bind m f = (\<lambda>d. case m d of
      None \<Rightarrow> None
    | Some (Inl u, d) \<Rightarrow> Some (Inl u, d)
    | Some (Inr x, d) \<Rightarrow> f x d)"

text \<open>What an operator does with its two values; \<open>Divide\<close> and \<open>Modulo\<close> check the divisor before.\<close>

definition arith_number :: "arith \<Rightarrow> loc \<Rightarrow> int \<Rightarrow> int \<Rightarrow> (loc \<times> int) ev" where
  "arith_number a l x y = (case a of
      Add \<Rightarrow> ev_return (l, x + y)
    | Subtract \<Rightarrow> ev_return (l, x - y)
    | Multiply \<Rightarrow> ev_return (l, x * y)
    | Divide \<Rightarrow> ev_return (l, x sdiv y)
    | Modulo \<Rightarrow> ev_return (l, x smod y)
    | BitwiseAnd \<Rightarrow> ev_return (l, x AND y)
    | BitwiseOr \<Rightarrow> ev_return (l, x OR y)
    | BitwiseXor \<Rightarrow> ev_return (l, x XOR y)
    | Power \<Rightarrow>
        if y < 0 then ev_fail (diag_error l NegativeExponent)
        else if y = 0 then ev_return (l, 1)
        else ev_return (l, power_loop x (y - 1) x)
    | ShiftLeft \<Rightarrow> (case to_usize y of
          Some r \<Rightarrow> ev_return (l, push_bit r x)
        | None \<Rightarrow> ev_fail (diag_error l (CannotLeftShift y)))
    | ShiftRight \<Rightarrow> (case to_usize y of
          Some r \<Rightarrow> ev_return (l, drop_bit r x)
        | None \<Rightarrow> ev_fail (diag_error l (CannotRightShift y))))"

definition eval_arith :: "arith \<Rightarrow> loc \<Rightarrow> (loc \<times> int) ev \<Rightarrow> (loc \<times> int) ev \<Rightarrow> (loc \<times> int) ev" where
  "eval_arith a l left right =
    (if a = Divide \<or> a = Modulo then
       ev_bind right (\<lambda>(_, y). if y = 0 then ev_fail (diag_error l DivideByZero)
         else ev_bind left (\<lambda>(_, x). arith_number a l x y))
     else ev_bind left (\<lambda>(_, x). ev_bind right (\<lambda>(_, y). arith_number a l x y)))"

definition constant_variable :: "namespace \<Rightarrow> nat option \<Rightarrow> nat \<Rightarrow> svariable option" where
  "constant_variable ns c v = (case c of
      Some c \<Rightarrow> do { k \<leftarrow> at (ns_contracts ns) c; at (c_variables k) v }
    | None \<Rightarrow> at (ns_constants ns) v)"

text \<open>
  The evaluator follows the initialisers of constants.  The fuel bounds the length of such a chain; the
  code has no bound and does not return on a constant that refers to itself.
\<close>

fun eval_const_number :: "nat \<Rightarrow> namespace \<Rightarrow> expr \<Rightarrow> (loc \<times> int) ev" where
  "eval_const_number k ns (EArith a l t x y) =
     eval_arith a l (eval_const_number k ns x) (eval_const_number k ns y)"
| "eval_const_number k ns (ENumber l t n) = ev_return (l, n)"
| "eval_const_number k ns (EUnary u l t x) =
     (if u = ZeroExt \<or> u = Cast then ev_bind (eval_const_number k ns x) (\<lambda>(_, n). ev_return (l, n))
      else if u = BitwiseNot then ev_bind (eval_const_number k ns x) (\<lambda>(_, n). ev_return (l, NOT n))
      else ev_fail (diag_error l NotConstant))"
| "eval_const_number k ns (ENot l x) = ev_bind (eval_const_number k ns x) (\<lambda>(_, n). ev_return (l, NOT n))"
| "eval_const_number k ns (EConstantVariable l t c v) =
     (case constant_variable ns c v of
        None \<Rightarrow> (\<lambda>d. None)
      | Some var \<Rightarrow> (case v_initializer var of
          None \<Rightarrow> (\<lambda>d. Some (Inl (), d))
        | Some init \<Rightarrow> (case k of 0 \<Rightarrow> (\<lambda>d. None) | Suc k \<Rightarrow> eval_const_number k ns init)))"
| "eval_const_number k ns e = ev_fail (diag_error (expr_loc e) NotConstant)"

subsection \<open>Folding of literals\<close>

definition fold_arith :: "arith \<Rightarrow> loc \<Rightarrow> sty \<Rightarrow> expr option \<Rightarrow> expr option \<Rightarrow> diagnostics
    \<Rightarrow> ((expr option \<times> bool) \<times> diagnostics) option" where
  "fold_arith a l t left right d = (case (left, right) of
      (Some (ENumber _ _ x), Some (ENumber rl _ y)) \<Rightarrow>
        let lit = (\<lambda>n. (Some (ENumber l t n), True)) in
        (case a of
          Add \<Rightarrow> Some (lit (x + y), d)
        | Subtract \<Rightarrow> Some (lit (x - y), d)
        | Multiply \<Rightarrow> Some (lit (x * y), d)
        | Divide \<Rightarrow>
            Some (if y = 0 then ((None, False), push_diag (diag_error l DivideByZero) d) else (lit (x sdiv y), d))
        | Modulo \<Rightarrow>
            Some (if y = 0 then ((None, False), push_diag (diag_error l DivideByZero) d) else (lit (x smod y), d))
        | Power \<Rightarrow> do {
            c \<leftarrow> overflow_check y (TUint 16) rl;
            Some (if c \<noteq> None then ((None, False), push_diag (diag_error rl (PowerNotPossible y)) d)
                  else (lit (x ^ nat y), d))
          }
        | ShiftLeft \<Rightarrow> do {
            c \<leftarrow> overflow_check y (TUint 64) rl;
            Some (if c \<noteq> None then ((None, False), push_diag (diag_error rl (LeftShiftNotPossible y)) d)
                  else (lit (push_bit (nat y) x),
                        if y \<ge> int (bits x) then push_diag (diag_warning rl (LeftShiftMayOverflow y)) d else d))
          }
        | ShiftRight \<Rightarrow> do {
            c \<leftarrow> overflow_check y (TUint 64) rl;
            Some (if c \<noteq> None then ((None, False), push_diag (diag_error rl (RightShiftNotPossible y)) d)
                  else (lit (drop_bit (nat y) x), d))
          }
        | BitwiseAnd \<Rightarrow> Some (lit (x AND y), d)
        | BitwiseOr \<Rightarrow> Some (lit (x OR y), d)
        | BitwiseXor \<Rightarrow> Some (lit (x XOR y), d))
    | _ \<Rightarrow> Some ((None, True), d))"

definition fold_zero_ext :: "loc \<Rightarrow> sty \<Rightarrow> expr option \<Rightarrow> expr option \<times> bool" where
  "fold_zero_ext l t e = (case e of Some (ENumber _ _ n) \<Rightarrow> (Some (ENumber l t n), True) | _ \<Rightarrow> (None, True))"

lemma fold_zero_ext_Some:
  "fold_zero_ext l t e = (Some r, go) \<longleftrightarrow> (\<exists>l' t' n. e = Some (ENumber l' t' n) \<and> r = ENumber l t n \<and> go)"
  by (auto simp: fold_zero_ext_def split: option.splits expr.splits)

fun eval_constants_in_expression :: "expr \<Rightarrow> diagnostics \<Rightarrow> ((expr option \<times> bool) \<times> diagnostics) option" where
  "eval_constants_in_expression (EArith a l t x y) d = do {
     ((left, _), d) \<leftarrow> eval_constants_in_expression x d;
     ((right, _), d) \<leftarrow> eval_constants_in_expression y d;
     fold_arith a l t left right d
   }"
| "eval_constants_in_expression (EUnary u l t x) d =
     (if u = ZeroExt then do {
        ((e, _), d) \<leftarrow> eval_constants_in_expression x d;
        Some (fold_zero_ext l t e, d)
      }
      else Some ((None, True), d))"
| "eval_constants_in_expression (ENumber l t n) d = Some ((Some (ENumber l t n), True), d)"
| "eval_constants_in_expression e d = Some ((None, True), d)"

definition checked_term :: "expr \<Rightarrow> bool" where
  "checked_term e = (case e of EArith _ _ _ _ _ \<Rightarrow> True | ENumber _ _ _ \<Rightarrow> True | _ \<Rightarrow> False)"

definition check_term_for_constant_overflow :: "expr \<Rightarrow> namespace \<Rightarrow> (bool \<times> namespace) option" where
  "check_term_for_constant_overflow e ns =
    (if checked_term e then do {
       ((r, go), d) \<leftarrow> eval_constants_in_expression e (ns_diagnostics ns);
       (case r of
          Some (ENumber l t n) \<Rightarrow> do {
            c \<leftarrow> overflow_check n t l;
            Some (False, ns\<lparr>ns_diagnostics := (case c of Some m \<Rightarrow> push_diag m d | None \<Rightarrow> d)\<rparr>)
          }
        | Some _ \<Rightarrow> Some (True, ns\<lparr>ns_diagnostics := d\<rparr>)
        | None \<Rightarrow> Some (go, ns\<lparr>ns_diagnostics := d\<rparr>))
     }
     else Some (True, ns))"

subsection \<open>Bounds of the overflow check\<close>

text \<open>
  C24: the overflow check accepts exactly the values that fit into an unsigned type; for the field type it
  accepts the values up to and including the order of the field, which is not an element of the field,
  and it panics for the values that do not fit into 64 bits.
\<close>

theorem overflow_check_exact:
  "(overflow_check n (TUint b) l = Some None \<longleftrightarrow> 0 \<le> n \<and> n < 2 ^ b) \<and>
   (overflow_check n TField l = Some None \<longleftrightarrow> 0 \<le> n \<and> n \<le> FIELD_ORDER) \<and>
   (overflow_check n ty l = None \<longleftrightarrow> ty = TField \<and> 2 ^ 64 \<le> n)"
proof (intro conjI)
  show "overflow_check n (TUint b) l = Some None \<longleftrightarrow> 0 \<le> n \<and> n < 2 ^ b"
    by (auto simp: overflow_check_uint)
  show "overflow_check n TField l = Some None \<longleftrightarrow> 0 \<le> n \<and> n \<le> FIELD_ORDER"
    by (auto simp: overflow_check_def to_u64_def FIELD_ORDER_def)
  show "overflow_check n ty l = None \<longleftrightarrow> ty = TField \<and> 2 ^ 64 \<le> n"
    by (cases ty) (auto simp: overflow_check_def to_u64_def)
qed

subsection \<open>The evaluator returns\<close>

definition ev_returns :: "'a ev \<Rightarrow> bool" where
  "ev_returns m \<longleftrightarrow> (\<forall>d. m d \<noteq> None)"

lemma ev_returns_return [intro!, simp]: "ev_returns (ev_return x)"
  by (simp add: ev_returns_def ev_return_def)

lemma ev_returns_fail [intro!, simp]: "ev_returns (ev_fail x)"
  by (simp add: ev_returns_def ev_fail_def)

lemma ev_returns_bind [intro!]: "ev_returns m \<Longrightarrow> (\<And>x. ev_returns (f x)) \<Longrightarrow> ev_returns (ev_bind m f)"
  by (auto simp: ev_returns_def ev_bind_def split: option.splits sum.splits)

lemma arith_number_returns [intro!]: "ev_returns (arith_number a l x y)"
  by (cases a) (auto simp: arith_number_def split: option.splits)

lemma eval_arith_returns [intro!]: "ev_returns m \<Longrightarrow> ev_returns n \<Longrightarrow> ev_returns (eval_arith a l m n)"
  by (simp add: eval_arith_def ev_returns_bind arith_number_returns split: prod.splits)

text \<open>The constants an expression refers to, as far as the evaluator looks at it.\<close>

fun const_refs :: "expr \<Rightarrow> (nat option \<times> nat) list" where
  "const_refs (EArith a l t x y) = const_refs x @ const_refs y"
| "const_refs (EUnary u l t x) = (if u \<in> {ZeroExt, Cast, BitwiseNot} then const_refs x else [])"
| "const_refs (ENot l x) = const_refs x"
| "const_refs (EConstantVariable l t c v) = [(c, v)]"
| "const_refs e = []"

definition refs_below :: "namespace \<Rightarrow> (nat option \<Rightarrow> nat \<Rightarrow> nat) \<Rightarrow> nat \<Rightarrow> expr \<Rightarrow> bool" where
  "refs_below ns rank k e = list_all (\<lambda>(c, v). constant_variable ns c v \<noteq> None \<and> rank c v < k) (const_refs e)"

text \<open>Every constant is initialised by constants that come before it in some order.\<close>

definition constants_ordered :: "namespace \<Rightarrow> (nat option \<Rightarrow> nat \<Rightarrow> nat) \<Rightarrow> bool" where
  "constants_ordered ns rank \<longleftrightarrow> (\<forall>c v var init. constant_variable ns c v = Some var \<longrightarrow>
     v_initializer var = Some init \<longrightarrow> refs_below ns rank (rank c v) init)"

lemma refs_below_mono: "refs_below ns rank j e \<Longrightarrow> j \<le> k \<Longrightarrow> refs_below ns rank k e"
  unfolding refs_below_def by (erule list.pred_mono_strong) auto

lemma eval_const_number_returns:
  assumes ord: "constants_ordered ns rank"
  shows "refs_below ns rank k e \<Longrightarrow> ev_returns (eval_const_number k ns e)"
  using ord
proof (induction k ns e rule: eval_const_number.induct)
  case (5 k ns l t c v)
  then obtain var where var: "constant_variable ns c v = Some var" and "rank c v < k"
    by (auto simp: refs_below_def)
  then obtain j where j: "k = Suc j" "rank c v \<le> j" by (cases k) auto
  show ?case
  proof (cases "v_initializer var")
    case None
    then show ?thesis using var by (simp add: ev_returns_def)
  next
    case (Some init)
    then have "refs_below ns rank j init"
      using 5(3) var j(2) unfolding constants_ordered_def by (blast intro: refs_below_mono)
    then show ?thesis using 5(1) [OF var Some j(1)] 5(3) var Some j(1) by simp
  qed
qed (auto simp: refs_below_def split: if_splits prod.splits)

definition ev_le :: "'a ev \<Rightarrow> 'a ev \<Rightarrow> bool" where
  "ev_le m n \<longleftrightarrow> (\<forall>d r. m d = Some r \<longrightarrow> n d = Some r)"

lemma ev_le_refl [intro!, simp]: "ev_le m m"
  by (simp add: ev_le_def)

lemma ev_le_none [intro!, simp]: "ev_le (\<lambda>d. None) m"
  by (simp add: ev_le_def)

lemma ev_le_bind [intro!]: "ev_le m m' \<Longrightarrow> (\<And>x. ev_le (f x) (f' x)) \<Longrightarrow> ev_le (ev_bind m f) (ev_bind m' f')"
  by (fastforce simp: ev_le_def ev_bind_def split: option.splits sum.splits prod.splits)

lemma eval_arith_le [intro!]: "ev_le m m' \<Longrightarrow> ev_le n n' \<Longrightarrow> ev_le (eval_arith a l m n) (eval_arith a l m' n')"
  by (simp add: eval_arith_def ev_le_bind split: prod.splits)

lemma eval_const_number_mono: "k \<le> j \<Longrightarrow> ev_le (eval_const_number k ns e) (eval_const_number j ns e)"
proof (induction k ns e arbitrary: j rule: eval_const_number.induct)
  case (5 k ns l t c v)
  then show ?case by (cases j) (auto split: option.splits nat.splits)
qed (auto split: if_splits prod.splits)

text \<open>
  C22: when every constant is initialised from constants that come before it in some order, the evaluator
  returns a value or an error for an expression over them, and further unfolding does not change the
  result: the recursion of the code is bounded by the position of the last constant.
\<close>

theorem eval_const_number_terminates:
  assumes "constants_ordered ns rank" "refs_below ns rank k e"
  shows "\<exists>r. \<forall>j\<ge>k. eval_const_number j ns e d = Some r"
proof -
  have "eval_const_number k ns e d \<noteq> None"
    using eval_const_number_returns [OF assms] by (auto simp: ev_returns_def simp del: not_None_eq)
  then obtain r where "eval_const_number k ns e d = Some r" by auto
  then show ?thesis using eval_const_number_mono by (metis ev_le_def)
qed

definition number :: "int \<Rightarrow> expr" where
  "number n = ENumber Implicit (TUint 32) n"

definition const_decl :: "string \<Rightarrow> expr \<Rightarrow> svariable" where
  "const_decl n e = \<lparr>v_name = n, v_loc = Implicit, v_ty = TUint 32, v_constant = True, v_initializer = Some e,
     v_assigned = False, v_read = False\<rparr>"

definition global_constant :: "nat \<Rightarrow> expr" where
  "global_constant v = EConstantVariable Implicit (TUint 32) None v"

definition two_constants :: namespace where
  "two_constants = \<lparr>ns_enums = [], ns_structs = [], ns_contracts = [], ns_user_types = [], ns_functions = [],
     ns_constants = [const_decl ''A'' (number 7),
                     const_decl ''B'' (EArith Add Implicit (TUint 32) (global_constant 0) (number 1))],
     ns_diagnostics = no_diagnostics, ns_function_symbols = (\<lambda>_. None), ns_variable_symbols = (\<lambda>_. None),
     ns_next_id = 0, ns_called_lib_functions = []\<rparr>"

lemma two_constants_ordered: "constants_ordered two_constants (\<lambda>c v. v)"
proof -
  have *: "constant_variable two_constants c v = Some var \<Longrightarrow>
     c = None \<and> (v = 0 \<and> var = const_decl ''A'' (number 7) \<or>
       v = 1 \<and> var = const_decl ''B'' (EArith Add Implicit (TUint 32) (global_constant 0) (number 1)))" for c v var
    by (cases c) (auto simp: constant_variable_def two_constants_def less_Suc_eq at_def bind_eq_Some_conv split: if_splits)
  then show ?thesis unfolding constants_ordered_def
    by (fastforce simp: const_decl_def refs_below_def number_def global_constant_def
        constant_variable_def two_constants_def)
qed

theorem eval_const_number_terminates_witness:
  "\<exists>r. \<forall>j\<ge>2. eval_const_number j two_constants (EArith Multiply Implicit (TUint 32) (global_constant 1) (number 2))
     no_diagnostics = Some r"
proof (rule eval_const_number_terminates [OF two_constants_ordered])
  show "refs_below two_constants (\<lambda>c v. v) 2 (EArith Multiply Implicit (TUint 32) (global_constant 1) (number 2))"
    by (simp add: refs_below_def number_def global_constant_def constant_variable_def two_constants_def)
qed

subsection \<open>The two evaluators agree\<close>

lemma fold_arith_number:
  assumes "fold_arith a l t (Some (ENumber l1 t1 x)) (Some (ENumber l2 t2 y)) d = Some ((Some r, go), d')"
  shows "\<exists>n. r = ENumber l t n \<and> arith_number a l x y = ev_return (l, n) \<and>
    (a = Divide \<or> a = Modulo \<longrightarrow> y \<noteq> 0)"
proof -
  have "y \<noteq> 0 \<Longrightarrow> 0 \<le> y \<Longrightarrow> power_loop x (y - 1) x = x ^ nat y"
    using power_Suc [of x "nat (y - 1)"] by (simp add: power_loop Suc_nat_eq_nat_zadd1)
  then show ?thesis using assms
    by (cases a) (auto simp: fold_arith_def arith_number_def Let_def overflow_check_uint to_usize_def
        split: if_splits)
qed

definition is_number :: "expr \<Rightarrow> bool" where
  "is_number e = (case e of ENumber _ _ _ \<Rightarrow> True | _ \<Rightarrow> False)"

lemma fold_arith_not_numbers:
  "\<not> (\<exists>x y. left = Some x \<and> is_number x \<and> right = Some y \<and> is_number y) \<Longrightarrow>
    fold_arith a l t left right d = Some ((None, True), d)"
  by (cases left; cases right) (auto simp: fold_arith_def is_number_def split: expr.splits)

lemma is_number_iff: "is_number e \<longleftrightarrow> (\<exists>l t n. e = ENumber l t n)"
  by (cases e) (auto simp: is_number_def)

lemma fold_arith_cases:
  assumes "fold_arith a l t left right d = Some ((Some r, go), d')"
  obtains l1 t1 x l2 t2 y n where "left = Some (ENumber l1 t1 x)" "right = Some (ENumber l2 t2 y)"
    "r = ENumber l t n" "arith_number a l x y = ev_return (l, n)" "a = Divide \<or> a = Modulo \<longrightarrow> y \<noteq> 0"
proof -
  have "\<exists>x y. left = Some x \<and> is_number x \<and> right = Some y \<and> is_number y"
    using assms fold_arith_not_numbers [of left right] by fastforce
  then show thesis using that assms fold_arith_number by (fastforce simp: is_number_iff)
qed

lemma eval_arith_return:
  assumes "m = ev_return (l1, x)" "n = ev_return (l2, y)" "arith_number a l x y = ev_return (l, z)"
    "a = Divide \<or> a = Modulo \<longrightarrow> y \<noteq> 0"
  shows "eval_arith a l m n = ev_return (l, z)"
  using assms by (auto simp: eval_arith_def ev_bind_def ev_return_def)

lemma folding_agrees:
  "eval_constants_in_expression e d = Some ((Some r, go), d') \<Longrightarrow>
    \<exists>t n. r = ENumber (expr_loc e) t n \<and> eval_const_number k ns e = ev_return (expr_loc e, n)"
proof (induction e d arbitrary: r go d' rule: eval_constants_in_expression.induct)
  case (1 a l t x y d)
  from 1(3) obtain left g1 d1 right g2 d2 where x: "eval_constants_in_expression x d = Some ((left, g1), d1)"
    and y: "eval_constants_in_expression y d1 = Some ((right, g2), d2)"
    and f: "fold_arith a l t left right d2 = Some ((Some r, go), d')"
    by (auto simp: bind_eq_Some_conv)
  from f show ?case
  proof (rule fold_arith_cases)
    fix l1 t1 u l2 t2 v n
    assume *: "left = Some (ENumber l1 t1 u)" "right = Some (ENumber l2 t2 v)" "r = ENumber l t n"
      "arith_number a l u v = ev_return (l, n)" "a = Divide \<or> a = Modulo \<longrightarrow> v \<noteq> 0"
    have "eval_const_number k ns x = ev_return (expr_loc x, u)" using 1(1) x *(1) by fastforce
    moreover have "eval_const_number k ns y = ev_return (expr_loc y, v)" using 1(2) x y *(2) by fastforce
    ultimately show ?thesis using * by (simp add: eval_arith_return)
  qed
next
  case (2 u l t x d)
  from 2(2) obtain e g d1 l1 t1 n where u: "u = ZeroExt"
    and "eval_constants_in_expression x d = Some ((Some (ENumber l1 t1 n), g), d1)" "r = ENumber l t n"
    by (auto simp: bind_eq_Some_conv fold_zero_ext_Some split: if_splits)
  moreover from this have "eval_const_number k ns x = ev_return (expr_loc x, n)" using 2(1) [OF u] by fastforce
  ultimately show ?case by (simp add: ev_bind_def ev_return_def)
qed auto

text \<open>
  C23: when the folding of the overflow check yields an expression, it is a number literal, and the constant
  evaluator returns the same value, without diagnostics.
\<close>

theorem constant_evaluators_agree:
  assumes "eval_constants_in_expression e d = Some ((Some r, go), d')"
  shows "\<exists>t n. r = ENumber (expr_loc e) t n \<and>
    (\<forall>k ns d. eval_const_number k ns e d = Some (Inr (expr_loc e, n), d))"
proof -
  obtain t n where r: "r = ENumber (expr_loc e) t n" using folding_agrees [OF assms] by blast
  then have "eval_const_number k ns e = ev_return (expr_loc e, n)" for k ns
    using folding_agrees [OF assms, of k ns] by simp
  then show ?thesis using r by (simp add: ev_return_def)
qed

theorem constant_evaluators_agree_witness:
  "eval_constants_in_expression (EArith Add Implicit (TUint 32) (number 3) (EArith Power Implicit (TUint 32) (number 2) (number 5))) no_diagnostics
     = Some ((Some (number 35), True), no_diagnostics) \<and>
   eval_const_number 0 two_constants (EArith Add Implicit (TUint 32) (number 3) (EArith Power Implicit (TUint 32) (number 2) (number 5))) no_diagnostics
     = Some (Inr (Implicit, 35), no_diagnostics)"
proof -
  have *: "eval_constants_in_expression (EArith Add Implicit (TUint 32) (number 3) (EArith Power Implicit (TUint 32) (number 2) (number 5))) no_diagnostics
      = Some ((Some (number 35), True), no_diagnostics)"
    by code_simp
  then show ?thesis using constant_evaluators_agree [OF *] by (auto simp: number_def)
qed

end
