(* ===== verification/Sema_Cast.thy ===== *)
theory Sema_Cast
  imports Sema_Eval Sema_Types
begin

section \<open>Implicit conversions\<close>

text \<open>
  Model of \<open>cast\<close> in \<open>src/sema/expression/mod.rs\<close>, which converts an expression to a type or
  reports that it cannot be converted, and of the coercion of two operands in
  \<open>src/sema/expression/integers.rs\<close>.  The type an expression is cast from is its own type; after a
  reference is loaded it is the type behind the reference, so \<open>cast_from\<close> recurses on it.
\<close>

subsection \<open>Conversion of values\<close>

definition cast_fail :: "loc \<Rightarrow> message \<Rightarrow> 'a ev" where
  "cast_fail l m = ev_fail (diag_cast_error l m)"

text \<open>\<open>(Fixed(_), AnyFixed)\<close> or the same length in every dimension.\<close>

fun dims_match :: "array_length list \<Rightarrow> array_length list \<Rightarrow> bool" where
  "dims_match [] [] = True"
| "dims_match (f # fs) (t # ts) = ((f = t \<or> (fixed_length f \<noteq> None \<and> t = AnyFixed)) \<and> dims_match fs ts)"
| "dims_match fs ts = False"

definition cast_types :: "expr \<Rightarrow> loc \<Rightarrow> sty \<Rightarrow> sty \<Rightarrow> expr ev" where
  "cast_types e l from to = (case (from, to) of
      (TAddress, TRef t) \<Rightarrow>
        if t = TAddress then ev_return (EUnary GetRef l (TRef from) e) else cast_fail l (ConversionNotPossible from to)
    | (TUint _, TEnum _) \<Rightarrow> cast_fail l (ImplicitNotAllowed from to)
    | (TEnum _, TUint _) \<Rightarrow> cast_fail l (ImplicitNotAllowed from to)
    | (TUint m, TUint n) \<Rightarrow>
        if m > n then cast_fail l (WouldTruncate from to)
        else if m < n then ev_return (EUnary ZeroExt l to e)
        else ev_return (EUnary Cast l to e)
    | (TUint m, TField) \<Rightarrow> if m = 32 then ev_return e else cast_fail l (ConversionNotPossible from to)
    | (TField, TDynamicBytes) \<Rightarrow> ev_return (EBytesCast l from to e)
    | (TDynamicBytes, TField) \<Rightarrow> ev_return (EBytesCast l from to e)
    | (THash, TAddress) \<Rightarrow> ev_return (EUnary Cast l to e)
    | (TAddress, THash) \<Rightarrow> ev_return (EUnary Cast l to e)
    | (TUint m, TAddress) \<Rightarrow> if m = 32 then ev_return (EUnary Cast l to e) else cast_fail l (ConversionNotPossible from to)
    | (THash, TDynamicBytes) \<Rightarrow> ev_return (EUnary Cast l to e)
    | (TAddress, TDynamicBytes) \<Rightarrow> ev_return (EUnary Cast l to e)
    | (TArray ft fd, TArray tt td) \<Rightarrow>
        if ft = tt \<and> dims_match fd td then ev_return e else cast_fail l (ConversionNotPossible from to)
    | (TDynamicBytes, TSlice t) \<Rightarrow> if t = TField then ev_return (EUnary Cast l to e) else cast_fail l (ConversionNotPossible from to)
    | (TField, TSlice t) \<Rightarrow> if t = TField then ev_return (EUnary Cast l to e) else cast_fail l (ConversionNotPossible from to)
    | (TString, TDynamicBytes) \<Rightarrow> ev_return (EUnary Cast l to e)
    | (TDynamicBytes, TString) \<Rightarrow> ev_return (EUnary Cast l to e)
    | (TAddress, TContract _) \<Rightarrow> ev_return (EUnary Cast l to e)
    | (TContract _, TAddress) \<Rightarrow> ev_return (EUnary Cast l to e)
    | _ \<Rightarrow> cast_fail l (ConversionNotPossible from to))"

text \<open>The special cases of literals; \<open>None\<close> when the match falls through.\<close>

definition cast_literal :: "expr \<Rightarrow> loc \<Rightarrow> sty \<Rightarrow> sty \<Rightarrow> expr ev option" where
  "cast_literal e l from to = (case (e, to) of
      (ENumber _ _ v, TUint n) \<Rightarrow>
        Some (if bits v \<ge> n then cast_fail l (WouldTruncate from to) else ev_return (ENumber l (TUint n) v))
    | (ENumber _ _ v, TField) \<Rightarrow>
        Some (if from \<noteq> TUint 32 then cast_fail l (CannotConvert from to) else ev_return (ENumber l TField v))
    | (ENumber _ _ v, TAddress) \<Rightarrow> if from = TUint 32 then Some (ev_return (EAddress l TAddress [0, 0, 0, v])) else None
    | (ENumber _ _ v, THash) \<Rightarrow> if from = TUint 32 then Some (ev_return (EHash l THash [0, 0, 0, v])) else None
    | (EArray _ _ _ _, TArray tt td) \<Rightarrow> (case from of
          TArray ft fd \<Rightarrow>
            if ft = tt \<and> length fd = length td \<and> length fd = 1 \<and> last td = Dynamic
            then Some (ev_return (EUnary Cast l to e)) else None
        | _ \<Rightarrow> None)
    | _ \<Rightarrow> None)"

definition storage_bytes_element :: "expr \<Rightarrow> bool" where
  "storage_bytes_element e = (case e of ESubscript _ _ t _ _ \<Rightarrow> is_storage_bytes t | _ \<Rightarrow> False)"

fun cast_from :: "sty \<Rightarrow> expr \<Rightarrow> loc \<Rightarrow> sty \<Rightarrow> expr ev" where
  "cast_from (TRef r) e l to =
     (if TRef r = to \<or> to = TUnresolved then ev_return e
      else (case is_fixed_reference_type r of
          None \<Rightarrow> (\<lambda>d. None)
        | Some True \<Rightarrow> if r = to then ev_return e else cast_fail l (ConversionNotPossible (TRef r) to)
        | Some False \<Rightarrow> cast_from r (EUnary Load l r e) l to))"
| "cast_from (TStorageRef r) e l to =
     (if TStorageRef r = to \<or> to = TUnresolved then ev_return e
      else if storage_bytes_element e then ev_return e
      else cast_from r (EUnary StorageLoad l r e) l to)"
| "cast_from from e l to =
     (if from = to \<or> from = TUnresolved \<or> to = TUnresolved then ev_return e
      else (case cast_literal e l from to of Some r \<Rightarrow> r | None \<Rightarrow> cast_types e l from to))"

definition cast :: "expr \<Rightarrow> loc \<Rightarrow> sty \<Rightarrow> expr ev" where
  "cast e l to = (case expr_ty e of None \<Rightarrow> (\<lambda>d. None) | Some from \<Rightarrow> cast_from from e l to)"

subsection \<open>Coercion of operands\<close>

fun number_bits :: "sty \<Rightarrow> loc \<Rightarrow> nat ev" where
  "number_bits (TUint n) l = ev_return n"
| "number_bits TField l = ev_return 64"
| "number_bits (TRef t) l = number_bits t l"
| "number_bits (TStorageRef t) l = number_bits t l"
| "number_bits t l = ev_fail (diag_error l (TypeNotAllowed t))"

definition coerce_number :: "sty \<Rightarrow> loc \<Rightarrow> sty \<Rightarrow> loc \<Rightarrow> sty ev" where
  "coerce_number l ll r rl =
    (let l = deref_any l; r = deref_any r;
         numbers = ev_bind (number_bits l ll) (\<lambda>m. ev_bind (number_bits r rl) (\<lambda>n. ev_return (TUint (max m n))))
     in (case (l, r) of
         (TContract a, TContract b) \<Rightarrow> if a = b then ev_return (TContract a) else numbers
       | (TAddress, TAddress) \<Rightarrow> ev_return TAddress
       | (THash, THash) \<Rightarrow> ev_return THash
       | (TField, TUint _) \<Rightarrow> ev_return l
       | (TUint _, TField) \<Rightarrow> ev_return r
       | (TField, TField) \<Rightarrow> ev_return TField
       | _ \<Rightarrow> numbers))"

definition coerce :: "sty \<Rightarrow> loc \<Rightarrow> sty \<Rightarrow> loc \<Rightarrow> sty ev" where
  "coerce l ll r rl =
    (let l = deref_any l; r = deref_any r in if l = r then ev_return l else coerce_number l ll r rl)"

datatype resolve_to = Unknown | Integer | Discard | ToType sty

definition bigint_to_expression :: "namespace \<Rightarrow> nat \<Rightarrow> loc \<Rightarrow> int \<Rightarrow> resolve_to \<Rightarrow> expr ev" where
  "bigint_to_expression ns k l n to =
    (let smallest = (if bits n > 256 then ev_fail (diag_error l (TooLarge n)) else ev_return (ENumber l (TUint 32) n)) in
     case to of
       ToType t \<Rightarrow>
         if t \<noteq> TUnresolved then (case is_integer ns k t of
             None \<Rightarrow> (\<lambda>d. None)
           | Some False \<Rightarrow> cast_fail l (ExpectedInteger t)
           | Some True \<Rightarrow> ev_return (ENumber l t n))
         else smallest
     | _ \<Rightarrow> smallest)"

subsection \<open>What a conversion gives\<close>

text \<open>The types of value that a conversion to \<open>t\<close> may return.\<close>

definition accepted_type :: "sty \<Rightarrow> sty \<Rightarrow> bool" where
  "accepted_type t' t \<longleftrightarrow> t' = t \<or> t' = TUnresolved \<or> t = TUnresolved \<or> (t' = TUint 32 \<and> t = TField) \<or> t' = TRef t \<or>
     (\<exists>e fd td. t' = TArray e fd \<and> t = TArray e td \<and> dims_match fd td)"

definition cast_result :: "expr ev \<Rightarrow> loc \<Rightarrow> sty \<Rightarrow> bool" where
  "cast_result m l to \<longleftrightarrow> (\<forall>d r d'. m d = Some (r, d') \<longrightarrow>
     (case r of
        Inl u \<Rightarrow> \<exists>msg. d' = push_diag (diag_cast_error l msg) d
      | Inr e' \<Rightarrow> d' = d \<and> (storage_bytes_element e' \<or> (\<exists>t'. expr_ty e' = Some t' \<and> accepted_type t' to))))"

lemma cast_result_fail [simp]: "cast_result (cast_fail l m) l to"
  by (auto simp: cast_result_def cast_fail_def ev_fail_def)

lemma cast_result_panic [simp]: "cast_result (\<lambda>d. None) l to"
  by (simp add: cast_result_def)

lemma cast_result_return:
  "storage_bytes_element e \<or> (\<exists>t'. expr_ty e = Some t' \<and> accepted_type t' to) \<Longrightarrow> cast_result (ev_return e) l to"
  by (auto simp: cast_result_def ev_return_def)

lemma accepted_refl [simp]: "accepted_type t t"
  by (simp add: accepted_type_def)

lemma cast_types_result:
  assumes "expr_ty e = Some t0"
  shows "cast_result (cast_types e l t0 to) l to"
  using assms
  by (auto simp: cast_types_def accepted_type_def intro!: cast_result_return split: sty.splits)

lemma cast_literal_result: "cast_literal e l t0 to = Some m \<Longrightarrow> cast_result m l to"
  by (auto simp: cast_literal_def intro!: cast_result_return split: sty.splits expr.splits if_splits)

lemma cast_from_result: "expr_ty e = Some t0 \<Longrightarrow> cast_result (cast_from t0 e l to) l to"
proof (induction t0 e l to rule: cast_from.induct)
  case (1 r e l to)
  then show ?case
    by (auto simp: accepted_type_def intro!: cast_result_return split: option.splits bool.splits)
next
  case (2 r e l to)
  then show ?case by (auto simp: accepted_type_def intro!: cast_result_return)
qed (auto simp: accepted_type_def cast_types_result cast_literal_result intro!: cast_result_return split: option.splits)

text \<open>
  C32: a conversion that succeeds reports nothing and returns an expression whose type is the wanted one, up
  to unresolved types, array dimensions of any length, references to fixed-size values, elements of a byte
  array in storage, and \<open>u32\<close> values that stand for field elements; one that fails reports exactly
  one cast error.
\<close>

theorem cast_gives_type:
  assumes "cast e l to d = Some (r, d')"
  shows "case r of
      Inl u \<Rightarrow> \<exists>msg. d' = push_diag (diag_cast_error l msg) d
    | Inr e' \<Rightarrow> d' = d \<and> (storage_bytes_element e' \<or> (\<exists>t'. expr_ty e' = Some t' \<and> accepted_type t' to))"
proof -
  obtain t0 where "expr_ty e = Some t0" "cast_from t0 e l to d = Some (r, d')"
    using assms by (auto simp: cast_def split: option.splits)
  then show ?thesis using cast_from_result unfolding cast_result_def by blast
qed

theorem cast_gives_type_witness:
  "\<exists>t'. expr_ty (EUnary ZeroExt Implicit (TUint 64) (EVariable Implicit (TUint 32) 0)) = Some t' \<and> accepted_type t' (TUint 64)"
proof -
  have "cast (EVariable Implicit (TUint 32) 0) Implicit (TUint 64) no_diagnostics =
      Some (Inr (EUnary ZeroExt Implicit (TUint 64) (EVariable Implicit (TUint 32) 0)), no_diagnostics)"
    by (simp add: cast_def cast_literal_def cast_types_def ev_return_def)
  from cast_gives_type [OF this] show ?thesis by (simp add: storage_bytes_element_def)
qed

subsection \<open>Literals that fit\<close>

text \<open>
  C35: a number literal is converted to another unsigned type of \<open>n\<close> bits only when it is below
  \<open>2 ^ (n - 1)\<close>, although the overflow check accepts every value below \<open>2 ^ n\<close>: half of the
  values that fit are rejected as truncating.
\<close>

theorem literal_cast_half_range:
  assumes "0 \<le> v" "m \<noteq> n" "0 < n"
  shows "((\<exists>e. cast (ENumber l (TUint m) v) l' (TUint n) d = Some (Inr e, d)) \<longleftrightarrow> v < 2 ^ (n - 1)) \<and>
    (overflow_check v (TUint n) l' = Some None \<longleftrightarrow> v < 2 ^ n)"
proof
  have "n \<le> bits v \<longleftrightarrow> \<not> v < 2 ^ (n - 1)" using bits_le [OF assms(1), of "n - 1"] assms(3) by linarith
  then show "(\<exists>e. cast (ENumber l (TUint m) v) l' (TUint n) d = Some (Inr e, d)) \<longleftrightarrow> v < 2 ^ (n - 1)"
    using assms(2) by (auto simp: cast_def cast_literal_def cast_fail_def ev_fail_def ev_return_def)
  show "overflow_check v (TUint n) l' = Some None \<longleftrightarrow> v < 2 ^ n" using assms(1) by (simp add: overflow_check_uint)
qed

theorem literal_cast_half_range_witness:
  "\<not> (\<exists>e. cast (ENumber Implicit (TUint 64) 3000000000) Implicit (TUint 32) no_diagnostics = Some (Inr e, no_diagnostics)) \<and>
   overflow_check 3000000000 (TUint 32) Implicit = Some None"
  using literal_cast_half_range [of 3000000000 64 32 Implicit Implicit no_diagnostics] by simp

subsection \<open>Operands after coercion\<close>

definition numeric :: "sty \<Rightarrow> bool" where
  "numeric t \<longleftrightarrow> t = TField \<or> (\<exists>n. t = TUint n)"

text \<open>Two numeric types that are coerced: a field element goes with field elements and \<open>u32\<close> only.\<close>

definition coercible :: "sty \<Rightarrow> sty \<Rightarrow> bool" where
  "coercible l r \<longleftrightarrow> numeric l \<and> numeric r \<and> (l = TField \<longrightarrow> r \<in> {TField, TUint 32}) \<and> (r = TField \<longrightarrow> l \<in> {TField, TUint 32})"

definition common_type :: "sty \<Rightarrow> sty \<Rightarrow> sty" where
  "common_type l r = (case (l, r) of (TUint m, TUint n) \<Rightarrow> TUint (max m n) | _ \<Rightarrow> TField)"

lemma deref_numeric [simp]: "deref_any (TUint n) = TUint n" "deref_any TField = TField"
  by (simp_all add: deref_any_def)

lemma coerce_common:
  assumes "coercible (deref_any l) (deref_any r)"
  shows "coerce l ll r rl d = Some (Inr (common_type (deref_any l) (deref_any r)), d)"
proof -
  consider "deref_any l = TField" "deref_any r = TField" | "deref_any l = TField" "deref_any r = TUint 32"
    | "deref_any l = TUint 32" "deref_any r = TField"
    | m n where "deref_any l = TUint m" "deref_any r = TUint n"
    using assms by (auto simp: coercible_def numeric_def)
  then show ?thesis
    by cases (simp_all add: coerce_def coerce_number_def common_type_def ev_return_def ev_bind_def Let_def)
qed

lemma cast_to_common:
  assumes "t = deref_any t'" "numeric t" "expr_ty e = Some t'" "\<not> is_number e"
    and "u = t \<or> (\<exists>m n. t = TUint m \<and> u = TUint n \<and> m \<le> n) \<or> (t = TUint 32 \<and> u = TField)"
  shows "\<exists>e'. cast e l u d = Some (Inr e', d)"
proof -
  have lit: "is_number x \<or> cast_literal x l t u = None" for x
    using assms(2,5) by (cases x) (auto simp: cast_literal_def is_number_def numeric_def)
  have step: "\<exists>e'. cast_from t x l u d = Some (Inr e', d)" if "\<not> is_number x" for x
    using assms(2,5) lit [of x] that
    by (auto simp: numeric_def cast_types_def ev_return_def)
  have "t' = t \<or> t' = TRef t \<or> t' = TStorageRef t" using assms(1) by (cases t') (auto simp: deref_any_def)
  then consider "t' = t" | "t' = TRef t" | "t' = TStorageRef t" by blast
  then show ?thesis
  proof cases
    case 1
    then show ?thesis using assms(3,4) step [of e] by (simp add: cast_def)
  next
    case 2
    have "is_fixed_reference_type t = Some False" "TRef t \<noteq> u" "u \<noteq> TUnresolved"
      using assms(2,5) by (auto simp: numeric_def is_fixed_reference_type_def)
    then show ?thesis using 2 assms(3) step [of "EUnary Load l t e"] by (simp add: cast_def is_number_def)
  next
    case 3
    have "TStorageRef t \<noteq> u" "u \<noteq> TUnresolved" using assms(2,5) by (auto simp: numeric_def)
    then show ?thesis using 3 assms(3) step [of "EUnary StorageLoad l t e"]
      by (auto simp: cast_def is_number_def ev_return_def)
  qed
qed



end
