(* ===== verification/Sema_Check.thy ===== *)
theory Sema_Check
  imports Sema_Eval "HOL-Library.Extended_Nat"
begin

section \<open>The overflow check of whole expressions\<close>

text \<open>
  The resolver walks over every resolved expression with
  \<open>expr.recurse(ns, check_term_for_constant_overflow)\<close> (for instance \<open>src/sema/variables.rs\<close>,
  \<open>src/sema/statements.rs\<close>).  This theory composes the walk of \<open>Sema_AST\<close> with the check of
  \<open>Sema_Eval\<close> and shows what an expression that passes it guarantees.
\<close>

definition check_step :: "expr \<Rightarrow> namespace option \<Rightarrow> bool \<times> namespace option" where
  "check_step e s = (case s of
      None \<Rightarrow> (False, None)
    | Some ns \<Rightarrow> (case check_term_for_constant_overflow e ns of
        None \<Rightarrow> (False, None)
      | Some (go, ns) \<Rightarrow> (go, Some ns)))"

definition check_expression :: "expr \<Rightarrow> namespace \<Rightarrow> namespace option" where
  "check_expression e ns = recurse check_step e (Some ns)"

subsection \<open>Walks that keep a measure\<close>

lemma visit_all_mono:
  fixes \<mu> :: "'c \<Rightarrow> 'm::linorder"
  assumes "\<forall>g\<in>set gs. \<forall>s. \<mu> s \<le> \<mu> (g s)"
  shows "\<mu> s \<le> \<mu> (visit_all gs s)"
  using assms by (induction gs arbitrary: s) (auto intro: order_trans)

lemma recurse_mono:
  fixes \<mu> :: "'c \<Rightarrow> 'm::linorder"
  assumes "\<And>e s. \<mu> s \<le> \<mu> (snd (f e s))"
  shows "\<mu> s \<le> \<mu> (recurse f e s)"
proof (induction e arbitrary: s rule: measure_induct_rule [of size])
  case (less e)
  obtain go s1 where f: "f e s = (go, s1)" by fastforce
  have "\<mu> s1 \<le> \<mu> (visit_all (map (recurse f) (operands e)) s1)"
    by (rule visit_all_mono) (use less operand_size in auto)
  then show ?case using assms [of s e] f
    by (subst recurse_operands) (auto simp: descend_def intro: order_trans)
qed

lemma visit_all_quiet:
  fixes \<mu> :: "'c \<Rightarrow> 'm::linorder"
  assumes "\<forall>g\<in>set gs. \<forall>s. \<mu> s \<le> \<mu> (g s)" "\<mu> (visit_all gs s) = \<mu> s" "g \<in> set gs"
  shows "\<exists>s'. \<mu> s' = \<mu> s \<and> \<mu> (g s') = \<mu> s"
  using assms
proof (induction gs arbitrary: s)
  case (Cons h gs)
  have "\<mu> (h s) \<le> \<mu> (visit_all gs (h s))" using Cons.prems(1) by (intro visit_all_mono) auto
  then have *: "\<mu> (h s) = \<mu> s" "\<mu> (visit_all gs (h s)) = \<mu> (h s)"
    using Cons.prems(1,2) by (auto intro: antisym)
  show ?case
  proof (cases "g = h")
    case False
    then show ?thesis using Cons.IH [of "h s"] Cons.prems(1,3) * by auto
  qed (use * in auto)
qed simp

lemma recurse_quiet:
  fixes \<mu> :: "'c \<Rightarrow> 'm::linorder"
  assumes mono: "\<And>e s. \<mu> s \<le> \<mu> (snd (f e s))"
    and go: "\<And>e s. \<mu> (snd (f e s)) = m \<Longrightarrow> fst (f e s) = go e"
    and "visited go e x" "\<mu> s = m" "\<mu> (recurse f e s) = m"
  shows "\<exists>s'. \<mu> s' = m \<and> \<mu> (snd (f x s')) = m"
  using assms(3-)
proof (induction arbitrary: s rule: visited.induct)
  case (visited_self e)
  obtain b s1 where f: "f e s = (b, s1)" by fastforce
  have "\<forall>g\<in>set (map (recurse f) (operands e)). \<forall>s. \<mu> s \<le> \<mu> (g s)"
    using recurse_mono [of \<mu> f, OF mono] by auto
  then have "\<mu> s1 \<le> \<mu> (visit_all (map (recurse f) (operands e)) s1)" by (rule visit_all_mono)
  then have "\<mu> s1 \<le> \<mu> (recurse f e s)"
    using f by (subst recurse_operands) (auto simp: descend_def)
  then show ?case using visited_self mono [of s e] f by (intro exI [of _ s]) auto
next
  case (visited_operand e x y)
  obtain b s1 where f: "f e s = (b, s1)" by fastforce
  have *: "\<forall>g\<in>set (map (recurse f) (operands e)). \<forall>s. \<mu> s \<le> \<mu> (g s)"
    using recurse_mono [of \<mu> f, OF mono] by auto
  have r: "recurse f e s = (if b then visit_all (map (recurse f) (operands e)) s1 else s1)"
    using f by (subst recurse_operands) (simp add: descend_def)
  have "\<mu> s1 \<le> \<mu> (recurse f e s)" unfolding r using visit_all_mono [OF *] by (cases b) simp_all
  then have s1: "\<mu> s1 = m" using visited_operand.prems mono [of s e] f by (auto intro: antisym)
  then have "b" using go [of e s] f visited_operand.hyps(1) by simp
  then have "\<mu> (visit_all (map (recurse f) (operands e)) s1) = \<mu> s1" using r visited_operand.prems s1 by simp
  then obtain s' where "\<mu> s' = \<mu> s1" "\<mu> (recurse f x s') = \<mu> s1"
    using visit_all_quiet [OF *] visited_operand.hyps(2) by fastforce
  then show ?case using visited_operand.IH s1 by simp
qed

subsection \<open>Errors of the folding\<close>

lemma errors_push [simp]: "errors (push_diag x d) = errors d @ (if is_error x then [x] else [])"
  by (simp add: errors_def)

lemma is_error_diag [simp]: "is_error (diag_error l m)" "\<not> is_error (diag_warning l m)"
  by (simp_all add: is_error_def diag_defs)

text \<open>What folding an operator on two numbers reports.\<close>

definition fold_messages :: "arith \<Rightarrow> loc \<Rightarrow> int \<Rightarrow> loc \<Rightarrow> int \<Rightarrow> diagnostic list" where
  "fold_messages a l x rl y =
    (if a = Divide \<or> a = Modulo then (if y = 0 then [diag_error l DivideByZero] else [])
     else if a = Power then (if 0 \<le> y \<and> y < 2 ^ 16 then [] else [diag_error rl (PowerNotPossible y)])
     else if a = ShiftLeft then
       (if 0 \<le> y \<and> y < 2 ^ 64 then (if int (bits x) \<le> y then [diag_warning rl (LeftShiftMayOverflow y)] else [])
        else [diag_error rl (LeftShiftNotPossible y)])
     else if a = ShiftRight then (if 0 \<le> y \<and> y < 2 ^ 64 then [] else [diag_error rl (RightShiftNotPossible y)])
     else [])"

lemma fold_arith_numbers:
  "\<exists>p. (\<forall>d. fold_arith a l t (Some (ENumber l1 t1 x)) (Some (ENumber l2 t2 y)) d =
      Some (p, fold push_diag (fold_messages a l x l2 y) d)) \<and>
    (fst p = None \<longrightarrow> filter is_error (fold_messages a l x l2 y) \<noteq> [])"
  by (cases a) (auto simp: fold_arith_def fold_messages_def Let_def overflow_check_uint)

fun literal_term :: "expr \<Rightarrow> bool" where
  "literal_term (EArith a l t x y) \<longleftrightarrow> literal_term x \<and> literal_term y"
| "literal_term (ENumber l t n) \<longleftrightarrow> True"
| "literal_term (EUnary u l t x) \<longleftrightarrow> u = ZeroExt \<and> literal_term x"
| "literal_term e \<longleftrightarrow> False"

text \<open>
  The result of folding does not depend on the diagnostics collected so far, the diagnostics only grow, and
  a term of literals that is not folded has been reported.
\<close>

lemma folding_messages:
  "\<exists>p es. (\<forall>d. eval_constants_in_expression e d = Some (p, fold push_diag es d)) \<and>
    (\<forall>x. fst p = Some x \<longrightarrow> is_number x) \<and> (literal_term e \<and> fst p = None \<longrightarrow> filter is_error es \<noteq> [])"
  (is "\<exists>p es. ?P e p es")
proof (induction e rule: literal_term.induct)
  case (1 a l t x y)
  obtain p es q fs where x: "?P x p es" and y: "?P y q fs" using 1 by blast
  show ?case
  proof (cases "\<exists>u v. fst p = Some u \<and> fst q = Some v")
    case True
    then obtain u v where "fst p = Some u" "fst q = Some v" by blast
    then obtain l1 t1 m l2 t2 n where pq: "fst p = Some (ENumber l1 t1 m)" "fst q = Some (ENumber l2 t2 n)"
      using x y by (auto simp: is_number_iff)
    define gs where "gs = fold_messages a l m l2 n"
    from fold_arith_numbers [of a l t l1 t1 m l2 t2 n] obtain r where
      r: "\<forall>d. fold_arith a l t (fst p) (fst q) d = Some (r, fold push_diag gs d)"
        "fst r = None \<longrightarrow> filter is_error gs \<noteq> []"
      unfolding pq gs_def [symmetric] by (elim exE conjE)
    have "is_number z" if "fst r = Some z" for z
    proof -
      have "fold_arith a l t (fst p) (fst q) no_diagnostics =
          Some ((Some z, snd r), fold push_diag gs no_diagnostics)"
        using r(1) that by (cases r) simp
      then show ?thesis by (rule fold_arith_cases) (simp add: is_number_def)
    qed
    moreover have "eval_constants_in_expression (EArith a l t x y) d = Some (r, fold push_diag (es @ fs @ gs) d)" for d
      using x y r(1) by (simp add: split_beta)
    ultimately show ?thesis using r(2)
      by (intro exI [of _ r] exI [of _ "es @ fs @ gs"]) (simp del: eval_constants_in_expression.simps)
  next
    case False
    then have f: "fold_arith a l t (fst p) (fst q) d = Some ((None, True), d)" for d
      by (intro fold_arith_not_numbers) auto
    have "eval_constants_in_expression (EArith a l t x y) d = Some ((None, True), fold push_diag (es @ fs) d)" for d
      using x y f by (simp add: split_beta)
    moreover have "filter is_error es \<noteq> [] \<or> filter is_error fs \<noteq> []" if "literal_term (EArith a l t x y)"
      using False x y that by auto
    ultimately show ?thesis
      by (intro exI [of _ "(None, True)"] exI [of _ "es @ fs"])
        (simp del: eval_constants_in_expression.simps literal_term.simps)
  qed
next
  case (2 l t n)
  show ?case by (intro exI [of _ "(Some (ENumber l t n), True)"] exI [of _ "[]"]) (simp add: is_number_def)
next
  case (3 u l t x)
  show ?case
  proof (cases "u = ZeroExt")
    case True
    obtain p es where x: "?P x p es" using 3 by blast
    show ?thesis
    proof (cases "fst p")
      case None
      then show ?thesis using x True
        by (intro exI [of _ "(None, True)"] exI [of _ es]) (simp add: split_beta fold_zero_ext_def)
    next
      case (Some z)
      then obtain l1 t1 n where "z = ENumber l1 t1 n" using x by (auto simp: is_number_iff)
      then show ?thesis using x True Some
        by (intro exI [of _ "(Some (ENumber l t n), True)"] exI [of _ es])
          (simp add: split_beta fold_zero_ext_def is_number_def)
    qed
  qed (auto intro!: exI [of _ "[]"])
qed (auto intro!: exI [of _ "[]"])

subsection \<open>What a passed check guarantees\<close>

lemma errors_fold_push [simp]: "errors (fold push_diag es d) = errors d @ filter is_error es"
  by (induction es arbitrary: d) auto

definition error_count :: "namespace option \<Rightarrow> enat" where
  "error_count s = (case s of None \<Rightarrow> \<infinity> | Some ns \<Rightarrow> enat (length (errors (ns_diagnostics ns))))"

text \<open>The expressions at which the walk goes on to the operands.\<close>

definition walks_on :: "expr \<Rightarrow> bool" where
  "walks_on e \<longleftrightarrow> \<not> checked_term e \<or>
     (\<exists>d. eval_constants_in_expression e no_diagnostics = Some ((None, True), d))"

fun term_type :: "expr \<Rightarrow> sty option" where
  "term_type (EArith a l t x y) = Some t"
| "term_type (ENumber l t n) = Some t"
| "term_type e = None"

lemma checked_term_type: "checked_term e \<longleftrightarrow> term_type e \<noteq> None"
  by (cases e) (auto simp: checked_term_def)

lemma folded_type:
  assumes "eval_constants_in_expression e d = Some ((Some (ENumber l t n), go), d')" "term_type e = Some t'"
  shows "t = t'"
proof (cases e)
  case (EArith a l1 t1 x y)
  obtain left right d2 where "fold_arith a l1 t1 left right d2 = Some ((Some (ENumber l t n), go), d')"
    using assms(1) unfolding EArith by (auto simp: bind_eq_Some_conv)
  then show ?thesis using assms(2) EArith by (auto elim!: fold_arith_cases)
qed (use assms in auto)

text \<open>A checked term: not folded, or folded to a number that went through the overflow check.\<close>

lemma check_term_cases:
  assumes "checked_term e"
  obtains (kept) go es where "check_term_for_constant_overflow e ns = Some (go, ns\<lparr>ns_diagnostics := fold push_diag es (ns_diagnostics ns)\<rparr>)"
      "literal_term e \<longrightarrow> filter is_error es \<noteq> []" "go = walks_on e"
  | (folded) t n es where "\<not> walks_on e" "\<And>k ns'. eval_const_number k ns' e = ev_return (expr_loc e, n)"
      "check_term_for_constant_overflow e ns = do {
         c \<leftarrow> overflow_check n t (expr_loc e);
         Some (False, ns\<lparr>ns_diagnostics := fold push_diag (es @ (case c of Some m \<Rightarrow> [m] | None \<Rightarrow> [])) (ns_diagnostics ns)\<rparr>)
       }" "term_type e = Some t"
proof -
  from folding_messages [of e] obtain p es where p: "\<forall>d. eval_constants_in_expression e d = Some (p, fold push_diag es d)"
    "\<forall>x. fst p = Some x \<longrightarrow> is_number x" "literal_term e \<and> fst p = None \<longrightarrow> filter is_error es \<noteq> []"
    by (elim exE conjE)
  obtain r go where r: "p = (r, go)" by fastforce
  have w: "walks_on e \<longleftrightarrow> r = None \<and> go" using assms p(1) r by (auto simp: walks_on_def)
  show thesis
  proof (cases r)
    case None
    then have e: "eval_constants_in_expression e d = Some ((None, go), fold push_diag es d)" for d
      using p(1) r by simp
    show thesis
    proof (rule kept)
      show "check_term_for_constant_overflow e ns =
          Some (go, ns\<lparr>ns_diagnostics := fold push_diag es (ns_diagnostics ns)\<rparr>)"
        using assms by (simp add: check_term_for_constant_overflow_def e)
    qed (use None p(3) r w in auto)
  next
    case (Some x)
    have e: "eval_constants_in_expression e d = Some ((Some x, go), fold push_diag es d)" for d
      using p(1) r Some by simp
    from folding_agrees [OF e] obtain t n where x: "x = ENumber (expr_loc e) t n" by blast
    have n: "eval_const_number k ns' e = ev_return (expr_loc e, n)" for k ns'
      using folding_agrees [OF e, of k ns'] x by simp
    have t: "term_type e = Some t" using folded_type [OF e [unfolded x]] assms by (auto simp: checked_term_type)
    show thesis
    proof (rule folded [OF _ n _ t])
      show "\<not> walks_on e" using w Some by simp
      show "check_term_for_constant_overflow e ns = do {
          c \<leftarrow> overflow_check n t (expr_loc e);
          Some (False, ns\<lparr>ns_diagnostics := fold push_diag (es @ (case c of Some m \<Rightarrow> [m] | None \<Rightarrow> [])) (ns_diagnostics ns)\<rparr>)
        }"
        using assms by (cases "overflow_check n t (expr_loc e)")
          (auto simp: check_term_for_constant_overflow_def e x split: option.splits)
    qed
  qed
qed

lemma check_step_mono: "error_count s \<le> error_count (snd (check_step e s))"
proof (cases s)
  case (Some ns)
  show ?thesis
  proof (cases "checked_term e")
    case True
    then show ?thesis
      by (cases rule: check_term_cases [of e ns])
        (auto simp: check_step_def error_count_def Some split: option.splits bind_split)
  qed (simp add: check_step_def check_term_for_constant_overflow_def Some)
qed (simp add: check_step_def)

lemma check_step_go:
  assumes "error_count (snd (check_step e s)) = enat m"
  shows "fst (check_step e s) = walks_on e"
proof (cases s)
  case None
  then show ?thesis using assms by (simp add: check_step_def error_count_def)
next
  case (Some ns)
  show ?thesis
  proof (cases "checked_term e")
    case True
    then show ?thesis
    proof (cases rule: check_term_cases [of e ns])
      case (folded t n es)
      then show ?thesis using assms
        by (cases "overflow_check n t (expr_loc e)") (auto simp: check_step_def Some error_count_def)
    qed (simp add: check_step_def Some)
  qed (simp add: check_step_def check_term_for_constant_overflow_def Some walks_on_def)
qed

text \<open>The values of a type that the overflow check accepts; those of the field include its order.\<close>

definition in_range :: "sty \<Rightarrow> int \<Rightarrow> bool" where
  "in_range t n \<longleftrightarrow> 0 \<le> n \<and> (\<forall>b. t = TUint b \<longrightarrow> n < 2 ^ b) \<and> (t = TField \<longrightarrow> n \<le> FIELD_ORDER)"

lemma overflow_check_cases:
  assumes "overflow_check n t l = Some r"
  shows "r = None \<and> in_range t n \<or> (\<exists>m. r = Some m \<and> is_error m)"
proof (cases "\<exists>b. t = TUint b")
  case True
  then show ?thesis using assms by (auto simp: overflow_check_uint in_range_def is_error_diag split: if_splits)
next
  case False
  then show ?thesis using assms
    by (auto simp: overflow_check_def in_range_def is_error_diag to_u64_def bind_eq_Some_conv split: sty.splits if_splits)
qed

lemma check_step_quiet:
  assumes "error_count s = enat m" "error_count (snd (check_step e s)) = enat m"
    and "literal_term e" "term_type e = Some t"
  shows "\<exists>n. (\<forall>k ns. eval_const_number k ns e = ev_return (expr_loc e, n)) \<and> in_range t n"
proof -
  obtain ns where s: "s = Some ns" using assms(1) by (cases s) (auto simp: error_count_def)
  have "checked_term e" using assms(4) by (simp add: checked_term_type)
  then show ?thesis
  proof (cases rule: check_term_cases [of e ns])
    case (kept go es)
    then show ?thesis using assms s by (simp add: check_step_def error_count_def)
  next
    case (folded t' n es)
    show ?thesis
    proof (cases "overflow_check n t (expr_loc e)")
      case None
      then show ?thesis using folded assms s by (auto simp: check_step_def error_count_def)
    next
      case (Some r)
      then show ?thesis using folded assms s overflow_check_cases [OF Some]
        by (auto simp: check_step_def error_count_def)
    qed
  qed
qed


definition u32_term :: "arith \<Rightarrow> int \<Rightarrow> int \<Rightarrow> expr" where
  "u32_term a m n = EArith a Implicit (TUint 32) (number m) (number n)"

definition assignment :: expr where
  "assignment = EAssign Implicit TVoid (EVariable Implicit (TUint 32) 0)
     (EArith Add Implicit (TUint 32) (EVariable Implicit (TUint 32) 1) (u32_term ShiftLeft 3 5))"


text \<open>
  The walk does not look into the arguments of a call to another contract: an argument whose value does
  not fit its type is reported in a call of the same contract only.
\<close>

theorem call_arguments_unchecked:
  "check_expression (EExternalFunctionCall Implicit [] f [u32_term ShiftLeft 1 40] None None None) ns = Some ns \<and>
   (\<exists>ns'. check_expression (EFunctionCall Implicit [] (EFunction Implicit TVoid 0 None) [u32_term ShiftLeft 1 40]) two_constants = Some ns' \<and>
     errors (ns_diagnostics ns') \<noteq> [])"
proof
  show "check_expression (EExternalFunctionCall Implicit [] f [u32_term ShiftLeft 1 40] None None None) ns = Some ns"
    by (simp add: check_expression_def check_step_def check_term_for_constant_overflow_def checked_term_def)
  let ?r = "check_expression (EFunctionCall Implicit [] (EFunction Implicit TVoid 0 None) [u32_term ShiftLeft 1 40]) two_constants"
  have "(case ?r of None \<Rightarrow> False | Some ns \<Rightarrow> errors (ns_diagnostics ns) \<noteq> [])"
    by (simp add: check_expression_def check_step_def check_term_for_constant_overflow_def checked_term_def
        descend_def u32_term_def number_def fold_arith_def Let_def overflow_check_uint push_bit_eq_mult)
  then show "\<exists>ns'. ?r = Some ns' \<and> errors (ns_diagnostics ns') \<noteq> []" by (auto split: option.splits)
qed

end
