(* ===== verification/Sema_Symtable.thy ===== *)
theory Sema_Symtable
  imports Sema_AST "HOL-Library.AList"
begin

section \<open>The symbol table of a function\<close>

text \<open>
  Model of \<open>src/sema/symtable.rs\<close>: the variables of a function with their scopes, and the stack of
  loops with their numbers of \<open>break\<close> and \<open>continue\<close>; the types of the data are in \<open>Sema_AST\<close>.
  \<open>AList.update\<close> replaces in place or appends, like the \<open>insert\<close> of an \<open>IndexMap\<close>.
\<close>

fun find_scope :: "(string \<rightharpoonup> nat) list \<Rightarrow> string \<Rightarrow> nat option" where
  "find_scope [] n = None"
| "find_scope (s # ss) n = (case s n of Some k \<Rightarrow> Some k | None \<Rightarrow> find_scope ss n)"

text \<open>The code returns the result of \<open>vars.get\<close> for the first scope that has the name.\<close>

definition st_find :: "symtable \<Rightarrow> string \<Rightarrow> variable option" where
  "st_find st n = (case find_scope (names st) n of Some k \<Rightarrow> map_of (vars st) k | None \<Rightarrow> None)"

record decl =
  dc_id :: ident
  dc_ty :: sty
  dc_initializer :: variable_initializer
  dc_usage :: variable_usage
  dc_location :: "storage_location option"

definition new_variable :: "decl \<Rightarrow> nat \<Rightarrow> variable" where
  "new_variable c pos = \<lparr>var_id = dc_id c, var_ty = dc_ty c, var_pos = pos, var_slice = False,
     var_initializer = dc_initializer c, var_assigned = False, var_usage = dc_usage c, var_read = False,
     var_location = dc_location c\<rparr>"

definition declare_error :: "decl \<Rightarrow> variable \<Rightarrow> diagnostic" where
  "declare_error c prev = diag_error_with_note (id_loc (dc_id c)) (AlreadyDeclared (id_name (dc_id c)))
     (id_loc (var_id prev)) PreviousDeclaration"

text \<open>\<open>last_mut().unwrap()\<close> panics when there is no scope.\<close>

definition bind_name :: "string \<Rightarrow> nat \<Rightarrow> symtable \<Rightarrow> symtable option" where
  "bind_name n pos st =
    (if names st = [] then None
     else Some (st\<lparr>names := butlast (names st) @ [(last (names st))(n \<mapsto> pos)]\<rparr>))"

definition st_add :: "decl \<Rightarrow> symtable \<Rightarrow> namespace \<Rightarrow> (nat option \<times> symtable \<times> namespace) option" where
  "st_add c st ns =
    (let pos = ns_next_id ns;
         ns = ns\<lparr>ns_next_id := ns_next_id ns + 1\<rparr>;
         st = st\<lparr>vars := AList.update pos (new_variable c pos) (vars st)\<rparr>;
         n = id_name (dc_id c)
     in if n \<noteq> [] then
          (case st_find st n of
             Some prev \<Rightarrow> Some (None, st, ns\<lparr>ns_diagnostics := push_diag (declare_error c prev) (ns_diagnostics ns)\<rparr>)
           | None \<Rightarrow> do { st \<leftarrow> bind_name n pos st; Some (Some pos, st, ns) })
        else Some (Some pos, st, ns))"

definition exclusive_error :: "decl \<Rightarrow> variable \<Rightarrow> diagnostic" where
  "exclusive_error c prev = diag_of Error DeclarationError (id_loc (dc_id c)) (AlreadyUsed (id_name (dc_id c)))
     [(id_loc (var_id prev), FoundPrevious)]"

definition exclusive_add :: "decl \<Rightarrow> symtable \<Rightarrow> namespace \<Rightarrow> (nat option \<times> symtable \<times> namespace) option" where
  "exclusive_add c st ns = (case st_find st (id_name (dc_id c)) of
      Some prev \<Rightarrow> Some (None, st, ns\<lparr>ns_diagnostics := push_diag (exclusive_error c prev) (ns_diagnostics ns)\<rparr>)
    | None \<Rightarrow> st_add c st ns)"

definition new_scope :: "symtable \<Rightarrow> symtable" where
  "new_scope st = st\<lparr>names := names st @ [\<lambda>_. None]\<rparr>"

definition leave_scope :: "symtable \<Rightarrow> symtable" where
  "leave_scope st = st\<lparr>names := butlast (names st)\<rparr>"

definition get_name :: "symtable \<Rightarrow> nat \<Rightarrow> string option" where
  "get_name st pos = map_option (\<lambda>v. id_name (var_id v)) (map_of (vars st) pos)"

subsection \<open>Loops\<close>

record loop_scope =
  no_breaks :: nat
  no_continues :: nat

text \<open>The stack of loops; its last element, the innermost loop, comes first here.\<close>

definition loop_new_scope :: "loop_scope list \<Rightarrow> loop_scope list" where
  "loop_new_scope ls = \<lparr>no_breaks = 0, no_continues = 0\<rparr> # ls"

definition loop_leave_scope :: "loop_scope list \<Rightarrow> (loop_scope \<times> loop_scope list) option" where
  "loop_leave_scope ls = (case ls of l # ls \<Rightarrow> Some (l, ls) | [] \<Rightarrow> None)"

definition do_break :: "loop_scope list \<Rightarrow> bool \<times> loop_scope list" where
  "do_break ls = (case ls of
      l # ls \<Rightarrow> (True, l\<lparr>no_breaks := no_breaks l + 1\<rparr> # ls)
    | [] \<Rightarrow> (False, []))"

definition do_continue :: "loop_scope list \<Rightarrow> bool \<times> loop_scope list" where
  "do_continue ls = (case ls of
      l # ls \<Rightarrow> (True, l\<lparr>no_continues := no_continues l + 1\<rparr> # ls)
    | [] \<Rightarrow> (False, []))"

subsection \<open>The invariant of the table\<close>

definition scope_names_unique :: "(string \<rightharpoonup> nat) list \<Rightarrow> bool" where
  "scope_names_unique ss \<longleftrightarrow> (\<forall>i j n. i < j \<longrightarrow> j < length ss \<longrightarrow> n \<in> dom (ss ! i) \<longrightarrow> n \<notin> dom (ss ! j))"

text \<open>
  Names are unique over all scopes (there is no shadowing), stand for variables of that name, and the
  positions of the variables are below the counter of the namespace.
\<close>

definition names_ok :: "(nat \<times> variable) list \<Rightarrow> (string \<rightharpoonup> nat) \<Rightarrow> bool" where
  "names_ok vs s \<longleftrightarrow> (\<forall>n k. s n = Some k \<longrightarrow> n \<noteq> [] \<and> (\<exists>v. map_of vs k = Some v \<and> id_name (var_id v) = n))"

definition symtable_ok :: "symtable \<Rightarrow> nat \<Rightarrow> bool" where
  "symtable_ok st b \<longleftrightarrow> names st \<noteq> [] \<and> scope_names_unique (names st) \<and> (\<forall>s\<in>set (names st). names_ok (vars st) s) \<and>
     (\<forall>k v. map_of (vars st) k = Some v \<longrightarrow> k < b \<and> var_pos v = k)"

lemma find_scope_Some: "find_scope ss n = Some k \<Longrightarrow> \<exists>s\<in>set ss. s n = Some k"
  by (induction ss) (auto split: option.splits)

lemma find_scope_None: "find_scope ss n = None \<longleftrightarrow> (\<forall>s\<in>set ss. s n = None)"
  by (induction ss) (auto split: option.splits)

lemma find_scope_append: "find_scope (ss @ ts) n = (case find_scope ss n of Some k \<Rightarrow> Some k | None \<Rightarrow> find_scope ts n)"
  by (induction ss) (auto split: option.splits)

lemma symtable_new_ok: "symtable_ok symtable_new b"
  by (simp add: symtable_ok_def symtable_new_def scope_names_unique_def names_ok_def)

lemma unique_snoc:
  "scope_names_unique (ss @ [s]) \<longleftrightarrow> scope_names_unique ss \<and> (\<forall>n\<in>dom s. find_scope ss n = None)"
  unfolding scope_names_unique_def find_scope_None
  by (auto simp: nth_append less_Suc_eq set_conv_nth) (metis domIff not_None_eq option.exhaust)+

lemma ok_name:
  assumes "symtable_ok st b" "find_scope (names st) n = Some k"
  shows "n \<noteq> [] \<and> (\<exists>v. map_of (vars st) k = Some v \<and> id_name (var_id v) = n)"
proof -
  obtain s where "s \<in> set (names st)" "s n = Some k" using find_scope_Some [OF assms(2)] by blast
  then show ?thesis using assms(1) unfolding symtable_ok_def names_ok_def by blast
qed

lemma st_find_None: "symtable_ok st b \<Longrightarrow> st_find st n = None \<longleftrightarrow> find_scope (names st) n = None"
  using ok_name [of st b n] by (auto simp: st_find_def split: option.splits)

lemma st_find_name: "symtable_ok st b \<Longrightarrow> st_find st n = Some v \<Longrightarrow> id_name (var_id v) = n \<and> n \<noteq> []"
  using ok_name [of st b n] by (auto simp: st_find_def split: option.splits)

lemma ok_fresh: "symtable_ok st b \<Longrightarrow> b \<le> k \<Longrightarrow> map_of (vars st) k = None"
  unfolding symtable_ok_def by (metis not_less option.exhaust)

subsection \<open>Adding a variable\<close>

lemma scope_names_unique_update:
  assumes "scope_names_unique ss" "ss \<noteq> []" "find_scope ss n = None"
  shows "scope_names_unique (butlast ss @ [(last ss)(n \<mapsto> pos)])"
proof -
  have "scope_names_unique (butlast ss @ [last ss])" "find_scope (butlast ss @ [last ss]) n = None"
    using assms by simp_all
  then show ?thesis unfolding unique_snoc by (auto simp: find_scope_append split: option.splits)
qed

lemma find_scope_update:
  assumes "ss \<noteq> []" "find_scope ss n = None"
  shows "find_scope (butlast ss @ [(last ss)(n \<mapsto> pos)]) m = (if m = n then Some pos else find_scope ss m)"
proof -
  have "find_scope (butlast ss @ [last ss]) m = find_scope ss m" "find_scope (butlast ss) n = None"
    using assms find_scope_append [of "butlast ss" "[last ss]"] by (auto split: option.splits)
  then show ?thesis by (auto simp: find_scope_append split: option.splits)
qed

text \<open>The table after the new variable is entered, before its name is bound.\<close>

definition entered :: "decl \<Rightarrow> symtable \<Rightarrow> namespace \<Rightarrow> symtable" where
  "entered c st ns = st\<lparr>vars := AList.update (ns_next_id ns) (new_variable c (ns_next_id ns)) (vars st)\<rparr>"

lemma entered_simps [simp]:
  "names (entered c st ns) = names st"
  "map_of (vars (entered c st ns)) = (map_of (vars st))(ns_next_id ns \<mapsto> new_variable c (ns_next_id ns))"
  by (simp_all add: entered_def update_conv')

lemma new_variable_simps [simp]: "var_pos (new_variable c k) = k" "var_id (new_variable c k) = dc_id c"
  by (simp_all add: new_variable_def)

lemma names_ok_update: "names_ok vs s \<Longrightarrow> map_of vs k = None \<Longrightarrow> map_of ws = (map_of vs)(k \<mapsto> v) \<Longrightarrow> names_ok ws s"
  unfolding names_ok_def by (metis fun_upd_apply option.distinct(1))

lemma entered_ok: "symtable_ok st (ns_next_id ns) \<Longrightarrow> symtable_ok (entered c st ns) (Suc (ns_next_id ns))"
  using ok_fresh [of st "ns_next_id ns" "ns_next_id ns"]
  by (auto simp: symtable_ok_def less_Suc_eq intro: names_ok_update)

lemma find_entered:
  assumes "symtable_ok st (ns_next_id ns)"
  shows "st_find (entered c st ns) n = st_find st n"
  using ok_name [OF assms, of n] ok_fresh [OF assms order_refl] by (auto simp: st_find_def split: option.splits)

lemma bind_name_ok:
  assumes ok: "symtable_ok st b" and n: "find_scope (names st) n = None" "n \<noteq> []"
    and v: "map_of (vars st) pos = Some v" "id_name (var_id v) = n"
  shows "\<exists>st'. bind_name n pos st = Some st' \<and> symtable_ok st' b \<and> vars st' = vars st \<and>
    butlast (names st') = butlast (names st) \<and> last (names st') = (last (names st))(n \<mapsto> pos) \<and>
    (\<forall>m. st_find st' m = (if m = n then Some v else st_find st m))"
proof -
  let ?ss = "butlast (names st) @ [(last (names st))(n \<mapsto> pos)]"
  have ne: "names st \<noteq> []" using ok by (simp add: symtable_ok_def)
  have "names_ok (vars st) (last (names st))" "\<forall>s\<in>set (butlast (names st)). names_ok (vars st) s"
    using ok ne by (auto simp: symtable_ok_def dest: in_set_butlastD)
  then have "\<forall>s\<in>set ?ss. names_ok (vars st) s" using n v by (auto simp: names_ok_def)
  then have "symtable_ok (st\<lparr>names := ?ss\<rparr>) b"
    using ok ne n scope_names_unique_update [of "names st" n pos] by (simp add: symtable_ok_def)
  then show ?thesis using ne n v
    by (auto simp: bind_name_def st_find_def find_scope_update split: option.splits)
qed

text \<open>What \<open>add\<close> does, with the three outcomes of the code.\<close>

definition declares :: "decl \<Rightarrow> symtable \<Rightarrow> namespace \<Rightarrow> nat option \<Rightarrow> symtable \<Rightarrow> namespace \<Rightarrow> bool" where
  "declares c st ns r st' ns' \<longleftrightarrow>
    (let n = id_name (dc_id c); pos = ns_next_id ns; v = new_variable c pos in
      ns_next_id ns' = Suc pos \<and>
      map_of (vars st') = (map_of (vars st))(pos \<mapsto> v) \<and>
      butlast (names st') = butlast (names st) \<and>
      (if n = [] then r = Some pos \<and> names st' = names st \<and> st_find st' = st_find st \<and> ns_diagnostics ns' = ns_diagnostics ns
       else case st_find st n of
         Some prev \<Rightarrow> r = None \<and> names st' = names st \<and> st_find st' = st_find st \<and>
           ns_diagnostics ns' = push_diag (declare_error c prev) (ns_diagnostics ns)
       | None \<Rightarrow> r = Some pos \<and> last (names st') = (last (names st))(n \<mapsto> pos) \<and>
           st_find st' = (st_find st)(n \<mapsto> v) \<and> ns_diagnostics ns' = ns_diagnostics ns))"

lemma st_add_declares:
  assumes ok: "symtable_ok st (ns_next_id ns)"
  shows "\<exists>r st' ns'. st_add c st ns = Some (r, st', ns') \<and> declares c st ns r st' ns' \<and> symtable_ok st' (ns_next_id ns')"
proof -
  let ?n = "id_name (dc_id c)" and ?pos = "ns_next_id ns" and ?e = "entered c st ns"
  have find: "st_find ?e = st_find st" using find_entered [OF ok] by auto
  show ?thesis
  proof (cases "?n = [] \<or> st_find st ?n \<noteq> None")
    case True
    then show ?thesis using entered_ok [OF ok, of c] find
      by (auto simp: st_add_def declares_def Let_def entered_def [symmetric])
  next
    case False
    then have "find_scope (names ?e) ?n = None" using st_find_None [OF ok] by simp
    with bind_name_ok [OF entered_ok [OF ok], of c ?n ?pos] False obtain st' where
      "bind_name ?n ?pos ?e = Some st'" "symtable_ok st' (Suc ?pos)" "vars st' = vars ?e"
      "butlast (names st') = butlast (names st)" "last (names st') = (last (names st))(?n \<mapsto> ?pos)"
      "\<forall>m. st_find st' m = (if m = ?n then Some (new_variable c ?pos) else st_find st m)"
      using find by auto
    then show ?thesis using False find
      by (auto simp: st_add_def declares_def Let_def entered_def [symmetric] fun_eq_iff)
  qed
qed

text \<open>
  C26: on a well-formed table \<open>add\<close> does not panic and keeps the table well-formed; a name that is
  visible in any scope is rejected with an error at the new declaration and changes no lookup, a new name
  is found from then on as the new variable, and all other lookups stay the same.
\<close>

theorem st_add_correct:
  assumes "symtable_ok st (ns_next_id ns)"
  shows "\<exists>r st' ns'. st_add c st ns = Some (r, st', ns') \<and> declares c st ns r st' ns' \<and>
    symtable_ok st' (ns_next_id ns') \<and> (r = None \<longleftrightarrow> id_name (dc_id c) \<noteq> [] \<and> st_find st (id_name (dc_id c)) \<noteq> None)"
  using st_add_declares [OF assms, of c]
  by (fastforce simp: declares_def Let_def split: if_splits option.splits)

subsection \<open>Blocks\<close>

text \<open>The calls that the resolver makes between entering and leaving a block.\<close>

datatype table_op = AddVar decl | ExclusiveAddVar decl | EnterScope | LeaveScope

fun run_op :: "table_op \<Rightarrow> symtable \<times> namespace \<Rightarrow> (symtable \<times> namespace) option" where
  "run_op (AddVar c) (st, ns) = map_option snd (st_add c st ns)"
| "run_op (ExclusiveAddVar c) (st, ns) = map_option snd (exclusive_add c st ns)"
| "run_op EnterScope (st, ns) = Some (new_scope st, ns)"
| "run_op LeaveScope (st, ns) = Some (leave_scope st, ns)"

fun run_ops :: "table_op list \<Rightarrow> symtable \<times> namespace \<Rightarrow> (symtable \<times> namespace) option" where
  "run_ops [] s = Some s"
| "run_ops (x # xs) s = do { s \<leftarrow> run_op x s; run_ops xs s }"

inductive balanced :: "table_op list \<Rightarrow> bool" where
  balanced_nil: "balanced []"
| balanced_add: "balanced xs \<Longrightarrow> balanced (AddVar c # xs)"
| balanced_exclusive: "balanced xs \<Longrightarrow> balanced (ExclusiveAddVar c # xs)"
| balanced_block: "balanced bs \<Longrightarrow> balanced xs \<Longrightarrow> balanced (EnterScope # bs @ LeaveScope # xs)"

lemma run_ops_append: "run_ops (xs @ ys) s = do { s \<leftarrow> run_ops xs s; run_ops ys s }"
  by (induction xs arbitrary: s) (auto split: bind_splits)

text \<open>The second table extends the first one by names of the innermost scope.\<close>

definition table_extends :: "symtable \<Rightarrow> symtable \<Rightarrow> bool" where
  "table_extends st st' \<longleftrightarrow> butlast (names st') = butlast (names st) \<and> last (names st) \<subseteq>\<^sub>m last (names st') \<and>
     map_of (vars st) \<subseteq>\<^sub>m map_of (vars st')"

lemma table_extends_refl: "table_extends st st"
  by (simp add: table_extends_def)

lemma table_extends_trans: "table_extends st st' \<Longrightarrow> table_extends st' st'' \<Longrightarrow> table_extends st st''"
  by (auto simp: table_extends_def intro: map_le_trans)

lemma declares_extends:
  assumes ok: "symtable_ok st (ns_next_id ns)" and d: "declares c st ns r st' ns'"
  shows "table_extends st st'"
proof -
  have "map_of (vars st) \<subseteq>\<^sub>m map_of (vars st')"
    using d ok_fresh [OF ok order_refl] by (auto simp: declares_def Let_def map_le_def)
  moreover have "last (names st) \<subseteq>\<^sub>m last (names st')"
  proof (cases "id_name (dc_id c) = [] \<or> st_find st (id_name (dc_id c)) \<noteq> None")
    case False
    have "names st \<noteq> []" using ok by (simp add: symtable_ok_def)
    then have "last (names st) (id_name (dc_id c)) = None"
      using False st_find_None [OF ok] by (auto simp: find_scope_None)
    then show ?thesis using d False by (auto simp: declares_def Let_def map_le_def)
  qed (use d in \<open>auto simp: declares_def Let_def split: option.splits if_splits\<close>)
  ultimately show ?thesis using d by (simp add: table_extends_def declares_def Let_def)
qed

lemma exclusive_add_ok:
  assumes ok: "symtable_ok st (ns_next_id ns)"
  shows "\<exists>r st' ns'. exclusive_add c st ns = Some (r, st', ns') \<and> symtable_ok st' (ns_next_id ns') \<and> table_extends st st'"
proof (cases "st_find st (id_name (dc_id c))")
  case None
  then show ?thesis using st_add_declares [OF ok, of c] declares_extends [OF ok]
    by (fastforce simp: exclusive_add_def)
qed (use ok table_extends_refl in \<open>auto simp: exclusive_add_def\<close>)

lemma new_scope_ok: "symtable_ok st b \<Longrightarrow> symtable_ok (new_scope st) b"
  by (simp add: symtable_ok_def new_scope_def unique_snoc names_ok_def)

lemma leave_scope_ok:
  assumes ok: "symtable_ok st b" and e: "table_extends (new_scope st) st'" and ok': "symtable_ok st' b'"
  shows "names (leave_scope st') = names st \<and> st_find (leave_scope st') = st_find st \<and>
    symtable_ok (leave_scope st') b' \<and> table_extends st (leave_scope st')"
proof -
  have names: "butlast (names st') = names st" and vars: "map_of (vars st) \<subseteq>\<^sub>m map_of (vars st')"
    using e by (simp_all add: table_extends_def new_scope_def)
  have "st_find (leave_scope st') n = st_find st n" for n
  proof (cases "find_scope (names st) n")
    case (Some k)
    then obtain v where "map_of (vars st) k = Some v" using ok_name [OF ok] by blast
    moreover from this have "map_of (vars st') k = Some v" using vars by (auto simp: map_le_def dom_def)
    ultimately show ?thesis using Some names by (simp add: st_find_def leave_scope_def)
  qed (simp add: st_find_def leave_scope_def names)
  moreover have "symtable_ok (leave_scope st') b'"
    using ok ok' by (auto simp: symtable_ok_def leave_scope_def names [symmetric] dest: in_set_butlastD)
  ultimately show ?thesis using names vars by (auto simp: leave_scope_def table_extends_def)
qed

lemma balanced_run:
  assumes "balanced xs" "symtable_ok st (ns_next_id ns)"
  shows "\<exists>st' ns'. run_ops xs (st, ns) = Some (st', ns') \<and> symtable_ok st' (ns_next_id ns') \<and> table_extends st st'"
  using assms
proof (induction arbitrary: st ns rule: balanced.induct)
  case balanced_nil
  then show ?case by (simp add: table_extends_refl)
next
  case (balanced_add xs c)
  obtain r st1 ns1 where a: "st_add c st ns = Some (r, st1, ns1)" "declares c st ns r st1 ns1"
    "symtable_ok st1 (ns_next_id ns1)" using st_add_declares [OF balanced_add.prems] by blast
  show ?case using balanced_add.IH [OF a(3)] a(1) declares_extends [OF balanced_add.prems a(2)]
    by (auto intro: table_extends_trans)
next
  case (balanced_exclusive xs c)
  obtain r st1 ns1 where a: "exclusive_add c st ns = Some (r, st1, ns1)"
    "symtable_ok st1 (ns_next_id ns1)" "table_extends st st1" using exclusive_add_ok [OF balanced_exclusive.prems] by blast
  show ?case using balanced_exclusive.IH [OF a(2)] a(1,3) by (auto intro: table_extends_trans)
next
  case (balanced_block bs xs)
  obtain st1 ns1 where a: "run_ops bs (new_scope st, ns) = Some (st1, ns1)"
    "symtable_ok st1 (ns_next_id ns1)" "table_extends (new_scope st) st1"
    using balanced_block.IH(1) [OF new_scope_ok [OF balanced_block.prems]] by blast
  note l = leave_scope_ok [OF balanced_block.prems a(3,2)]
  show ?case using balanced_block.IH(2) [of "leave_scope st1" ns1] l a(1)
    by (auto simp: run_ops_append intro: table_extends_trans)
qed

text \<open>
  C25: entering a block, any balanced sequence of declarations and blocks inside it, and leaving the block
  does not panic, restores the scopes and every lookup of a name, and keeps the table well-formed.
\<close>

theorem block_restores_names:
  assumes "symtable_ok st (ns_next_id ns)" "balanced xs"
  shows "\<exists>st' ns'. run_ops (EnterScope # xs @ [LeaveScope]) (st, ns) = Some (st', ns') \<and>
    names st' = names st \<and> st_find st' = st_find st \<and> symtable_ok st' (ns_next_id ns')"
proof -
  obtain st1 ns1 where a: "run_ops xs (new_scope st, ns) = Some (st1, ns1)"
    "symtable_ok st1 (ns_next_id ns1)" "table_extends (new_scope st) st1"
    using balanced_run [OF assms(2) new_scope_ok [OF assms(1)]] by blast
  then show ?thesis using leave_scope_ok [OF assms(1) a(3,2)] by (auto simp: run_ops_append)
qed

lemma find_new: "st_find symtable_new n = None"
  by (simp add: st_find_def symtable_new_def)

definition empty_namespace :: namespace where
  "empty_namespace = \<lparr>ns_enums = [], ns_structs = [], ns_contracts = [], ns_user_types = [], ns_functions = [], ns_constants = [],
     ns_diagnostics = no_diagnostics, ns_function_symbols = (\<lambda>_. None), ns_variable_symbols = (\<lambda>_. None),
     ns_next_id = 0, ns_called_lib_functions = []\<rparr>"

definition local_variable :: "string \<Rightarrow> decl" where
  "local_variable n = \<lparr>dc_id = \<lparr>id_loc = Implicit, id_name = n\<rparr>, dc_ty = TUint 32, dc_initializer = Ola None,
     dc_usage = LocalVariable, dc_location = None\<rparr>"

theorem block_restores_names_witness:
  "\<exists>st' ns'. run_ops [EnterScope, AddVar (local_variable ''x''), EnterScope, ExclusiveAddVar (local_variable ''x''),
      LeaveScope, LeaveScope] (symtable_new, empty_namespace) = Some (st', ns') \<and> st_find st' ''x'' = None"
proof -
  have "balanced [AddVar (local_variable ''x''), EnterScope, ExclusiveAddVar (local_variable ''x''), LeaveScope]"
    using balanced_add [OF balanced_block [OF balanced_exclusive [OF balanced_nil] balanced_nil]] by simp
  from block_restores_names [OF symtable_new_ok this, of empty_namespace]
  show ?thesis by (auto simp: st_find_def symtable_new_def)
qed

theorem st_add_correct_witness:
  "\<exists>st' ns'. st_add (local_variable ''x'') symtable_new empty_namespace = Some (Some 0, st', ns') \<and>
     st_find st' ''x'' = Some (new_variable (local_variable ''x'') 0)"
  using st_add_correct [OF symtable_new_ok, of "local_variable ''x''" empty_namespace]
  by (auto simp: declares_def Let_def local_variable_def find_new empty_namespace_def split: option.splits if_splits)

subsection \<open>Counting the jumps of a loop\<close>

datatype loop_op = EnterLoop | LeaveLoop | Break | Continue

fun run_loop_op :: "loop_op \<Rightarrow> loop_scope list \<Rightarrow> loop_scope list option" where
  "run_loop_op EnterLoop ls = Some (loop_new_scope ls)"
| "run_loop_op LeaveLoop ls = map_option snd (loop_leave_scope ls)"
| "run_loop_op Break ls = Some (snd (do_break ls))"
| "run_loop_op Continue ls = Some (snd (do_continue ls))"

fun run_loop_ops :: "loop_op list \<Rightarrow> loop_scope list \<Rightarrow> loop_scope list option" where
  "run_loop_ops [] ls = Some ls"
| "run_loop_ops (x # xs) ls = do { ls \<leftarrow> run_loop_op x ls; run_loop_ops xs ls }"

text \<open>
  The body of a loop: nested loops are complete, \<open>b\<close> and \<open>c\<close> count the \<open>break\<close> and
  \<open>continue\<close> that belong to the loop itself.
\<close>

inductive loop_body :: "loop_op list \<Rightarrow> nat \<Rightarrow> nat \<Rightarrow> bool" where
  body_nil: "loop_body [] 0 0"
| body_break: "loop_body xs b c \<Longrightarrow> loop_body (Break # xs) (Suc b) c"
| body_continue: "loop_body xs b c \<Longrightarrow> loop_body (Continue # xs) b (Suc c)"
| body_loop: "loop_body ys b' c' \<Longrightarrow> loop_body xs b c \<Longrightarrow> loop_body (EnterLoop # ys @ LeaveLoop # xs) b c"

lemma run_loop_ops_append: "run_loop_ops (xs @ ys) s = do { s \<leftarrow> run_loop_ops xs s; run_loop_ops ys s }"
  by (induction xs arbitrary: s) (auto split: bind_splits)

lemma loop_body_run:
  "loop_body xs b c \<Longrightarrow>
    run_loop_ops xs (l # ls) = Some (\<lparr>no_breaks = no_breaks l + b, no_continues = no_continues l + c\<rparr> # ls)"
  by (induction arbitrary: l ls rule: loop_body.induct)
    (simp_all add: do_break_def do_continue_def loop_new_scope_def loop_leave_scope_def run_loop_ops_append)

text \<open>
  When a loop is left, the popped scope holds exactly the numbers of \<open>break\<close> and
  \<open>continue\<close> that belong to this loop, the scopes of the outer loops are as before, and outside of
  all loops both are rejected.
\<close>

theorem loop_scope_counts:
  assumes "loop_body xs b c"
  shows "(\<exists>s. run_loop_ops (EnterLoop # xs) ls = Some s \<and>
      loop_leave_scope s = Some (\<lparr>no_breaks = b, no_continues = c\<rparr>, ls)) \<and>
    fst (do_break ls) = (ls \<noteq> []) \<and> fst (do_continue ls) = (ls \<noteq> [])"
  using loop_body_run [OF assms]
  by (simp add: loop_new_scope_def loop_leave_scope_def do_break_def do_continue_def split: list.splits)

theorem loop_scope_counts_witness:
  "\<exists>s. run_loop_ops [EnterLoop, Break, EnterLoop, Continue, LeaveLoop, Break] [] = Some s \<and>
     loop_leave_scope s = Some (\<lparr>no_breaks = 2, no_continues = 0\<rparr>, [])"
proof -
  have "loop_body [Break, EnterLoop, Continue, LeaveLoop, Break] 2 0"
    using body_break [OF body_loop [OF body_continue [OF body_nil] body_break [OF body_nil]]]
    by (simp add: numeral_2_eq_2)
  from loop_scope_counts [OF this, of "[]"] show ?thesis by (rule conjunct1)
qed

end
