(* ===== verification/Sema_Names.thy ===== *)
theory Sema_Names
  imports Sema_Eval Sema_Types Sema_Symtable
begin

section \<open>Names of a namespace\<close>

text \<open>
  Model of the name tables of \<open>src/sema/namespace.rs\<close> and of the list of reserved names in
  \<open>src/sema/corelib.rs\<close>: adding a symbol, looking names up, and resolving a type that the parser
  gives as an expression.  The resolver of general expressions, which gives the length of an array, is a
  parameter.
\<close>

subsection \<open>Library functions\<close>

record prototype =
  pt_libfunc :: lib_func
  pt_namespace :: "string option"
  pt_name :: string
  pt_params :: "sty list"
  pt_ret :: "sty list"

definition proto :: "lib_func \<Rightarrow> string option \<Rightarrow> string \<Rightarrow> sty list \<Rightarrow> sty list \<Rightarrow> prototype" where
  "proto f ns n ps rs = \<lparr>pt_libfunc = f, pt_namespace = ns, pt_name = n, pt_params = ps, pt_ret = rs\<rparr>"

definition LIB_FUNCTIONS :: "prototype list" where
  "LIB_FUNCTIONS = [
     proto U32Sqrt None ''u32_sqrt'' [TUint 32] [TUint 32],
     proto ArraySort None ''u32_array_sort'' [TArray (TUint 32) [Dynamic]] [TArray (TUint 32) [Dynamic]],
     proto Assert None ''assert'' [TBool] [TVoid],
     proto Assert None ''assert'' [TBool, TString] [TVoid],
     proto Print None ''print'' [TUnresolved] [],
     proto PoseidonHash None ''poseidon_hash'' [TDynamicBytes] [THash],
     proto AbiEncode (Some ''abi'') ''encode'' [] [],
     proto FieldsConcat None ''fields_concat'' [TDynamicBytes, TDynamicBytes] [TDynamicBytes],
     proto AbiDecode (Some ''abi'') ''decode'' [TDynamicBytes] [],
     proto AbiEncodeWithSignature (Some ''abi'') ''encodeWithSignature'' [TString] [],
     proto BlockNumber None ''block_number'' [] [TUint 32],
     proto BlockTimestamp None ''block_timestamp'' [] [TUint 32],
     proto SequenceAddress None ''sequence_address'' [] [TAddress],
     proto TransactionVersion None ''tx_version'' [] [TUint 32],
     proto ChainId None ''chain_id'' [] [TUint 32],
     proto CallerAddress None ''caller_address'' [] [TAddress],
     proto Nonce None ''nonce'' [] [TUint 32],
     proto SignatureLength None ''signature_length'' [] [TUint 32],
     proto Signature None ''signature'' [] [TDynamicBytes],
     proto TransactionHash None ''tx_hash'' [] [THash],
     proto OriginAddress None ''origin_address'' [] [TAddress],
     proto CodeAddress None ''code_address'' [] [TAddress],
     proto CurrentAddress None ''current_address'' [] [TAddress],
     proto GetSelector None ''get_selector'' [TString] [TUint 32],
     proto CheckECDSA None ''check_ecdsa'' [THash, TDynamicBytes, TDynamicBytes] [TBool]]"

definition is_lib_func_call :: "string option \<Rightarrow> string \<Rightarrow> bool" where
  "is_lib_func_call ns n = list_ex (\<lambda>p. pt_name p = n \<and> pt_namespace p = ns) LIB_FUNCTIONS"

text \<open>The table of library variables is empty.\<close>

definition is_reserved :: "string \<Rightarrow> bool" where
  "is_reserved n =
    (if n = ''type'' \<or> n = ''super'' then True
     else list_ex (\<lambda>p. (pt_name p = n \<and> pt_namespace p = None) \<or> pt_namespace p = Some n) LIB_FUNCTIONS)"

subsection \<open>Adding a symbol\<close>

type_synonym key = "nat \<times> nat option \<times> string"

text \<open>How a symbol is named in a message, with its location; a function has no single location.\<close>

definition symbol_kind :: "symbol \<Rightarrow> (string \<times> loc) option" where
  "symbol_kind s = (case s of
      SymContract l _ \<Rightarrow> Some (''a contract name'', l)
    | SymEnum l _ \<Rightarrow> Some (''an enum'', l)
    | SymStruct l _ \<Rightarrow> Some (''a struct'', l)
    | SymVariable l _ _ \<Rightarrow> Some (''a contract variable'', l)
    | SymImport l _ \<Rightarrow> Some (''an import'', l)
    | SymUserType l _ \<Rightarrow> Some (''an user type'', l)
    | SymFunction _ \<Rightarrow> None)"

definition definition_notes :: "(loc \<times> nat) list \<Rightarrow> message \<Rightarrow> (loc \<times> message) list" where
  "definition_notes v m = map (\<lambda>(pos, _). (pos, m)) v"

definition report :: "diagnostic \<Rightarrow> namespace \<Rightarrow> namespace" where
  "report x ns = ns\<lparr>ns_diagnostics := push_diag x (ns_diagnostics ns)\<rparr>"

text \<open>The warnings about symbols of the file that a symbol of a contract has the name of.\<close>

definition warn_outer :: "nat \<Rightarrow> ident \<Rightarrow> namespace \<Rightarrow> namespace option" where
  "warn_outer file x ns =
    (let n = id_name x;
         ns = (case ns_function_symbols ns (file, None, n) of
             Some (SymFunction v) \<Rightarrow> report (diag_warning_with_notes (id_loc x) (AlreadyDefined n ''a function'')
               (definition_notes v PreviousDefinition)) ns
           | _ \<Rightarrow> ns)
     in case ns_variable_symbols ns (file, None, n) of
          None \<Rightarrow> Some ns
        | Some s \<Rightarrow> do {
            (kind, l) \<leftarrow> symbol_kind s;
            Some (report (diag_warning_with_notes (id_loc x) (AlreadyDefined n kind) [(l, PreviousDefinition)]) ns) })"

definition enter_symbol :: "key \<Rightarrow> symbol \<Rightarrow> namespace \<Rightarrow> namespace" where
  "enter_symbol k s ns = (case s of
      SymFunction _ \<Rightarrow> ns\<lparr>ns_function_symbols := (ns_function_symbols ns)(k \<mapsto> s)\<rparr>
    | _ \<Rightarrow> ns\<lparr>ns_variable_symbols := (ns_variable_symbols ns)(k \<mapsto> s)\<rparr>)"

definition add_symbol :: "nat \<Rightarrow> nat option \<Rightarrow> ident \<Rightarrow> symbol \<Rightarrow> namespace \<Rightarrow> (bool \<times> namespace) option" where
  "add_symbol file c x s ns =
    (let n = id_name x; k = (file, c, n) in
     if is_reserved n then Some (False, report (diag_error (id_loc x) (ShadowsBuiltin n)) ns)
     else (case ns_function_symbols ns k of
         Some (SymFunction v) \<Rightarrow> Some (False, report (diag_error_with_notes (id_loc x) (AlreadyDefined n ''a function'')
           (definition_notes v PreviousDefinition)) ns)
       | _ \<Rightarrow> (case ns_variable_symbols ns k of
           Some prev \<Rightarrow> do {
             (kind, l) \<leftarrow> symbol_kind prev;
             Some (False, report (diag_error_with_note (id_loc x) (AlreadyDefined n kind) l PreviousDefinition) ns) }
         | None \<Rightarrow> do {
             ns \<leftarrow> (if c \<noteq> None then warn_outer file x ns else Some ns);
             Some (True, enter_symbol k s ns) })))"

subsection \<open>Looking up\<close>

definition resolve_enum :: "namespace \<Rightarrow> nat \<Rightarrow> nat option \<Rightarrow> ident \<Rightarrow> nat option" where
  "resolve_enum ns file c x = (case ns_variable_symbols ns (file, c, id_name x) of
      Some (SymEnum _ n) \<Rightarrow> Some n
    | _ \<Rightarrow> if c \<noteq> None then (case ns_variable_symbols ns (file, None, id_name x) of
          Some (SymEnum _ n) \<Rightarrow> Some n | _ \<Rightarrow> None)
        else None)"

definition resolve_contract :: "namespace \<Rightarrow> nat \<Rightarrow> ident \<Rightarrow> nat option" where
  "resolve_contract ns file x = (case ns_variable_symbols ns (file, None, id_name x) of
      Some (SymContract _ n) \<Rightarrow> Some n | _ \<Rightarrow> None)"

definition wrong_symbol :: "symbol option \<Rightarrow> ident \<Rightarrow> diagnostic" where
  "wrong_symbol s x = diag_decl_error (id_loc x) (case s of
      None \<Rightarrow> NotFound (id_name x)
    | Some (SymEnum _ _) \<Rightarrow> IsA (id_name x) ''an enum''
    | Some (SymStruct _ _) \<Rightarrow> IsA (id_name x) ''a struct''
    | Some (SymFunction _) \<Rightarrow> IsA (id_name x) ''a function''
    | Some (SymContract _ _) \<Rightarrow> IsA (id_name x) ''a contract''
    | Some (SymImport _ _) \<Rightarrow> IsA (id_name x) ''an import''
    | Some (SymUserType _ _) \<Rightarrow> IsA (id_name x) ''an user type''
    | Some (SymVariable _ _ _) \<Rightarrow> IsA (id_name x) ''a contract variable'')"

definition or_else :: "'a option \<Rightarrow> 'a option \<Rightarrow> 'a option" where
  "or_else a b = (case a of Some x \<Rightarrow> Some x | None \<Rightarrow> b)"

definition resolve_var :: "namespace \<Rightarrow> nat \<Rightarrow> nat option \<Rightarrow> ident \<Rightarrow> bool \<Rightarrow> symbol option" where
  "resolve_var ns file c x function_first =
    (let n = id_name x;
         func = or_else (ns_function_symbols ns (file, c, n)) (ns_function_symbols ns (file, None, n));
         var = or_else (ns_variable_symbols ns (file, c, n)) (ns_variable_symbols ns (file, None, n))
     in if function_first then or_else func var else or_else var func)"

text \<open>What is shadowed, how its earlier place is called, and the notes of the warning.\<close>

definition shadowed :: "symbol \<Rightarrow> string \<times> (loc \<times> message) list" where
  "shadowed s = (case s of
      SymEnum l _ \<Rightarrow> (''enum definition'', [(l, PreviousOf ''definition of enum'')])
    | SymStruct l _ \<Rightarrow> (''struct definition'', [(l, PreviousOf ''definition of struct'')])
    | SymFunction v \<Rightarrow> (''function'', definition_notes v (PreviousOf ''declaration of function''))
    | SymVariable l _ _ \<Rightarrow> (''state variable'', [(l, PreviousOf ''declaration of state variable'')])
    | SymContract l _ \<Rightarrow> (''contract name'', [(l, PreviousOf ''declaration of contract name'')])
    | SymUserType l _ \<Rightarrow> (''type'', [(l, PreviousOf ''declaration of type'')])
    | SymImport l _ \<Rightarrow> (''import'', [(l, PreviousOf ''declaration of import'')]))"

definition check_shadowing :: "nat \<Rightarrow> nat option \<Rightarrow> ident \<Rightarrow> namespace \<Rightarrow> namespace" where
  "check_shadowing file c x ns =
    (let n = id_name x in
     if is_reserved n then report (diag_warning (id_loc x) (ShadowsCorelib n)) ns
     else (case or_else (ns_variable_symbols ns (file, c, n)) (or_else (ns_function_symbols ns (file, c, n))
         (or_else (ns_variable_symbols ns (file, None, n)) (ns_function_symbols ns (file, None, n)))) of
       Some s \<Rightarrow> report (diag_warning_with_notes (id_loc x) (Shadows n (fst (shadowed s))) (snd (shadowed s))) ns
     | None \<Rightarrow> ns))"

subsection \<open>Correctness of the tables\<close>

definition is_function :: "symbol \<Rightarrow> bool" where
  "is_function s = (case s of SymFunction _ \<Rightarrow> True | _ \<Rightarrow> False)"

definition symbols_ok :: "namespace \<Rightarrow> bool" where
  "symbols_ok ns \<longleftrightarrow> (\<forall>k s. ns_function_symbols ns k = Some s \<longrightarrow> is_function s) \<and>
     (\<forall>k s. ns_variable_symbols ns k = Some s \<longrightarrow> \<not> is_function s \<and> ns_function_symbols ns k = None)"

definition same_tables :: "namespace \<Rightarrow> namespace \<Rightarrow> bool" where
  "same_tables ns ns' \<longleftrightarrow> ns_function_symbols ns' = ns_function_symbols ns \<and> ns_variable_symbols ns' = ns_variable_symbols ns"

lemma is_function_iff: "is_function s \<longleftrightarrow> (\<exists>v. s = SymFunction v)"
  by (cases s) (simp_all add: is_function_def)

lemma symbols_ok_function: "symbols_ok ns \<Longrightarrow> ns_function_symbols ns k = Some s \<Longrightarrow> \<exists>v. s = SymFunction v"
  unfolding symbols_ok_def is_function_iff by blast

lemma symbols_ok_variable:
  "symbols_ok ns \<Longrightarrow> ns_variable_symbols ns k = Some s \<Longrightarrow> \<not> is_function s \<and> ns_function_symbols ns k = None"
  unfolding symbols_ok_def by blast

lemma symbols_ok_kind: "symbols_ok ns \<Longrightarrow> ns_variable_symbols ns k = Some s \<Longrightarrow> \<exists>kind l. symbol_kind s = Some (kind, l)"
  using symbols_ok_variable [of ns k s] by (cases s) (auto simp: is_function_def symbol_kind_def)

lemma enter_symbol_function [simp]:
  "ns_function_symbols (enter_symbol k s ns) = (if is_function s then (ns_function_symbols ns)(k \<mapsto> s) else ns_function_symbols ns)"
  "ns_variable_symbols (enter_symbol k s ns) = (if is_function s then ns_variable_symbols ns else (ns_variable_symbols ns)(k \<mapsto> s))"
  "ns_diagnostics (enter_symbol k s ns) = ns_diagnostics ns"
  by (cases s; simp add: enter_symbol_def is_function_def)+

lemma symbols_ok_enter:
  assumes "symbols_ok ns" "ns_function_symbols ns k = None" "ns_variable_symbols ns k = None" "same_tables (enter_symbol k s ns) ns'"
  shows "symbols_ok ns'"
  using assms unfolding symbols_ok_def same_tables_def by (auto simp del: split_paired_All)

lemma symbols_ok_same: "symbols_ok ns \<Longrightarrow> same_tables ns ns' \<Longrightarrow> symbols_ok ns'"
  unfolding symbols_ok_def same_tables_def by simp

lemma report_simps [simp]:
  "ns_function_symbols (report x ns) = ns_function_symbols ns" "ns_variable_symbols (report x ns) = ns_variable_symbols ns"
  "ns_diagnostics (report x ns) = push_diag x (ns_diagnostics ns)"
  by (simp_all add: report_def)

lemma errors_report [simp]: "errors (push_diag x d) = errors d @ (if is_error x then [x] else [])"
  by (simp add: errors_def)

lemma warn_outer_tables:
  assumes "symbols_ok ns"
  shows "\<exists>ns'. warn_outer file x ns = Some ns' \<and> same_tables ns ns' \<and> errors (ns_diagnostics ns') = errors (ns_diagnostics ns)"
proof -
  let ?k = "(file, None, id_name x)"
  consider "ns_variable_symbols ns ?k = None" "ns_function_symbols ns ?k = None"
    | v where "ns_variable_symbols ns ?k = None" "ns_function_symbols ns ?k = Some (SymFunction v)"
    | s kind l where "ns_variable_symbols ns ?k = Some s" "symbol_kind s = Some (kind, l)" "ns_function_symbols ns ?k = None"
    using symbols_ok_function [OF assms, of ?k] symbols_ok_variable [OF assms, of ?k] symbols_ok_kind [OF assms, of ?k]
    by (cases "ns_variable_symbols ns ?k"; cases "ns_function_symbols ns ?k") auto
  then show ?thesis
    by cases (auto simp: warn_outer_def Let_def same_tables_def is_error_def diag_defs)
qed

definition declared :: "namespace \<Rightarrow> key \<Rightarrow> bool" where
  "declared ns k \<longleftrightarrow> ns_function_symbols ns k \<noteq> None \<or> ns_variable_symbols ns k \<noteq> None"

text \<open>
  C31: adding a symbol to well-formed tables never panics and keeps them well-formed.  It is refused, with
  one error and no change of the tables, exactly when the name is reserved or already declared in the same
  scope; otherwise the symbol is entered, no error is reported, and it is what the name resolves to.
\<close>

theorem add_symbol_correct:
  assumes ok: "symbols_ok ns"
  shows "\<exists>r ns'. add_symbol file c x s ns = Some (r, ns') \<and> symbols_ok ns' \<and>
    (r \<longleftrightarrow> \<not> is_reserved (id_name x) \<and> \<not> declared ns (file, c, id_name x)) \<and>
    (r \<longrightarrow> same_tables (enter_symbol (file, c, id_name x) s ns) ns' \<and> errors (ns_diagnostics ns') = errors (ns_diagnostics ns) \<and>
       resolve_var ns' file c x (is_function s) = Some s) \<and>
    (\<not> r \<longrightarrow> same_tables ns ns' \<and> (\<exists>e. errors (ns_diagnostics ns') = errors (ns_diagnostics ns) @ [e]))"
proof -
  let ?k = "(file, c, id_name x)"
  consider "is_reserved (id_name x)" | v where "\<not> is_reserved (id_name x)" "ns_function_symbols ns ?k = Some (SymFunction v)"
    | t where "\<not> is_reserved (id_name x)" "ns_function_symbols ns ?k = None" "ns_variable_symbols ns ?k = Some t"
    | "\<not> is_reserved (id_name x)" "ns_function_symbols ns ?k = None" "ns_variable_symbols ns ?k = None"
    using symbols_ok_function [OF ok, of ?k] by (cases "ns_function_symbols ns ?k"; cases "ns_variable_symbols ns ?k") auto
  then show ?thesis
  proof cases
    case 3
    then obtain kind l where "symbol_kind t = Some (kind, l)" using symbols_ok_kind [OF ok] by blast
    then show ?thesis using 3 symbols_ok_same [OF ok]
      by (auto simp: add_symbol_def Let_def declared_def same_tables_def is_error_def diag_defs)
  next
    case 4
    have "\<exists>ns1. (if c \<noteq> None then warn_outer file x ns else Some ns) = Some ns1 \<and> same_tables ns ns1 \<and>
        errors (ns_diagnostics ns1) = errors (ns_diagnostics ns)"
      using warn_outer_tables [OF ok] by (auto simp: same_tables_def)
    then obtain ns1 where ns1: "(if c \<noteq> None then warn_outer file x ns else Some ns) = Some ns1" "same_tables ns ns1"
      "errors (ns_diagnostics ns1) = errors (ns_diagnostics ns)" by blast
    have t: "same_tables (enter_symbol ?k s ns) (enter_symbol ?k s ns1)" using ns1(2) by (simp add: same_tables_def)
    have "symbols_ok (enter_symbol ?k s ns1)" using symbols_ok_enter [OF ok 4(2,3) t] .
    then show ?thesis using 4 ns1
      by (auto simp: add_symbol_def Let_def declared_def same_tables_def resolve_var_def or_else_def)
  qed (use symbols_ok_same [OF ok] in \<open>auto simp: add_symbol_def Let_def declared_def same_tables_def is_error_def diag_defs\<close>)
qed

theorem add_symbol_correct_witness:
  "\<exists>ns'. add_symbol 0 None \<lparr>id_loc = Implicit, id_name = ''Token''\<rparr> (SymContract Implicit 0) empty_namespace = Some (True, ns') \<and>
     resolve_contract ns' 0 \<lparr>id_loc = Implicit, id_name = ''Token''\<rparr> = Some 0"
proof -
  have "symbols_ok empty_namespace" by (simp add: symbols_ok_def empty_namespace_def)
  from add_symbol_correct [OF this, of 0 None "\<lparr>id_loc = Implicit, id_name = ''Token''\<rparr>" "SymContract Implicit 0"]
  show ?thesis
    by (auto simp: declared_def empty_namespace_def is_reserved_def LIB_FUNCTIONS_def proto_def same_tables_def
        resolve_contract_def enter_symbol_def)
qed

end
