(* ===== verification/Sema_Usage.thy ===== *)
theory Sema_Usage
  imports Sema_Symtable Sema_Types
begin

section \<open>The use of variables\<close>

text \<open>
  Model of \<open>src/sema/unused_variable.rs\<close>.  While expressions are resolved, the variables they read
  and assign are marked, the local ones in the symbol table and the others in the namespace; afterwards the
  marks decide about warnings.  Marking follows the shape of the expression; operators are not followed,
  as their operands are marked when they are resolved.  A variable that does not exist panics.
\<close>

type_synonym usage_state = "namespace \<times> symtable"

subsection \<open>Setting a mark\<close>

definition mark_storage :: "(svariable \<Rightarrow> svariable) \<Rightarrow> nat \<Rightarrow> nat \<Rightarrow> usage_state \<Rightarrow> usage_state option" where
  "mark_storage g c v s = do {
     k \<leftarrow> at (ns_contracts (fst s)) c;
     x \<leftarrow> at (c_variables k) v;
     Some ((fst s)\<lparr>ns_contracts := (ns_contracts (fst s))[c := k\<lparr>c_variables := (c_variables k)[v := g x]\<rparr>]\<rparr>, snd s) }"

definition mark_constant :: "(svariable \<Rightarrow> svariable) \<Rightarrow> nat \<Rightarrow> usage_state \<Rightarrow> usage_state option" where
  "mark_constant g v s = do {
     x \<leftarrow> at (ns_constants (fst s)) v;
     Some ((fst s)\<lparr>ns_constants := (ns_constants (fst s))[v := g x]\<rparr>, snd s) }"

definition mark_local :: "(variable \<Rightarrow> variable) \<Rightarrow> nat \<Rightarrow> usage_state \<Rightarrow> usage_state option" where
  "mark_local g n s = do {
     x \<leftarrow> map_of (vars (snd s)) n;
     Some (fst s, (snd s)\<lparr>vars := AList.update n (g x) (vars (snd s))\<rparr>) }"

abbreviation "storage_assigned \<equiv> mark_storage (\<lambda>x. x\<lparr>v_assigned := True\<rparr>)"
abbreviation "storage_read \<equiv> mark_storage (\<lambda>x. x\<lparr>v_read := True\<rparr>)"
abbreviation "local_assigned \<equiv> mark_local (\<lambda>x. x\<lparr>var_assigned := True\<rparr>)"
abbreviation "local_read \<equiv> mark_local (\<lambda>x. x\<lparr>var_read := True\<rparr>)"

subsection \<open>Following an expression\<close>

text \<open>The operands that the casts and loads have, by the function that follows them.\<close>

lemma fold_opt_cong [fundef_cong]:
  "xs = ys \<Longrightarrow> s = t \<Longrightarrow> (\<And>x s. x \<in> set ys \<Longrightarrow> f x s = g x s) \<Longrightarrow> fold_opt f xs s = fold_opt g ys t"
proof (induction ys arbitrary: xs s t)
  case (Cons y ys)
  have "fold_opt f ys = fold_opt g ys" using Cons.IH [OF refl refl Cons.prems(3)] by (intro ext) simp
  then show ?case using Cons.prems by simp
qed simp

fun is_internal_call :: "expr \<Rightarrow> bool" where
  "is_internal_call (EFunctionCall _ _ _ _) = True"
| "is_internal_call e = False"

lemma size_in_list: "x \<in> set xs \<Longrightarrow> size x \<le> size_list size xs"
  by (rule size_list_estimation' [OF _ order_refl])

function assigned_variable :: "expr \<Rightarrow> usage_state \<Rightarrow> usage_state option"
  and subscript_variable :: "expr \<Rightarrow> usage_state \<Rightarrow> usage_state option"
  and used_variable :: "expr \<Rightarrow> usage_state \<Rightarrow> usage_state option"
  and check_function_call :: "expr \<Rightarrow> usage_state \<Rightarrow> usage_state option" where
  "assigned_variable e s = (case e of
      EStorageVariable _ _ c v \<Rightarrow> storage_assigned c v s
    | EVariable _ _ n \<Rightarrow> local_assigned n s
    | EStructMember _ _ x _ \<Rightarrow> assigned_variable x s
    | ESubscript _ _ _ a i \<Rightarrow> do {
        t \<leftarrow> expr_ty a;
        s \<leftarrow> (if is_contract_storage t then subscript_variable a s else assigned_variable a s);
        used_variable i s }
    | EUnary u _ _ x \<Rightarrow> if u \<in> {StorageLoad, Load, Trunc, Cast} then assigned_variable x s else Some s
    | _ \<Rightarrow> Some s)"
| "subscript_variable e s = (case e of
      EStorageVariable _ _ c v \<Rightarrow> storage_assigned c v s
    | EVariable _ _ n \<Rightarrow> local_read n s
    | EStructMember _ _ x _ \<Rightarrow> subscript_variable x s
    | ESubscript _ _ _ a i \<Rightarrow> do { s \<leftarrow> subscript_variable a s; subscript_variable i s }
    | EFunctionCall _ _ _ _ \<Rightarrow> check_function_call e s
    | EExternalFunctionCall _ _ _ _ _ _ _ \<Rightarrow> check_function_call e s
    | _ \<Rightarrow> Some s)"
| "used_variable e s = (case e of
      EStorageVariable _ _ c v \<Rightarrow> storage_read c v s
    | EVariable _ _ n \<Rightarrow> local_read n s
    | EConstantVariable _ _ (Some c) v \<Rightarrow> storage_read c v s
    | EConstantVariable _ _ None v \<Rightarrow> mark_constant (\<lambda>x. x\<lparr>v_read := True\<rparr>) v s
    | EStructMember _ _ x _ \<Rightarrow> used_variable x s
    | ESubscript _ _ _ a i \<Rightarrow> do { s \<leftarrow> used_variable a s; used_variable i s }
    | EArraySlice _ _ _ a from to \<Rightarrow> do {
        s \<leftarrow> used_variable a s;
        s \<leftarrow> (case from of Some x \<Rightarrow> used_variable x s | None \<Rightarrow> Some s);
        (case to of Some x \<Rightarrow> used_variable x s | None \<Rightarrow> Some s) }
    | ELibFunction _ _ f args \<Rightarrow>
        if f = ArrayLength then (case args of [] \<Rightarrow> None | a # _ \<Rightarrow> do { s \<leftarrow> assigned_variable a s; used_variable a s })
        else if f = ArrayPush \<or> f = ArrayPop then
          (case args of [] \<Rightarrow> None | a # _ \<Rightarrow> do { s \<leftarrow> used_variable a s; assigned_variable a s })
        else Some s
    | EStorageArrayLength _ _ a _ \<Rightarrow> do { s \<leftarrow> assigned_variable a s; used_variable a s }
    | EUnary u _ _ x \<Rightarrow> if u \<in> {StorageLoad, Load, ZeroExt, Trunc, Cast} then used_variable x s else Some s
    | EFunctionCall _ _ _ _ \<Rightarrow> check_function_call e s
    | _ \<Rightarrow> Some s)"
| "check_function_call e s = (case e of
      EUnary u _ _ _ \<Rightarrow> if u \<in> {Load, StorageLoad} then used_variable e s else Some s
    | EVariable _ _ _ \<Rightarrow> used_variable e s
    | EFunctionCall _ _ f args \<Rightarrow> do { s \<leftarrow> fold_opt (\<lambda>a s. used_variable a s) args s; check_function_call f s }
    | EExternalFunctionCall _ _ f args _ gas val \<Rightarrow> do {
        s \<leftarrow> fold_opt (\<lambda>a s. used_variable a s) args s;
        s \<leftarrow> (case gas of Some x \<Rightarrow> used_variable x s | None \<Rightarrow> Some s);
        s \<leftarrow> (case val of Some x \<Rightarrow> used_variable x s | None \<Rightarrow> Some s);
        check_function_call f s }
    | EExternalFunctionCallRaw _ _ addr args _ gas val \<Rightarrow> do {
        s \<leftarrow> used_variable args s;
        s \<leftarrow> used_variable addr s;
        s \<leftarrow> (case gas of Some x \<Rightarrow> used_variable x s | None \<Rightarrow> Some s);
        (case val of Some x \<Rightarrow> used_variable x s | None \<Rightarrow> Some s) }
    | ELibFunction _ _ f args \<Rightarrow>
        if f = ArrayPush then (case args of
            [] \<Rightarrow> None
          | [a] \<Rightarrow> assigned_variable a s
          | a # b # _ \<Rightarrow> do { s \<leftarrow> assigned_variable a s; used_variable b s })
        else fold_opt (\<lambda>a s. used_variable a s) args s
    | EExternalFunction _ _ addr _ \<Rightarrow> used_variable addr s
    | _ \<Rightarrow> Some s)"
  by pat_completeness auto
termination
  by (relation "measure (\<lambda>x. case x of
      Inl (Inl (e, s)) \<Rightarrow> 3 * size e | Inl (Inr (e, s)) \<Rightarrow> 3 * size e + 2
    | Inr (Inl (e, s)) \<Rightarrow> 3 * size e + (if is_internal_call e then 1 else 0)
    | Inr (Inr (e, s)) \<Rightarrow> 3 * size e + (if is_internal_call e then 0 else 1))")
    (auto dest!: size_in_list)

definition check_var_usage_expression :: "expr \<Rightarrow> expr \<Rightarrow> usage_state \<Rightarrow> usage_state option" where
  "check_var_usage_expression x y s = do { s \<leftarrow> used_variable x s; used_variable y s }"

subsection \<open>Warnings\<close>

definition emit_warning_local_variable :: "namespace \<Rightarrow> nat \<Rightarrow> variable \<Rightarrow> diagnostic option option" where
  "emit_warning_local_variable ns k v =
    (let l = id_loc (var_id v); n = AStr (id_name (var_id v)) in
     case var_usage v of
       Parameter \<Rightarrow>
         if var_read v then Some None
         else do {
           r \<leftarrow> is_reference_type ns k (var_ty v);
           Some (if \<not> r \<or> (\<not> var_assigned v \<and> r)
             then Some (diag_warning l (Format ''function parameter {} is unused'' [n])) else None) }
     | ReturnVariable \<Rightarrow>
         Some (if \<not> var_assigned v then
             (if is_contract_storage (var_ty v)
              then Some (diag_error l (Format ''storage reference {} must be assigned a value'' [n]))
              else Some (diag_warning l (Format ''return variable {} has never been assigned'' [n])))
           else None)
     | LocalVariable \<Rightarrow>
         (let assigned = has_initializer (var_initializer v) \<or> var_assigned v in
          Some (if \<not> var_assigned v \<and> \<not> var_read v then
              Some (diag_warning l (Format ''local variable {} is unused'' [n]))
            else if assigned \<and> \<not> var_read v \<and> \<not> is_reference v then
              Some (diag_warning l (Format ''local variable {} has been assigned, but never read'' [n]))
            else None))
     | DestructureVariable \<Rightarrow>
         Some (if \<not> var_read v then Some (diag_warning l (Format ''destructure variable {} has never been used'' [n])) else None)
     | AnonymousReturnVariable \<Rightarrow> Some None)"

definition emit_warning_contract_variables :: "svariable \<Rightarrow> diagnostic option" where
  "emit_warning_contract_variables v =
    (if v_assigned v \<and> \<not> v_read v then
       Some (diag_warning (v_loc v) (Format ''storage variable {} has been assigned, but never read'' [AStr (v_name v)]))
     else if \<not> v_assigned v \<and> \<not> v_read v then
       Some (diag_warning (v_loc v) (Format ''storage variable {} has never been used'' [AStr (v_name v)]))
     else None)"

definition emit_warning_constant :: "svariable \<Rightarrow> diagnostic option" where
  "emit_warning_constant v =
    (if \<not> v_read v then Some (diag_warning (v_loc v) (Format ''global constant {} has never been used'' [AStr (v_name v)]))
     else None)"

definition check_unused_namespace_variables :: "namespace \<Rightarrow> namespace" where
  "check_unused_namespace_variables ns =
    (let ws = List.map_filter emit_warning_contract_variables (concat (map c_variables (ns_contracts ns)))
           @ List.map_filter emit_warning_constant (ns_constants ns)
     in ns\<lparr>ns_diagnostics := fold push_diag ws (ns_diagnostics ns)\<rparr>)"

subsection \<open>What marking changes\<close>

definition svariable_marked :: "svariable \<Rightarrow> svariable \<Rightarrow> bool" where
  "svariable_marked x y \<longleftrightarrow> (v_assigned x \<longrightarrow> v_assigned y) \<and> (v_read x \<longrightarrow> v_read y) \<and>
     y = x\<lparr>v_assigned := v_assigned y, v_read := v_read y\<rparr>"

definition variable_marked :: "variable \<Rightarrow> variable \<Rightarrow> bool" where
  "variable_marked x y \<longleftrightarrow> (var_assigned x \<longrightarrow> var_assigned y) \<and> (var_read x \<longrightarrow> var_read y) \<and>
     y = x\<lparr>var_assigned := var_assigned y, var_read := var_read y\<rparr>"

definition contract_marked :: "contract \<Rightarrow> contract \<Rightarrow> bool" where
  "contract_marked k k' \<longleftrightarrow> list_all2 svariable_marked (c_variables k) (c_variables k') \<and>
     k' = k\<lparr>c_variables := c_variables k'\<rparr>"

definition local_marked :: "nat set \<Rightarrow> nat \<times> variable \<Rightarrow> nat \<times> variable \<Rightarrow> bool" where
  "local_marked A p q \<longleftrightarrow> fst q = fst p \<and> variable_marked (snd p) (snd q) \<and> (fst p \<notin> A \<longrightarrow> q = p)"

text \<open>Only marks are set, and among the local variables only on those with a number in \<open>A\<close>.\<close>

definition marks :: "nat set \<Rightarrow> usage_state \<Rightarrow> usage_state \<Rightarrow> bool" where
  "marks A s s' \<longleftrightarrow>
     list_all2 contract_marked (ns_contracts (fst s)) (ns_contracts (fst s')) \<and>
     list_all2 svariable_marked (ns_constants (fst s)) (ns_constants (fst s')) \<and>
     list_all2 (local_marked A) (vars (snd s)) (vars (snd s')) \<and>
     (fst s')\<lparr>ns_contracts := [], ns_constants := []\<rparr> = (fst s)\<lparr>ns_contracts := [], ns_constants := []\<rparr> \<and>
     (snd s')\<lparr>vars := []\<rparr> = (snd s)\<lparr>vars := []\<rparr>"

lemma svariable_marked_refl [simp]: "svariable_marked x x"
  by (simp add: svariable_marked_def)

lemma svariable_marked_trans: "svariable_marked x y \<Longrightarrow> svariable_marked y z \<Longrightarrow> svariable_marked x z"
  unfolding svariable_marked_def by (cases x; cases y; cases z) simp

lemma variable_marked_refl [simp]: "variable_marked x x"
  by (simp add: variable_marked_def)

lemma variable_marked_trans: "variable_marked x y \<Longrightarrow> variable_marked y z \<Longrightarrow> variable_marked x z"
  unfolding variable_marked_def by (cases x; cases y; cases z) simp

lemma contract_marked_refl [simp]: "contract_marked x x"
  by (simp add: contract_marked_def list_all2_refl)

lemma contract_marked_trans: "contract_marked x y \<Longrightarrow> contract_marked y z \<Longrightarrow> contract_marked x z"
  unfolding contract_marked_def
  by (cases x; cases y; cases z) (auto elim: list_all2_trans [rotated] intro: svariable_marked_trans)

lemma local_marked_refl [simp]: "local_marked A p p"
  by (simp add: local_marked_def)

lemma local_marked_trans: "local_marked A p q \<Longrightarrow> local_marked A q r \<Longrightarrow> local_marked A p r"
  unfolding local_marked_def by (auto intro: variable_marked_trans)

lemma marks_refl [simp]: "marks A s s"
  by (simp add: marks_def list_all2_refl)

lemma marksD:
  assumes "marks A s t"
  shows "list_all2 contract_marked (ns_contracts (fst s)) (ns_contracts (fst t))"
    "list_all2 svariable_marked (ns_constants (fst s)) (ns_constants (fst t))"
    "list_all2 (local_marked A) (vars (snd s)) (vars (snd t))"
    "(fst t)\<lparr>ns_contracts := [], ns_constants := []\<rparr> = (fst s)\<lparr>ns_contracts := [], ns_constants := []\<rparr>"
    "(snd t)\<lparr>vars := []\<rparr> = (snd s)\<lparr>vars := []\<rparr>"
  using assms by (simp_all add: marks_def)

lemma marks_trans:
  assumes "marks A s t" "marks A t u"
  shows "marks A s u"
proof -
  have "list_all2 contract_marked (ns_contracts (fst s)) (ns_contracts (fst u))"
    by (rule list_all2_trans [rotated, OF marksD(1) [OF assms(1)] marksD(1) [OF assms(2)]]) (rule contract_marked_trans)
  moreover have "list_all2 svariable_marked (ns_constants (fst s)) (ns_constants (fst u))"
    by (rule list_all2_trans [rotated, OF marksD(2) [OF assms(1)] marksD(2) [OF assms(2)]]) (rule svariable_marked_trans)
  moreover have "list_all2 (local_marked A) (vars (snd s)) (vars (snd u))"
    by (rule list_all2_trans [rotated, OF marksD(3) [OF assms(1)] marksD(3) [OF assms(2)]]) (rule local_marked_trans)
  ultimately show ?thesis using marksD(4,5) [OF assms(1)] marksD(4,5) [OF assms(2)] unfolding marks_def by simp
qed

lemma marks_mono: "marks A s t \<Longrightarrow> A \<subseteq> B \<Longrightarrow> marks B s t"
  unfolding marks_def local_marked_def by (auto elim!: list_all2_mono)

subsection \<open>The variables of an expression\<close>

text \<open>The direct subexpressions of an expression.\<close>

definition parts :: "expr \<Rightarrow> expr list" where
  "parts e = (case e of
      EStruct _ _ vs \<Rightarrow> vs
    | EArray _ _ _ vs \<Rightarrow> vs
    | EConstArray _ _ _ vs \<Rightarrow> vs
    | EArith _ _ _ x y \<Rightarrow> [x, y]
    | EUnary _ _ _ x \<Rightarrow> [x]
    | EBytesCast _ _ _ x \<Rightarrow> [x]
    | EAssign _ _ x y \<Rightarrow> [x, y]
    | ECompare _ _ x y \<Rightarrow> [x, y]
    | ENot _ x \<Rightarrow> [x]
    | EConditional _ _ c x y \<Rightarrow> [c, x, y]
    | ESubscript _ _ _ a i \<Rightarrow> [a, i]
    | EArraySlice _ _ _ a from to \<Rightarrow> a # option_operand from @ option_operand to
    | EStructMember _ _ x _ \<Rightarrow> [x]
    | EAllocDynamicBytes _ _ x _ \<Rightarrow> [x]
    | EStorageArrayLength _ _ a _ \<Rightarrow> [a]
    | EStringCompare _ x y \<Rightarrow> string_operand x @ string_operand y
    | EStringConcat _ _ x y \<Rightarrow> string_operand x @ string_operand y
    | EOr _ x y \<Rightarrow> [x, y]
    | EAnd _ x y \<Rightarrow> [x, y]
    | EExternalFunction _ _ x _ \<Rightarrow> [x]
    | EFunctionCall _ _ x args \<Rightarrow> x # args
    | EExternalFunctionCall _ _ x args _ gas val \<Rightarrow> x # args @ option_operand gas @ option_operand val
    | EExternalFunctionCallRaw _ _ addr args _ gas val \<Rightarrow> args # addr # option_operand gas @ option_operand val
    | ELibFunction _ _ _ xs \<Rightarrow> xs
    | EList _ xs \<Rightarrow> xs
    | _ \<Rightarrow> [])"

inductive occurs :: "expr \<Rightarrow> expr \<Rightarrow> bool" where
  occurs_self: "occurs e e"
| occurs_part: "y \<in> set (parts e) \<Longrightarrow> occurs x y \<Longrightarrow> occurs x e"

text \<open>The variable that an expression refers to exists, and the library functions that need an argument have one.\<close>

definition ref_ok :: "usage_state \<Rightarrow> expr \<Rightarrow> bool" where
  "ref_ok s e = (case e of
      EVariable _ _ n \<Rightarrow> n \<in> fst ` set (vars (snd s))
    | EStorageVariable _ _ c v \<Rightarrow> c < length (ns_contracts (fst s)) \<and> v < length (c_variables (ns_contracts (fst s) ! c))
    | EConstantVariable _ _ (Some c) v \<Rightarrow> c < length (ns_contracts (fst s)) \<and> v < length (c_variables (ns_contracts (fst s) ! c))
    | EConstantVariable _ _ None v \<Rightarrow> v < length (ns_constants (fst s))
    | ESubscript _ _ _ a _ \<Rightarrow> expr_ty a \<noteq> None
    | ELibFunction _ _ f args \<Rightarrow> f \<in> {ArrayLength, ArrayPush, ArrayPop} \<longrightarrow> args \<noteq> []
    | _ \<Rightarrow> True)"

definition refs_ok :: "usage_state \<Rightarrow> expr \<Rightarrow> bool" where
  "refs_ok s e \<longleftrightarrow> (\<forall>x. occurs x e \<longrightarrow> ref_ok s x)"

definition locals_of :: "expr \<Rightarrow> nat set" where
  "locals_of e = {n. \<exists>l t. occurs (EVariable l t n) e}"

lemma parts_size: "y \<in> set (parts e) \<Longrightarrow> size y < size e"
  using operand_size [of y e]
  by (cases e) (auto simp: parts_def less_Suc_eq_le trans_le_add1 trans_le_add2 dest!: size_in_list
      order_trans [OF size_in_list option_operand_size])

lemma refs_ok_part: "refs_ok s e \<Longrightarrow> y \<in> set (parts e) \<Longrightarrow> refs_ok s y"
  unfolding refs_ok_def by (blast intro: occurs_part)

lemma locals_of_part: "y \<in> set (parts e) \<Longrightarrow> locals_of y \<subseteq> locals_of e"
  unfolding locals_of_def by (blast intro: occurs_part)

lemma refs_ok_self: "refs_ok s e \<Longrightarrow> ref_ok s e"
  unfolding refs_ok_def by (blast intro: occurs_self)

lemma marks_keys: "marks A s t \<Longrightarrow> map fst (vars (snd t)) = map fst (vars (snd s))"
  by (drule marksD(3)) (auto simp: list_all2_conv_all_nth local_marked_def intro: nth_equalityI)

lemma marks_ref_ok:
  assumes "marks A s t"
  shows "ref_ok t e = ref_ok s e"
proof -
  have "fst ` set (vars (snd t)) = fst ` set (vars (snd s))"
    using marks_keys [OF assms] by (metis list.set_map)
  moreover have "length (ns_contracts (fst t)) = length (ns_contracts (fst s))"
    "length (ns_constants (fst t)) = length (ns_constants (fst s))"
    using marksD(1,2) [OF assms] by (simp_all add: list_all2_lengthD)
  moreover have "length (c_variables (ns_contracts (fst t) ! c)) = length (c_variables (ns_contracts (fst s) ! c))"
    if "c < length (ns_contracts (fst s))" for c
    using list_all2_nthD [OF marksD(1) [OF assms] that] by (auto simp: contract_marked_def dest: list_all2_lengthD)
  ultimately show ?thesis by (auto simp: ref_ok_def split: expr.splits option.splits)
qed

lemma marks_refs_ok: "marks A s t \<Longrightarrow> refs_ok t e = refs_ok s e"
  by (simp add: refs_ok_def marks_ref_ok)

text \<open>A step that returns, and marks no local variable outside \<open>A\<close>.\<close>

definition marked :: "nat set \<Rightarrow> usage_state \<Rightarrow> usage_state option \<Rightarrow> bool" where
  "marked A s r \<longleftrightarrow> (\<exists>s'. r = Some s' \<and> marks A s s')"

lemma marked_Some [simp]: "marked A s (Some s)"
  by (simp add: marked_def)

lemma marked_bind: "marked A s m \<Longrightarrow> (\<And>t. marks A s t \<Longrightarrow> marked A t (f t)) \<Longrightarrow> marked A s (m \<bind> f)"
  unfolding marked_def by (metis Option.bind.bind_lunit marks_trans)

lemma marked_fold:
  "(\<And>x t. x \<in> set xs \<Longrightarrow> marks A s t \<Longrightarrow> marked A t (g x t)) \<Longrightarrow> marked A s (fold_opt g xs s)"
proof (induction xs arbitrary: s)
  case (Cons x xs)
  show ?case unfolding fold_opt.simps
    by (rule marked_bind, use Cons.prems in simp)
      (rule Cons.IH, use Cons.prems marks_trans in \<open>auto simp: marked_def\<close>)
qed simp

lemma list_all2_update:
  "(\<And>x. R x x) \<Longrightarrow> k < length xs \<Longrightarrow> R (xs ! k) y \<Longrightarrow> list_all2 R xs (xs[k := y])"
  by (auto simp: list_all2_conv_all_nth nth_list_update)

lemma list_all2_AList_update:
  "(\<And>p. R p p) \<Longrightarrow> map_of xs k = Some x \<Longrightarrow> R (k, x) (k, y) \<Longrightarrow> list_all2 R xs (AList.update k y xs)"
  by (induction xs) (auto simp: list_all2_refl split: if_splits)

lemma mark_storage_marked:
  assumes "c < length (ns_contracts (fst s))" "v < length (c_variables (ns_contracts (fst s) ! c))" "\<And>x. svariable_marked x (g x)"
  shows "marked A s (mark_storage g c v s)"
  using assms unfolding marked_def mark_storage_def marks_def
  by (auto simp: at_def list_all2_refl contract_marked_def intro!: list_all2_update)

lemma mark_constant_marked:
  assumes "v < length (ns_constants (fst s))" "\<And>x. svariable_marked x (g x)"
  shows "marked A s (mark_constant g v s)"
  using assms unfolding marked_def mark_constant_def marks_def
  by (auto simp: at_def list_all2_refl intro!: list_all2_update)

lemma mark_local_marked:
  assumes "n \<in> fst ` set (vars (snd s))" "\<And>x. variable_marked x (g x)" "n \<in> A"
  shows "marked A s (mark_local g n s)"
proof -
  obtain x where "map_of (vars (snd s)) n = Some x" using assms(1) by (metis map_of_eq_None_iff option.exhaust)
  then show ?thesis using assms(2,3) unfolding marked_def mark_local_def marks_def
    by (auto simp: list_all2_refl local_marked_def intro!: list_all2_AList_update)
qed

lemma flag_marked [simp]:
  "svariable_marked x (x\<lparr>v_assigned := True\<rparr>)" "svariable_marked x (x\<lparr>v_read := True\<rparr>)"
  "variable_marked y (y\<lparr>var_assigned := True\<rparr>)" "variable_marked y (y\<lparr>var_read := True\<rparr>)"
  by (simp_all add: svariable_marked_def variable_marked_def)

definition usage_ok :: "nat set \<Rightarrow> usage_state \<Rightarrow> expr \<Rightarrow> bool" where
  "usage_ok A s e \<longleftrightarrow> refs_ok s e \<and> locals_of e \<subseteq> A"

lemma usage_ok_part: "usage_ok A s e \<Longrightarrow> y \<in> set (parts e) \<Longrightarrow> usage_ok A s y"
  unfolding usage_ok_def using refs_ok_part locals_of_part by blast

lemma usage_ok_marks: "usage_ok A s e \<Longrightarrow> marks A s t \<Longrightarrow> usage_ok A t e"
  unfolding usage_ok_def by (simp add: marks_refs_ok)

lemma usage_ok_local: "usage_ok A s (EVariable l t n) \<Longrightarrow> n \<in> A"
  unfolding usage_ok_def locals_of_def by (blast intro: occurs_self)

declare assigned_variable.simps [simp del] subscript_variable.simps [simp del] used_variable.simps [simp del]
  check_function_call.simps [simp del]

lemma marked_operand:
  "(\<And>y. x = Some y \<Longrightarrow> marked A s (f y s)) \<Longrightarrow> marked A s (case x of Some y \<Rightarrow> f y s | None \<Rightarrow> Some s)"
  by (cases x) simp_all

lemma usage_bind:
  "usage_ok A s e \<Longrightarrow> marked A s m \<Longrightarrow> (\<And>t. usage_ok A t e \<Longrightarrow> marked A t (f t)) \<Longrightarrow> marked A s (m \<bind> f)"
  by (rule marked_bind) (auto intro: usage_ok_marks)

lemma usage_fold:
  "usage_ok A s e \<Longrightarrow> (\<And>x t. x \<in> set xs \<Longrightarrow> usage_ok A t e \<Longrightarrow> marked A t (g x t)) \<Longrightarrow> marked A s (fold_opt g xs s)"
  by (rule marked_fold) (auto intro: usage_ok_marks)

lemma usage_marked:
  "usage_ok A s e \<Longrightarrow> marked A s (assigned_variable e s) \<and> marked A s (subscript_variable e s) \<and>
     marked A s (used_variable e s) \<and> marked A s (check_function_call e s)"
proof (induction e arbitrary: s rule: measure_induct_rule [of size])
  case (less e)
  have IH: "marked A t (assigned_variable y t)" "marked A t (subscript_variable y t)" "marked A t (used_variable y t)"
    "marked A t (check_function_call y t)" if "y \<in> set (parts e)" "usage_ok A t e" for t y
    using less.IH [OF parts_size [OF that(1)] usage_ok_part [OF that(2,1)]] by simp_all
  have ok: "ref_ok s e" "\<And>l t n. e = EVariable l t n \<Longrightarrow> n \<in> A"
    using less.prems refs_ok_self usage_ok_local by (auto simp: usage_ok_def)
  have rules: "\<And>m f. marked A s m \<Longrightarrow> (\<And>t. usage_ok A t e \<Longrightarrow> marked A t (f t)) \<Longrightarrow> marked A s (m \<bind> f)"
    "\<And>t m f. usage_ok A t e \<Longrightarrow> marked A t m \<Longrightarrow> (\<And>t. usage_ok A t e \<Longrightarrow> marked A t (f t)) \<Longrightarrow> marked A t (m \<bind> f)"
    "\<And>t xs g. usage_ok A t e \<Longrightarrow> (\<And>x t. x \<in> set xs \<Longrightarrow> usage_ok A t e \<Longrightarrow> marked A t (g x t)) \<Longrightarrow> marked A t (fold_opt g xs t)"
    using usage_bind [OF less.prems] usage_bind [of A _ e] usage_fold [of A _ e] by blast+
  note rules = rules less.prems IH marked_operand mark_storage_marked mark_constant_marked mark_local_marked flag_marked
  have a: "marked A s (assigned_variable e s)"
    by (subst assigned_variable.simps, split expr.split, intro conjI allI impI)
      (use ok in \<open>auto simp: parts_def ref_ok_def intro!: rules\<close>)
  have call: "marked A s (check_function_call e s)" if "is_internal_call e"
    using that by (subst check_function_call.simps, split expr.split, intro conjI allI impI)
      (use ok in \<open>auto simp: parts_def ref_ok_def intro!: rules\<close>)
  have u: "marked A s (used_variable e s)"
    by (subst used_variable.simps, split expr.split, intro conjI allI impI)
      (use ok call in \<open>auto simp: parts_def option_operand_def ref_ok_def intro!: rules split: option.split list.split\<close>)
  have c: "marked A s (check_function_call e s)"
    by (subst check_function_call.simps, split expr.split, intro conjI allI impI)
      (use ok u in \<open>auto simp: parts_def option_operand_def ref_ok_def intro!: rules split: option.split list.split\<close>)
  have "marked A s (subscript_variable e s)"
    by (subst subscript_variable.simps, split expr.split, intro conjI allI impI)
      (use ok c in \<open>auto simp: parts_def ref_ok_def intro!: rules\<close>)
  then show ?case using a u c by blast
qed

subsection \<open>The variables that are marked\<close>

text \<open>
  A variable by its number, with the number of the contract for the variables of a contract.  Its flags say
  whether it has been read and whether it has been assigned.
\<close>

datatype vref = LocalVar nat | StorageVar nat nat | ConstantVar nat

fun refers :: "expr \<Rightarrow> vref option" where
  "refers (EVariable _ _ n) = Some (LocalVar n)"
| "refers (EStorageVariable _ _ c v) = Some (StorageVar c v)"
| "refers (EConstantVariable _ _ (Some c) v) = Some (StorageVar c v)"
| "refers (EConstantVariable _ _ None v) = Some (ConstantVar v)"
| "refers _ = None"

fun var_flags :: "vref \<Rightarrow> usage_state \<Rightarrow> (bool \<times> bool) option" where
  "var_flags (LocalVar n) s = map_option (\<lambda>x. (var_read x, var_assigned x)) (map_of (vars (snd s)) n)"
| "var_flags (StorageVar c v) s = do { k \<leftarrow> at (ns_contracts (fst s)) c; x \<leftarrow> at (c_variables k) v; Some (v_read x, v_assigned x) }"
| "var_flags (ConstantVar v) s = map_option (\<lambda>x. (v_read x, v_assigned x)) (at (ns_constants (fst s)) v)"

definition is_read :: "vref \<Rightarrow> usage_state \<Rightarrow> bool" where
  "is_read r s \<longleftrightarrow> map_option fst (var_flags r s) = Some True"

definition is_assigned :: "vref \<Rightarrow> usage_state \<Rightarrow> bool" where
  "is_assigned r s \<longleftrightarrow> map_option snd (var_flags r s) = Some True"

definition vrefs_of :: "expr \<Rightarrow> vref set" where
  "vrefs_of e = {r. \<exists>x. occurs x e \<and> refers x = Some r}"

text \<open>Taking the length of an array counts as an assignment of it, and so do a push and a pop.\<close>

fun array_operand :: "expr \<Rightarrow> expr option" where
  "array_operand (EStorageArrayLength _ _ a _) = Some a"
| "array_operand (ELibFunction _ _ f (a # args)) = (if f \<in> {ArrayLength, ArrayPush, ArrayPop} then Some a else None)"
| "array_operand _ = None"

definition arrays_of :: "expr \<Rightarrow> vref set" where
  "arrays_of e = {r. \<exists>x a. occurs x e \<and> array_operand x = Some a \<and> r \<in> vrefs_of a}"

text \<open>The flags of \<open>R\<close> may become read and those of \<open>W\<close> assigned; no flag is cleared.\<close>

definition flag_rel :: "bool \<Rightarrow> bool \<Rightarrow> (bool \<times> bool) option \<Rightarrow> (bool \<times> bool) option \<Rightarrow> bool" where
  "flag_rel p q x y \<longleftrightarrow> (case (x, y) of
      (Some (a, b), Some (a', b')) \<Rightarrow> (a \<longrightarrow> a') \<and> (b \<longrightarrow> b') \<and> (a' \<longrightarrow> a \<or> p) \<and> (b' \<longrightarrow> b \<or> q)
    | _ \<Rightarrow> x = y)"

definition flag_step :: "vref set \<Rightarrow> vref set \<Rightarrow> usage_state \<Rightarrow> usage_state \<Rightarrow> bool" where
  "flag_step R W s t \<longleftrightarrow> (\<forall>r. flag_rel (r \<in> R) (r \<in> W) (var_flags r s) (var_flags r t))"

definition flagged :: "vref set \<Rightarrow> vref set \<Rightarrow> usage_state \<Rightarrow> usage_state option \<Rightarrow> bool" where
  "flagged R W s m \<longleftrightarrow> (\<forall>t. m = Some t \<longrightarrow> flag_step R W s t)"

lemma flag_rel_refl [simp]: "flag_rel p q x x"
  by (simp add: flag_rel_def split: option.split prod.split)

lemma flag_rel_trans: "flag_rel p q x y \<Longrightarrow> flag_rel p q y z \<Longrightarrow> flag_rel p q x z"
  by (cases x; cases y; cases z) (auto simp: flag_rel_def)

lemma flag_rel_mono: "flag_rel p q x y \<Longrightarrow> p \<le> p' \<Longrightarrow> q \<le> q' \<Longrightarrow> flag_rel p' q' x y"
  by (cases x; cases y) (auto simp: flag_rel_def)

lemma flag_rel_parts:
  assumes "flag_rel p q x y"
  shows "map_option fst x = Some True \<Longrightarrow> map_option fst y = Some True" "\<not> q \<Longrightarrow> map_option snd y = map_option snd x"
    "\<not> p \<Longrightarrow> \<not> q \<Longrightarrow> y = x"
  using assms by (cases x; cases y; auto simp: flag_rel_def)+

lemma flag_step_refl [simp]: "flag_step R W s s"
  by (simp add: flag_step_def)

lemma flag_step_trans: "flag_step R W s t \<Longrightarrow> flag_step R W t u \<Longrightarrow> flag_step R W s u"
  unfolding flag_step_def by (blast intro: flag_rel_trans)

lemma flagged_Some [simp]: "flagged R W s (Some s)"
  by (simp add: flagged_def)

lemma flagged_None [simp]: "flagged R W s None"
  by (simp add: flagged_def)

lemma flagged_bind: "flagged R W s m \<Longrightarrow> (\<And>t. flagged R W t (f t)) \<Longrightarrow> flagged R W s (m \<bind> f)"
  unfolding flagged_def by (auto elim!: bind_SomeE intro: flag_step_trans)

lemma flagged_value: "(\<And>x. flagged R W s (f x)) \<Longrightarrow> flagged R W s (m \<bind> f)"
  unfolding flagged_def by (auto elim!: bind_SomeE)

lemma flagged_fold: "(\<And>x t. x \<in> set xs \<Longrightarrow> flagged R W t (g x t)) \<Longrightarrow> flagged R W s (fold_opt g xs s)"
  by (induction xs arbitrary: s) (auto intro: flagged_bind)

lemma flagged_operand:
  "(\<And>y. x = Some y \<Longrightarrow> flagged R W s (f y s)) \<Longrightarrow> flagged R W s (case x of Some y \<Rightarrow> f y s | None \<Rightarrow> Some s)"
  by (cases x) simp_all

lemma flagged_mono: "flagged R W s m \<Longrightarrow> R \<subseteq> R' \<Longrightarrow> W \<subseteq> W' \<Longrightarrow> flagged R' W' s m"
  unfolding flagged_def flag_step_def by (intro allI impI, rule flag_rel_mono) (auto simp: le_bool_def)

lemma var_flags_local:
  "mark_local g n s = Some t \<Longrightarrow> var_flags r t = (if r = LocalVar n
     then map_option (\<lambda>x. (var_read (g x), var_assigned (g x))) (map_of (vars (snd s)) n) else var_flags r s)"
  by (cases r) (auto simp: mark_local_def update_conv bind_eq_Some_conv)

lemma var_flags_storage:
  "mark_storage g c v s = Some t \<Longrightarrow> var_flags r t = (if r = StorageVar c v
     then do { k \<leftarrow> at (ns_contracts (fst s)) c; x \<leftarrow> at (c_variables k) v; Some (v_read (g x), v_assigned (g x)) } else var_flags r s)"
  by (cases r) (auto simp: mark_storage_def at_def nth_list_update bind_eq_Some_conv split: if_splits)

lemma var_flags_constant:
  "mark_constant g v s = Some t \<Longrightarrow> var_flags r t = (if r = ConstantVar v
     then map_option (\<lambda>x. (v_read (g x), v_assigned (g x))) (at (ns_constants (fst s)) v) else var_flags r s)"
  by (cases r) (auto simp: mark_constant_def at_def nth_list_update bind_eq_Some_conv split: if_splits)

lemma flag_rel_some:
  "(a \<longrightarrow> a') \<Longrightarrow> (b \<longrightarrow> b') \<Longrightarrow> (a' \<longrightarrow> a \<or> p) \<Longrightarrow> (b' \<longrightarrow> b \<or> q) \<Longrightarrow> flag_rel p q (Some (a, b)) (Some (a', b'))"
  by (simp add: flag_rel_def)

lemma flag_rel_map:
  "(\<And>x. flag_rel p q (Some (f x)) (Some (g x))) \<Longrightarrow> flag_rel p q (map_option f m) (map_option g m)"
  by (cases m) simp_all

lemma flag_rel_bind: "(\<And>x. flag_rel p q (f x) (g x)) \<Longrightarrow> flag_rel p q (m \<bind> f) (m \<bind> g)"
  by (cases m) simp_all

lemma flagged_local:
  "LocalVar n \<in> R \<Longrightarrow> flagged R W s (local_read n s)" "LocalVar n \<in> W \<Longrightarrow> flagged R W s (local_assigned n s)"
  unfolding flagged_def flag_step_def
  by (auto simp: var_flags_local intro!: flag_rel_map flag_rel_some)

lemma flagged_storage:
  "StorageVar c v \<in> R \<Longrightarrow> flagged R W s (storage_read c v s)" "StorageVar c v \<in> W \<Longrightarrow> flagged R W s (storage_assigned c v s)"
  unfolding flagged_def flag_step_def
  by (auto simp: var_flags_storage intro!: flag_rel_bind flag_rel_some)

lemma flagged_constant:
  "ConstantVar v \<in> R \<Longrightarrow> flagged R W s (mark_constant (\<lambda>x. x\<lparr>v_read := True\<rparr>) v s)"
  unfolding flagged_def flag_step_def
  by (auto simp: var_flags_constant intro!: flag_rel_map flag_rel_some)

lemma vrefs_of_part: "y \<in> set (parts e) \<Longrightarrow> vrefs_of y \<subseteq> vrefs_of e"
  unfolding vrefs_of_def by (blast intro: occurs_part)

lemma arrays_of_part: "y \<in> set (parts e) \<Longrightarrow> arrays_of y \<subseteq> arrays_of e"
  unfolding arrays_of_def by (blast intro: occurs_part)

lemma refers_vrefs: "refers e = Some r \<Longrightarrow> r \<in> vrefs_of e"
  unfolding vrefs_of_def by (blast intro: occurs_self)

lemma array_operand_arrays: "array_operand e = Some a \<Longrightarrow> vrefs_of a \<subseteq> arrays_of e"
  unfolding arrays_of_def by (blast intro: occurs_self)

lemma array_operand_part: "array_operand e = Some a \<Longrightarrow> a \<in> set (parts e)"
  by (cases e rule: array_operand.cases) (auto simp: parts_def split: if_splits)

lemma arrays_of_vrefs: "arrays_of e \<subseteq> vrefs_of e"
proof -
  have "vrefs_of a \<subseteq> vrefs_of e" if "occurs x e" "array_operand x = Some a" for x a
    using that by induction (use array_operand_part vrefs_of_part in blast)+
  then show ?thesis unfolding arrays_of_def by blast
qed

lemma usage_flagged:
  "vrefs_of e \<subseteq> R \<Longrightarrow> flagged R R s (assigned_variable e s) \<and> flagged R R s (subscript_variable e s) \<and>
     (\<forall>W. arrays_of e \<subseteq> W \<longrightarrow> flagged R W s (used_variable e s) \<and> flagged R W s (check_function_call e s))"
proof (induction e arbitrary: s R rule: measure_induct_rule [of size])
  case (less e)
  have part: "vrefs_of y \<subseteq> R" if "y \<in> set (parts e)" for y using vrefs_of_part [OF that] less.prems by blast
  have IH: "flagged R R t (assigned_variable y t)" "flagged R R t (subscript_variable y t)" "flagged R R t (used_variable y t)"
    "flagged R R t (check_function_call y t)" if "y \<in> set (parts e)" for t y
    using less.IH [OF parts_size [OF that] part [OF that]] arrays_of_vrefs [of y] part [OF that] by blast+
  have IHr: "flagged R W t (used_variable y t)" "flagged R W t (check_function_call y t)"
    if "y \<in> set (parts e)" "arrays_of e \<subseteq> W" for t y W
    using less.IH [OF parts_size [OF that(1)] part [OF that(1)]] arrays_of_part [OF that(1)] that(2) by blast+
  have IHa: "flagged R W t (assigned_variable a t)" if "array_operand e = Some a" "arrays_of e \<subseteq> W" for t a W
  proof -
    note a = array_operand_part [OF that(1)] array_operand_arrays [OF that(1)]
    have "flagged (vrefs_of a) (vrefs_of a) t (assigned_variable a t)" using less.IH [OF parts_size [OF a(1)]] by blast
    then show ?thesis using part [OF a(1)] a(2) that(2) by (blast intro: flagged_mono)
  qed
  have self: "refers e = Some r \<Longrightarrow> r \<in> R" for r using refers_vrefs less.prems by blast
  note rules = flagged_fold flagged_operand flagged_local flagged_storage flagged_constant self
    flagged_value [where m = "expr_ty _"] flagged_bind
  have a: "flagged R R s (assigned_variable e s)"
    by (subst assigned_variable.simps, split expr.split, intro conjI allI impI) (auto simp: parts_def intro!: rules IH)
  have call: "flagged R W s (check_function_call e s)" if "is_internal_call e" "arrays_of e \<subseteq> W" for W
    using that(1) by (subst check_function_call.simps, split expr.split, intro conjI allI impI)
      (auto simp: parts_def intro!: rules IHr [OF _ that(2)])
  have u: "flagged R W s (used_variable e s)" if "arrays_of e \<subseteq> W" for W
  proof (cases "is_internal_call e")
    case True
    then have "used_variable e s = check_function_call e s" by (cases e) (simp_all add: used_variable.simps)
    then show ?thesis using call [OF True that] by simp
  next
    case False
    then show ?thesis
      by (subst used_variable.simps, split expr.split, intro conjI allI impI)
        (auto simp: parts_def option_operand_def intro!: rules IHr [OF _ that] IHa [OF _ that] split: option.split list.split)
  qed
  have c: "flagged R W s (check_function_call e s)" if "arrays_of e \<subseteq> W" for W
    by (subst check_function_call.simps, split expr.split, intro conjI allI impI)
      (use u [OF that] in \<open>auto simp: parts_def option_operand_def intro!: rules IHr [OF _ that] IHa [OF _ that] split: option.split list.split\<close>)
  have "flagged R R s (subscript_variable e s)"
    by (subst subscript_variable.simps, split expr.split, intro conjI allI impI)
      (use c [OF order_trans [OF arrays_of_vrefs less.prems]] in \<open>auto simp: parts_def intro!: rules IH\<close>)
  then show ?case using a u c by blast
qed

subsection \<open>The variables an expression reads\<close>

text \<open>
  The value of the expression comes from the variable, without an operator in between: the operands of
  operators are resolved on their own and marked then.
\<close>

fun loaded :: "expr \<Rightarrow> bool" where
  "loaded (EVariable _ _ _) = True"
| "loaded (EUnary u _ _ _) = (u \<in> {Load, StorageLoad})"
| "loaded _ = False"

inductive reads :: "vref \<Rightarrow> expr \<Rightarrow> bool" where
  reads_variable: "refers e = Some r \<Longrightarrow> reads r e"
| reads_member: "reads r x \<Longrightarrow> reads r (EStructMember l t x i)"
| reads_subscript: "reads r x \<Longrightarrow> x \<in> {a, i} \<Longrightarrow> reads r (ESubscript l t t' a i)"
| reads_slice: "reads r x \<Longrightarrow> x = a \<or> from = Some x \<or> to = Some x \<Longrightarrow> reads r (EArraySlice l t t' a from to)"
| reads_array: "reads r a \<Longrightarrow> array_operand e = Some a \<Longrightarrow> reads r e"
| reads_value: "reads r x \<Longrightarrow> u \<in> {StorageLoad, Load, ZeroExt, Trunc, Cast} \<Longrightarrow> reads r (EUnary u l t x)"
| reads_argument: "reads r x \<Longrightarrow> x \<in> set args \<Longrightarrow> reads r (EFunctionCall l ts f args)"
| reads_callee: "reads r f \<Longrightarrow> loaded f \<Longrightarrow> reads r (EFunctionCall l ts f args)"

lemma flag_step_read: "flag_step R W s t \<Longrightarrow> is_read r s \<Longrightarrow> is_read r t"
  unfolding flag_step_def is_read_def using flag_rel_parts(1) by blast

lemma usage_keeps_read:
  "used_variable e s = Some t \<Longrightarrow> is_read r s \<Longrightarrow> is_read r t"
  "assigned_variable e s = Some t \<Longrightarrow> is_read r s \<Longrightarrow> is_read r t"
  "check_function_call e s = Some t \<Longrightarrow> is_read r s \<Longrightarrow> is_read r t"
  using usage_flagged [OF order_refl, of e s] unfolding flagged_def by (blast intro: flag_step_read)+

lemma operand_keeps_read:
  "(case x of Some y \<Rightarrow> used_variable y s | None \<Rightarrow> Some s) = Some t \<Longrightarrow> is_read r s \<Longrightarrow> is_read r t"
  by (cases x) (auto dest: usage_keeps_read)

lemma fold_keeps_read: "fold_opt used_variable xs s = Some t \<Longrightarrow> is_read r s \<Longrightarrow> is_read r t"
  by (induction xs arbitrary: s) (auto elim!: bind_SomeE dest: usage_keeps_read)

lemma fold_reads:
  "fold_opt used_variable xs s = Some t \<Longrightarrow> (\<And>u v. used_variable x u = Some v \<Longrightarrow> is_read r v) \<Longrightarrow> x \<in> set xs \<Longrightarrow> is_read r t"
proof (induction xs arbitrary: s)
  case (Cons y ys)
  then obtain u where "used_variable y s = Some u" "fold_opt used_variable ys u = Some t" by (auto elim: bind_SomeE)
  then show ?case using Cons.IH Cons.prems(2,3) fold_keeps_read by (cases "x = y") auto
qed simp

lemma mark_read:
  "local_read n s = Some t \<Longrightarrow> is_read (LocalVar n) t"
  "storage_read c v s = Some t \<Longrightarrow> is_read (StorageVar c v) t"
  "mark_constant (\<lambda>x. x\<lparr>v_read := True\<rparr>) v s = Some t \<Longrightarrow> is_read (ConstantVar v) t"
  by (auto simp: mark_local_def mark_storage_def mark_constant_def is_read_def update_conv at_def split: if_splits elim!: bind_SomeE)

lemma reads_is_read: "reads r e \<Longrightarrow> used_variable e s = Some t \<Longrightarrow> is_read r t"
proof (induction arbitrary: s t rule: reads.induct)
  case (reads_variable e r)
  then show ?case
    by (cases e rule: refers.cases) (auto simp: used_variable.simps [of "EVariable _ _ _"] used_variable.simps [of "EStorageVariable _ _ _ _"]
        used_variable.simps [of "EConstantVariable _ _ _ _"] dest: mark_read)
next
  case (reads_member r x l ty i)
  then show ?case by (simp add: used_variable.simps [of "EStructMember _ _ _ _"])
next
  case (reads_subscript r x a i l ty ty')
  then obtain u where "used_variable a s = Some u" "used_variable i u = Some t"
    by (auto simp: used_variable.simps [of "ESubscript _ _ _ _ _"] elim: bind_SomeE)
  then show ?case using reads_subscript.IH reads_subscript.hyps(2) usage_keeps_read(1) by blast
next
  case (reads_slice r x a frm to l ty ty')
  then obtain u w where u: "used_variable a s = Some u" "(case frm of Some x \<Rightarrow> used_variable x u | None \<Rightarrow> Some u) = Some w"
    "(case to of Some x \<Rightarrow> used_variable x w | None \<Rightarrow> Some w) = Some t"
    by (auto simp: used_variable.simps [of "EArraySlice _ _ _ _ _ _"] elim!: bind_SomeE)
  consider "x = a" | "frm = Some x" | "to = Some x" using reads_slice.hyps(2) by blast
  then show ?case
  proof cases
    case 1
    then show ?thesis using reads_slice.IH u operand_keeps_read by blast
  next
    case 2
    then have "is_read r w" using reads_slice.IH u(2) by simp
    then show ?thesis using operand_keeps_read [OF u(3)] by blast
  next
    case 3
    then show ?thesis using reads_slice.IH u(3) by simp
  qed
next
  case (reads_array r a e)
  then consider u where "assigned_variable a s = Some u" "used_variable a u = Some t"
    | u where "used_variable a s = Some u" "assigned_variable a u = Some t"
    by (cases e rule: array_operand.cases)
      (auto simp: used_variable.simps [of "EStorageArrayLength _ _ _ _"] used_variable.simps [of "ELibFunction _ _ _ _"]
        split: if_splits elim!: bind_SomeE)
  then show ?case
  proof cases
    case 1
    then show ?thesis using reads_array.IH by blast
  next
    case 2
    then show ?thesis using reads_array.IH usage_keeps_read(2) by blast
  qed
next
  case (reads_value r x u l ty)
  then show ?case by (auto simp: used_variable.simps [of "EUnary _ _ _ _"])
next
  case (reads_argument r x args l ts f)
  then obtain u where "fold_opt used_variable args s = Some u" "check_function_call f u = Some t"
    by (auto simp: used_variable.simps [of "EFunctionCall _ _ _ _"] check_function_call.simps [of "EFunctionCall _ _ _ _"] elim: bind_SomeE)
  then show ?case using fold_reads [of args s u x r] reads_argument.IH reads_argument.hyps(2) usage_keeps_read(3) by blast
next
  case (reads_callee r f l ts args)
  then obtain u where u: "check_function_call f u = Some t"
    by (auto simp: used_variable.simps [of "EFunctionCall _ _ _ _"] check_function_call.simps [of "EFunctionCall _ _ _ _"] elim: bind_SomeE)
  have "check_function_call f u = used_variable f u"
    using reads_callee.hyps(2) by (cases f rule: loaded.cases) (auto simp: check_function_call.simps)
  then show ?case using reads_callee.IH u by simp
qed


inductive_cases occurs_var: "occurs x (EVariable l t n)"

definition one_local :: symtable where
  "one_local = \<lparr>vars = [(7, new_variable \<lparr>dc_id = \<lparr>id_loc = Implicit, id_name = ''x''\<rparr>, dc_ty = TUint 32,
     dc_initializer = Ola None, dc_usage = LocalVariable, dc_location = None\<rparr> 7)],
     names = [\<lambda>_. None], arguments = [], st_returns = []\<rparr>"


subsection \<open>Unused variables of the namespace\<close>

definition all_read :: "namespace \<Rightarrow> bool" where
  "all_read ns \<longleftrightarrow> (\<forall>c\<in>set (ns_contracts ns). \<forall>v\<in>set (c_variables c). v_read v) \<and> (\<forall>v\<in>set (ns_constants ns). v_read v)"

lemma map_filter_none: "\<forall>x\<in>set xs. f x = None \<Longrightarrow> List.map_filter f xs = []"
  by (induction xs) (simp_all add: List.map_filter_simps)

lemma check_unused_none: "all_read ns \<Longrightarrow> check_unused_namespace_variables ns = ns"
  by (simp add: all_read_def check_unused_namespace_variables_def emit_warning_contract_variables_def
      emit_warning_constant_def map_filter_none)

end
