(* ===== verification/Sema_Resolver.thy ===== *)
theory Sema_Resolver
  imports Sema_Cast Sema_Check Sema_Names Sema_Usage
begin

section \<open>Resolving expressions: state and helpers\<close>

text \<open>
  The functions under \<open>src/sema/expression\<close> take the namespace, the symbol table and the diagnostics
  by mutable reference and return a \<open>Result\<close>.  Here they are functions on \<open>rstate\<close>: \<open>None\<close> is
  a panic, \<open>Inl\<close> is \<open>Err(())\<close>, and the state after an error is kept, as its diagnostics
  are reported.  The context is an argument, since \<open>lvalue\<close>, its only part that is changed, is
  restored when the function returns.
\<close>

record expr_context =
  cx_file_no :: nat
  cx_contract_no :: "nat option"
  cx_function_no :: "nat option"
  cx_constant :: bool
  cx_lvalue :: bool

record rstate =
  st_ns :: namespace
  st_sym :: symtable
  st_diags :: diagnostics

type_synonym 'a rs = "rstate \<Rightarrow> ((unit + 'a) \<times> rstate) option"

definition rs_return :: "'a \<Rightarrow> 'a rs" where
  "rs_return x = (\<lambda>s. Some (Inr x, s))"

definition rs_panic :: "'a rs" where
  "rs_panic = (\<lambda>s. None)"

definition rs_bind :: "'a rs \<Rightarrow> ('a \<Rightarrow> 'b rs) \<Rightarrow> 'b rs" where
  "rs_bind m f = (\<lambda>s. case m s of
      None \<Rightarrow> None
    | Some (Inl u, s) \<Rightarrow> Some (Inl u, s)
    | Some (Inr x, s) \<Rightarrow> f x s)"

definition rs_get :: "(rstate \<Rightarrow> 'a) \<Rightarrow> 'a rs" where
  "rs_get f = (\<lambda>s. Some (Inr (f s), s))"

text \<open>A value whose absence panics.\<close>

definition rs_opt :: "'a option \<Rightarrow> 'a rs" where
  "rs_opt x = (case x of None \<Rightarrow> rs_panic | Some x \<Rightarrow> rs_return x)"

definition rs_at :: "'a list \<Rightarrow> nat \<Rightarrow> 'a rs" where
  "rs_at xs n = rs_opt (Sema_AST.at xs n)"

text \<open>A computation on the diagnostics alone.\<close>

definition rs_ev :: "'a ev \<Rightarrow> 'a rs" where
  "rs_ev m = (\<lambda>s. case m (st_diags s) of None \<Rightarrow> None | Some (r, d) \<Rightarrow> Some (r, s\<lparr>st_diags := d\<rparr>))"

definition rs_fail :: "diagnostic \<Rightarrow> 'a rs" where
  "rs_fail d = (\<lambda>s. Some (Inl (), s\<lparr>st_diags := push_diag d (st_diags s)\<rparr>))"

definition rs_push :: "diagnostic \<Rightarrow> unit rs" where
  "rs_push d = (\<lambda>s. Some (Inr (), s\<lparr>st_diags := push_diag d (st_diags s)\<rparr>))"

definition rs_usage :: "(usage_state \<Rightarrow> usage_state option) \<Rightarrow> unit rs" where
  "rs_usage g = (\<lambda>s. case g (st_ns s, st_sym s) of
      None \<Rightarrow> None | Some (ns, st) \<Rightarrow> Some (Inr (), s\<lparr>st_ns := ns, st_sym := st\<rparr>))"

text \<open>\<open>e.recurse(ns, check_term_for_constant_overflow)\<close>.\<close>

definition rs_check :: "expr \<Rightarrow> unit rs" where
  "rs_check e = (\<lambda>s. case check_expression e (st_ns s) of None \<Rightarrow> None | Some ns \<Rightarrow> Some (Inr (), s\<lparr>st_ns := ns\<rparr>))"

text \<open>\<open>Err\<close> without a new diagnostic, and an \<open>Err\<close> that is caught.\<close>

definition rs_err :: "'a rs" where
  "rs_err = (\<lambda>s. Some (Inl (), s))"

definition rs_try :: "'a rs \<Rightarrow> 'a option rs" where
  "rs_try m = (\<lambda>s. case m s of
      None \<Rightarrow> None | Some (Inl _, s) \<Rightarrow> Some (Inr None, s) | Some (Inr x, s) \<Rightarrow> Some (Inr (Some x), s))"

text \<open>A computation that reports to a collection of its own.\<close>

definition rs_into :: "diagnostics \<Rightarrow> 'a rs \<Rightarrow> ('a option \<times> diagnostics) rs" where
  "rs_into d m = (\<lambda>s. case rs_try m (s\<lparr>st_diags := d\<rparr>) of
      Some (Inr r, s') \<Rightarrow> Some (Inr (r, st_diags s'), s'\<lparr>st_diags := st_diags s\<rparr>)
    | _ \<Rightarrow> None)"

definition rs_extend :: "diagnostics \<Rightarrow> unit rs" where
  "rs_extend d = (\<lambda>s. Some (Inr (), s\<lparr>st_diags := extend_diags (st_diags s) d\<rparr>))"

definition rs_extend_non_casting :: "diagnostics \<Rightarrow> bool rs" where
  "rs_extend_non_casting d = (\<lambda>s. case extend_non_casting (st_diags s) d of
      (b, d') \<Rightarrow> Some (Inr b, s\<lparr>st_diags := d'\<rparr>))"

fun rs_map :: "('a \<Rightarrow> 'b rs) \<Rightarrow> 'a list \<Rightarrow> 'b list rs" where
  "rs_map f [] = rs_return []"
| "rs_map f (x # xs) = rs_bind (f x) (\<lambda>y. rs_bind (rs_map f xs) (\<lambda>ys. rs_return (y # ys)))"

abbreviation "used e \<equiv> rs_usage (used_variable e)"
abbreviation "assigned e \<equiv> rs_usage (assigned_variable e)"
abbreviation "both_used x y \<equiv> rs_usage (check_var_usage_expression x y)"
abbreviation "rs_ty e \<equiv> rs_opt (expr_ty e)"
abbreviation "rs_loc e \<equiv> rs_opt (pexpr_loc e)"
abbreviation "rs_cast e l t \<equiv> rs_ev (cast e l t)"

type_synonym resolver = "expr_context \<Rightarrow> pexpr \<Rightarrow> resolve_to \<Rightarrow> expr rs"

text \<open>
  What the resolver takes as given: the reading of numbers of the library \<open>num_bigint\<close> in a radix,
  the hash of the library \<open>tiny_keccak\<close>, the order in which a hash map with the call arguments as
  its values is iterated (as the rank of a name among the arguments), and the fuel of the questions about types.
\<close>

record resolver_parts =
  rp_bigint :: "nat \<Rightarrow> string \<Rightarrow> int option"
  rp_keccak :: "string \<Rightarrow> 8 word list"
  rp_rank :: "pexpr named_argument list \<Rightarrow> string \<Rightarrow> nat"
  rp_fuel :: nat

subsection \<open>Values that a computation can return\<close>

definition returns :: "'a rs \<Rightarrow> ('a \<Rightarrow> bool) \<Rightarrow> bool" where
  "returns m P \<longleftrightarrow> (\<forall>s x s'. m s = Some (Inr x, s') \<longrightarrow> P x)"

named_theorems returns_rules \<open>rules that follow a computation of the resolver\<close>

lemma returns_return [returns_rules]: "P x \<Longrightarrow> returns (rs_return x) P"
  by (simp add: returns_def rs_return_def)

lemma returns_panic [returns_rules]: "returns rs_panic P"
  by (simp add: returns_def rs_panic_def)

lemma returns_fail [returns_rules]: "returns (rs_fail d) P"
  by (simp add: returns_def rs_fail_def)

lemma returns_bind:
  assumes "returns m Q" "\<And>x. Q x \<Longrightarrow> returns (f x) P"
  shows "returns (rs_bind m f) P"
  using assms unfolding returns_def rs_bind_def by (fastforce split: option.splits sum.splits)

lemma returns_any: "returns m (\<lambda>_. True)"
  by (simp add: returns_def)

lemma returns_seq [returns_rules]: "(\<And>x. returns (f x) P) \<Longrightarrow> returns (rs_bind m f) P"
  by (rule returns_bind [OF returns_any])

lemma returns_opt: "(\<And>y. x = Some y \<Longrightarrow> P y) \<Longrightarrow> returns (rs_opt x) P"
  by (cases x) (simp_all add: rs_opt_def returns_return returns_panic)

lemma returns_ev: "(\<And>d x d'. m d = Some (Inr x, d') \<Longrightarrow> P x) \<Longrightarrow> returns (rs_ev m) P"
  by (auto simp: returns_def rs_ev_def split: option.splits)

lemma returns_mono: "returns m P \<Longrightarrow> (\<And>x. P x \<Longrightarrow> Q x) \<Longrightarrow> returns m Q"
  by (auto simp: returns_def)

lemma returns_map:
  assumes "\<And>x. x \<in> set xs \<Longrightarrow> returns (f x) P"
  shows "returns (rs_map f xs) (\<lambda>ys. length ys = length xs \<and> (\<forall>y\<in>set ys. P y))"
  using assms
proof (induction xs)
  case (Cons x xs)
  show ?case unfolding rs_map.simps
    by (rule returns_bind [of _ P], use Cons.prems in simp)
      (rule returns_bind [OF Cons.IH], use Cons.prems in simp, rule returns_return, simp)
qed (simp add: returns_return)

end
