(* ===== verification/Sema_Literals.thy ===== *)
theory Sema_Literals
  imports Sema_Resolver
begin

section \<open>Literals\<close>

text \<open>
  Model of \<open>src/sema/expression/literals.rs\<close> and \<open>strings.rs\<close>.  The source text is taken to be
  ASCII, so that a character has one byte and its index is its offset.  Characters of a string literal are
  64-bit words.
\<close>

subsection \<open>Escapes\<close>

definition hex_digit :: "char \<Rightarrow> nat option" where
  "hex_digit c = (let n = of_char c :: nat in
     if 48 \<le> n \<and> n \<le> 57 then Some (n - 48)
     else if 97 \<le> n \<and> n \<le> 102 then Some (n - 87)
     else if 65 \<le> n \<and> n \<le> 70 then Some (n - 55)
     else None)"

text \<open>
  The digits of an escape: the value, or the offset of the character behind the wrong one (\<open>None\<close> for
  the end of the text), with the rest of the input.
\<close>

fun get_digits :: "(nat \<times> char) list \<Rightarrow> nat \<Rightarrow> nat \<Rightarrow> (nat option + nat) \<times> (nat \<times> char) list" where
  "get_digits cs 0 n = (Inr n, cs)"
| "get_digits [] (Suc k) n = (Inl None, [])"
| "get_digits ((i, c) # cs) (Suc k) n = (case hex_digit c of
      Some v \<Rightarrow> get_digits cs k (n * 16 + v)
    | None \<Rightarrow> (case cs of [] \<Rightarrow> (Inl None, []) | (j, d) # cs \<Rightarrow> (Inl (Some j), cs)))"

lemma get_digits_length: "get_digits cs k n = (r, cs') \<Longrightarrow> length cs' \<le> length cs"
  by (induction cs k n rule: get_digits.induct) (fastforce split: option.splits list.splits)+

definition simple_escape :: "char \<Rightarrow> nat option" where
  "simple_escape c = map_of [(CHR 0x5C, 92), (CHR 0x27, 39), (CHR 0x22, 34), (CHR ''b'', 8), (CHR ''f'', 12),
     (CHR ''n'', 10), (CHR ''r'', 13), (CHR ''t'', 9), (CHR ''v'', 11)] c"

text \<open>The code points that are characters: surrogates are not.\<close>

definition is_scalar :: "nat \<Rightarrow> bool" where
  "is_scalar n \<longleftrightarrow> n < 0xD800 \<or> (0xDFFF < n \<and> n < 0x110000)"

definition digits_error :: "nat \<Rightarrow> nat \<Rightarrow> nat \<Rightarrow> nat \<Rightarrow> nat option \<Rightarrow> message \<Rightarrow> diagnostic" where
  "digits_error file start i len offset m =
     diag_error (File file (start + i) (start + (case offset of Some j \<Rightarrow> min len j | None \<Rightarrow> len))) m"

function unescape_chars :: "nat \<Rightarrow> nat \<Rightarrow> nat \<Rightarrow> (nat \<times> char) list \<Rightarrow> diagnostics \<Rightarrow> (64 word list \<times> diagnostics) option" where
  "unescape_chars file start len [] d = Some ([], d)"
| "unescape_chars file start len ((i, c) # cs) d =
    (if c \<noteq> CHR 0x5C then do {
       (ws, d) \<leftarrow> unescape_chars file start len cs d;
       Some (of_nat (of_char c) # ws, d) }
     else (case cs of
         [] \<Rightarrow> None
       | (i, e) # cs \<Rightarrow>
           if e = CHR 0x0A then unescape_chars file start len cs d
           else if e = CHR ''x'' then (case get_digits cs 2 0 of
               (Inr n, cs) \<Rightarrow> do {
                 (ws, d) \<leftarrow> unescape_chars file start len cs d;
                 Some (of_nat n # ws, d) }
             | (Inl j, cs) \<Rightarrow> unescape_chars file start len cs
                 (push_diag (digits_error file start i len j (Text ''x escape should be followed by two hex digits'')) d))
           else if e = CHR ''u'' then (case get_digits cs 4 0 of
               (Inr n, cs) \<Rightarrow>
                 if is_scalar n then do {
                   (ws, d) \<leftarrow> unescape_chars file start len cs d;
                   Some (of_nat n # ws, d) }
                 else unescape_chars file start len cs
                   (push_diag (diag_error (File file (start + i) (start + i + 6)) (Text ''Found an invalid unicode character'')) d)
             | (Inl j, cs) \<Rightarrow> unescape_chars file start len cs
                 (push_diag (digits_error file start i len j (Text ''u escape should be followed by four hex digits'')) d))
           else (case simple_escape e of
               Some n \<Rightarrow> do {
                 (ws, d) \<leftarrow> unescape_chars file start len cs d;
                 Some (of_nat n # ws, d) }
             | None \<Rightarrow> unescape_chars file start len cs
                 (push_diag (diag_error (File file (start + i) (start + i + 1)) (Format ''unknown escape character {}'' [AStr [e]])) d))))"
  by pat_completeness auto
termination
  by (relation "measure (\<lambda>(file, start, len, cs, d). length cs)") (auto dest: get_digits_length [OF sym])

definition unescape :: "string \<Rightarrow> nat \<Rightarrow> nat \<Rightarrow> diagnostics \<Rightarrow> (64 word list \<times> diagnostics) option" where
  "unescape s start file d = unescape_chars file start (length s) (List.enumerate 0 s) d"

subsection \<open>Numbers, addresses, hashes and strings\<close>

definition number_literal :: "resolver_parts \<Rightarrow> loc \<Rightarrow> string \<Rightarrow> resolve_to \<Rightarrow> expr rs" where
  "number_literal p l i to =
    rs_bind (rs_opt (rp_bigint p 10 i)) (\<lambda>n.
    rs_bind (rs_get st_ns) (\<lambda>ns. rs_ev (bigint_to_expression ns (rp_fuel p) l n to)))"

definition hex_number_literal :: "resolver_parts \<Rightarrow> loc \<Rightarrow> string \<Rightarrow> resolve_to \<Rightarrow> expr rs" where
  "hex_number_literal p l i to =
    rs_bind (rs_opt (rp_bigint p 16 i)) (\<lambda>n.
    rs_bind (rs_get st_ns) (\<lambda>ns. rs_ev (bigint_to_expression ns (rp_fuel p) l n to)))"

text \<open>\<open>u64::from_str_radix(s, 16)\<close>: digits with an optional sign; an empty text and an overflow fail.\<close>

fun hex_value :: "string \<Rightarrow> nat \<Rightarrow> nat option" where
  "hex_value [] n = Some n"
| "hex_value (c # cs) n = do { v \<leftarrow> hex_digit c; let n = n * 16 + v; if n < 2 ^ 64 then hex_value cs n else None }"

definition parse_hex_u64 :: "string \<Rightarrow> nat option" where
  "parse_hex_u64 s =
    (let s = (case s of c # cs \<Rightarrow> if c = CHR ''+'' \<and> cs \<noteq> [] then cs else s | [] \<Rightarrow> [])
     in if s = [] then None else hex_value s 0)"

text \<open>\<open>trim_end_matches\<close> removes the suffix as often as it occurs.\<close>

function trim_end_matches :: "string \<Rightarrow> string \<Rightarrow> string" where
  "trim_end_matches x s =
    (if x \<noteq> [] \<and> length x \<le> length s \<and> drop (length s - length x) s = x
     then trim_end_matches x (take (length s - length x) s) else s)"
  by auto
termination
  by (relation "measure (\<lambda>(x, s). length s)") (auto simp: neq_Nil_conv)

declare trim_end_matches.simps [simp del]

function chunks :: "nat \<Rightarrow> 'a list \<Rightarrow> 'a list list" where
  "chunks n xs = (if xs = [] \<or> n = 0 then [] else take n xs # chunks n (drop n xs))"
  by auto
termination
  by (relation "measure (\<lambda>(n, xs). length xs)") auto

declare chunks.simps [simp del]

text \<open>The chunks of 16 digits, checked against the order of the field one after the other.\<close>

fun field_chunks :: "(nat \<Rightarrow> diagnostic) \<Rightarrow> string list \<Rightarrow> nat list rs" where
  "field_chunks err [] = rs_return []"
| "field_chunks err (c # cs) =
    rs_bind (rs_opt (parse_hex_u64 c)) (\<lambda>n.
      if int n > FIELD_ORDER then rs_fail (err n)
      else rs_bind (field_chunks err cs) (\<lambda>ns. rs_return (n # ns)))"

definition long_literal :: "string \<Rightarrow> loc \<Rightarrow> string \<Rightarrow> (int list \<Rightarrow> expr) \<Rightarrow> expr rs" where
  "long_literal kind l text mk =
    (let text = trim_end_matches kind text in
     if CHR ''_'' \<notin> set text \<and> length text = 64 then
       rs_bind (field_chunks (\<lambda>_. diag_error l (Format ''{} literal {} out of range'' [AStr kind, AStr text])) (chunks 16 text))
         (\<lambda>ns. rs_return (mk (map int ns)))
     else rs_fail (diag_error l (Format ''{} literal {} incorrect length of {}'' [AStr kind, AStr text, ANum (int (length text))])))"

definition address_literal :: "loc \<Rightarrow> string \<Rightarrow> expr rs" where
  "address_literal l text = long_literal ''address'' l text (EAddress l TAddress)"

definition hash_literal :: "loc \<Rightarrow> string \<Rightarrow> expr rs" where
  "hash_literal l text = long_literal ''hash'' l text (EHash l THash)"

definition fields_literal :: "loc \<Rightarrow> string \<Rightarrow> expr rs" where
  "fields_literal l text =
    rs_bind (field_chunks (\<lambda>n. diag_error l (Format ''fields literal {} out of range'' [ANum (int n)]))
      (chunks 16 (trim_end_matches ''fields'' text))) (\<lambda>ns.
    rs_return (EAllocDynamicBytes l TDynamicBytes (ENumber l (TUint 32) (int (length ns))) (Some (map of_nat ns))))"

text \<open>The parts of a string literal are joined; the end of the location is the one of the last part.\<close>

fun join_strings :: "nat \<Rightarrow> (loc \<times> string) list \<Rightarrow> loc \<Rightarrow> diagnostics \<Rightarrow> ((64 word list \<times> loc) \<times> diagnostics) option" where
  "join_strings file [] l d = Some (([], l), d)"
| "join_strings file ((sl, s) # v) l d = do {
     start \<leftarrow> loc_start sl;
     (ws, d) \<leftarrow> unescape s start file d;
     l \<leftarrow> use_end_from l sl;
     ((ws', l), d) \<leftarrow> join_strings file v l d;
     Some ((ws @ ws', l), d) }"

text \<open>Both branches of the \<open>match\<close> on the wanted type build the same expression.\<close>

definition string_literal :: "(loc \<times> string) list \<Rightarrow> nat \<Rightarrow> expr rs" where
  "string_literal v file =
    rs_bind (rs_opt (map_option fst (hd_opt v))) (\<lambda>l.
    rs_bind (rs_ev (\<lambda>d. map_option (\<lambda>(x, d). (Inr x, d)) (join_strings file v l d))) (\<lambda>(ws, l).
    rs_return (EAllocDynamicBytes l TString (ENumber l (TUint 32) (int (length ws))) (Some ws))))"

subsection \<open>Structures and arrays\<close>

definition struct_error :: "loc \<Rightarrow> struct_decl \<Rightarrow> nat \<Rightarrow> diagnostic" where
  "struct_error l sd n = diag_error l
     (Format ''struct {} has {} fields, not {}'' [AStr (sd_name sd), ANum (int (length (sd_fields sd))), ANum (int n)])"

definition struct_literal :: "resolver \<Rightarrow> expr_context \<Rightarrow> loc \<Rightarrow> nat \<Rightarrow> pexpr list \<Rightarrow> expr rs" where
  "struct_literal rec cx l n args =
    rs_bind (rs_get st_ns) (\<lambda>ns. rs_bind (rs_at (ns_structs ns) n) (\<lambda>sd.
      if length args \<noteq> length (sd_fields sd) then rs_fail (struct_error l sd (length args))
      else rs_bind (rs_map (\<lambda>(a, f).
            rs_bind (rec cx a (ToType (p_ty f))) (\<lambda>e. rs_bind (used e) (\<lambda>_. rs_cast e l (p_ty f))))
          (zip args (sd_fields sd)))
        (\<lambda>vs. rs_return (EStruct l (TStruct n) vs))))"

text \<open>The named arguments are put at the place of their field, over a list of \<open>false\<close>.\<close>

definition field_index :: "string \<Rightarrow> parameter list \<Rightarrow> (nat \<times> parameter) option" where
  "field_index n fs = find (\<lambda>(i, f). p_name f = Some n) (List.enumerate 0 fs)"

fun named_fields :: "resolver \<Rightarrow> expr_context \<Rightarrow> loc \<Rightarrow> struct_decl \<Rightarrow> pexpr named_argument list \<Rightarrow> expr list \<Rightarrow> expr list rs" where
  "named_fields rec cx l sd [] vs = rs_return vs"
| "named_fields rec cx l sd (a # args) vs = (case field_index (id_name (na_name a)) (sd_fields sd) of
      Some (i, f) \<Rightarrow>
        rs_bind (rec cx (na_expr a) (ToType (p_ty f))) (\<lambda>e. rs_bind (used e) (\<lambda>_.
        rs_bind (rs_cast e l (p_ty f)) (\<lambda>e. named_fields rec cx l sd args (vs[i := e]))))
    | None \<Rightarrow> rs_fail (diag_error (id_loc (na_name a))
        (Format ''struct {} has no field {}'' [AStr (sd_name sd), AStr (id_name (na_name a))])))"

definition named_struct_literal :: "resolver \<Rightarrow> expr_context \<Rightarrow> loc \<Rightarrow> nat \<Rightarrow> pexpr named_argument list \<Rightarrow> expr rs" where
  "named_struct_literal rec cx l n args =
    rs_bind (rs_get st_ns) (\<lambda>ns. rs_bind (rs_at (ns_structs ns) n) (\<lambda>sd.
      if length args \<noteq> length (sd_fields sd) then rs_fail (struct_error l sd (length args))
      else rs_bind (named_fields rec cx l sd args (replicate (length args) (EBool Implicit False)))
        (\<lambda>vs. rs_return (EStruct l (TStruct n) vs))))"

text \<open>
  The nesting of an array literal: its dimensions, the innermost first, and the elements in order.  The
  dimensions are those along the first elements; \<open>d\<close> says whether they are collected.
\<close>

definition is_array_literal :: "pexpr \<Rightarrow> bool" where
  "is_array_literal e = (case e of PArrayLiteral _ _ \<Rightarrow> True | _ \<Rightarrow> False)"

definition fail_at :: "pexpr \<Rightarrow> message \<Rightarrow> 'a ev" where
  "fail_at e m = (\<lambda>d. case pexpr_loc e of None \<Rightarrow> None | Some l \<Rightarrow> ev_fail (diag_error l m) d)"

function check_subarrays :: "pexpr list \<Rightarrow> bool \<Rightarrow> (nat list \<times> pexpr list) ev"
  and check_other_subarrays :: "nat \<Rightarrow> nat \<Rightarrow> pexpr list \<Rightarrow> pexpr list ev" where
  "check_subarrays es d = (case es of
      PArrayLiteral _ xs # es' \<Rightarrow>
        ev_bind (check_subarrays xs d) (\<lambda>(ds, flat).
        ev_bind (check_other_subarrays (length xs) 1 es') (\<lambda>flat'.
        ev_return (if d then ds @ [length es mod 2 ^ 32] else ds, flat @ flat')))
    | _ \<Rightarrow> (case find (\<lambda>(i, e). is_array_literal e) (List.enumerate 1 (tl es)) of
        Some (i, e) \<Rightarrow> fail_at e (Format ''array elements should be of the type, element {} is unexpected array'' [ANum (int (i + 1))])
      | None \<Rightarrow> ev_return (if d then [length es mod 2 ^ 32] else [], es)))"
| "check_other_subarrays n i es = (case es of
      [] \<Rightarrow> ev_return []
    | PArrayLiteral l xs # es' \<Rightarrow>
        if length xs \<noteq> n then ev_fail (diag_error l
          (Format ''array elements should be identical, sub array {} has {} elements rather than {}''
            [ANum (int (i + 1)), ANum (int (length xs)), ANum (int n)]))
        else ev_bind (check_subarrays xs False) (\<lambda>(_, flat).
          ev_bind (check_other_subarrays n (i + 1) es') (\<lambda>flat'. ev_return (flat @ flat')))
    | e # es' \<Rightarrow> fail_at e (Format ''array element {} should also be an array'' [ANum (int (i + 1))]))"
  by pat_completeness auto
termination
  by (relation "measure (\<lambda>x. case x of Inl (es, d) \<Rightarrow> size_list size es | Inr (n, i, es) \<Rightarrow> size_list size es)") auto

declare check_subarrays.simps [simp del] check_other_subarrays.simps [simp del]

text \<open>
  An array literal.  When a slice of slices is wanted, the elements are resolved one by one and all errors
  are reported; otherwise the flattened elements are converted to one type, the wanted one or the one of
  the first element.
\<close>

definition slice_element :: "sty \<Rightarrow> expr \<Rightarrow> bool rs" where
  "slice_element elt e = rs_bind (rs_ty e) (\<lambda>t. case t of
      TArray elem dims \<Rightarrow>
        if elem \<noteq> elt \<or> length dims \<noteq> 1 then
          rs_bind (rs_push (diag_error (expr_loc e) (Format ''type {} found where array {} expected'' [ATy elem, ATy elt])))
            (\<lambda>_. rs_return True)
        else rs_return False
    | _ \<Rightarrow> rs_bind (rs_push (diag_error (expr_loc e) (Format ''type {} found where array of slices expected'' [ATy t])))
        (\<lambda>_. rs_return True))"

text \<open>\<open>Err\<close> of an element does not stop the loop.\<close>

fun slice_elements :: "resolver \<Rightarrow> expr_context \<Rightarrow> sty \<Rightarrow> pexpr list \<Rightarrow> (expr list \<times> bool) rs" where
  "slice_elements rec cx elt [] = rs_return ([], False)"
| "slice_elements rec cx elt (e # es) =
    rs_bind (rs_try (rec cx e (ToType (TArray elt [Dynamic])))) (\<lambda>r. case r of
      None \<Rightarrow> rs_bind (slice_elements rec cx elt es) (\<lambda>(vs, _). rs_return (vs, True))
    | Some v \<Rightarrow> rs_bind (slice_element elt v) (\<lambda>err.
        rs_bind (slice_elements rec cx elt es) (\<lambda>(vs, err'). rs_return (v # vs, err \<or> err'))))"

definition array_element :: "resolver \<Rightarrow> expr_context \<Rightarrow> sty \<Rightarrow> pexpr \<Rightarrow> expr rs" where
  "array_element rec cx t e =
    rs_bind (rec cx e (ToType t)) (\<lambda>v. rs_bind (used v) (\<lambda>_. rs_bind (rs_ty v) (\<lambda>t'.
      if t' \<noteq> t then rs_bind (rs_loc e) (\<lambda>l. rs_cast v l t) else rs_return v)))"

definition flat_array_literal :: "resolver \<Rightarrow> expr_context \<Rightarrow> loc \<Rightarrow> pexpr list \<Rightarrow> resolve_to \<Rightarrow> expr rs" where
  "flat_array_literal rec cx l es to =
    rs_bind (rs_ev (check_subarrays es True)) (\<lambda>(dims, flat). case flat of
      [] \<Rightarrow> rs_fail (diag_error l (Text ''array requires at least one element''))
    | e # es \<Rightarrow>
        rs_bind (rec cx e to) (\<lambda>v.
        rs_bind (case to of ToType t \<Rightarrow> rs_bind (rs_cast v (expr_loc v) t) (\<lambda>v. rs_return (v, t))
          | _ \<Rightarrow> rs_bind (rs_ty v) (\<lambda>t. rs_return (v, t))) (\<lambda>(v, t).
        rs_bind (used v) (\<lambda>_.
        rs_bind (rs_map (array_element rec cx t) es) (\<lambda>vs.
        let aty = TArray t (map (\<lambda>n. Fixed (int n)) dims) in
        rs_return (if cx_constant cx then EConstArray l aty dims (v # vs) else EArray l aty dims (v # vs)))))))"

definition array_literal :: "resolver \<Rightarrow> expr_context \<Rightarrow> loc \<Rightarrow> pexpr list \<Rightarrow> resolve_to \<Rightarrow> expr rs" where
  "array_literal rec cx l es to = (case to of
      ToType (TArray elem _) \<Rightarrow> flat_array_literal rec cx l es (ToType elem)
    | ToType (TSlice (TSlice t)) \<Rightarrow>
        rs_bind (slice_elements rec cx (TSlice t) es) (\<lambda>(vs, err).
          if err then rs_err
          else rs_return (EArray l (TArray (TSlice t) [Fixed (int (length es))]) [length es mod 2 ^ 32] vs))
    | _ \<Rightarrow> flat_array_literal rec cx l es to)"

end
