(* ===== verification/Sema_Resolve_Type.thy ===== *)
theory Sema_Resolve_Type
  imports Sema_Resolver
begin

section \<open>Resolving types\<close>

text \<open>
  Model of the resolution of types in \<open>src/sema/namespace.rs\<close>.  The parser gives a type as an
  expression: a name with a path and dimensions, or a built-in type.  \<open>rec\<close> is the function
  \<open>expression\<close>, which resolves the dimensions.
\<close>

subsection \<open>Dimensions\<close>

text \<open>The dimensions are collected from the outermost one on and listed from the innermost one on.\<close>

fun check_dimensions :: "(loc \<times> int) option list \<Rightarrow> array_length list ev" where
  "check_dimensions [] = ev_return []"
| "check_dimensions (None # ds) = ev_bind (check_dimensions ds) (\<lambda>dims. ev_return (Dynamic # dims))"
| "check_dimensions (Some (l, n) # ds) =
    (if n = 0 then ev_fail (diag_decl_error l ZeroSizeArray)
     else if n < 0 then ev_fail (diag_decl_error l NegativeSizeArray)
     else if n > 4294967295 then ev_fail (diag_decl_error l (DimensionTooLarge n))
     else ev_bind (check_dimensions ds) (\<lambda>dims. ev_return (Fixed n # dims)))"

definition resolve_dimensions :: "(loc \<times> int) option list \<Rightarrow> array_length list ev" where
  "resolve_dimensions ds = check_dimensions (rev ds)"

text \<open>The length is resolved as a constant expression with an empty symbol table of its own.\<close>

definition with_new_symtable :: "'a rs \<Rightarrow> 'a rs" where
  "with_new_symtable m = (\<lambda>s. case m (s\<lparr>st_sym := symtable_new\<rparr>) of
      None \<Rightarrow> None | Some (r, s') \<Rightarrow> Some (r, s'\<lparr>st_sym := st_sym s\<rparr>))"

definition resolve_array_dimension ::
  "resolver_parts \<Rightarrow> resolver \<Rightarrow> nat \<Rightarrow> nat option \<Rightarrow> nat option \<Rightarrow> pexpr \<Rightarrow> (loc \<times> int) rs" where
  "resolve_array_dimension p rec file c f e =
    rs_bind (with_new_symtable (rec \<lparr>cx_file_no = file, cx_contract_no = c, cx_function_no = f, cx_constant = True,
        cx_lvalue = False\<rparr> e (ToType (TUint 32)))) (\<lambda>size_expr.
    rs_bind (rs_ty size_expr) (\<lambda>t. case t of
      TUint _ \<Rightarrow> rs_bind (rs_get st_ns) (\<lambda>ns. rs_ev (eval_const_number (rp_fuel p) ns size_expr))
    | _ \<Rightarrow> rs_bind (rs_loc e) (\<lambda>l. rs_fail (diag_decl_error l NotANumber))))"

subsection \<open>The parts of a written type\<close>

fun member_path :: "pexpr \<Rightarrow> ident list option" where
  "member_path (PVariable x) = Some [x]"
| "member_path (PMemberAccess l e x) = map_option (\<lambda>xs. xs @ [x]) (member_path e)"
| "member_path e = None"

definition expr_to_identifier_path :: "pexpr \<Rightarrow> (loc option \<times> ident list) option" where
  "expr_to_identifier_path e = map_option (\<lambda>xs. (pexpr_loc e, xs)) (member_path e)"

definition expression_found :: "pexpr \<Rightarrow> 'a rs" where
  "expression_found e = rs_bind (rs_loc e) (\<lambda>l. rs_fail (diag_decl_error l ExpressionFound))"

type_synonym type_parts = "ident list \<times> pexpr \<times> (loc \<times> int) option list"

fun expr_to_type :: "resolver_parts \<Rightarrow> resolver \<Rightarrow> nat \<Rightarrow> nat option \<Rightarrow> pexpr \<Rightarrow> (loc \<times> int) option list \<Rightarrow> type_parts rs" where
  "expr_to_type p rec file c (PArraySubscript l r None) ds = expr_to_type p rec file c r (ds @ [None])"
| "expr_to_type p rec file c (PArraySubscript l r (Some i)) ds =
    rs_bind (resolve_array_dimension p rec file c None i) (\<lambda>d. expr_to_type p rec file c r (ds @ [Some d]))"
| "expr_to_type p rec file c (PVariable x) ds = rs_return ([], PVariable x, ds)"
| "expr_to_type p rec file c (PType l t) ds = rs_return ([], PType l t, ds)"
| "expr_to_type p rec file c (PMemberAccess l e x) ds = (case member_path e of
      Some xs \<Rightarrow> rs_return (xs, PVariable x, ds)
    | None \<Rightarrow> expression_found e)"
| "expr_to_type p rec file c e ds = expression_found e"

subsection \<open>The path of a name\<close>

fun skip_imports :: "namespace \<Rightarrow> nat \<Rightarrow> nat option \<Rightarrow> ident list \<Rightarrow> nat \<times> nat option \<times> ident list" where
  "skip_imports ns file c [] = (file, c, [])"
| "skip_imports ns file c (x # xs) = (case ns_variable_symbols ns (file, None, id_name x) of
      Some (SymImport _ f) \<Rightarrow> skip_imports ns f None xs
    | _ \<Rightarrow> (file, c, x # xs))"

definition found_instead :: "ident \<Rightarrow> symbol \<Rightarrow> nat option ev" where
  "found_instead x s = (case s of
      SymFunction _ \<Rightarrow> ev_fail (diag_decl_error (id_loc x) (IsA (id_name x) ''a function''))
    | SymVariable _ _ _ \<Rightarrow> ev_fail (diag_decl_error (id_loc x) (IsA (id_name x) ''a contract variable''))
    | SymStruct _ _ \<Rightarrow> ev_fail (diag_decl_error (id_loc x) (IsA (id_name x) ''a struct''))
    | SymEnum _ _ \<Rightarrow> ev_fail (diag_decl_error (id_loc x) (IsA (id_name x) ''an enum variable''))
    | SymUserType _ _ \<Rightarrow> ev_fail (diag_decl_error (id_loc x) (IsA (id_name x) ''an user type''))
    | _ \<Rightarrow> (\<lambda>d. None))"

definition contract_of_path :: "namespace \<Rightarrow> nat \<Rightarrow> nat option \<Rightarrow> ident list \<Rightarrow> ident \<Rightarrow> nat option ev" where
  "contract_of_path ns file c xs x = (case xs of
      [] \<Rightarrow> ev_return c
    | y # ys \<Rightarrow> (case or_else (ns_variable_symbols ns (file, None, id_name y)) (ns_function_symbols ns (file, None, id_name y)) of
        None \<Rightarrow> ev_fail (diag_decl_error (id_loc y) (NotFound (id_name y)))
      | Some (SymContract _ n) \<Rightarrow> (case ys of
          [] \<Rightarrow> ev_return (Some n)
        | z # _ \<Rightarrow> ev_fail (diag_decl_error (id_loc x) (NotFound (id_name z))))
      | Some s \<Rightarrow> found_instead y s))"

definition resolve_namespace :: "namespace \<Rightarrow> ident list \<Rightarrow> nat \<Rightarrow> nat option \<Rightarrow> ident \<Rightarrow> symbol option ev" where
  "resolve_namespace ns xs file c x =
    (case skip_imports ns file c xs of (file, c, xs) \<Rightarrow>
      ev_bind (contract_of_path ns file c xs x) (\<lambda>c.
        let n = id_name x;
            s = or_else (ns_variable_symbols ns (file, c, n)) (ns_function_symbols ns (file, c, n))
        in ev_return (if c \<noteq> None
          then or_else s (or_else (ns_variable_symbols ns (file, None, n)) (ns_function_symbols ns (file, None, n)))
          else s)))"

subsection \<open>Types\<close>

fun type_from :: "pexpr pty \<Rightarrow> sty option" where
  "type_from PTBool = Some TBool" | "type_from PTAddress = Some TAddress" | "type_from (PTUint n) = Some (TUint n)"
| "type_from PTString = Some TString" | "type_from PTDynamicBytes = Some TDynamicBytes" | "type_from PTField = Some TField"
| "type_from PTHash = Some THash" | "type_from (PTMapping l k kn v vn) = None"

definition with_dimensions :: "sty \<Rightarrow> (loc \<times> int) option list \<Rightarrow> sty rs" where
  "with_dimensions t ds =
    (if ds = [] then rs_return t
     else rs_bind (rs_ev (resolve_dimensions ds)) (\<lambda>dims. rs_return (TArray t dims)))"

definition bad_key :: "pexpr \<Rightarrow> string \<Rightarrow> 'a rs" where
  "bad_key key what = rs_bind (rs_loc key) (\<lambda>l. rs_fail (diag_decl_error l (MappingKey what)))"

definition mapping_of :: "pexpr \<Rightarrow> sty \<Rightarrow> sty \<Rightarrow> sty rs" where
  "mapping_of key k v = (case k of
      TMapping _ _ \<Rightarrow> bad_key key ''another mapping type''
    | TStruct _ \<Rightarrow> bad_key key ''struct type''
    | TArray _ _ \<Rightarrow> bad_key key ''array type''
    | _ \<Rightarrow> rs_return (TMapping k v))"

definition named_type :: "nat \<Rightarrow> nat option \<Rightarrow> ident list \<Rightarrow> ident \<Rightarrow> (loc \<times> int) option list \<Rightarrow> sty rs" where
  "named_type file c xs x ds =
    rs_bind (rs_get st_ns) (\<lambda>ns. rs_bind (rs_ev (resolve_namespace ns xs file c x)) (\<lambda>s. case s of
      None \<Rightarrow> rs_fail (diag_decl_error (id_loc x) (TypeNotFound (id_name x)))
    | Some (SymEnum _ n) \<Rightarrow> with_dimensions (TEnum n) ds
    | Some (SymStruct _ n) \<Rightarrow> with_dimensions (TStruct n) ds
    | Some (SymContract _ n) \<Rightarrow> with_dimensions (TContract n) ds
    | Some (SymFunction _) \<Rightarrow> rs_fail (diag_decl_error (id_loc x) (IsA (id_name x) ''a function''))
    | Some (SymVariable _ _ _) \<Rightarrow> rs_fail (diag_decl_error (id_loc x) (IsA (id_name x) ''a contract variable''))
    | Some (SymImport _ _) \<Rightarrow> rs_fail (diag_decl_error (id_loc x) (IsA (id_name x) ''an import variable''))
    | Some (SymUserType _ n) \<Rightarrow> rs_return (TUserType n)))"

lemma rs_bind_cong [fundef_cong]:
  "m = m' \<Longrightarrow> (\<And>s x s'. m' s = Some (Inr x, s') \<Longrightarrow> f x = f' x) \<Longrightarrow> rs_bind m f = rs_bind m' f'"
  by (fastforce simp: rs_bind_def fun_eq_iff split: option.split sum.split)

lemma expr_to_type_size:
  "expr_to_type p rec file c e ds s = Some (Inr (xs, e', ds'), s') \<Longrightarrow> size e' \<le> size e"
  by (induction p rec "file" c e ds arbitrary: s rule: expr_to_type.induct)
    (auto simp: rs_return_def rs_bind_def expression_found_def rs_fail_def rs_opt_def rs_panic_def
      split: option.splits sum.splits intro!: le_SucI trans_le_add2)

function resolve_type :: "resolver_parts \<Rightarrow> resolver \<Rightarrow> nat \<Rightarrow> nat option \<Rightarrow> pexpr \<Rightarrow> sty rs" where
  "resolve_type p rec file c e =
    rs_bind (expr_to_type p rec file c e []) (\<lambda>(xs, x, ds). case x of
      PType l t \<Rightarrow>
        if xs \<noteq> [] then rs_panic
        else rs_bind (case t of
            PTMapping ml key kn val vn \<Rightarrow>
              rs_bind (resolve_type p rec file c key) (\<lambda>k.
              rs_bind (resolve_type p rec file c val) (\<lambda>v. mapping_of key k v))
          | _ \<Rightarrow> rs_opt (type_from t)) (\<lambda>t. with_dimensions t ds)
    | PVariable y \<Rightarrow> named_type file c xs y ds
    | _ \<Rightarrow> rs_panic)"
  by auto
termination
  by (relation "measure (\<lambda>(p, rec, file, c, e). size e)") (auto dest!: expr_to_type_size)

declare resolve_type.simps [simp del]

end
