(* ===== verification/Sema_Arith.thy ===== *)
theory Sema_Arith
  imports Sema_Resolver
begin

section \<open>Operators and assignments\<close>

text \<open>
  Model of \<open>src/sema/expression/arithmetic.rs\<close> and \<open>assign.rs\<close>.  \<open>rec\<close> is the function
  \<open>expression\<close> that resolves the operands.
\<close>

subsection \<open>Two operands\<close>

abbreviation "field_operator l \<equiv> rs_fail (diag_error l (Text ''operator is not allowed on type field''))"

definition resolve_both :: "resolver \<Rightarrow> expr_context \<Rightarrow> pexpr \<Rightarrow> pexpr \<Rightarrow> resolve_to \<Rightarrow> (expr \<times> expr) rs" where
  "resolve_both rec cx l r to = rs_bind (rec cx l to) (\<lambda>x. rs_bind (rec cx r to) (\<lambda>y. rs_return (x, y)))"

definition both_coerced :: "expr \<Rightarrow> pexpr \<Rightarrow> expr \<Rightarrow> pexpr \<Rightarrow> sty rs" where
  "both_coerced x l y r =
    rs_bind (rs_ty x) (\<lambda>tx. rs_bind (rs_loc l) (\<lambda>ll. rs_bind (rs_ty y) (\<lambda>ty. rs_bind (rs_loc r) (\<lambda>rl.
      rs_ev (coerce_number tx ll ty rl)))))"

definition cast_both :: "expr \<Rightarrow> pexpr \<Rightarrow> expr \<Rightarrow> pexpr \<Rightarrow> sty \<Rightarrow> (expr \<times> expr) rs" where
  "cast_both x l y r t =
    rs_bind (rs_loc l) (\<lambda>ll. rs_bind (rs_cast x ll t) (\<lambda>x. rs_bind (rs_loc r) (\<lambda>rl. rs_bind (rs_cast y rl t) (\<lambda>y.
      rs_return (x, y)))))"

definition finish_operator :: "arith \<Rightarrow> loc \<Rightarrow> expr \<Rightarrow> pexpr \<Rightarrow> expr \<Rightarrow> pexpr \<Rightarrow> sty \<Rightarrow> expr rs" where
  "finish_operator op l x left y right t =
    rs_bind (cast_both x left y right t) (\<lambda>(x, y). rs_return (EArith op l t x y))"

definition subtract :: "resolver \<Rightarrow> expr_context \<Rightarrow> loc \<Rightarrow> pexpr \<Rightarrow> pexpr \<Rightarrow> resolve_to \<Rightarrow> expr rs" where
  "subtract rec cx l left right to =
    rs_bind (resolve_both rec cx left right to) (\<lambda>(x, y).
    rs_bind (both_used x y) (\<lambda>_.
    rs_bind (both_coerced x left y right) (\<lambda>t. finish_operator Subtract l x left y right t)))"

text \<open>\<open>bitwise_or\<close>, \<open>bitwise_and\<close> and \<open>bitwise_xor\<close>.\<close>

definition bitwise :: "arith \<Rightarrow> resolver \<Rightarrow> expr_context \<Rightarrow> loc \<Rightarrow> pexpr \<Rightarrow> pexpr \<Rightarrow> resolve_to \<Rightarrow> expr rs" where
  "bitwise op rec cx l left right to =
    rs_bind (resolve_both rec cx left right to) (\<lambda>(x, y).
    rs_bind (both_used x y) (\<lambda>_.
    rs_bind (both_coerced x left y right) (\<lambda>t.
      if t = TField then field_operator l else finish_operator op l x left y right t)))"

definition is_zero_literal :: "expr \<Rightarrow> bool" where
  "is_zero_literal e = (case e of ENumber _ _ n \<Rightarrow> n = 0 | _ \<Rightarrow> False)"

text \<open>\<open>divide\<close> and \<open>modulo\<close>.\<close>

definition divide_by :: "arith \<Rightarrow> string \<Rightarrow> resolver \<Rightarrow> expr_context \<Rightarrow> loc \<Rightarrow> pexpr \<Rightarrow> pexpr \<Rightarrow> resolve_to \<Rightarrow> expr rs" where
  "divide_by op what rec cx l left right to =
    rs_bind (resolve_both rec cx left right to) (\<lambda>(x, y).
      if is_zero_literal y then rs_fail (diag_error l (Format ''{} by zero is not allowed.'' [AStr what]))
      else rs_bind (both_used x y) (\<lambda>_.
        rs_bind (both_coerced x left y right) (\<lambda>t.
          if t = TField then field_operator l else finish_operator op l x left y right t)))"

text \<open>Twice the width of a type, at most 256 bits; the width is a \<open>u16\<close>.\<close>

definition double_width :: "resolver_parts \<Rightarrow> sty \<Rightarrow> sty rs" where
  "double_width p t =
    rs_bind (rs_get st_ns) (\<lambda>ns. rs_bind (rs_opt (type_bits ns (rp_fuel p) t)) (\<lambda>n.
      if n * 2 < 2 ^ 16 then rs_return (TUint (min 256 (n * 2))) else rs_panic))"

definition multiply_to :: "resolver \<Rightarrow> expr_context \<Rightarrow> loc \<Rightarrow> pexpr \<Rightarrow> pexpr \<Rightarrow> resolve_to \<Rightarrow> (sty \<Rightarrow> expr \<Rightarrow> expr \<Rightarrow> expr rs) \<Rightarrow> expr rs" where
  "multiply_to rec cx l left right to next =
    rs_bind (resolve_both rec cx left right to) (\<lambda>(x, y).
    rs_bind (both_used x y) (\<lambda>_.
    rs_bind (both_coerced x left y right) (\<lambda>t. next t x y)))"

text \<open>Without a wanted type the operands are resolved again, for twice the width.\<close>

definition multiply :: "resolver_parts \<Rightarrow> resolver \<Rightarrow> expr_context \<Rightarrow> loc \<Rightarrow> pexpr \<Rightarrow> pexpr \<Rightarrow> resolve_to \<Rightarrow> expr rs" where
  "multiply p rec cx l left right to =
    multiply_to rec cx l left right to (\<lambda>t x y.
      if to = Unknown then
        rs_bind (double_width p t) (\<lambda>t'.
          multiply_to rec cx l left right (ToType t') (\<lambda>t x y. finish_operator Multiply l x left y right t))
      else finish_operator Multiply l x left y right t)"

definition addition :: "resolver_parts \<Rightarrow> resolver \<Rightarrow> expr_context \<Rightarrow> loc \<Rightarrow> pexpr \<Rightarrow> pexpr \<Rightarrow> resolve_to \<Rightarrow> expr rs" where
  "addition p rec cx l left right to =
    rs_bind (resolve_both rec cx left right to) (\<lambda>(x, y).
    rs_bind (both_used x y) (\<lambda>_.
    rs_bind (both_coerced x left y right) (\<lambda>t.
    rs_bind (if to = Unknown then rs_bind (double_width p t) (\<lambda>t'. resolve_both rec cx left right (ToType t'))
             else rs_return (x, y)) (\<lambda>(x, y).
      finish_operator Add l x left y right t))))"

definition power_op :: "resolver \<Rightarrow> expr_context \<Rightarrow> loc \<Rightarrow> pexpr \<Rightarrow> pexpr \<Rightarrow> resolve_to \<Rightarrow> expr rs" where
  "power_op rec cx l b e to =
    rs_bind (rec cx b to) (\<lambda>x.
    rs_bind (if to = Unknown then rec cx b (ToType (TUint 256)) else rs_return x) (\<lambda>x.
    rs_bind (rec cx e to) (\<lambda>y.
    rs_bind (both_used x y) (\<lambda>_.
    rs_bind (both_coerced x b y e) (\<lambda>t.
      if t = TField then field_operator l else finish_operator Power l x b y e t)))))"

subsection \<open>Shifts\<close>

text \<open>Both operands of a shift get the width of the left one.\<close>

definition cast_shift_arg :: "resolver_parts \<Rightarrow> loc \<Rightarrow> expr \<Rightarrow> nat \<Rightarrow> sty \<Rightarrow> expr rs" where
  "cast_shift_arg p l e from_width t =
    rs_bind (rs_get st_ns) (\<lambda>ns. rs_bind (rs_opt (type_bits ns (rp_fuel p) t)) (\<lambda>to_width.
      rs_return (if from_width = to_width then e
        else if from_width < to_width then EUnary ZeroExt l t e else EUnary Trunc l t e)))"

definition shift_left :: "resolver_parts \<Rightarrow> resolver \<Rightarrow> expr_context \<Rightarrow> loc \<Rightarrow> pexpr \<Rightarrow> pexpr \<Rightarrow> resolve_to \<Rightarrow> expr rs" where
  "shift_left p rec cx l left right to =
    rs_bind (rec cx left to) (\<lambda>x. rs_bind (rec cx right Unknown) (\<lambda>y.
    rs_bind (both_used x y) (\<lambda>_.
    rs_bind (rs_ty x) (\<lambda>tx. rs_bind (rs_loc left) (\<lambda>ll. rs_bind (rs_ev (number_bits tx ll)) (\<lambda>_.
    rs_bind (rs_ty y) (\<lambda>ty. rs_bind (rs_loc right) (\<lambda>rl. rs_bind (rs_ev (number_bits ty rl)) (\<lambda>width.
      let t = deref_any tx in
      if t = TField then field_operator l
      else rs_bind (rs_cast x l t) (\<lambda>x. rs_bind (cast_shift_arg p l y width t) (\<lambda>y.
        rs_return (EArith ShiftLeft l t x y))))))))))))"

text \<open>Other than \<open>shift_left\<close>, \<open>shift_right\<close> keeps the type of the left operand and does not convert it.\<close>

definition shift_right :: "resolver_parts \<Rightarrow> resolver \<Rightarrow> expr_context \<Rightarrow> loc \<Rightarrow> pexpr \<Rightarrow> pexpr \<Rightarrow> resolve_to \<Rightarrow> expr rs" where
  "shift_right p rec cx l left right to =
    rs_bind (rec cx left to) (\<lambda>x. rs_bind (rec cx right Unknown) (\<lambda>y.
    rs_bind (both_used x y) (\<lambda>_.
    rs_bind (rs_ty x) (\<lambda>t. rs_bind (rs_loc left) (\<lambda>ll. rs_bind (rs_ev (number_bits t ll)) (\<lambda>_.
    rs_bind (rs_ty y) (\<lambda>ty. rs_bind (rs_loc right) (\<lambda>rl. rs_bind (rs_ev (number_bits ty rl)) (\<lambda>width.
      if t = TField then field_operator l
      else rs_bind (cast_shift_arg p l y width t) (\<lambda>y. rs_return (EArith ShiftRight l t x y)))))))))))"

subsection \<open>Comparisons\<close>

definition compare_numbers :: "comparison \<Rightarrow> resolver \<Rightarrow> expr_context \<Rightarrow> loc \<Rightarrow> pexpr \<Rightarrow> pexpr \<Rightarrow> expr rs" where
  "compare_numbers c rec cx l left right =
    rs_bind (resolve_both rec cx left right Integer) (\<lambda>(x, y).
    rs_bind (both_used x y) (\<lambda>_.
    rs_bind (both_coerced x left y right) (\<lambda>t.
      if t = TField then field_operator l
      else rs_bind (cast_both x left y right t) (\<lambda>(x, y). rs_return (ECompare c l x y)))))"

definition is_bytes_literal :: "expr \<Rightarrow> 8 word list option" where
  "is_bytes_literal e = (case e of EBytes _ _ v \<Rightarrow> Some v | _ \<Rightarrow> None)"

definition string_type :: "sty \<Rightarrow> bool" where
  "string_type t \<longleftrightarrow> deref_any t = TString \<or> deref_any t = TDynamicBytes"

definition cast_deref :: "expr \<Rightarrow> sty \<Rightarrow> expr rs" where
  "cast_deref e t = rs_cast e (expr_loc e) (deref_any t)"

definition is_string_equal :: "loc \<Rightarrow> expr \<Rightarrow> sty \<Rightarrow> expr \<Rightarrow> sty \<Rightarrow> expr option rs" where
  "is_string_equal l x tx y ty =
    (if is_bytes_literal x \<noteq> None \<and> string_type ty then
       rs_bind (cast_deref y ty) (\<lambda>y'. rs_return (Some (EStringCompare l (RunTime y') (CompileTime (the (is_bytes_literal x))))))
     else if is_bytes_literal y \<noteq> None \<and> string_type tx then
       rs_bind (cast_deref x tx) (\<lambda>x'. rs_return (Some (EStringCompare l (RunTime x') (CompileTime (the (is_bytes_literal y))))))
     else if deref_any tx = TString \<and> deref_any ty = TString then
       rs_bind (cast_deref x tx) (\<lambda>x'. rs_bind (cast_deref y ty) (\<lambda>y'.
         rs_return (Some (EStringCompare l (RunTime x') (RunTime y')))))
     else rs_return None)"

text \<open>\<open>equal\<close> resolves its operands a second time for the common type, \<open>not_equal\<close> does not.\<close>

definition compare_common :: "loc \<Rightarrow> pexpr \<Rightarrow> pexpr \<Rightarrow> expr \<Rightarrow> expr \<Rightarrow> (expr \<Rightarrow> expr rs) \<Rightarrow> (sty \<Rightarrow> expr rs) \<Rightarrow> expr rs" where
  "compare_common l left right x y same next =
    rs_bind (both_used x y) (\<lambda>_.
    rs_bind (rs_ty x) (\<lambda>tx. rs_bind (rs_ty y) (\<lambda>ty.
    rs_bind (is_string_equal l x tx y ty) (\<lambda>r. case r of
      Some e \<Rightarrow> same e
    | None \<Rightarrow> rs_bind (rs_loc left) (\<lambda>ll. rs_bind (rs_loc right) (\<lambda>rl.
        rs_bind (rs_ev (coerce tx ll ty rl)) next))))))"

definition equal_op :: "resolver \<Rightarrow> expr_context \<Rightarrow> loc \<Rightarrow> pexpr \<Rightarrow> pexpr \<Rightarrow> expr rs" where
  "equal_op rec cx l left right =
    rs_bind (resolve_both rec cx left right Integer) (\<lambda>(x, y).
      compare_common l left right x y rs_return (\<lambda>t.
        rs_bind (resolve_both rec cx left right (ToType t)) (\<lambda>(x, y).
        rs_bind (rs_cast x (expr_loc x) t) (\<lambda>x. rs_bind (rs_cast y (expr_loc y) t) (\<lambda>y.
          rs_return (ECompare Equal l x y))))))"

definition not_equal_op :: "resolver \<Rightarrow> expr_context \<Rightarrow> loc \<Rightarrow> pexpr \<Rightarrow> pexpr \<Rightarrow> expr rs" where
  "not_equal_op rec cx l left right =
    rs_bind (resolve_both rec cx left right Integer) (\<lambda>(x, y).
      compare_common l left right x y (\<lambda>e. rs_return (ENot l e)) (\<lambda>t.
        rs_bind (cast_both x left y right t) (\<lambda>(x, y). rs_return (ECompare NotEqual l x y))))"

subsection \<open>Increment and decrement\<close>

definition constant_name :: "nat option \<Rightarrow> nat \<Rightarrow> string rs" where
  "constant_name c v = rs_bind (rs_get st_ns) (\<lambda>ns. case c of
      Some c \<Rightarrow> rs_bind (rs_at (ns_contracts ns) c) (\<lambda>k. rs_bind (rs_at (c_variables k) v) (\<lambda>x. rs_return (v_name x)))
    | None \<Rightarrow> rs_bind (rs_at (ns_constants ns) v) (\<lambda>x. rs_return (v_name x)))"

definition assign_to_constant :: "loc \<Rightarrow> nat option \<Rightarrow> nat \<Rightarrow> expr rs" where
  "assign_to_constant l c v = rs_bind (constant_name c v) (\<lambda>n.
     rs_fail (diag_error l (Format ''cannot assign to constant {}'' [AStr n])))"

definition incorrect_variable :: "expr \<Rightarrow> nat \<Rightarrow> sty \<Rightarrow> expr rs" where
  "incorrect_variable e v t = rs_bind (rs_get st_sym) (\<lambda>st. rs_bind (rs_opt (get_name st v)) (\<lambda>n.
     rs_fail (diag_error (expr_loc e) (Format ''variable {} of incorrect type {}'' [AStr n, ATy t]))))"

abbreviation "incorrect_type e t \<equiv> rs_fail (diag_error (expr_loc e) (Format ''assigning to incorrect type {}'' [ATy t]))"

definition is_uint :: "sty \<Rightarrow> bool" where
  "is_uint t = (case t of TUint _ \<Rightarrow> True | _ \<Rightarrow> False)"

definition is_number_type :: "sty \<Rightarrow> bool" where
  "is_number_type t \<longleftrightarrow> is_uint t \<or> t = TField"

definition incr_decr_ref :: "unary \<Rightarrow> loc \<Rightarrow> expr \<Rightarrow> sty \<Rightarrow> expr rs" where
  "incr_decr_ref op l var vt = (case vt of
      TRef t \<Rightarrow> if is_number_type t then rs_return (EUnary op l t var) else incorrect_type var t
    | TStorageRef t \<Rightarrow> if is_uint t then rs_return (EUnary op l t var) else incorrect_type var t
    | _ \<Rightarrow> rs_fail (diag_error (expr_loc var) (Text ''expression is not modifiable'')))"

definition incr_decr :: "unary \<Rightarrow> resolver \<Rightarrow> expr_context \<Rightarrow> loc \<Rightarrow> pexpr \<Rightarrow> expr rs" where
  "incr_decr op rec cx l v =
    rs_bind (rec (cx\<lparr>cx_lvalue := True\<rparr>) v Unknown) (\<lambda>var.
    rs_bind (used var) (\<lambda>_.
    rs_bind (rs_ty var) (\<lambda>vt. case var of
      EConstantVariable cl _ c n \<Rightarrow> assign_to_constant cl c n
    | EVariable _ t n \<Rightarrow> if is_number_type t then rs_return (EUnary op l t var) else incorrect_variable var n vt
    | _ \<Rightarrow> incr_decr_ref op l var vt)))"

subsection \<open>Assignments\<close>

abbreviation "not_assignable e \<equiv> rs_fail (diag_error (expr_loc e) (Text ''expression is not assignable''))"

definition assign_cast :: "loc \<Rightarrow> sty \<Rightarrow> expr \<Rightarrow> expr \<Rightarrow> pexpr \<Rightarrow> sty \<Rightarrow> expr rs" where
  "assign_cast l t var val right to =
    rs_bind (rs_loc right) (\<lambda>rl. rs_bind (rs_cast val rl to) (\<lambda>val. rs_return (EAssign l t var val)))"

text \<open>The target is an expression with a reference type; a reference to a reference is loaded.\<close>

definition assign_single_ref :: "loc \<Rightarrow> expr \<Rightarrow> sty \<Rightarrow> expr \<Rightarrow> pexpr \<Rightarrow> expr rs" where
  "assign_single_ref l var vt val right = (case vt of
      TRef t \<Rightarrow> (case t of
          TRef t' \<Rightarrow> rs_bind (rs_cast var l t) (\<lambda>var. assign_cast l t' var val right t')
        | _ \<Rightarrow> assign_cast l t var val right t)
    | TStorageRef t \<Rightarrow> assign_cast l vt var val right t
    | _ \<Rightarrow> not_assignable var)"

definition assign_single :: "resolver \<Rightarrow> expr_context \<Rightarrow> loc \<Rightarrow> pexpr \<Rightarrow> pexpr \<Rightarrow> expr rs" where
  "assign_single rec cx l left right =
    (let cx = cx\<lparr>cx_lvalue := True\<rparr> in
    rs_bind (rec cx left Unknown) (\<lambda>var.
    rs_bind (assigned var) (\<lambda>_.
    rs_bind (rs_ty var) (\<lambda>vt.
    rs_bind (rec cx right (ToType (deref_any vt))) (\<lambda>val.
    rs_bind (rs_check val) (\<lambda>_.
    rs_bind (used val) (\<lambda>_. case var of
      EConstantVariable cl _ c n \<Rightarrow> assign_to_constant cl c n
    | EStorageVariable vl t _ _ \<Rightarrow> assign_cast vl (deref_any t) var val right (deref_any t)
    | EVariable _ t _ \<Rightarrow> assign_cast l t var val right t
    | _ \<Rightarrow> assign_single_ref l var vt val right)))))))"

text \<open>The operation of an assignment with an operator: \<open>set\<close> is brought to the type first.\<close>

definition is_shift :: "arith \<Rightarrow> bool" where
  "is_shift op \<longleftrightarrow> op = ShiftLeft \<or> op = ShiftRight"

definition assign_operand :: "arith \<Rightarrow> loc \<Rightarrow> pexpr \<Rightarrow> pexpr \<Rightarrow> expr \<Rightarrow> sty \<Rightarrow> sty \<Rightarrow> expr rs" where
  "assign_operand op l left right val set_type t =
    (if is_shift op then
       rs_bind (rs_ev (number_bits t l)) (\<lambda>left_length. rs_bind (rs_loc left) (\<lambda>ll.
       rs_bind (rs_ev (number_bits set_type ll)) (\<lambda>right_length.
         rs_return (if left_length = right_length then val
           else if right_length < left_length then EUnary ZeroExt l t val else EUnary Trunc l t val))))
     else rs_bind (rs_loc right) (\<lambda>rl. rs_cast val rl t))"

definition assign_op :: "arith \<Rightarrow> loc \<Rightarrow> pexpr \<Rightarrow> pexpr \<Rightarrow> expr \<Rightarrow> sty \<Rightarrow> expr \<Rightarrow> sty \<Rightarrow> expr rs" where
  "assign_op op l left right val set_type assign t =
    rs_bind (assign_operand op l left right val set_type t) (\<lambda>val.
      if op = Power then rs_panic
      else if op = Divide \<and> is_zero_literal val then rs_fail (diag_error l (Format ''{} by zero is not allowed.'' [AStr ''Division'']))
      else if op = Modulo \<and> is_zero_literal val then rs_fail (diag_error l (Format ''{} by zero is not allowed.'' [AStr ''Modulo'']))
      else rs_return (EArith op l t assign val))"

definition assign_loaded :: "loc \<Rightarrow> expr \<Rightarrow> expr \<Rightarrow> (expr \<Rightarrow> sty \<Rightarrow> expr rs) \<Rightarrow> sty \<Rightarrow> expr rs" where
  "assign_loaded l out var op t =
    rs_bind (rs_cast var l t) (\<lambda>v. rs_bind (op v t) (\<lambda>e. rs_return (EAssign l t out e)))"

definition assign_expr_ref :: "loc \<Rightarrow> expr \<Rightarrow> sty \<Rightarrow> (expr \<Rightarrow> sty \<Rightarrow> expr rs) \<Rightarrow> expr rs" where
  "assign_expr_ref l var vt op = (case vt of
      TRef t \<Rightarrow> (case t of
          TUint n \<Rightarrow> assign_loaded l var var op t
        | TField \<Rightarrow> assign_loaded l var var op t
        | TRef t' \<Rightarrow> if is_uint t' then rs_bind (rs_cast var l t) (\<lambda>v. assign_loaded l v var op t') else incorrect_type var t
        | _ \<Rightarrow> incorrect_type var t)
    | TStorageRef t \<Rightarrow> if is_uint t then assign_loaded l var var op t else incorrect_type var t
    | _ \<Rightarrow> not_assignable var)"

definition assign_target :: "loc \<Rightarrow> expr \<Rightarrow> sty \<Rightarrow> (expr \<Rightarrow> sty \<Rightarrow> expr rs) \<Rightarrow> expr rs" where
  "assign_target l var vt op = (case var of
      EConstantVariable cl _ c n \<Rightarrow> assign_to_constant cl c n
    | EVariable _ _ n \<Rightarrow>
        if is_number_type vt then rs_bind (op var vt) (\<lambda>e. rs_return (EAssign l TVoid var e))
        else incorrect_variable var n vt
    | _ \<Rightarrow> assign_expr_ref l var vt op)"

definition assign_expr :: "arith \<Rightarrow> resolver \<Rightarrow> expr_context \<Rightarrow> loc \<Rightarrow> pexpr \<Rightarrow> pexpr \<Rightarrow> expr rs" where
  "assign_expr op rec cx l left right =
    (let cx = cx\<lparr>cx_lvalue := True\<rparr> in
    rs_bind (rec cx left Unknown) (\<lambda>var.
    rs_bind (assigned var) (\<lambda>_.
    rs_bind (rs_ty var) (\<lambda>vt.
      if op \<notin> {Add, Subtract, Multiply} \<and> vt = TField
      then rs_fail (diag_error (expr_loc var) (Text ''operator is not allowed on type field''))
      else rs_bind (rec cx right (if is_shift op then Unknown else ToType (deref_any vt))) (\<lambda>val.
        rs_bind (used val) (\<lambda>_.
        rs_bind (rs_ty val) (\<lambda>set_type.
          assign_target l var vt (assign_op op l left right val set_type))))))))"

end
