(* ===== verification/Sema_Access.thy ===== *)
theory Sema_Access
  imports Sema_Resolve_Type Sema_Arith
begin

section \<open>Variables, subscripts and members\<close>

text \<open>
  Model of \<open>variable.rs\<close>, \<open>subscript.rs\<close>, \<open>slice.rs\<close>, \<open>member_access.rs\<close> and
  \<open>constructor.rs\<close> under \<open>src/sema/expression\<close>.
\<close>

subsection \<open>Names\<close>

definition available_functions :: "string \<Rightarrow> nat option \<Rightarrow> namespace \<Rightarrow> nat list option" where
  "available_functions n c ns = (case c of
      None \<Rightarrow> Some []
    | Some c \<Rightarrow> do {
        k \<leftarrow> Sema_AST.at (ns_contracts ns) c;
        fs \<leftarrow> those (map (Sema_AST.at (ns_functions ns)) (c_all_functions k));
        Some (map fst (filter (\<lambda>(i, f). fd_name f = n \<and> fd_has_body f) (zip (c_all_functions k) fs))) })"

definition function_expr :: "ident \<Rightarrow> namespace \<Rightarrow> nat \<Rightarrow> expr option" where
  "function_expr x ns i = do {
     f \<leftarrow> Sema_AST.at (ns_functions ns) i;
     Some (EFunction (id_loc x) (TFunction (map p_ty (fd_params f)) (map p_ty (fd_returns f))) i None) }"

definition wants_function :: "resolve_to \<Rightarrow> bool" where
  "wants_function to = (case to of ToType (TFunction _ _) \<Rightarrow> True | _ \<Rightarrow> False)"

definition contract_variable_expr :: "ident \<Rightarrow> expr_context \<Rightarrow> nat \<Rightarrow> nat \<Rightarrow> expr rs" where
  "contract_variable_expr x cx c v =
    rs_bind (rs_get st_ns) (\<lambda>ns. rs_bind (rs_at (ns_contracts ns) c) (\<lambda>k. rs_bind (rs_at (c_variables k) v) (\<lambda>var.
      if v_constant var then rs_return (EConstantVariable (id_loc x) (v_ty var) (Some c) v)
      else if cx_constant cx then
        rs_fail (diag_error (id_loc x) (Format ''cannot read contract variable {} in constant expression'' [AStr (id_name x)]))
      else rs_return (EStorageVariable (id_loc x) (TStorageRef (v_ty var)) c v))))"

definition function_variable_expr :: "ident \<Rightarrow> expr_context \<Rightarrow> expr rs" where
  "function_variable_expr x cx =
    rs_bind (rs_get st_ns) (\<lambda>ns.
    rs_bind (rs_opt (available_functions (id_name x) (cx_contract_no cx) ns)) (\<lambda>fs.
    rs_bind (rs_opt (those (map (function_expr x ns) fs))) (\<lambda>es. case es of
      [e] \<Rightarrow> rs_return e
    | _ \<Rightarrow> rs_fail (diag_error (id_loc x) (Format ''function {} is overloaded'' [AStr (id_name x)])))))"

definition symbol_expr :: "ident \<Rightarrow> expr_context \<Rightarrow> symbol option \<Rightarrow> expr rs" where
  "symbol_expr x cx sy = (case sy of
      Some (SymVariable _ c v) \<Rightarrow> (case c of
          Some c \<Rightarrow> contract_variable_expr x cx c v
        | None \<Rightarrow> rs_bind (rs_get st_ns) (\<lambda>ns. rs_bind (rs_at (ns_constants ns) v) (\<lambda>var.
            rs_return (EConstantVariable (id_loc x) (v_ty var) None v))))
    | Some (SymFunction _) \<Rightarrow> function_variable_expr x cx
    | _ \<Rightarrow> rs_fail (wrong_symbol sy x))"

definition variable_expr :: "ident \<Rightarrow> expr_context \<Rightarrow> resolve_to \<Rightarrow> expr rs" where
  "variable_expr x cx to =
    rs_bind (rs_get (\<lambda>s. st_find (st_sym s) (id_name x))) (\<lambda>v. case v of
      Some v \<Rightarrow>
        if cx_constant cx then
          rs_fail (diag_error (id_loc x) (Format ''cannot read variable {} in constant expression'' [AStr (id_name x)]))
        else rs_return (EVariable (id_loc x) (var_ty v) (var_pos v))
    | None \<Rightarrow> rs_bind (rs_get st_ns) (\<lambda>ns.
        symbol_expr x cx (resolve_var ns (cx_file_no cx) (cx_contract_no cx) x (wants_function to))))"

subsection \<open>Subscripts\<close>

definition mapping_subscript :: "resolver \<Rightarrow> expr_context \<Rightarrow> loc \<Rightarrow> expr \<Rightarrow> pexpr \<Rightarrow> expr rs" where
  "mapping_subscript rec cx l m index =
    rs_bind (rs_ty m) (\<lambda>t. rs_bind (rs_opt (storage_array_elem t)) (\<lambda>elem. case deref_any t of
      TMapping key _ \<Rightarrow>
        rs_bind (rec cx index (ToType key)) (\<lambda>i. rs_bind (rs_loc index) (\<lambda>il. rs_bind (rs_cast i il key) (\<lambda>i.
          rs_return (ESubscript l elem t m i))))
    | _ \<Rightarrow> rs_panic))"

definition is_indexed :: "sty \<Rightarrow> bool" where
  "is_indexed t = (case t of TArray _ _ \<Rightarrow> True | TSlice _ \<Rightarrow> True | TString \<Rightarrow> True | TDynamicBytes \<Rightarrow> True | _ \<Rightarrow> False)"

text \<open>The array itself is loaded unless it is a reference to a value of fixed size.\<close>

definition load_array :: "expr \<Rightarrow> sty \<Rightarrow> expr rs" where
  "load_array a t =
    rs_bind (rs_opt (is_fixed_reference_type (deref_memory t))) (\<lambda>fixed.
      rs_cast a (expr_loc a) (if fixed then t else deref_any t))"

abbreviation "not_an_array e \<equiv> rs_fail (diag_error (expr_loc e) (Text ''expression is not an array''))"

definition array_subscript :: "resolver \<Rightarrow> expr_context \<Rightarrow> loc \<Rightarrow> pexpr \<Rightarrow> pexpr \<Rightarrow> expr rs" where
  "array_subscript rec cx l array index =
    rs_bind (rec cx array Unknown) (\<lambda>a. rs_bind (rs_ty a) (\<lambda>ta.
      if is_mapping ta then mapping_subscript rec cx l a index
      else rs_bind (rec cx index (ToType (TUint 32))) (\<lambda>i. rs_bind (rs_ty i) (\<lambda>it. rs_bind (rs_check i) (\<lambda>_.
        if \<not> is_uint (deref_any it)
        then rs_fail (diag_error l (Format ''array subscript must be an unsigned integer, not {}'' [ATy it]))
        else rs_bind (rs_cast i (expr_loc i) (deref_any it)) (\<lambda>i.
          if \<not> is_indexed (deref_any ta) then not_an_array a
          else if is_contract_storage ta then
            rs_bind (rs_opt (storage_array_elem ta)) (\<lambda>elem. rs_return (ESubscript l elem ta a i))
          else rs_bind (rs_opt (array_deref ta)) (\<lambda>elem. rs_bind (load_array a ta) (\<lambda>a.
            rs_return (ESubscript l elem ta a i)))))))))"

definition slice_bound :: "resolver \<Rightarrow> expr_context \<Rightarrow> loc \<Rightarrow> pexpr option \<Rightarrow> expr option rs" where
  "slice_bound rec cx l e = (case e of
      None \<Rightarrow> rs_return None
    | Some e \<Rightarrow>
        rs_bind (rec cx e (ToType (TUint 32))) (\<lambda>b. rs_bind (rs_ty b) (\<lambda>t.
          if \<not> is_uint (deref_any t)
          then rs_fail (diag_error l (Format ''array slice must be an unsigned integer, not {}'' [ATy t]))
          else rs_bind (rs_check b) (\<lambda>_. rs_bind (rs_cast b (expr_loc b) (deref_any t)) (\<lambda>b. rs_return (Some b))))))"

definition array_slice :: "resolver \<Rightarrow> expr_context \<Rightarrow> loc \<Rightarrow> pexpr \<Rightarrow> pexpr option \<Rightarrow> pexpr option \<Rightarrow> expr rs" where
  "array_slice rec cx l array first stop =
    rs_bind (rec cx array Unknown) (\<lambda>a. rs_bind (rs_ty a) (\<lambda>ta.
      if is_mapping ta then rs_fail (diag_error l (Text ''The slice operation cannot be applied to mapping types.''))
      else rs_bind (slice_bound rec cx l first) (\<lambda>s. rs_bind (slice_bound rec cx l stop) (\<lambda>e.
        if \<not> is_indexed (deref_any ta) then not_an_array a
        else if is_contract_storage ta then
          rs_fail (diag_error l (Text ''The slice operation cannot be applied to storage var.''))
        else rs_bind (rs_opt (array_deref ta)) (\<lambda>elem. rs_bind (load_array a ta) (\<lambda>a.
          rs_return (EArraySlice l elem ta a s e)))))))"

subsection \<open>Members\<close>

text \<open>The leading names of a path that are imports; other than in \<open>resolve_namespace\<close> the contract is kept.\<close>

fun import_file :: "namespace \<Rightarrow> nat \<Rightarrow> ident list \<Rightarrow> nat \<times> ident list" where
  "import_file ns file [] = (file, [])"
| "import_file ns file (x # xs) = (case ns_variable_symbols ns (file, None, id_name x) of
      Some (SymImport _ f) \<Rightarrow> import_file ns f xs
    | _ \<Rightarrow> (file, x # xs))"

definition value_index :: "string \<Rightarrow> enum_decl \<Rightarrow> nat option" where
  "value_index n en = map_option fst (find (\<lambda>(i, v). fst v = n) (List.enumerate 0 (en_values en)))"

definition enum_member :: "namespace \<Rightarrow> loc \<Rightarrow> nat \<Rightarrow> ident \<Rightarrow> expr option rs" where
  "enum_member ns l e x =
    rs_bind (rs_at (ns_enums ns) e) (\<lambda>en. case value_index (id_name x) en of
      Some n \<Rightarrow> rs_return (Some (ENumber l (TEnum e) (int n)))
    | None \<Rightarrow> rs_fail (diag_error (id_loc x) (Format ''enum {} does not have value {}''
        [AStr (qualified_name (en_contract en) (en_name en)), AStr (id_name x)])))"

definition enum_value :: "loc \<Rightarrow> pexpr \<Rightarrow> ident \<Rightarrow> nat \<Rightarrow> nat option \<Rightarrow> expr option rs" where
  "enum_value l e x file c =
    rs_bind (rs_get st_ns) (\<lambda>ns. case member_path e of
      None \<Rightarrow> rs_return None
    | Some xs \<Rightarrow> (case import_file ns file xs of
        (_, []) \<Rightarrow> rs_return None
      | (file, y # ys) \<Rightarrow>
          (case (case resolve_contract ns file y of Some k \<Rightarrow> (Some k, ys) | None \<Rightarrow> (c, y # ys)) of
            (c, [z]) \<Rightarrow> (case resolve_enum ns file c z of
                Some e \<Rightarrow> enum_member ns l e x
              | None \<Rightarrow> rs_return None)
          | _ \<Rightarrow> rs_return None)))"

text \<open>A constant of a contract; naming it marks it as read.\<close>

definition variable_index :: "string \<Rightarrow> contract \<Rightarrow> (nat \<times> svariable) option" where
  "variable_index n k = find (\<lambda>(i, v). v_name v = n) (List.enumerate 0 (c_variables k))"

definition contract_constant :: "loc \<Rightarrow> pexpr \<Rightarrow> ident \<Rightarrow> nat \<Rightarrow> resolve_to \<Rightarrow> expr option rs" where
  "contract_constant l e x file to = (case e of
      PVariable y \<Rightarrow>
        rs_bind (rs_get (\<lambda>s. st_find (st_sym s) (id_name y))) (\<lambda>v.
        rs_bind (rs_get st_ns) (\<lambda>ns.
          if v \<noteq> None then rs_return None
          else (case resolve_contract ns file y of
              None \<Rightarrow> rs_return None
            | Some c \<Rightarrow> rs_bind (rs_at (ns_contracts ns) c) (\<lambda>k. case variable_index (id_name x) k of
                  None \<Rightarrow> rs_return None
                | Some (i, v) \<Rightarrow>
                    if \<not> v_constant v then
                      (if wants_function to then rs_return None
                       else rs_fail (diag_error l (Format ''need instance of contract {} to get variable value {}''
                         [AStr (c_name k), AStr (v_name v)])))
                    else rs_bind (rs_usage (storage_read c i)) (\<lambda>_.
                      rs_return (Some (EConstantVariable l (v_ty v) (Some c) i)))))))
    | _ \<Rightarrow> rs_return None)"

definition member_index :: "string \<Rightarrow> parameter list \<Rightarrow> (nat \<times> parameter) option" where
  "member_index n fs = find (\<lambda>(i, f). name_as_str f = n) (List.enumerate 0 fs)"

text \<open>A member of a structure; \<open>wrap\<close> is the kind of reference it has, \<open>shown\<close> how the structure is printed.\<close>

definition struct_member :: "expr \<Rightarrow> nat \<Rightarrow> ident \<Rightarrow> (sty \<Rightarrow> sty) \<Rightarrow> (struct_decl \<Rightarrow> string) \<Rightarrow> expr rs" where
  "struct_member e n x wrap shown =
    rs_bind (rs_get st_ns) (\<lambda>ns. rs_bind (rs_at (ns_structs ns) n) (\<lambda>sd. case member_index (id_name x) (sd_fields sd) of
      Some (i, f) \<Rightarrow> rs_return (EStructMember (id_loc x) (wrap (p_ty f)) e i)
    | None \<Rightarrow> rs_fail (diag_error (id_loc x) (Format ''struct {} does not have a field called {}''
        [AStr (shown sd), AStr (id_name x)]))))"

definition array_length_member :: "resolver_parts \<Rightarrow> loc \<Rightarrow> expr \<Rightarrow> array_length list \<Rightarrow> expr rs" where
  "array_length_member p l e dims =
    (let length_call = rs_return (ELibFunction l [TUint 32] ArrayLength [e]) in
     rs_bind (rs_opt (last_opt dims)) (\<lambda>d. case d of
       Dynamic \<Rightarrow> length_call
     | Fixed n \<Rightarrow> rs_bind (assigned e) (\<lambda>_. rs_bind (used e) (\<lambda>_. rs_bind (rs_get st_ns) (\<lambda>ns.
         rs_ev (bigint_to_expression ns (rp_fuel p) l n (ToType (TUint 32))))))
     | AnyFixed \<Rightarrow> rs_panic))"

definition storage_length :: "ident \<Rightarrow> expr \<Rightarrow> expr rs" where
  "storage_length x e = rs_bind (rs_ty e) (\<lambda>t. rs_bind (rs_opt (storage_array_elem t)) (\<lambda>elem.
     rs_return (EStorageArrayLength (id_loc x) (TUint 32) e (deref_into elem))))"

definition member_of :: "resolver_parts \<Rightarrow> loc \<Rightarrow> expr \<Rightarrow> sty \<Rightarrow> ident \<Rightarrow> expr rs" where
  "member_of p l e t x =
    (let len = (id_name x = ''length'');
         missing = rs_fail (diag_error l (NotFound (id_name x)))
     in case t of
       TArray _ dims \<Rightarrow> if len then array_length_member p l e dims else missing
     | TString \<Rightarrow> if len then rs_return (ELibFunction l [TUint 32] ArrayLength [e]) else missing
     | TDynamicBytes \<Rightarrow> if len then rs_return (ELibFunction l [TUint 32] ArrayLength [e]) else missing
     | TSlice _ \<Rightarrow> if len then rs_return (ELibFunction l [TUint 32] ArrayLength [e]) else missing
     | TStorageRef (TStruct n) \<Rightarrow> struct_member e n x TStorageRef sd_name
     | TStorageRef (TArray _ _) \<Rightarrow> if len then storage_length x e else missing
     | TStorageRef TDynamicBytes \<Rightarrow> if len then storage_length x e else missing
     | TStorageRef TString \<Rightarrow> if len then storage_length x e else missing
     | _ \<Rightarrow> missing)"

text \<open>
  The table of library variables is empty, so that no name is a library namespace.  A reference is loaded
  before its length is taken; the load is given the type of the reference.
\<close>

definition member_access :: "resolver_parts \<Rightarrow> resolver \<Rightarrow> expr_context \<Rightarrow> loc \<Rightarrow> pexpr \<Rightarrow> ident \<Rightarrow> resolve_to \<Rightarrow> expr rs" where
  "member_access p rec cx l e x to =
    rs_bind (enum_value l e x (cx_file_no cx) (cx_contract_no cx)) (\<lambda>r. case r of
      Some v \<Rightarrow> rs_return v
    | None \<Rightarrow> rs_bind (contract_constant l e x (cx_file_no cx) to) (\<lambda>r. case r of
        Some v \<Rightarrow> rs_return v
      | None \<Rightarrow> rs_bind (rec cx e to) (\<lambda>v. rs_bind (rs_ty v) (\<lambda>t. case deref_memory t of
            TStruct n \<Rightarrow> struct_member v n x TRef (\<lambda>sd. qualified_name (sd_contract sd) (sd_name sd))
          | _ \<Rightarrow> (case t of
              TRef t' \<Rightarrow> member_of p l (EUnary Load l t v) t' x
            | _ \<Rightarrow> member_of p l v t x)))))"

subsection \<open>Allocation\<close>

text \<open>Why a type cannot be allocated with \<open>new\<close>.\<close>

definition not_allocatable :: "sty \<Rightarrow> message option" where
  "not_allocatable t = (case t of
      TArray e dims \<Rightarrow> (case last_opt dims of
          Some (Fixed _) \<Rightarrow> Some (Format ''new cannot allocate fixed array type {}'' [ATy e])
        | _ \<Rightarrow> None)
    | TString \<Rightarrow> None
    | TDynamicBytes \<Rightarrow> None
    | _ \<Rightarrow> Some (Format ''new cannot allocate type {}'' [ATy t]))"

definition allocation :: "resolver \<Rightarrow> expr_context \<Rightarrow> loc \<Rightarrow> sty \<Rightarrow> pexpr list \<Rightarrow> expr rs" where
  "allocation rec cx l t args = (case args of
      [arg] \<Rightarrow>
        rs_bind (rs_loc arg) (\<lambda>al. rs_bind (rec cx arg (ToType (TUint 32))) (\<lambda>n. rs_bind (used n) (\<lambda>_.
        rs_bind (rs_ty n) (\<lambda>nt.
          if \<not> is_uint (deref_any nt)
          then rs_fail (diag_error (expr_loc n) (Text ''new dynamic array should have an unsigned length argument''))
          else rs_bind (rs_cast n al (TUint 32)) (\<lambda>n. rs_return (EAllocDynamicBytes l t n None))))))
    | _ \<Rightarrow> rs_fail (diag_error l (Text ''new dynamic array should have a single length argument'')))"

definition new_expr :: "resolver_parts \<Rightarrow> resolver \<Rightarrow> expr_context \<Rightarrow> loc \<Rightarrow> pexpr \<Rightarrow> pexpr list \<Rightarrow> expr rs" where
  "new_expr p rec cx l t args =
    (let t = (case remove_parenthesis t of PUnary PNew _ t' \<Rightarrow> t' | _ \<Rightarrow> t) in
    rs_bind (resolve_type p rec (cx_file_no cx) (cx_contract_no cx) t) (\<lambda>t. case not_allocatable t of
      Some m \<Rightarrow> rs_fail (diag_error l m)
    | None \<Rightarrow> allocation rec cx l t args))"

end
