(* ===== verification/Sema_Call.thy ===== *)
theory Sema_Call
  imports Sema_Literals Sema_Access
begin

section \<open>Calls\<close>

text \<open>
  Model of \<open>src/sema/expression/function_call.rs\<close> and of the calls of library functions in
  \<open>src/sema/corelib.rs\<close>.  Overloads are tried one after the other; the diagnostics of the candidates go
  to collections of their own.
\<close>

subsection \<open>Arguments\<close>

definition function_returns :: "function_decl \<Rightarrow> resolve_to \<Rightarrow> sty list" where
  "function_returns f to = (if fd_returns f \<noteq> [] \<and> to \<noteq> Discard then map p_ty (fd_returns f) else [TVoid])"

definition function_type :: "function_decl \<Rightarrow> bool \<Rightarrow> resolve_to \<Rightarrow> sty" where
  "function_type f external to =
    (if external then TExternalFunction (map p_ty (fd_params f)) (function_returns f to)
     else TFunction (map p_ty (fd_params f)) (function_returns f to))"

definition convert_argument :: "resolver \<Rightarrow> expr_context \<Rightarrow> pexpr \<Rightarrow> sty \<Rightarrow> expr rs" where
  "convert_argument rec cx a t = rs_bind (rec cx a (ToType t)) (\<lambda>x. rs_cast x (expr_loc x) t)"

definition evaluate_argument :: "resolver \<Rightarrow> expr_context \<Rightarrow> pexpr \<Rightarrow> sty \<Rightarrow> diagnostics \<Rightarrow> (expr option \<times> diagnostics) rs" where
  "evaluate_argument rec cx a t errs = rs_into errs (convert_argument rec cx a t)"

fun evaluate_arguments ::
  "resolver \<Rightarrow> expr_context \<Rightarrow> (pexpr \<times> sty) list \<Rightarrow> diagnostics \<Rightarrow> (expr list \<times> bool \<times> diagnostics) rs" where
  "evaluate_arguments rec cx [] errs = rs_return ([], True, errs)"
| "evaluate_arguments rec cx ((a, t) # args) errs =
    rs_bind (evaluate_argument rec cx a t errs) (\<lambda>(r, errs).
    rs_bind (evaluate_arguments rec cx args errs) (\<lambda>(xs, ok, errs). case r of
      Some x \<Rightarrow> rs_return (x # xs, ok, errs)
    | None \<Rightarrow> rs_return (xs, False, errs)))"

text \<open>All arguments are resolved once without a wanted type, also behind one that fails.\<close>

fun any_fails :: "resolver \<Rightarrow> expr_context \<Rightarrow> pexpr list \<Rightarrow> bool rs" where
  "any_fails rec cx [] = rs_return False"
| "any_fails rec cx (a # args) =
    rs_bind (rs_try (rec cx a Unknown)) (\<lambda>r. rs_bind (any_fails rec cx args) (\<lambda>b. rs_return (r = None \<or> b)))"

definition call_in_constant :: "loc \<Rightarrow> 'a rs" where
  "call_in_constant l = rs_fail (diag_error l (Text ''cannot call function in constant expression''))"

definition internal_call :: "loc \<Rightarrow> nat \<Rightarrow> function_decl \<Rightarrow> resolve_to \<Rightarrow> expr list \<Rightarrow> expr" where
  "internal_call l n f to args = EFunctionCall l (function_returns f to) (EFunction l (function_type f False to) n None) args"

subsection \<open>Internal calls with positional arguments\<close>

text \<open>
  The candidates in order.  The errors of all candidates are collected in one list; with more than one
  candidate an error that is not about a conversion ends the search.
\<close>

fun try_positional ::
  "resolver \<Rightarrow> expr_context \<Rightarrow> loc \<Rightarrow> pexpr list \<Rightarrow> bool \<Rightarrow> resolve_to \<Rightarrow> nat list \<Rightarrow> diagnostics \<Rightarrow> (diagnostics + expr) rs" where
  "try_positional rec cx l args many to [] errs = rs_return (Inl errs)"
| "try_positional rec cx l args many to (n # ns) errs =
    rs_bind (rs_get st_ns) (\<lambda>nsp. rs_bind (rs_at (ns_functions nsp) n) (\<lambda>f.
      if length (fd_params f) \<noteq> length args then
        try_positional rec cx l args many to ns (push_diag (diag_error l
          (Format ''fn expects {} arguments, {} provided'' [ANum (int (length (fd_params f))), ANum (int (length args))])) errs)
      else rs_bind (evaluate_arguments rec cx (zip args (map p_ty (fd_params f))) errs) (\<lambda>(xs, ok, errs).
        if ok then rs_return (Inr (internal_call l n f to xs))
        else rs_bind (if many then rs_extend_non_casting errs else rs_return False) (\<lambda>stop.
          if stop then rs_err else try_positional rec cx l args many to ns errs))))"

definition no_match :: "loc \<Rightarrow> nat list \<Rightarrow> diagnostic \<Rightarrow> string \<Rightarrow> diagnostics + expr \<Rightarrow> expr rs" where
  "no_match l ns unknown overloaded r = (case r of
      Inr e \<Rightarrow> rs_return e
    | Inl errs \<Rightarrow>
        if length ns = 0 then rs_fail unknown
        else if length ns = 1 then rs_bind (rs_extend errs) (\<lambda>_. rs_err)
        else rs_fail (diag_error l (Text overloaded)))"

definition function_call_pos_args ::
  "resolver \<Rightarrow> expr_context \<Rightarrow> loc \<Rightarrow> ident \<Rightarrow> pexpr list \<Rightarrow> nat list \<Rightarrow> resolve_to \<Rightarrow> expr rs" where
  "function_call_pos_args rec cx l x args ns to =
    (if cx_constant cx then call_in_constant l
     else rs_bind (any_fails rec cx args) (\<lambda>fails.
       if fails then rs_err
       else rs_bind (try_positional rec cx l args (length ns > 1) to ns no_diagnostics)
         (no_match l ns (diag_error (id_loc x) (Format ''unknown fn or type with name {}'' [AStr (id_name x)]))
           ''cannot find overloaded fn which matches signature'')))"

subsection \<open>Internal calls with named arguments\<close>

fun duplicate_arguments :: "resolver \<Rightarrow> expr_context \<Rightarrow> string list \<Rightarrow> pexpr named_argument list \<Rightarrow> unit rs" where
  "duplicate_arguments rec cx seen [] = rs_return ()"
| "duplicate_arguments rec cx seen (a # args) =
    (let n = id_name (na_name a); rest = duplicate_arguments rec cx (n # seen) args
     in if n \<in> set seen then
          rs_bind (rs_push (diag_error (id_loc (na_name a)) (Format ''duplicate argument with name {}'' [AStr n]))) (\<lambda>_.
          rs_bind (rs_try (rec cx (na_expr a) Unknown)) (\<lambda>_. rest))
        else rest)"

text \<open>The last argument with a name is the one that is used.\<close>

definition argument_named :: "pexpr named_argument list \<Rightarrow> string \<Rightarrow> pexpr option" where
  "argument_named args n = map_of (rev (map (\<lambda>a. (id_name (na_name a), na_expr a)) args)) n"

fun named_arguments ::
  "resolver \<Rightarrow> expr_context \<Rightarrow> loc \<Rightarrow> string \<Rightarrow> pexpr named_argument list \<Rightarrow> parameter list \<Rightarrow> diagnostics \<Rightarrow>
    (expr list \<times> bool \<times> diagnostics) rs" where
  "named_arguments rec cx l fname args [] errs = rs_return ([], True, errs)"
| "named_arguments rec cx l fname args (p # ps) errs =
    (if p_name p = None then named_arguments rec cx l fname args ps errs
     else (case argument_named args (name_as_str p) of
         None \<Rightarrow>
           rs_bind (rs_push (diag_cast_error l
             (Format ''missing argument {} to function {}'' [AStr (name_as_str p), AStr fname]))) (\<lambda>_.
           rs_bind (named_arguments rec cx l fname args ps errs) (\<lambda>(xs, _, errs). rs_return (xs, False, errs)))
       | Some a \<Rightarrow>
           rs_bind (evaluate_argument rec cx a (p_ty p) errs) (\<lambda>(r, errs).
           rs_bind (named_arguments rec cx l fname args ps errs) (\<lambda>(xs, ok, errs). case r of
             Some x \<Rightarrow> rs_return (x # xs, ok, errs)
           | None \<Rightarrow> rs_return (xs, False, errs)))))"

definition named_errors :: "loc \<Rightarrow> function_decl \<Rightarrow> nat \<Rightarrow> diagnostics \<Rightarrow> bool \<times> diagnostics" where
  "named_errors l f given errs =
    (let unnamed = length (filter (\<lambda>p. p_name p = None) (fd_params f))
     in if unnamed > 0 then (False, push_diag (diag_cast_error_with_note l
          (Format ''function cannot be called with named arguments as {} of its parameters do not have names'' [ANum (int unnamed)])
          (fd_loc f) (Format ''definition of {}'' [AStr (fd_name f)])) errs)
        else if length (fd_params f) \<noteq> given then (False, push_diag (diag_cast_error l
          (Format ''function expects {} arguments, {} provided'' [ANum (int (length (fd_params f))), ANum (int given)])) errs)
        else (True, errs))"

fun try_named ::
  "resolver \<Rightarrow> expr_context \<Rightarrow> loc \<Rightarrow> string \<Rightarrow> pexpr named_argument list \<Rightarrow> resolve_to \<Rightarrow> nat list \<Rightarrow> diagnostics \<Rightarrow>
    (diagnostics + expr) rs" where
  "try_named rec cx l fname args to [] errs = rs_return (Inl errs)"
| "try_named rec cx l fname args to (n # ns) errs =
    rs_bind (rs_get st_ns) (\<lambda>nsp. rs_bind (rs_at (ns_functions nsp) n) (\<lambda>f.
      case named_errors l f (length args) errs of (ok, errs) \<Rightarrow>
      rs_bind (named_arguments rec cx l fname args (fd_params f) errs) (\<lambda>(xs, ok', errs).
        if ok \<and> ok' then rs_return (Inr (internal_call l n f to xs))
        else rs_bind (rs_extend_non_casting errs) (\<lambda>stop.
          if stop then rs_err else try_named rec cx l fname args to ns errs))))"

definition function_call_named_args ::
  "resolver \<Rightarrow> expr_context \<Rightarrow> loc \<Rightarrow> ident \<Rightarrow> pexpr named_argument list \<Rightarrow> nat list \<Rightarrow> resolve_to \<Rightarrow> expr rs" where
  "function_call_named_args rec cx l x args ns to =
    rs_bind (duplicate_arguments rec cx [] args) (\<lambda>_.
    rs_bind (try_named rec cx l (id_name x) args to ns no_diagnostics)
      (no_match l ns (diag_error (id_loc x) (Format ''unknown function or type {}'' [AStr (id_name x)]))
        ''cannot find overloaded function which matches signature''))"

subsection \<open>Library functions\<close>

text \<open>An argument without a parameter is resolved but not passed on.\<close>

fun library_arguments ::
  "resolver \<Rightarrow> expr_context \<Rightarrow> pexpr list \<Rightarrow> sty list \<Rightarrow> diagnostics \<Rightarrow> (expr list \<times> bool \<times> diagnostics) rs" where
  "library_arguments rec cx [] ts errs = rs_return ([], True, errs)"
| "library_arguments rec cx (a # args) [] errs =
    rs_bind (rs_into errs (rec cx a Unknown)) (\<lambda>(r, errs).
    rs_bind (library_arguments rec cx args [] errs) (\<lambda>(xs, ok, errs). rs_return (xs, ok \<and> r \<noteq> None, errs)))"
| "library_arguments rec cx (a # args) (t # ts) errs =
    rs_bind (evaluate_argument rec cx a t errs) (\<lambda>(r, errs).
    rs_bind (library_arguments rec cx args ts errs) (\<lambda>(xs, ok, errs). case r of
      Some x \<Rightarrow> rs_return (x # xs, ok, errs)
    | None \<Rightarrow> rs_return (xs, False, errs)))"

definition library_errors :: "expr_context \<Rightarrow> loc \<Rightarrow> prototype \<Rightarrow> nat \<Rightarrow> diagnostics \<Rightarrow> bool \<times> diagnostics" where
  "library_errors cx l f given errs =
    (let constant_error = diag_cast_error l (Format ''cannot call function {} in constant expression'' [AStr (pt_name f)]);
         number_error = diag_cast_error l (Format ''builtin function {} expects {} arguments, {} provided''
           [AStr (pt_name f), ANum (int (length (pt_params f))), ANum (int given)]);
         errs = (if cx_constant cx then push_diag constant_error errs else errs);
         errs = (if length (pt_params f) \<noteq> given then push_diag number_error errs else errs)
     in (\<not> cx_constant cx \<and> length (pt_params f) = given, errs))"

text \<open>The first four bytes of the hash of a signature, as a big-endian number.\<close>

definition selector_value :: "8 word list \<Rightarrow> int" where
  "selector_value bs = fold (\<lambda>b n. n * 256 + uint b) (take 4 bs) 0"

definition function_selector :: "resolver_parts \<Rightarrow> loc \<Rightarrow> pexpr \<Rightarrow> expr rs" where
  "function_selector p l e = (case e of
      PString s \<Rightarrow> rs_bind (rs_opt (hd_opt s)) (\<lambda>(_, text).
        rs_return (ENumber l (TUint 32) (selector_value (rp_keccak p text))))
    | _ \<Rightarrow> rs_fail (diag_error l (Text ''function signature must be a string literal'')))"

definition called_library :: "string \<Rightarrow> unit rs" where
  "called_library n = (\<lambda>s. Some (Inr (),
     s\<lparr>st_ns := (st_ns s)\<lparr>ns_called_lib_functions := ns_called_lib_functions (st_ns s) @ [n]\<rparr>\<rparr>))"

definition library_call :: "resolver_parts \<Rightarrow> loc \<Rightarrow> prototype \<Rightarrow> pexpr list \<Rightarrow> expr list \<Rightarrow> expr rs" where
  "library_call p l f args xs =
    rs_bind (called_library (pt_name f)) (\<lambda>_.
    rs_bind (if pt_name f = ''get_selector'' then rs_bind (rs_at args 0) (\<lambda>a.
               rs_bind (function_selector p l a) (\<lambda>sel. rs_return (sel # xs)))
             else rs_return xs) (\<lambda>xs.
      rs_return (ELibFunction l (pt_ret f) (pt_libfunc f) xs)))"

fun try_library ::
  "resolver_parts \<Rightarrow> resolver \<Rightarrow> expr_context \<Rightarrow> loc \<Rightarrow> pexpr list \<Rightarrow> bool \<Rightarrow> prototype list \<Rightarrow> diagnostics \<Rightarrow> (diagnostics + expr) rs" where
  "try_library p rec cx l args many [] errs = rs_return (Inl errs)"
| "try_library p rec cx l args many (f # fs) errs =
    (case library_errors cx l f (length args) errs of (ok, errs) \<Rightarrow>
     rs_bind (library_arguments rec cx args (pt_params f) errs) (\<lambda>(xs, ok', errs).
       if ok \<and> ok' then rs_bind (library_call p l f args xs) (\<lambda>e. rs_return (Inr e))
       else rs_bind (if many then rs_extend_non_casting errs else rs_return False) (\<lambda>stop.
         if stop then rs_err else try_library p rec cx l args many fs errs)))"

definition resolve_call ::
  "resolver_parts \<Rightarrow> resolver \<Rightarrow> expr_context \<Rightarrow> loc \<Rightarrow> string option \<Rightarrow> string \<Rightarrow> pexpr list \<Rightarrow> expr rs" where
  "resolve_call p rec cx l namesp n args =
    (let fs = filter (\<lambda>f. pt_name f = n \<and> pt_namespace f = namesp) LIB_FUNCTIONS
     in rs_bind (try_library p rec cx l args (length fs > 1) fs no_diagnostics) (\<lambda>r. case r of
          Inr e \<Rightarrow> rs_return e
        | Inl errs \<Rightarrow>
            if length fs \<noteq> 1 then rs_fail (diag_error l (Text ''cannot find overloaded function which matches signature''))
            else rs_bind (rs_extend errs) (\<lambda>_. rs_err)))"

subsection \<open>Encoding and decoding\<close>

definition not_abi :: "resolver_parts \<Rightarrow> sty \<Rightarrow> bool rs" where
  "not_abi p t = (if is_mapping t then rs_return True
     else rs_bind (rs_get st_ns) (\<lambda>ns. rs_opt (is_recursive ns (rp_fuel p) t)))"

definition abi_error :: "loc \<Rightarrow> sty \<Rightarrow> diagnostic" where
  "abi_error l t = diag_error l
     (Format ''Invalid type {}: mappings and recursive types cannot be abi decoded or encoded'' [ATy t])"

definition push_if :: "bool \<Rightarrow> diagnostic \<Rightarrow> unit rs" where
  "push_if b d = (if b then rs_push d else rs_return ())"

fun decoded_types ::
  "resolver_parts \<Rightarrow> resolver \<Rightarrow> expr_context \<Rightarrow> (loc \<times> pexpr p_parameter option) list \<Rightarrow> (sty list \<times> bool) rs" where
  "decoded_types p rec cx [] = rs_return ([], False)"
| "decoded_types p rec cx ((l, None) # ps) =
    rs_bind (rs_push (diag_error l (Text ''missing type''))) (\<lambda>_.
    rs_bind (decoded_types p rec cx ps) (\<lambda>(ts, _). rs_return (ts, True)))"
| "decoded_types p rec cx ((l, Some q) # ps) =
    rs_bind (resolve_type p rec (cx_file_no cx) (cx_contract_no cx) (pa_ty q)) (\<lambda>t.
    rs_bind (case pa_name q of
        Some x \<Rightarrow> rs_push (diag_error (id_loc x) (Format ''unexpected identifier {} in type'' [AStr (id_name x)]))
      | None \<Rightarrow> rs_return ()) (\<lambda>_.
    rs_bind (not_abi p t) (\<lambda>bad. rs_bind (push_if bad (abi_error l t)) (\<lambda>_.
    rs_bind (decoded_types p rec cx ps) (\<lambda>(ts, broken).
      rs_return (t # ts, broken \<or> bad \<or> pa_name q \<noteq> None))))))"

definition abi_decode :: "resolver_parts \<Rightarrow> resolver \<Rightarrow> expr_context \<Rightarrow> loc \<Rightarrow> pexpr list \<Rightarrow> expr rs" where
  "abi_decode p rec cx l args = (case args of
      [a, types] \<Rightarrow>
        rs_bind (rec cx a (ToType TDynamicBytes)) (\<lambda>x.
        rs_bind (rs_loc a) (\<lambda>al. rs_bind (rs_cast x al TDynamicBytes) (\<lambda>x.
        rs_bind (case types of
            PList _ ps \<Rightarrow> decoded_types p rec cx ps
          | _ \<Rightarrow> rs_bind (resolve_type p rec (cx_file_no cx) (cx_contract_no cx) (remove_parenthesis types)) (\<lambda>t.
              rs_bind (not_abi p t) (\<lambda>bad. rs_bind (push_if bad (abi_error l t)) (\<lambda>_. rs_return ([t], bad))))) (\<lambda>(ts, broken).
          if broken then rs_err else rs_return (ELibFunction l ts AbiDecode [x])))))
    | _ \<Rightarrow> rs_fail (diag_error l (Format ''function expects {} arguments, {} provided'' [ANum 2, ANum (int (length args))])))"

definition encoded_argument :: "resolver_parts \<Rightarrow> resolver \<Rightarrow> expr_context \<Rightarrow> pexpr \<Rightarrow> expr rs" where
  "encoded_argument p rec cx a =
    rs_bind (rec cx a Unknown) (\<lambda>x. rs_bind (rs_ty x) (\<lambda>t. rs_bind (not_abi p t) (\<lambda>bad. rs_bind (rs_loc a) (\<lambda>l.
      if bad then rs_fail (abi_error l t)
      else rs_bind (rs_cast x l (deref_any t)) (\<lambda>x.
        if is_bytes_literal x \<noteq> None then rs_cast x l TString else rs_return x)))))"

text \<open>The selector of \<open>abi.encodeWithSignature\<close> is unwrapped.\<close>

definition abi_encode :: "resolver_parts \<Rightarrow> resolver \<Rightarrow> expr_context \<Rightarrow> loc \<Rightarrow> lib_func \<Rightarrow> pexpr list \<Rightarrow> expr rs" where
  "abi_encode p rec cx l f args =
    rs_bind (if f = AbiEncodeWithSignature then (case args of
          [] \<Rightarrow> rs_fail (diag_error l (Text ''function requires one string signature argument''))
        | a # args \<Rightarrow> rs_bind (rs_try (function_selector p l a)) (\<lambda>r. rs_bind (rs_opt r) (\<lambda>sel. rs_return ([sel], args))))
      else rs_return ([], args)) (\<lambda>(sel, args).
    rs_bind (rs_map (encoded_argument p rec cx) args) (\<lambda>xs.
      rs_return (ELibFunction l [TDynamicBytes] f (sel @ xs))))"

definition resolve_namespace_call ::
  "resolver_parts \<Rightarrow> resolver \<Rightarrow> expr_context \<Rightarrow> loc \<Rightarrow> string \<Rightarrow> string \<Rightarrow> pexpr list \<Rightarrow> expr rs" where
  "resolve_namespace_call p rec cx l namesp n args =
    (if namesp \<noteq> ''abi'' then resolve_call p rec cx l (Some namesp) n args
     else if n = ''decode'' then abi_decode p rec cx l args
     else if n = ''encode'' then abi_encode p rec cx l AbiEncode args
     else if n = ''encodeWithSignature'' then abi_encode p rec cx l AbiEncodeWithSignature args
     else rs_panic)"

subsection \<open>Methods of arrays in storage\<close>

abbreviation "push_takes_one l \<equiv> rs_fail (diag_error l (Text ''method push() takes at most 1 argument''))"
abbreviation "pop_takes_none l \<equiv> rs_fail (diag_error l (Text ''method pop() does not take any arguments''))"

definition push_argument :: "resolver \<Rightarrow> expr_context \<Rightarrow> pexpr \<Rightarrow> sty \<Rightarrow> expr rs" where
  "push_argument rec cx a t =
    rs_bind (rec cx a (ToType t)) (\<lambda>x. rs_bind (rs_loc a) (\<lambda>l. rs_cast x l t))"

definition storage_push :: "resolver \<Rightarrow> expr_context \<Rightarrow> expr \<Rightarrow> loc \<Rightarrow> pexpr list \<Rightarrow> sty \<Rightarrow> sty \<Rightarrow> expr option rs" where
  "storage_push rec cx var l args elem reference = (case args of
      [] \<Rightarrow> rs_return (Some (ELibFunction l [reference] ArrayPush [var]))
    | [a] \<Rightarrow> rs_bind (push_argument rec cx a elem) (\<lambda>x. rs_return (Some (ELibFunction l [TVoid] ArrayPush [var, x])))
    | _ \<Rightarrow> push_takes_one l)"

definition is_fixed :: "array_length option \<Rightarrow> bool" where
  "is_fixed d = (case d of Some (Fixed _) \<Rightarrow> True | _ \<Rightarrow> False)"

definition storage_array_method ::
  "resolver_parts \<Rightarrow> resolver \<Rightarrow> expr_context \<Rightarrow> expr \<Rightarrow> ident \<Rightarrow> pexpr list \<Rightarrow> resolve_to \<Rightarrow> sty \<Rightarrow> array_length list \<Rightarrow> expr option rs" where
  "storage_array_method p rec cx var x args to t dims =
    (if id_name x = ''push'' then
       if is_fixed (last_opt dims) then rs_fail (diag_error (id_loc x) (Text ''method push() not allowed on fixed length array''))
       else rs_bind (rs_opt (array_elem t)) (\<lambda>elem.
         rs_bind (if args = [] then rs_bind (rs_get st_ns) (\<lambda>ns. rs_opt (is_reference_type ns (rp_fuel p) elem)) else rs_return False)
           (\<lambda>r. storage_push rec cx var (id_loc x) args elem (if r then TStorageRef elem else elem)))
     else if id_name x = ''pop'' then
       if is_fixed (last_opt dims) then rs_fail (diag_error (id_loc x) (Text ''method pop() not allowed on fixed length array''))
       else if args \<noteq> [] then pop_takes_none (id_loc x)
       else rs_bind (rs_opt (storage_array_elem t)) (\<lambda>elem.
         rs_return (Some (ELibFunction (id_loc x) [if to = Discard then TVoid else deref_any elem] ArrayPop [var])))
     else rs_return None)"

definition storage_bytes_method :: "resolver \<Rightarrow> expr_context \<Rightarrow> expr \<Rightarrow> ident \<Rightarrow> pexpr list \<Rightarrow> expr option rs" where
  "storage_bytes_method rec cx var x args =
    (if id_name x = ''push'' then storage_push rec cx var (id_loc x) args (TUint 32) (TUint 32)
     else if id_name x = ''pop'' then
       if args \<noteq> [] then pop_takes_none (id_loc x)
       else rs_return (Some (ELibFunction (id_loc x) [TUint 32] ArrayPop [var]))
     else rs_return None)"

definition try_storage_reference ::
  "resolver_parts \<Rightarrow> resolver \<Rightarrow> expr_context \<Rightarrow> expr \<Rightarrow> ident \<Rightarrow> pexpr list \<Rightarrow> resolve_to \<Rightarrow> expr option rs" where
  "try_storage_reference p rec cx var x args to =
    rs_bind (rs_ty var) (\<lambda>vt. case vt of
      TStorageRef t \<Rightarrow> (case t of
          TArray _ dims \<Rightarrow> storage_array_method p rec cx var x args to t dims
        | TDynamicBytes \<Rightarrow> storage_bytes_method rec cx var x args
        | _ \<Rightarrow> rs_return None)
    | _ \<Rightarrow> rs_return None)"

subsection \<open>Calls to other contracts\<close>

fun check_call_args :: "(string \<times> loc) list \<Rightarrow> pexpr named_argument list \<Rightarrow> unit rs" where
  "check_call_args seen [] = rs_return ()"
| "check_call_args seen (a # args) = (case map_of seen (id_name (na_name a)) of
      Some prev \<Rightarrow> rs_fail (diag_error_with_note (na_loc a)
        (Format ''{} specified multiple times'' [AStr (id_name (na_name a))])
        prev (Format ''location of previous declaration of {}'' [AStr (id_name (na_name a))]))
    | None \<Rightarrow> check_call_args ((id_name (na_name a), na_loc a) # seen) args)"

text \<open>The pair of \<open>gas\<close> and \<open>value\<close>.\<close>

type_synonym call_args = "expr option \<times> expr option"

fun resolve_call_args :: "resolver \<Rightarrow> expr_context \<Rightarrow> pexpr named_argument list \<Rightarrow> call_args \<Rightarrow> call_args rs" where
  "resolve_call_args rec cx [] res = rs_return res"
| "resolve_call_args rec cx (a # args) res =
    (if id_name (na_name a) = ''value'' then
       rs_bind (push_argument rec cx (na_expr a) (TUint 32)) (\<lambda>x. resolve_call_args rec cx args (fst res, Some x))
     else if id_name (na_name a) = ''gas'' then
       rs_bind (push_argument rec cx (na_expr a) (TUint 32)) (\<lambda>x. resolve_call_args rec cx args (Some x, snd res))
     else rs_fail (diag_error (na_loc a) (Format ''{} not a valid call parameter'' [AStr (id_name (na_name a))])))"

text \<open>The arguments are resolved in the order of the hash map.\<close>

definition parse_call_args :: "resolver_parts \<Rightarrow> resolver \<Rightarrow> expr_context \<Rightarrow> pexpr named_argument list \<Rightarrow> call_args rs" where
  "parse_call_args p rec cx args =
    rs_bind (check_call_args [] args) (\<lambda>_.
      resolve_call_args rec cx (sort_key (\<lambda>a. rp_rank p args (id_name (na_name a))) args) (None, None))"

definition contract_call_match ::
  "loc \<Rightarrow> nat \<Rightarrow> call_args \<Rightarrow> expr list \<Rightarrow> expr \<Rightarrow> resolve_to \<Rightarrow> expr rs" where
  "contract_call_match l n ca xs var to =
    rs_bind (rs_get st_ns) (\<lambda>ns. rs_bind (rs_at (ns_functions ns) n) (\<lambda>f.
    rs_bind (rs_opt (fd_contract f)) (\<lambda>c. rs_bind (rs_cast var (expr_loc var) (TContract c)) (\<lambda>address.
      rs_return (EExternalFunctionCall l (function_returns f to)
        (EExternalFunction l (function_type f True to) address n) xs None (fst ca) (snd ca))))))"

definition candidate_notes :: "loc \<Rightarrow> diagnostics \<Rightarrow> diagnostics" where
  "candidate_notes l d = d\<lparr>contents := map (\<lambda>x. x\<lparr>dg_notes := dg_notes x @ [(l, Text ''candidate function'')]\<rparr>) (contents d)\<rparr>"

text \<open>
  One candidate: the call, or the diagnostics of the candidate.  Those of a candidate that matches are dropped.
\<close>

definition contract_candidate ::
  "resolver \<Rightarrow> expr_context \<Rightarrow> loc \<Rightarrow> pexpr list \<Rightarrow> call_args \<Rightarrow> expr \<Rightarrow> resolve_to \<Rightarrow> bool \<Rightarrow> nat \<Rightarrow> (diagnostics + expr) rs" where
  "contract_candidate rec cx l args ca var to only n =
    rs_bind (rs_get st_ns) (\<lambda>ns. rs_bind (rs_at (ns_functions ns) n) (\<lambda>f.
    rs_bind (if length (fd_params f) \<noteq> length args then rs_return ([], True, push_diag (diag_error l
          (Format ''function expects {} arguments, {} provided''
            [ANum (int (length (fd_params f))), ANum (int (length args))])) no_diagnostics)
        else evaluate_arguments rec cx (zip args (map p_ty (fd_params f))) no_diagnostics) (\<lambda>(xs, _, errs).
      if any_errors errs then
        rs_return (Inl (if only then errs else push_diag (diag_error l
          (Text ''cannot find overloaded function which matches signature'')) (candidate_notes (fd_loc f) errs)))
      else rs_bind (rs_into errs (contract_call_match l n ca xs var to)) (\<lambda>(r, errs). case r of
          Some e \<Rightarrow> rs_return (Inr e)
        | None \<Rightarrow> rs_return (Inl errs)))))"

fun contract_candidates ::
  "(nat \<Rightarrow> (diagnostics + expr) rs) \<Rightarrow> nat list \<Rightarrow> diagnostics \<Rightarrow> (diagnostics \<times> (nat \<times> expr) list) rs" where
  "contract_candidates try_one [] d = rs_return (d, [])"
| "contract_candidates try_one (n # ns) d =
    rs_bind (try_one n) (\<lambda>r. case r of
      Inr e \<Rightarrow> rs_bind (contract_candidates try_one ns d) (\<lambda>(d, calls). rs_return (d, (n, e) # calls))
    | Inl errs \<Rightarrow> contract_candidates try_one ns (extend_diags d errs))"

definition functions_named :: "namespace \<Rightarrow> nat \<Rightarrow> string \<Rightarrow> nat list option" where
  "functions_named ns c n = do {
     k \<leftarrow> Sema_AST.at (ns_contracts ns) c;
     fs \<leftarrow> those (map (Sema_AST.at (ns_functions ns)) (c_all_functions k));
     Some (map fst (filter (\<lambda>(i, f). fd_name f = n) (zip (c_all_functions k) fs))) }"

definition multiple_functions :: "loc \<Rightarrow> (nat \<times> expr) list \<Rightarrow> 'a rs" where
  "multiple_functions l calls =
    rs_bind (rs_get st_ns) (\<lambda>ns. rs_bind (rs_map (\<lambda>(n, _). rs_at (ns_functions ns) n) calls) (\<lambda>fs.
      rs_fail (diag_error_with_notes l (Text ''function call can be resolved to multiple functions'')
        (map (\<lambda>f. (fd_loc f, Text ''candidate function'')) fs))))"

definition contract_call_pos_args ::
  "resolver_parts \<Rightarrow> resolver \<Rightarrow> expr_context \<Rightarrow> loc \<Rightarrow> nat \<Rightarrow> ident \<Rightarrow> expr \<Rightarrow> pexpr list \<Rightarrow> pexpr named_argument list \<Rightarrow>
    resolve_to \<Rightarrow> expr option rs" where
  "contract_call_pos_args p rec cx l c x var args call_args to =
    rs_bind (parse_call_args p rec cx call_args) (\<lambda>ca.
    rs_bind (rs_get st_ns) (\<lambda>ns. rs_bind (rs_opt (functions_named ns c (id_name x))) (\<lambda>fs.
    rs_bind (any_fails rec cx args) (\<lambda>fails.
      if fails then rs_err
      else rs_bind (contract_candidates (contract_candidate rec cx l args ca var to (length fs = 1)) fs no_diagnostics)
        (\<lambda>(d, calls). case calls of
            [] \<Rightarrow> rs_bind (rs_extend d) (\<lambda>_. rs_bind
              (push_if (fs = []) (diag_error (id_loc x) (Format ''unknown function {}'' [AStr (id_name x)]))) (\<lambda>_. rs_err))
          | [(_, e)] \<Rightarrow> rs_return (Some e)
          | _ \<Rightarrow> rs_bind (rs_extend d) (\<lambda>_. multiple_functions l calls))))))"

subsection \<open>Methods of a type\<close>

text \<open>
  Other than for arrays in storage, the type of the array itself is taken for its elements: a reference to an
  array panics.
\<close>

definition array_method ::
  "resolver \<Rightarrow> expr_context \<Rightarrow> loc \<Rightarrow> ident \<Rightarrow> pexpr list \<Rightarrow> expr \<Rightarrow> sty \<Rightarrow> expr option rs" where
  "array_method rec cx l x args var vt =
    (if id_name x = ''push'' then
       rs_bind (rs_opt (array_elem vt)) (\<lambda>elem. case args of
           [] \<Rightarrow> rs_return (Some (ELibFunction l [elem] ArrayPush [var]))
         | [a] \<Rightarrow> rs_bind (push_argument rec cx a elem) (\<lambda>v. rs_return (Some (ELibFunction l [elem] ArrayPush [var, v])))
         | _ \<Rightarrow> push_takes_one (id_loc x))
     else if id_name x = ''pop'' then
       if args \<noteq> [] then pop_takes_none (id_loc x)
       else (case vt of
           TArray t _ \<Rightarrow> rs_return (Some (ELibFunction l [t] ArrayPop [var]))
         | _ \<Rightarrow> rs_panic)
     else if id_name x = ''concat'' \<and> length args \<noteq> 2 then
       rs_fail (diag_error (id_loc x) (Text ''method concat() takes exactly 1 argument''))
     else rs_return None)"

definition call_kind :: "string \<Rightarrow> call_ty option" where
  "call_kind n = map_of [(''call'', Regular), (''delegatecall'', Delegate), (''staticcall'', Static)] n"

definition raw_call_argument :: "resolver_parts \<Rightarrow> resolver \<Rightarrow> expr_context \<Rightarrow> pexpr \<Rightarrow> expr rs" where
  "raw_call_argument p rec cx a =
    rs_bind (rec cx a (ToType TDynamicBytes)) (\<lambda>x. rs_bind (rs_ty x) (\<lambda>t.
    rs_bind (case deref_any t of
        TDynamicBytes \<Rightarrow> rs_return True
      | TArray _ _ \<Rightarrow> rs_bind (rs_get st_ns) (\<lambda>ns. rs_bind (rs_opt (is_dynamic ns (rp_fuel p) t)) (\<lambda>d. rs_return (\<not> d)))
      | TStruct _ \<Rightarrow> rs_bind (rs_get st_ns) (\<lambda>ns. rs_bind (rs_opt (is_dynamic ns (rp_fuel p) t)) (\<lambda>d. rs_return (\<not> d)))
      | _ \<Rightarrow> rs_return False) (\<lambda>ok.
      if \<not> ok then rs_fail (diag_error (expr_loc x) (Format ''{} is not fixed length type'' [ATy t]))
      else rs_cast x (expr_loc x) (deref_any t))))"

definition address_method ::
  "resolver_parts \<Rightarrow> resolver \<Rightarrow> expr_context \<Rightarrow> loc \<Rightarrow> ident \<Rightarrow> pexpr list \<Rightarrow> pexpr named_argument list \<Rightarrow> expr \<Rightarrow> expr option rs" where
  "address_method p rec cx l x args call_args var = (case call_kind (id_name x) of
      None \<Rightarrow> rs_return None
    | Some k \<Rightarrow>
        rs_bind (parse_call_args p rec cx call_args) (\<lambda>(gas, val).
          if k \<noteq> Regular \<and> val \<noteq> None then rs_fail (diag_error l (Format ''{} cannot have value specified'' [AStr (id_name x)]))
          else rs_bind (push_if (k = Delegate \<and> gas \<noteq> None)
              (diag_warning l (Text ''gas specified on delegatecall will be ignored''))) (\<lambda>_. case args of
            [a] \<Rightarrow> rs_bind (raw_call_argument p rec cx a) (\<lambda>v. rs_bind (rs_cast var (expr_loc var) TAddress) (\<lambda>address.
              rs_return (Some (EExternalFunctionCallRaw l k address v None gas val))))
          | _ \<Rightarrow> rs_fail (diag_error l (Format ''{} expects 1 argument, {} provided''
              [AStr (id_name x), ANum (int (length args))])))))"

definition fixed_array_method :: "ident \<Rightarrow> expr option rs" where
  "fixed_array_method x =
    (if id_name x = ''push'' \<or> id_name x = ''pop'' then
       rs_fail (diag_error (id_loc x) (Format ''method {}() is not available for fixed length arrays'' [AStr (id_name x)]))
     else rs_return None)"

definition try_type_method ::
  "resolver_parts \<Rightarrow> resolver \<Rightarrow> expr_context \<Rightarrow> loc \<Rightarrow> ident \<Rightarrow> pexpr list \<Rightarrow> pexpr named_argument list \<Rightarrow> expr \<Rightarrow>
    resolve_to \<Rightarrow> expr option rs" where
  "try_type_method p rec cx l x args call_args var to =
    rs_bind (rs_ty var) (\<lambda>vt. rs_bind (rs_get st_ns) (\<lambda>ns. case deref_any vt of
      TArray _ _ \<Rightarrow> rs_bind (rs_opt (is_dynamic ns (rp_fuel p) vt)) (\<lambda>dynamic.
        if dynamic then array_method rec cx l x args var vt else fixed_array_method x)
    | TDynamicBytes \<Rightarrow> rs_bind (rs_opt (is_dynamic ns (rp_fuel p) vt)) (\<lambda>dynamic.
        if dynamic then array_method rec cx l x args var vt else rs_return None)
    | TContract c \<Rightarrow> contract_call_pos_args p rec cx l c x var args call_args to
    | TAddress \<Rightarrow> address_method p rec cx l x args call_args var
    | _ \<Rightarrow> rs_return None))"

subsection \<open>Method calls\<close>

text \<open>The table of library methods is empty.\<close>

definition LIB_METHODS :: "prototype list" where
  "LIB_METHODS = []"

fun method_arguments ::
  "resolver \<Rightarrow> expr_context \<Rightarrow> pexpr list \<Rightarrow> sty list \<Rightarrow> diagnostics \<Rightarrow> (expr list \<times> bool \<times> diagnostics) rs" where
  "method_arguments rec cx [] ts errs = rs_return ([], True, errs)"
| "method_arguments rec cx (a # args) ts errs =
    rs_bind (rs_into errs (rec cx a (case ts of [] \<Rightarrow> Unknown | t # _ \<Rightarrow> ToType t))) (\<lambda>(r, errs).
    rs_bind (method_arguments rec cx args (tl ts) errs) (\<lambda>(xs, ok, errs). case r of
      None \<Rightarrow> rs_return (xs, False, errs)
    | Some x \<Rightarrow> rs_return (if ts = [] then xs else x # xs, ok, errs)))"

text \<open>That the context is constant is reported at once, the number of the arguments is not.\<close>

fun try_methods ::
  "resolver \<Rightarrow> expr_context \<Rightarrow> expr \<Rightarrow> ident \<Rightarrow> pexpr list \<Rightarrow> bool \<Rightarrow> prototype list \<Rightarrow> diagnostics \<Rightarrow> (diagnostics + expr) rs" where
  "try_methods rec cx var x args many [] errs = rs_return (Inl errs)"
| "try_methods rec cx var x args many (f # fs) errs =
    rs_bind (push_if (cx_constant cx) (diag_cast_error (id_loc x)
      (Format ''cannot call function {} in constant expression'' [AStr (pt_name f)]))) (\<lambda>_.
    rs_bind (method_arguments rec cx args (pt_params f)
      (if length (pt_params f) \<noteq> length args then push_diag (diag_cast_error (id_loc x)
         (Format ''builtin function {} expects {} arguments, {} provided''
           [AStr (pt_name f), ANum (int (length (pt_params f))), ANum (int (length args))])) errs
       else errs)) (\<lambda>(xs, ok, errs).
      if ok \<and> \<not> cx_constant cx \<and> length (pt_params f) = length args then
        rs_return (Inr (ELibFunction (id_loc x) (if pt_ret f = [] then [TVoid] else pt_ret f) (pt_libfunc f) (var # xs)))
      else rs_bind (if many then rs_extend_non_casting errs else rs_return False) (\<lambda>stop.
        if stop then rs_err else try_methods rec cx var x args many fs errs)))"

definition resolve_method_call :: "resolver \<Rightarrow> expr_context \<Rightarrow> expr \<Rightarrow> ident \<Rightarrow> pexpr list \<Rightarrow> expr option rs" where
  "resolve_method_call rec cx var x args =
    (let fs = filter (\<lambda>f. pt_name f = id_name x) LIB_METHODS
     in rs_bind (try_methods rec cx var x args (length fs > 1) fs no_diagnostics) (\<lambda>r. case r of
          Inr e \<Rightarrow> rs_return (Some e)
        | Inl errs \<Rightarrow>
            if length fs = 0 then rs_return None
            else if length fs = 1 then rs_bind (rs_extend errs) (\<lambda>_. rs_err)
            else rs_fail (diag_error (id_loc x) (Text ''cannot find overloaded function which matches signature''))))"

definition is_library :: "contract \<Rightarrow> bool" where
  "is_library k = (case c_ty k of Library _ \<Rightarrow> True | _ \<Rightarrow> False)"

definition is_interface :: "contract \<Rightarrow> bool" where
  "is_interface k = (case c_ty k of Interface _ \<Rightarrow> True | _ \<Rightarrow> False)"

definition without_call_args :: "loc option \<Rightarrow> string \<Rightarrow> 'a rs \<Rightarrow> 'a rs" where
  "without_call_args cal m next = (case cal of Some l \<Rightarrow> rs_fail (diag_error l (Text m)) | None \<Rightarrow> next)"

definition library_contract_call ::
  "resolver \<Rightarrow> expr_context \<Rightarrow> loc \<Rightarrow> ident \<Rightarrow> ident \<Rightarrow> pexpr list \<Rightarrow> loc option \<Rightarrow> resolve_to \<Rightarrow> expr option rs" where
  "library_contract_call rec cx l namesp x args cal to =
    rs_bind (rs_get st_ns) (\<lambda>ns. case resolve_contract ns (cx_file_no cx) namesp of
      None \<Rightarrow> rs_return None
    | Some c \<Rightarrow> rs_bind (rs_at (ns_contracts ns) c) (\<lambda>k.
        if \<not> is_library k then rs_return None
        else without_call_args cal ''call arguments not allowed on library calls''
          (rs_bind (rs_opt (available_functions (id_name x) (Some c) ns)) (\<lambda>fs.
           rs_bind (function_call_pos_args rec cx l x args fs to) (\<lambda>e. rs_return (Some e))))))"

definition try_namespace ::
  "resolver_parts \<Rightarrow> resolver \<Rightarrow> expr_context \<Rightarrow> loc \<Rightarrow> pexpr \<Rightarrow> ident \<Rightarrow> pexpr list \<Rightarrow> loc option \<Rightarrow> resolve_to \<Rightarrow> expr option rs" where
  "try_namespace p rec cx l var x args cal to = (case var of
      PVariable namesp \<Rightarrow>
        if is_lib_func_call (Some (id_name namesp)) (id_name x) then
          without_call_args cal ''call arguments not allowed on builtins''
            (rs_bind (resolve_namespace_call p rec cx l (id_name namesp) (id_name x) args) (\<lambda>e. rs_return (Some e)))
        else library_contract_call rec cx l namesp x args cal to
    | _ \<Rightarrow> rs_return None)"

text \<open>The first of the computations that gives a call.\<close>

definition or_try :: "expr option rs \<Rightarrow> expr rs \<Rightarrow> expr rs" where
  "or_try m next = rs_bind m (\<lambda>r. case r of Some e \<Rightarrow> rs_return e | None \<Rightarrow> next)"

definition method_call_pos_args ::
  "resolver_parts \<Rightarrow> resolver \<Rightarrow> expr_context \<Rightarrow> loc \<Rightarrow> pexpr \<Rightarrow> ident \<Rightarrow> pexpr list \<Rightarrow> pexpr named_argument list \<Rightarrow>
    loc option \<Rightarrow> resolve_to \<Rightarrow> expr rs" where
  "method_call_pos_args p rec cx l var x args call_args cal to =
    or_try (try_namespace p rec cx l var x args cal to)
      (rs_bind (rec cx var Unknown) (\<lambda>v.
        or_try (resolve_method_call rec cx v x args)
          (or_try (try_storage_reference p rec cx v x args to)
            (or_try (try_type_method p rec cx l x args call_args v to)
              (rs_fail (diag_error (id_loc x) (Format ''method {} does not exist'' [AStr (id_name x)])))))))"

subsection \<open>Callable expressions\<close>

definition extend_call_loc :: "loc option \<Rightarrow> loc \<Rightarrow> loc option rs" where
  "extend_call_loc l bl = (case l of
      Some (File f start _) \<Rightarrow> rs_bind (rs_opt (loc_end bl)) (\<lambda>stop. rs_return (Some (File f start stop)))
    | _ \<Rightarrow> rs_return (Some bl))"

fun collect_call_args ::
  "pexpr \<Rightarrow> pexpr named_argument list \<Rightarrow> loc option \<Rightarrow> (pexpr \<times> pexpr named_argument list \<times> loc option) rs" where
  "collect_call_args (PFunctionCallBlock l e block) acc cal = (case block of
      PSArgs bl args \<Rightarrow> rs_bind (extend_call_loc cal bl) (collect_call_args e (acc @ args))
    | PSBlock bl [] \<Rightarrow> rs_fail (diag_error bl (Text ''missing call arguments''))
    | _ \<Rightarrow> rs_fail (diag_error (pstatement_loc block)
        (Text ''code block found where list of call arguments expected, like {gas: 5000}'')))"
| "collect_call_args e acc cal = rs_return (e, acc, cal)"

definition function_call_expr ::
  "resolver_parts \<Rightarrow> resolver \<Rightarrow> expr_context \<Rightarrow> loc \<Rightarrow> pexpr \<Rightarrow> pexpr list \<Rightarrow> resolve_to \<Rightarrow> expr rs" where
  "function_call_expr p rec cx l t args to =
    rs_bind (collect_call_args t [] None) (\<lambda>(t, call_args, cal). case remove_parenthesis t of
      PMemberAccess _ member x \<Rightarrow>
        if cx_constant cx then call_in_constant l
        else method_call_pos_args p rec cx l member x args call_args cal to
    | PVariable x \<Rightarrow>
        if is_lib_func_call None (id_name x) then
          rs_bind (resolve_call p rec cx (id_loc x) None (id_name x) args) (\<lambda>e. rs_bind (rs_opt (expr_tys e)) (\<lambda>ts.
            if length ts > 1 then rs_fail (diag_error l (Format ''core lib function {} returns more than one value'' [AStr (id_name x)]))
            else rs_return e))
        else if cx_constant cx then call_in_constant l
        else rs_bind (rs_get st_ns) (\<lambda>ns. rs_bind (rs_opt (available_functions (id_name x) (cx_contract_no cx) ns)) (\<lambda>fs.
          function_call_pos_args rec cx l x args fs to))
    | _ \<Rightarrow> rs_fail (diag_error l (Text ''expression is not a function'')))"

definition named_function_call_expr ::
  "resolver \<Rightarrow> expr_context \<Rightarrow> loc \<Rightarrow> pexpr \<Rightarrow> pexpr named_argument list \<Rightarrow> resolve_to \<Rightarrow> expr rs" where
  "named_function_call_expr rec cx l t args to =
    rs_bind (collect_call_args t [] None) (\<lambda>(t, _, cal). case t of
      PVariable x \<Rightarrow> without_call_args cal ''call arguments not permitted for internal calls''
        (rs_bind (rs_get st_ns) (\<lambda>ns. rs_bind (rs_opt (available_functions (id_name x) (cx_contract_no cx) ns)) (\<lambda>fs.
          function_call_named_args rec cx l x args fs to)))
    | PArraySubscript el _ _ \<Rightarrow> rs_fail (diag_error el (Text ''unexpected array type''))
    | _ \<Rightarrow> rs_bind (rs_loc t) (\<lambda>el. rs_fail (diag_error el (Text ''expression not expected here''))))"

text \<open>Whether the callee is a type; the diagnostics of the attempt are dropped.\<close>

definition callee_type :: "resolver_parts \<Rightarrow> resolver \<Rightarrow> expr_context \<Rightarrow> pexpr \<Rightarrow> sty option rs" where
  "callee_type p rec cx t =
    rs_bind (rs_into no_diagnostics (resolve_type p rec (cx_file_no cx) (cx_contract_no cx) t)) (\<lambda>(r, _). rs_return r)"

definition checked_call :: "expr rs \<Rightarrow> expr rs" where
  "checked_call m = rs_bind m (\<lambda>e. rs_bind (rs_usage (check_function_call e)) (\<lambda>_. rs_return e))"

definition named_call_expr ::
  "resolver_parts \<Rightarrow> resolver \<Rightarrow> expr_context \<Rightarrow> loc \<Rightarrow> pexpr \<Rightarrow> pexpr named_argument list \<Rightarrow> bool \<Rightarrow> resolve_to \<Rightarrow> expr rs" where
  "named_call_expr p rec cx l t args destructible to =
    rs_bind (callee_type p rec cx t) (\<lambda>r. case r of
      Some (TStruct n) \<Rightarrow> named_struct_literal rec cx l n args
    | Some _ \<Rightarrow> rs_fail (diag_error l (Text ''struct or function expected''))
    | None \<Rightarrow>
        if cx_constant cx then call_in_constant l
        else rs_bind (checked_call (named_function_call_expr rec cx l t args to)) (\<lambda>e.
          rs_bind (rs_opt (expr_tys e)) (\<lambda>ts.
            if length ts > 1 \<and> \<not> destructible
            then rs_fail (diag_error l (Text ''destucturing statement needed for function that returns multiple values''))
            else rs_return e)))"

definition type_call :: "resolver \<Rightarrow> expr_context \<Rightarrow> loc \<Rightarrow> pexpr list \<Rightarrow> sty \<Rightarrow> expr rs" where
  "type_call rec cx l args to = (case args of
      [] \<Rightarrow> rs_fail (diag_error l (Text ''missing argument to cast''))
    | [a] \<Rightarrow> rs_bind (rec cx a Unknown) (\<lambda>x. rs_cast x l to)
    | _ \<Rightarrow> rs_fail (diag_error l (Text ''too many arguments to cast'')))"

definition is_new :: "pexpr \<Rightarrow> bool" where
  "is_new e = (case e of PUnary PNew _ _ \<Rightarrow> True | _ \<Rightarrow> False)"

definition untyped_call ::
  "resolver_parts \<Rightarrow> resolver \<Rightarrow> expr_context \<Rightarrow> loc \<Rightarrow> pexpr \<Rightarrow> pexpr list \<Rightarrow> resolve_to \<Rightarrow> expr rs" where
  "untyped_call p rec cx l t args to =
    (let call = function_call_expr p rec cx l t args to
     in case remove_parenthesis t of
       PUnary u _ t' \<Rightarrow> if u = PNew then new_expr p rec cx l t' args else call
     | PFunctionCallBlock bl e _ \<Rightarrow> if is_new (remove_parenthesis e) then new_expr p rec cx bl t args else call
     | _ \<Rightarrow> call)"

definition call_expr ::
  "resolver_parts \<Rightarrow> resolver \<Rightarrow> expr_context \<Rightarrow> loc \<Rightarrow> pexpr \<Rightarrow> pexpr list \<Rightarrow> resolve_to \<Rightarrow> expr rs" where
  "call_expr p rec cx l t args to =
    (let t = remove_parenthesis t
     in rs_bind (callee_type p rec cx t) (\<lambda>r. case r of
          Some (TStruct n) \<Rightarrow> struct_literal rec cx l n args
        | Some t' \<Rightarrow> type_call rec cx l args t'
        | None \<Rightarrow> checked_call (untyped_call p rec cx l t args to)))"

end
