(* ===== verification/Sema_Expression.thy ===== *)
theory Sema_Expression
  imports Sema_Call
begin

section \<open>Resolving an expression\<close>

text \<open>
  Model of \<open>expression\<close> in \<open>src/sema/expression/resolve_expression.rs\<close>.  One step handles the
  outermost constructor and resolves the parts with \<open>rec\<close>; \<open>expression\<close> closes the recursion
  with fuel, one unit for every nested call.  The recursion is not structural, because \<open>member_access\<close>,
  \<open>new\<close> and array literals resolve parts of parts, but it always descends, so that the size of the
  expression is enough fuel.
\<close>

definition constant_context :: "loc \<Rightarrow> string \<Rightarrow> 'a rs" where
  "constant_context l m = rs_fail (diag_error l (Text m))"

definition not_resolved :: "resolver \<Rightarrow> expr_context \<Rightarrow> loc \<Rightarrow> pexpr \<Rightarrow> resolve_to \<Rightarrow> expr rs" where
  "not_resolved rec cx l e to =
    rs_bind (rec cx e to) (\<lambda>x. rs_bind (used x) (\<lambda>_. rs_bind (rs_ty x) (\<lambda>t.
      if t = TField then field_operator l
      else rs_bind (rs_cast x l TBool) (\<lambda>x. rs_return (ENot l x)))))"

definition bitwise_not :: "resolver \<Rightarrow> expr_context \<Rightarrow> loc \<Rightarrow> pexpr \<Rightarrow> resolve_to \<Rightarrow> expr rs" where
  "bitwise_not rec cx l e to =
    rs_bind (rec cx e to) (\<lambda>x. rs_bind (used x) (\<lambda>_. rs_bind (rs_ty x) (\<lambda>t.
      if t = TField then field_operator l
      else rs_bind (rs_ev (number_bits t l)) (\<lambda>_. rs_return (EUnary BitwiseNot l t x)))))"

definition conditional :: "resolver \<Rightarrow> expr_context \<Rightarrow> loc \<Rightarrow> pexpr \<Rightarrow> pexpr \<Rightarrow> pexpr \<Rightarrow> resolve_to \<Rightarrow> expr rs" where
  "conditional rec cx l c left right to =
    rs_bind (resolve_both rec cx left right to) (\<lambda>(x, y).
    rs_bind (both_used x y) (\<lambda>_.
    rs_bind (rec cx c to) (\<lambda>b. rs_bind (used b) (\<lambda>_.
    rs_bind (rs_loc c) (\<lambda>cl. rs_bind (rs_cast b cl TBool) (\<lambda>b.
    rs_bind (rs_ty x) (\<lambda>tx. rs_bind (rs_ty y) (\<lambda>ty. rs_bind (rs_loc left) (\<lambda>ll. rs_bind (rs_loc right) (\<lambda>rl.
    rs_bind (rs_ev (coerce tx ll ty rl)) (\<lambda>t.
    rs_bind (cast_both x left y right t) (\<lambda>(x, y).
      rs_return (EConditional l t b x y)))))))))))))"

definition logical :: "(loc \<Rightarrow> expr \<Rightarrow> expr \<Rightarrow> expr) \<Rightarrow> resolver \<Rightarrow> expr_context \<Rightarrow> loc \<Rightarrow> pexpr \<Rightarrow> pexpr \<Rightarrow> expr rs" where
  "logical mk rec cx l left right =
    rs_bind (rec cx left (ToType TBool)) (\<lambda>x. rs_bind (rs_cast x l TBool) (\<lambda>x.
    rs_bind (rec cx right (ToType TBool)) (\<lambda>y. rs_bind (rs_cast y l TBool) (\<lambda>y.
    rs_bind (both_used x y) (\<lambda>_. rs_return (mk l x y))))))"

definition array_literal_used :: "resolver \<Rightarrow> expr_context \<Rightarrow> loc \<Rightarrow> pexpr list \<Rightarrow> resolve_to \<Rightarrow> expr rs" where
  "array_literal_used rec cx l es to =
    rs_bind (array_literal rec cx l es to) (\<lambda>x. rs_bind (used x) (\<lambda>_. rs_return x))"

definition new_resolved :: "resolver_parts \<Rightarrow> resolver \<Rightarrow> expr_context \<Rightarrow> loc \<Rightarrow> pexpr \<Rightarrow> expr rs" where
  "new_resolved p rec cx l call =
    (if cx_constant cx then constant_context l ''new not allowed in constant expression''
     else (case remove_parenthesis call of
         PFunctionCall _ t args \<Rightarrow>
           rs_bind (new_expr p rec cx l t args) (\<lambda>x. rs_bind (rs_usage (check_function_call x)) (\<lambda>_. rs_return x))
       | PVariable x \<Rightarrow> rs_fail (diag_error l (Format ''missing constructor arguments to {}'' [AStr (id_name x)]))
       | e \<Rightarrow> rs_bind (rs_loc e) (\<lambda>el. rs_fail (diag_error el (Text ''type with arguments expected'')))))"

definition operator :: "resolver_parts \<Rightarrow> arith \<Rightarrow> resolver \<Rightarrow> expr_context \<Rightarrow> loc \<Rightarrow> pexpr \<Rightarrow> pexpr \<Rightarrow> resolve_to \<Rightarrow> expr rs" where
  "operator p op = (case op of
      Add \<Rightarrow> addition p | Subtract \<Rightarrow> subtract | Multiply \<Rightarrow> multiply p | Power \<Rightarrow> power_op
    | Divide \<Rightarrow> divide_by Divide ''Division'' | Modulo \<Rightarrow> divide_by Modulo ''Modulo''
    | BitwiseOr \<Rightarrow> bitwise BitwiseOr | BitwiseAnd \<Rightarrow> bitwise BitwiseAnd | BitwiseXor \<Rightarrow> bitwise BitwiseXor
    | ShiftLeft \<Rightarrow> shift_left p | ShiftRight \<Rightarrow> shift_right p)"

definition binary :: "resolver_parts \<Rightarrow> p_binary \<Rightarrow> resolver \<Rightarrow> expr_context \<Rightarrow> loc \<Rightarrow> pexpr \<Rightarrow> pexpr \<Rightarrow> resolve_to \<Rightarrow> expr rs" where
  "binary p b rec cx l left right to = (case b of
      POperator op \<Rightarrow> operator p op rec cx l left right to
    | PComparison Equal \<Rightarrow> equal_op rec cx l left right
    | PComparison NotEqual \<Rightarrow> not_equal_op rec cx l left right
    | PComparison c \<Rightarrow> compare_numbers c rec cx l left right
    | PAnd \<Rightarrow> logical EAnd rec cx l left right
    | POr \<Rightarrow> logical EOr rec cx l left right
    | PAssign \<Rightarrow>
        if cx_constant cx then constant_context l ''assignment not allowed in constant context''
        else assign_single rec cx l left right
    | PAssignOperator op \<Rightarrow>
        if cx_constant cx then constant_context l ''assignment not allowed in constant context''
        else rs_bind (assign_expr op rec cx l left right) (\<lambda>x. rs_bind (rs_check x) (\<lambda>_. rs_return x)))"

definition unary_op :: "resolver_parts \<Rightarrow> p_unary \<Rightarrow> resolver \<Rightarrow> expr_context \<Rightarrow> loc \<Rightarrow> pexpr \<Rightarrow> resolve_to \<Rightarrow> expr rs" where
  "unary_op p u rec cx l e to = (case u of
      PParenthesis \<Rightarrow> rec cx e to
    | PNot \<Rightarrow> not_resolved rec cx l e to
    | PBitwiseNot \<Rightarrow> bitwise_not rec cx l e to
    | PIncrement \<Rightarrow>
        if cx_constant cx then constant_context l ''operator not allowed in constant context'' else incr_decr Increment rec cx l e
    | PDecrement \<Rightarrow>
        if cx_constant cx then constant_context l ''operator not allowed in constant context'' else incr_decr Decrement rec cx l e
    | PNew \<Rightarrow> new_resolved p rec cx l e
    | PDelete \<Rightarrow> rs_fail (diag_error l (Text ''delete not allowed in expression'')))"

definition expression_step :: "resolver_parts \<Rightarrow> resolver \<Rightarrow> resolver" where
  "expression_step p rec cx e to = (case e of
      PUnary u l e \<Rightarrow> unary_op p u rec cx l e to
    | PBinary b l left right \<Rightarrow> binary p b rec cx l left right to
    | PArrayLiteral l es \<Rightarrow> array_literal_used rec cx l es to
    | PBool l b \<Rightarrow> rs_return (EBool l b)
    | PString v \<Rightarrow> string_literal v (cx_file_no cx)
    | PNumber l n \<Rightarrow> number_literal p l n to
    | PHexNumber l n \<Rightarrow> hex_number_literal p l n to
    | PFields l n \<Rightarrow> fields_literal l n
    | PAddress l n \<Rightarrow> address_literal l n
    | PHash l n \<Rightarrow> hash_literal l n
    | PVariable x \<Rightarrow> variable_expr x cx to
    | PConditional l c left right \<Rightarrow> conditional rec cx l c left right to
    | PNamedFunctionCall l t args \<Rightarrow> named_call_expr p rec cx l t args False to
    | PFunctionCall l t args \<Rightarrow> call_expr p rec cx l t args to
    | PArraySubscript l a None \<Rightarrow> rs_fail (diag_error l (Text ''expected expression before ] token''))
    | PArraySubscript l a (Some i) \<Rightarrow> array_subscript rec cx l a i
    | PArraySlice l a first stop \<Rightarrow> array_slice rec cx l a first stop
    | PMemberAccess l e x \<Rightarrow> member_access p rec cx l (remove_parenthesis e) x to
    | PType l _ \<Rightarrow> rs_fail (diag_error l (Text ''type not expected''))
    | PList l _ \<Rightarrow> rs_fail (diag_error l (Text ''lists only permitted in destructure statements''))
    | PFunctionCallBlock l _ _ \<Rightarrow> rs_fail (diag_error l (Text ''unexpect block encountered'')))"

primrec expression :: "resolver_parts \<Rightarrow> nat \<Rightarrow> resolver" where
  "expression p 0 = (\<lambda>cx e to. rs_panic)"
| "expression p (Suc k) = expression_step p (expression p k)"

text \<open>The function of the code: as much fuel as the expression has constructors.\<close>

definition resolve_expression :: "resolver_parts \<Rightarrow> resolver" where
  "resolve_expression p cx e to = expression p (Suc (size e)) cx e to"

end
