(* ===== verification/Sema_Statement.thy ===== *)
theory Sema_Statement
  imports Sema_Expression
begin

section \<open>Statements\<close>

text \<open>
  Model of \<open>src/sema/statements.rs\<close>.  A statement is resolved into the list of the statements it is
  replaced with, together with whether the end of it is reached and the stack of loops around it; the
  functions of the expressions are called with \<open>rec\<close>, the function \<open>expression\<close>.
\<close>

subsection \<open>State\<close>

definition rs_namespace :: "(namespace \<Rightarrow> namespace) \<Rightarrow> unit rs" where
  "rs_namespace g = (\<lambda>s. Some (Inr (), s\<lparr>st_ns := g (st_ns s)\<rparr>))"

definition rs_symtable :: "(symtable \<Rightarrow> symtable) \<Rightarrow> unit rs" where
  "rs_symtable g = (\<lambda>s. Some (Inr (), s\<lparr>st_sym := g (st_sym s)\<rparr>))"

definition rs_add :: "decl \<Rightarrow> nat option rs" where
  "rs_add c = (\<lambda>s. case st_add c (st_sym s) (st_ns s) of
      None \<Rightarrow> None | Some (r, st, ns) \<Rightarrow> Some (Inr r, s\<lparr>st_ns := ns, st_sym := st\<rparr>))"

text \<open>\<open>Err\<close> with a diagnostic of the namespace.\<close>

definition rs_fail_ns :: "diagnostic \<Rightarrow> 'a rs" where
  "rs_fail_ns d = rs_bind (rs_namespace (report d)) (\<lambda>_. rs_err)"

text \<open>A new variable, whose name is looked up for shadowing if it could be declared.\<close>

definition declare_local :: "expr_context \<Rightarrow> decl \<Rightarrow> nat option rs" where
  "declare_local cx c =
    rs_bind (rs_add c) (\<lambda>r. case r of
      Some pos \<Rightarrow> rs_bind (rs_namespace (check_shadowing (cx_file_no cx) (cx_contract_no cx) (dc_id c))) (\<lambda>_. rs_return (Some pos))
    | None \<Rightarrow> rs_return None)"

definition decl_of :: "ident \<Rightarrow> sty \<Rightarrow> expr option \<Rightarrow> variable_usage \<Rightarrow> storage_location option \<Rightarrow> decl" where
  "decl_of x t e u l = \<lparr>dc_id = x, dc_ty = t, dc_initializer = Ola e, dc_usage = u, dc_location = l\<rparr>"

definition declared_parameter :: "loc \<Rightarrow> ident \<Rightarrow> sty \<Rightarrow> parameter" where
  "declared_parameter l x t = \<lparr>p_loc = l, p_name = Some (id_name x), p_ty = t, p_infinite_size = False, p_recursive = False\<rparr>"

subsection \<open>Declarations, lists and returned values\<close>

definition declared_location :: "storage_location option \<Rightarrow> sty \<Rightarrow> loc \<Rightarrow> (sty \<times> loc) rs" where
  "declared_location storage t l = (case storage of
      None \<Rightarrow> rs_return (t, l)
    | Some sl \<Rightarrow>
        if \<not> can_have_data_location t then rs_fail (diag_error (storage_location_loc sl)
          (Format ''data location {} only allowed for array, struct or mapping type'' [AStr (storage_location_str sl)]))
        else (case sl of
            Storage l' \<Rightarrow> rs_bind (rs_opt (use_end_from l l')) (\<lambda>l. rs_return (TStorageRef t, l))
          | Memory _ \<Rightarrow> rs_return (t, l)))"

definition resolve_var_decl_ty ::
  "resolver_parts \<Rightarrow> resolver \<Rightarrow> expr_context \<Rightarrow> pexpr \<Rightarrow> storage_location option \<Rightarrow> (sty \<times> loc) rs" where
  "resolve_var_decl_ty p rec cx ty storage =
    rs_bind (rs_loc ty) (\<lambda>l.
    rs_bind (resolve_type p rec (cx_file_no cx) (cx_contract_no cx) ty) (\<lambda>t.
    rs_bind (declared_location storage t l) (\<lambda>(t, l').
    rs_bind (rs_get st_ns) (\<lambda>ns. rs_bind (rs_opt (contains_mapping ns (rp_fuel p) t)) (\<lambda>mapping.
      if mapping \<and> \<not> is_contract_storage t then rs_fail (diag_error l (Text ''mapping only allowed in storage''))
      else rs_bind (if is_contract_storage t then rs_return True else rs_opt (fits_in_memory ns (rp_fuel p) t)) (\<lambda>fits.
        if \<not> fits then rs_fail (diag_error l (Text ''type is too large to fit into memory''))
        else rs_return (t, l')))))))"

text \<open>The expressions of a list, and whether one of its elements is not an expression.\<close>

fun list_exprs :: "(loc \<times> pexpr p_parameter option) list \<Rightarrow> (pexpr list \<times> bool) rs" where
  "list_exprs [] = rs_return ([], False)"
| "list_exprs ((l, q) # qs) = (case q of
      None \<Rightarrow> rs_bind (rs_push (diag_error l (Text ''stray comma''))) (\<lambda>_.
        rs_bind (list_exprs qs) (\<lambda>(es, _). rs_return (es, True)))
    | Some q \<Rightarrow> (case pa_name q of
          Some x \<Rightarrow> rs_bind (rs_push (diag_error (id_loc x) (Text ''single value expected''))) (\<lambda>_.
            rs_bind (list_exprs qs) (\<lambda>(es, _). rs_return (es, True)))
        | None \<Rightarrow> rs_bind (list_exprs qs) (\<lambda>(es, broken). rs_return (pa_ty q # es, broken))))"

definition parameter_list_to_expr_list :: "pexpr \<Rightarrow> pexpr list rs" where
  "parameter_list_to_expr_list e = (case e of
      PList _ v \<Rightarrow> rs_bind (list_exprs v) (\<lambda>(es, broken). if broken then rs_err else rs_return es)
    | _ \<Rightarrow> rs_return [case e of PUnary PParenthesis _ e \<Rightarrow> e | _ \<Rightarrow> e])"

text \<open>The types \<open>void\<close> and \<open>unreachable\<close> of a call are no values.\<close>

definition returned_types :: "sty list \<Rightarrow> sty list" where
  "returned_types ts = (if ts = [TUnreachable] \<or> ts = [TVoid] then [] else ts)"

definition check_return_count :: "loc \<Rightarrow> nat \<Rightarrow> nat \<Rightarrow> unit rs" where
  "check_return_count l n k =
    (if n > 0 \<and> k = 0 then rs_fail (diag_error l (Format ''missing return value, {} return values expected'' [ANum (int n)]))
     else if n = 0 \<and> k \<noteq> 0 then rs_fail (diag_error l (Text ''function has no return values''))
     else if n \<noteq> k then rs_fail (diag_error l
       (Format ''incorrect number of return values, expected {} but got {}'' [ANum (int n), ANum (int k)]))
     else rs_return ())"

definition function_return_types :: "expr_context \<Rightarrow> sty list rs" where
  "function_return_types cx =
    rs_bind (rs_opt (cx_function_no cx)) (\<lambda>n. rs_bind (rs_get st_ns) (\<lambda>ns.
    rs_bind (rs_at (ns_functions ns) n) (\<lambda>f. rs_return (map p_ty (fd_returns f)))))"

text \<open>Whether values of the types of a call can be converted: a conversion of a variable that is thrown away.\<close>

definition castable :: "nat \<Rightarrow> sty \<Rightarrow> loc \<Rightarrow> sty \<Rightarrow> unit rs" where
  "castable i from l to = rs_bind (rs_cast (EVariable l from i) l to) (\<lambda>_. rs_return ())"

text \<open>The value of a call is used for all values of the function.\<close>

definition return_call :: "sty list \<Rightarrow> loc \<Rightarrow> expr \<Rightarrow> expr rs" where
  "return_call rs l e =
    rs_bind (used e) (\<lambda>_. rs_bind (rs_opt (expr_tys e)) (\<lambda>ts.
    rs_bind (check_return_count l (length rs) (length (returned_types ts))) (\<lambda>_.
    rs_bind (rs_map (\<lambda>(i, from, to). castable i from (expr_loc e) to) (List.enumerate 0 (zip (returned_types ts) rs))) (\<lambda>_.
      rs_return e))))"

definition return_list :: "resolver \<Rightarrow> expr_context \<Rightarrow> sty list \<Rightarrow> loc \<Rightarrow> pexpr \<Rightarrow> expr rs" where
  "return_list rec cx rs l e =
    rs_bind (parameter_list_to_expr_list e) (\<lambda>es.
    rs_bind (check_return_count l (length rs) (length es)) (\<lambda>_.
    rs_bind (rs_map (\<lambda>(e, t). rs_bind (rec cx e (ToType t)) (\<lambda>x. rs_bind (rs_cast x l t) (\<lambda>x.
      rs_bind (used x) (\<lambda>_. rs_return x)))) (zip es rs)) (\<lambda>xs.
      rs_return (case xs of [x] \<Rightarrow> x | _ \<Rightarrow> EList l xs))))"

lemma conditional_size: "remove_parenthesis e = PConditional l c x y \<Longrightarrow> size x < size e \<and> size y < size e"
  using size_remove_parenthesis [of e] by simp

text \<open>Both branches of a conditional are returned values of their own; its type is \<open>unreachable\<close>.\<close>

function return_with_values ::
  "resolver_parts \<Rightarrow> resolver \<Rightarrow> expr_context \<Rightarrow> loc \<Rightarrow> pexpr \<Rightarrow> expr rs" where
  "return_with_values p rec cx l e =
    rs_bind (function_return_types cx) (\<lambda>rs. case remove_parenthesis e of
      PFunctionCall cl t args \<Rightarrow> rs_bind (call_expr p rec cx cl t args Unknown) (return_call rs l)
    | PNamedFunctionCall cl t args \<Rightarrow> rs_bind (named_call_expr p rec cx cl t args True Unknown) (return_call rs l)
    | PConditional cl c left right \<Rightarrow>
        rs_bind (rec cx c (ToType TBool)) (\<lambda>b. rs_bind (used b) (\<lambda>_.
        rs_bind (rs_loc left) (\<lambda>ll. rs_bind (return_with_values p rec cx ll left) (\<lambda>x. rs_bind (used x) (\<lambda>_.
        rs_bind (rs_loc right) (\<lambda>rl. rs_bind (return_with_values p rec cx rl right) (\<lambda>y. rs_bind (used y) (\<lambda>_.
          rs_return (EConditional cl TUnreachable b x y)))))))))
    | _ \<Rightarrow> return_list rec cx rs l e)"
  by pat_completeness auto
termination by (relation "measure (\<lambda>(p, rec, cx, l, e). size e)") (auto dest!: conditional_size)

declare return_with_values.simps [simp del]

subsection \<open>Destructuring assignments\<close>

text \<open>
  The type and the field of one element on the left; the declaration of a name that is taken gives neither.
\<close>

definition assignable :: "loc \<Rightarrow> expr \<Rightarrow> unit rs" where
  "assignable l e = (case e of
      EConstantVariable _ _ c v \<Rightarrow> rs_bind (constant_name c v) (\<lambda>n.
        rs_fail (diag_error l (Format ''cannot assign to constant {}'' [AStr n])))
    | EVariable _ _ _ \<Rightarrow> rs_return ()
    | _ \<Rightarrow> rs_bind (rs_ty e) (\<lambda>t. case t of
        TRef _ \<Rightarrow> rs_return () | TStorageRef _ \<Rightarrow> rs_return ()
      | _ \<Rightarrow> rs_fail (diag_error l (Text ''expression is not assignable''))))"

definition destructure_field_of ::
  "resolver_parts \<Rightarrow> resolver \<Rightarrow> expr_context \<Rightarrow> pexpr p_parameter option \<Rightarrow> (sty option \<times> destructure_field) list rs" where
  "destructure_field_of p rec cx q = (case q of
      None \<Rightarrow> rs_return [(None, NoField)]
    | Some q \<Rightarrow> (case pa_name q of
        None \<Rightarrow>
          rs_bind (rec cx (pa_ty q) Unknown) (\<lambda>e. rs_bind (assignable (pa_loc q) e) (\<lambda>_.
          rs_bind (assigned e) (\<lambda>_. rs_bind (rs_ty e) (\<lambda>t. rs_return [(Some t, FieldExpression e)]))))
      | Some x \<Rightarrow>
          rs_bind (resolve_var_decl_ty p rec cx (pa_ty q) None) (\<lambda>(t, _).
          rs_bind (declare_local cx (decl_of x t None DestructureVariable None)) (\<lambda>r. rs_return (case r of
              Some pos \<Rightarrow> [(Some t, FieldDecl pos (declared_parameter (pa_loc q) x t))]
            | None \<Rightarrow> [])))))"

definition element_counts :: "loc \<Rightarrow> nat \<Rightarrow> nat \<Rightarrow> unit rs" where
  "element_counts l m n = (if m = n then rs_return () else rs_fail (diag_error l
     (Format ''destructuring assignment has {} elements on the left and {} on the right'' [ANum (int m), ANum (int n)])))"

definition destructure_list :: "resolver \<Rightarrow> expr_context \<Rightarrow> loc \<Rightarrow> sty option list \<Rightarrow> pexpr \<Rightarrow> expr rs" where
  "destructure_list rec cx l lefts e =
    rs_bind (parameter_list_to_expr_list e) (\<lambda>es. rs_bind (element_counts l (length lefts) (length es)) (\<lambda>_.
    rs_bind (rs_map (\<lambda>(e, t). rs_bind (rec cx e (case t of Some t \<Rightarrow> ToType t | None \<Rightarrow> Unknown)) (\<lambda>x.
        rs_bind (rs_ty x) (\<lambda>t.
          if t = TVoid \<or> t = TUnreachable then rs_fail (diag_error (expr_loc x) (Text ''function does not return a value''))
          else rs_bind (used x) (\<lambda>_. rs_return x)))) (zip es lefts))
      (\<lambda>xs. rs_return (EList l xs))))"

definition castable_fields :: "(sty option \<times> destructure_field) list \<Rightarrow> sty list \<Rightarrow> unit rs" where
  "castable_fields fs rights =
    rs_bind (rs_map (\<lambda>(i, (t, f), right). case t of
        None \<Rightarrow> rs_return ()
      | Some t \<Rightarrow> rs_bind (rs_opt (loc_opt f)) (\<lambda>l. castable i right l (deref_memory t)))
      (List.enumerate 0 (zip fs rights))) (\<lambda>_. rs_return ())"

definition check_destructured :: "loc \<Rightarrow> (sty option \<times> destructure_field) list \<Rightarrow> expr \<Rightarrow> expr rs" where
  "check_destructured l fs e =
    rs_bind (rs_opt (expr_tys e)) (\<lambda>ts.
    rs_bind (element_counts l (length fs) (length (returned_types ts))) (\<lambda>_.
    rs_bind (castable_fields fs (returned_types ts)) (\<lambda>_. rs_return e)))"

function destructure_values ::
  "resolver_parts \<Rightarrow> resolver \<Rightarrow> expr_context \<Rightarrow> loc \<Rightarrow> (sty option \<times> destructure_field) list \<Rightarrow> pexpr \<Rightarrow> expr rs" where
  "destructure_values p rec cx l fs e = (case remove_parenthesis e of
      PFunctionCall cl t args \<Rightarrow>
        rs_bind (checked_call (function_call_expr p rec cx cl t args Unknown)) (check_destructured l fs)
    | PNamedFunctionCall cl t args \<Rightarrow>
        rs_bind (checked_call (named_function_call_expr rec cx cl t args Unknown)) (check_destructured l fs)
    | PConditional cl c left right \<Rightarrow>
        rs_bind (rec cx c (ToType TBool)) (\<lambda>b. rs_bind (used b) (\<lambda>_.
        rs_bind (rs_loc left) (\<lambda>ll. rs_bind (destructure_values p rec cx ll fs left) (\<lambda>x. rs_bind (used x) (\<lambda>_.
        rs_bind (rs_loc right) (\<lambda>rl. rs_bind (destructure_values p rec cx rl fs right) (\<lambda>y. rs_bind (used y) (\<lambda>_.
          rs_return (EConditional cl TUnreachable b x y)))))))))
    | _ \<Rightarrow> rs_bind (destructure_list rec cx l (map fst fs) e) (check_destructured l fs))"
  by pat_completeness auto
termination by (relation "measure (\<lambda>(p, rec, cx, l, fs, e). size e)") (auto dest!: conditional_size)

declare destructure_values.simps [simp del]

text \<open>The right side is resolved in the same context as the left side, with \<open>lvalue\<close> set.\<close>

definition destructure ::
  "resolver_parts \<Rightarrow> resolver \<Rightarrow> expr_context \<Rightarrow> loc \<Rightarrow> (loc \<times> pexpr p_parameter option) list \<Rightarrow> pexpr \<Rightarrow> statement rs" where
  "destructure p rec cx l lefts e =
    (let cx = cx\<lparr>cx_lvalue := True\<rparr> in
     rs_bind (rs_map (\<lambda>(_, q). destructure_field_of p rec cx q) lefts) (\<lambda>fss.
     rs_bind (destructure_values p rec cx l (concat fss) e) (\<lambda>x.
       rs_return (SDestructure l (map snd (concat fss)) x))))"

subsection \<open>Statements\<close>

type_synonym resolved = "bool \<times> statement list \<times> loop_scope list"

definition in_scope :: "'a rs \<Rightarrow> 'a rs" where
  "in_scope m = rs_bind (rs_symtable new_scope) (\<lambda>_. rs_bind m (\<lambda>x. rs_bind (rs_symtable leave_scope) (\<lambda>_. rs_return x)))"

definition bool_condition :: "resolver \<Rightarrow> expr_context \<Rightarrow> pexpr \<Rightarrow> expr rs" where
  "bool_condition rec cx c = rs_bind (rec cx c (ToType TBool)) (\<lambda>x. rs_bind (used x) (\<lambda>_. rs_cast x (expr_loc x) TBool))"

definition variable_definition_statement ::
  "resolver_parts \<Rightarrow> resolver \<Rightarrow> expr_context \<Rightarrow> loc \<Rightarrow> pexpr variable_declaration \<Rightarrow> pexpr option \<Rightarrow> statement list rs" where
  "variable_definition_statement p rec cx l d init =
    rs_bind (resolve_var_decl_ty p rec cx (vd_ty d) (vd_storage d)) (\<lambda>(t, _).
    rs_bind (case init of
        None \<Rightarrow> rs_return None
      | Some e \<Rightarrow> rs_bind (rec cx e (ToType t)) (\<lambda>x. rs_bind (rs_check x) (\<lambda>_. rs_bind (used x) (\<lambda>_.
          rs_bind (rs_cast x (expr_loc x) t) (\<lambda>x. rs_return (Some x)))))) (\<lambda>init.
    rs_bind (rs_opt (vd_name d)) (\<lambda>x.
    rs_bind (declare_local cx (decl_of x t init LocalVariable (vd_storage d))) (\<lambda>r. rs_return (case r of
        Some pos \<Rightarrow> [SVariableDecl l pos (declared_parameter (vd_loc d) x t) init]
      | None \<Rightarrow> [])))))"

definition return_statement :: "resolver_parts \<Rightarrow> resolver \<Rightarrow> expr_context \<Rightarrow> loc \<Rightarrow> pexpr option \<Rightarrow> statement list rs" where
  "return_statement p rec cx l e = (case e of
      None \<Rightarrow>
        rs_bind (function_return_types cx) (\<lambda>rs. rs_bind (rs_get st_sym) (\<lambda>st.
          if length (st_returns st) \<noteq> length rs then rs_fail_ns (diag_error l
            (Format ''missing return value, {} return values expected'' [ANum (int (length rs))]))
          else rs_return [SReturn l None]))
    | Some e \<Rightarrow>
        rs_bind (return_with_values p rec cx l e) (\<lambda>x. rs_bind (rs_check x) (\<lambda>_.
        rs_bind (rs_get st_sym) (\<lambda>st. rs_bind (rs_usage (fold_opt local_assigned (st_returns st))) (\<lambda>_.
          rs_return [SReturn l (Some x)])))))"

definition delete_statement :: "resolver \<Rightarrow> expr_context \<Rightarrow> loc \<Rightarrow> pexpr \<Rightarrow> statement list rs" where
  "delete_statement rec cx l e =
    rs_bind (rec cx e Unknown) (\<lambda>x. rs_bind (used x) (\<lambda>_. rs_bind (rs_ty x) (\<lambda>t. case t of
        TStorageRef t' \<Rightarrow>
          if is_mapping t then rs_fail_ns (diag_error l (Text ''delete cannot be applied to mapping type''))
          else rs_return [SDelete l t' x]
      | _ \<Rightarrow> rs_fail_ns (diag_error l (Text ''argument to delete should be storage reference'')))))"

definition value_statement :: "loc \<Rightarrow> expr \<Rightarrow> (bool \<times> statement list) rs" where
  "value_statement l x =
    rs_bind (rs_opt (expr_tys x)) (\<lambda>ts. let r = (ts \<noteq> [TUnreachable]) in rs_return (r, [SExpression l r x]))"

definition checked_value :: "expr rs \<Rightarrow> expr rs" where
  "checked_value m = rs_bind m (\<lambda>x. rs_bind (rs_check x) (\<lambda>_. rs_return x))"

definition expression_statement ::
  "resolver_parts \<Rightarrow> resolver \<Rightarrow> expr_context \<Rightarrow> loc \<Rightarrow> pexpr \<Rightarrow> (bool \<times> statement list) rs" where
  "expression_statement p rec cx l e =
    (let rest = rs_bind (rec cx e Unknown) (value_statement l)
     in case e of
         PUnary PDelete _ e' \<Rightarrow> rs_bind (delete_statement rec cx l e') (\<lambda>ss. rs_return (True, ss))
       | PFunctionCall cl t args \<Rightarrow> rs_bind (checked_value (call_expr p rec cx cl t args Discard)) (value_statement l)
       | PNamedFunctionCall cl t args \<Rightarrow>
           rs_bind (checked_value (named_call_expr p rec cx cl t args True Discard)) (value_statement l)
       | PBinary PAssign _ var e' \<Rightarrow> (case var of
             PList _ lefts \<Rightarrow> rs_bind (destructure p rec cx l lefts e') (\<lambda>s. rs_return (True, [s]))
           | _ \<Rightarrow> rest)
       | _ \<Rightarrow> rest)"

text \<open>The bodies of loops, with the scope of the loop that is left.\<close>

definition leave_loop :: "resolved \<Rightarrow> (bool \<times> statement list \<times> loop_scope \<times> loop_scope list) rs" where
  "leave_loop r = (case r of (b, ss, ls) \<Rightarrow>
     rs_bind (rs_opt (loop_leave_scope ls)) (\<lambda>(control, ls). rs_return (b, ss, control, ls)))"

definition next_expression :: "resolver \<Rightarrow> expr_context \<Rightarrow> pexpr option \<Rightarrow> expr option rs" where
  "next_expression rec cx e = (case e of
      None \<Rightarrow> rs_return None
    | Some e \<Rightarrow> rs_bind (rec cx e (ToType TBool)) (\<lambda>x. rs_return (Some x)))"

text \<open>The diagnostic of the first unreachable statement of a block.\<close>

definition check_reached :: "bool \<Rightarrow> bool \<Rightarrow> loc \<Rightarrow> unit rs" where
  "check_reached reached reported l =
    (if \<not> reached \<and> \<not> reported then rs_namespace (report (diag_error l (Text ''unreachable statement''))) else rs_return ())"

fun resolve_statement :: "resolver_parts \<Rightarrow> resolver \<Rightarrow> expr_context \<Rightarrow> pexpr pstatement \<Rightarrow> loop_scope list \<Rightarrow> resolved rs"
  and resolve_block :: "resolver_parts \<Rightarrow> resolver \<Rightarrow> expr_context \<Rightarrow> pexpr pstatement list \<Rightarrow> bool \<Rightarrow> bool \<Rightarrow> loop_scope list \<Rightarrow> resolved rs"
  and resolve_optional :: "resolver_parts \<Rightarrow> resolver \<Rightarrow> expr_context \<Rightarrow> pexpr pstatement option \<Rightarrow> loop_scope list \<Rightarrow> resolved rs" where
  "resolve_statement p rec cx (PSVariableDefinition l d init) ls =
    rs_bind (variable_definition_statement p rec cx l d init) (\<lambda>ss. rs_return (True, ss, ls))"
| "resolve_statement p rec cx (PSBlock l ss) ls =
    rs_bind (in_scope (resolve_block p rec cx ss True False ls)) (\<lambda>(r, ss, ls). rs_return (r, [SBlock l ss], ls))"
| "resolve_statement p rec cx (PSBreak l) ls = (case do_break ls of
      (True, ls) \<Rightarrow> rs_return (False, [SBreak l], ls)
    | (False, _) \<Rightarrow> rs_fail (diag_error l (Text ''break statement not in loop'')))"
| "resolve_statement p rec cx (PSContinue l) ls = (case do_continue ls of
      (True, ls) \<Rightarrow> rs_return (False, [SContinue l], ls)
    | (False, _) \<Rightarrow> rs_fail (diag_error l (Text ''continue statement not in loop'')))"
| "resolve_statement p rec cx (PSWhile l c body) ls =
    rs_bind (bool_condition rec cx c) (\<lambda>c.
    rs_bind (in_scope (resolve_statement p rec cx body (loop_new_scope ls))) (\<lambda>r. rs_bind (leave_loop r) (\<lambda>(_, ss, _, ls).
      rs_return (True, [SWhile l True c ss], ls))))"
| "resolve_statement p rec cx (PSDoWhile l body c) ls =
    rs_bind (bool_condition rec cx c) (\<lambda>c.
    rs_bind (in_scope (resolve_statement p rec cx body (loop_new_scope ls))) (\<lambda>r. rs_bind (leave_loop r) (\<lambda>(_, ss, _, ls).
      rs_return (True, [SDoWhile l True ss c], ls))))"
| "resolve_statement p rec cx (PSIf l c th el) ls =
    rs_bind (bool_condition rec cx c) (\<lambda>c.
    rs_bind (in_scope (resolve_statement p rec cx th ls)) (\<lambda>(r, ts, ls).
    rs_bind (if el = None then rs_return (True, [], ls) else in_scope (resolve_optional p rec cx el ls)) (\<lambda>(r', es, ls).
      rs_return (r \<or> r', [SIf l (r \<or> r') c ts es], ls))))"
| "resolve_statement p rec cx (PSArgs l _) ls =
    rs_fail_ns (diag_error l (Text ''expected code block, not list of named arguments''))"
| "resolve_statement p rec cx (PSFor l init None next body) ls =
    rs_bind (in_scope
     (rs_bind (resolve_optional p rec cx init ls) (\<lambda>(_, is, ls).
      rs_bind (resolve_optional p rec cx body (loop_new_scope ls)) (\<lambda>r. rs_bind (leave_loop r) (\<lambda>(_, ss, control, ls).
      rs_bind (next_expression rec cx next) (\<lambda>n. rs_return (is, n, ss, control, ls))))))) (\<lambda>(is, n, ss, control, ls).
      rs_return (no_breaks control > 0, [SFor l (no_breaks control > 0) is None n ss], ls))"
| "resolve_statement p rec cx (PSFor l init (Some c) next body) ls =
    rs_bind (in_scope
     (rs_bind (resolve_optional p rec cx init ls) (\<lambda>(_, is, ls).
      rs_bind (rec cx c (ToType TBool)) (\<lambda>x. rs_bind (rs_loc c) (\<lambda>cl. rs_bind (rs_cast x cl TBool) (\<lambda>x.
      rs_bind (resolve_optional p rec cx body (loop_new_scope ls)) (\<lambda>r. rs_bind (leave_loop r) (\<lambda>(b, ss, control, ls).
      rs_bind (next_expression rec cx (if b \<or> no_continues control > 0 then next else None)) (\<lambda>n.
        rs_return (is, x, n, ss, ls)))))))))) (\<lambda>(is, x, n, ss, ls).
      rs_return (True, [SFor l True is (Some x) n ss], ls))"
| "resolve_statement p rec cx (PSReturn l e) ls =
    rs_bind (return_statement p rec cx l e) (\<lambda>ss. rs_return (False, ss, ls))"
| "resolve_statement p rec cx (PSExpression l e) ls =
    rs_bind (expression_statement p rec cx l e) (\<lambda>(r, ss). rs_return (r, ss, ls))"
| "resolve_statement p rec cx (PSError l) ls = rs_panic"
| "resolve_block p rec cx [] reached reported ls = rs_return (reached, [], ls)"
| "resolve_block p rec cx (s # ss) reached reported ls =
    rs_bind (check_reached reached reported (pstatement_loc s)) (\<lambda>_.
    rs_bind (resolve_statement p rec cx s ls) (\<lambda>(r, ts, ls).
    rs_bind (resolve_block p rec cx ss r (reported \<or> \<not> reached) ls) (\<lambda>(r, us, ls). rs_return (r, ts @ us, ls))))"
| "resolve_optional p rec cx None ls = rs_return (True, [], ls)"
| "resolve_optional p rec cx (Some s) ls = resolve_statement p rec cx s ls"

subsection \<open>Function bodies\<close>

definition push_argument_position :: "nat option \<Rightarrow> unit rs" where
  "push_argument_position pos = rs_symtable (\<lambda>st. st\<lparr>arguments := arguments st @ [pos]\<rparr>)"

definition push_return_position :: "nat \<Rightarrow> unit rs" where
  "push_return_position pos = rs_symtable (\<lambda>st. st\<lparr>st_returns := st_returns st @ [pos]\<rparr>)"

text \<open>The parameters and the returned values; \<open>ps\<close> are their declarations in the namespace.\<close>

fun add_parameters :: "expr_context \<Rightarrow> parameter_list \<Rightarrow> parameter list \<Rightarrow> unit rs" where
  "add_parameters cx [] ps = rs_return ()"
| "add_parameters cx ((_, q) # qs) ps =
    rs_bind (rs_opt q) (\<lambda>q.
    rs_bind (case pa_name q of
        None \<Rightarrow> push_argument_position None
      | Some x \<Rightarrow> rs_bind (rs_opt (hd_opt ps)) (\<lambda>d.
          rs_bind (declare_local cx (decl_of x (p_ty d) None Parameter None)) (\<lambda>r. case r of
            Some pos \<Rightarrow> push_argument_position (Some pos)
          | None \<Rightarrow> rs_return ()))) (\<lambda>_.
    add_parameters cx qs (tl ps)))"

text \<open>Whether a return statement is required is decided by the last element of the list that changes it.\<close>

fun add_returns :: "expr_context \<Rightarrow> parameter_list \<Rightarrow> parameter list \<Rightarrow> bool \<Rightarrow> bool rs" where
  "add_returns cx [] ps required = rs_return required"
| "add_returns cx ((l, q) # qs) ps required =
    rs_bind (rs_opt (hd_opt ps)) (\<lambda>d. rs_bind (rs_opt q) (\<lambda>q.
    rs_bind (case pa_name q of
        Some x \<Rightarrow>
          rs_bind (declare_local cx (decl_of x (p_ty d) None ReturnVariable None)) (\<lambda>r.
          rs_bind (case r of Some pos \<Rightarrow> push_return_position pos | None \<Rightarrow> rs_return ()) (\<lambda>_. rs_return False))
      | None \<Rightarrow>
          rs_bind (rs_add (decl_of \<lparr>id_loc = l, id_name = []\<rparr> (p_ty d) None AnonymousReturnVariable None)) (\<lambda>r.
          rs_bind (rs_opt r) (\<lambda>pos. rs_bind (push_return_position pos) (\<lambda>_.
            rs_return (required \<or> is_contract_storage (p_ty d)))))) (\<lambda>required.
    add_returns cx qs (tl ps) required)))"

text \<open>The body, or nothing when the function has none.\<close>

definition function_body ::
  "resolver_parts \<Rightarrow> expr_context \<Rightarrow> function_definition \<Rightarrow> function_decl \<Rightarrow> (bool \<times> bool \<times> statement list) option rs" where
  "function_body p cx d f =
    rs_bind (add_parameters cx (ff_params d) (fd_params f)) (\<lambda>_.
    rs_bind (add_returns cx (ff_returns d) (fd_returns f) False) (\<lambda>required. case ff_body d of
      None \<Rightarrow> rs_return None
    | Some body \<Rightarrow> rs_bind (resolve_statement p (resolve_expression p) cx body []) (\<lambda>(r, ss, _).
        rs_return (Some (r, required, ss)))))"

definition missing_return_errors :: "function_decl \<Rightarrow> diagnostic list" where
  "missing_return_errors f = map (\<lambda>q. diag_error (p_loc q) (Text ''storage reference must be given value with a return statement''))
     (filter (\<lambda>q. p_name q = None \<and> is_contract_storage (p_ty q)) (fd_returns f))"

definition store_body :: "nat \<Rightarrow> statement list \<Rightarrow> symtable \<Rightarrow> namespace \<Rightarrow> namespace option" where
  "store_body n ss st ns = do {
     f \<leftarrow> Sema_AST.at (ns_functions ns) n;
     Some (ns\<lparr>ns_functions := (ns_functions ns)[n := f\<lparr>fd_body := ss, fd_symtable := st\<rparr>]\<rparr>) }"

text \<open>The result is whether the function returned \<open>Ok\<close>, and the new namespace.\<close>

definition resolve_function_body ::
  "resolver_parts \<Rightarrow> function_definition \<Rightarrow> nat \<Rightarrow> nat option \<Rightarrow> nat \<Rightarrow> namespace \<Rightarrow> (bool \<times> namespace) option" where
  "resolve_function_body p d fl c n ns = do {
     f \<leftarrow> Sema_AST.at (ns_functions ns) n;
     let cx = \<lparr>cx_file_no = fl, cx_contract_no = c, cx_function_no = Some n, cx_constant = False, cx_lvalue = False\<rparr>;
     (r, s) \<leftarrow> function_body p cx d f \<lparr>st_ns = ns, st_sym = symtable_new, st_diags = no_diagnostics\<rparr>;
     let ns = (st_ns s)\<lparr>ns_diagnostics := extend_diags (ns_diagnostics (st_ns s)) (st_diags s)\<rparr>;
     (case r of
        Inl _ \<Rightarrow> Some (False, ns)
      | Inr None \<Rightarrow> Some (True, ns)
      | Inr (Some (reached, required, ss)) \<Rightarrow> do {
          f \<leftarrow> Sema_AST.at (ns_functions ns) n;
          let ns = (if reached \<and> required then fold report (missing_return_errors f) ns else ns);
          ns \<leftarrow> store_body n ss (st_sym s) ns;
          Some (True, ns) }) }"

end
