(* ===== verification/Sema_Frame.thy ===== *)
theory Sema_Frame
  imports Sema_Statement
begin

section \<open>What the resolution of expressions changes, and how it fails\<close>

text \<open>
  A calculus for the computations of the resolver.  A computation is \<open>good\<close> when it only sets marks of
  variables and collects diagnostics, when an \<open>Err\<close> comes with an error among the diagnostics, and when its
  value has a property.  \<open>bound\<close> is the property of expressions: all they refer to exists.
\<close>

subsection \<open>Marking\<close>

definition only_marks :: "usage_state \<Rightarrow> usage_state option \<Rightarrow> bool" where
  "only_marks s r \<longleftrightarrow> (\<forall>t. r = Some t \<longrightarrow> marks UNIV s t)"

lemma only_marks_Some [simp]: "only_marks s (Some s)"
  by (simp add: only_marks_def)

lemma only_marks_None [simp]: "only_marks s None"
  by (simp add: only_marks_def)

lemma only_marks_bind: "only_marks s m \<Longrightarrow> (\<And>t. only_marks t (f t)) \<Longrightarrow> only_marks s (m \<bind> f)"
  unfolding only_marks_def by (auto simp: bind_eq_Some_conv intro: marks_trans)

lemma only_marks_type: "(\<And>t. only_marks s (f t)) \<Longrightarrow> only_marks s (expr_ty e \<bind> f)"
  by (cases "expr_ty e") simp_all

lemma only_marks_fold: "(\<And>x t. x \<in> set xs \<Longrightarrow> only_marks t (g x t)) \<Longrightarrow> only_marks s (fold_opt g xs s)"
proof (induction xs arbitrary: s)
  case (Cons x xs)
  show ?case unfolding fold_opt.simps by (rule only_marks_bind) (use Cons in auto)
qed simp

lemma only_marks_option:
  "(\<And>y. x = Some y \<Longrightarrow> only_marks s (f y s)) \<Longrightarrow> only_marks s (case x of Some y \<Rightarrow> f y s | None \<Rightarrow> Some s)"
  by (cases x) simp_all

lemma only_marks_storage: "(\<And>x. svariable_marked x (g x)) \<Longrightarrow> only_marks s (mark_storage g c v s)"
  using mark_storage_marked [of c s v g UNIV]
  by (auto simp: only_marks_def marked_def mark_storage_def at_def bind_eq_Some_conv split: if_splits)

lemma only_marks_constant: "(\<And>x. svariable_marked x (g x)) \<Longrightarrow> only_marks s (mark_constant g v s)"
  using mark_constant_marked [of v s g UNIV]
  by (auto simp: only_marks_def marked_def mark_constant_def at_def bind_eq_Some_conv split: if_splits)

lemma only_marks_local: "(\<And>x. variable_marked x (g x)) \<Longrightarrow> only_marks s (mark_local g n s)"
proof (cases "n \<in> fst ` set (vars (snd s))")
  case True
  then show "(\<And>x. variable_marked x (g x)) \<Longrightarrow> ?thesis"
    using mark_local_marked [of n s g UNIV] by (auto simp: only_marks_def marked_def)
next
  case False
  then show ?thesis by (simp add: mark_local_def map_of_eq_None_iff [THEN iffD2])
qed

lemmas only_marks_rules = only_marks_storage only_marks_constant only_marks_local flag_marked only_marks_option

lemma usage_only_marks:
  "only_marks s (assigned_variable e s) \<and> only_marks s (subscript_variable e s) \<and>
   only_marks s (used_variable e s) \<and> only_marks s (check_function_call e s)"
proof (induction e arbitrary: s rule: measure_induct_rule [of size])
  case (less e)
  have IH: "only_marks t (assigned_variable y t)" "only_marks t (subscript_variable y t)" "only_marks t (used_variable y t)"
    "only_marks t (check_function_call y t)" if "y \<in> set (parts e)" for t y
    using less.IH [OF parts_size [OF that]] by simp_all
  note rules = IH only_marks_rules only_marks_bind only_marks_fold
  have a: "only_marks s (assigned_variable e s)"
    by (subst assigned_variable.simps, split expr.split, intro conjI allI impI)
      (auto simp: parts_def intro!: only_marks_type rules)
  have call: "only_marks s (check_function_call e s)" if "is_internal_call e" for s
    using that by (subst check_function_call.simps, split expr.split, intro conjI allI impI)
      (auto simp: parts_def intro!: rules)
  have u: "only_marks s (used_variable e s)" for s
    by (subst used_variable.simps, split expr.split, intro conjI allI impI)
      (use call in \<open>auto simp: parts_def option_operand_def intro!: rules split: option.split list.split\<close>)
  have c: "only_marks s (check_function_call e s)" for s
    by (subst check_function_call.simps, split expr.split, intro conjI allI impI)
      (use u in \<open>auto simp: parts_def option_operand_def intro!: rules split: option.split list.split\<close>)
  have "only_marks s (subscript_variable e s)"
    by (subst subscript_variable.simps, split expr.split, intro conjI allI impI)
      (use c in \<open>auto simp: parts_def intro!: rules\<close>)
  then show ?case using a u c by blast
qed

subsection \<open>References\<close>

text \<open>
  What a variable, constant or function in an expression refers to exists and has the type that the
  expression has.  A constant that is named is one, and calls of library functions on arrays have an array.
\<close>

definition ref_in :: "usage_state \<Rightarrow> expr \<Rightarrow> bool" where
  "ref_in s e = (case e of
      EVariable _ t n \<Rightarrow> (\<exists>v. map_of (vars (snd s)) n = Some v \<and> var_ty v = t)
    | EStorageVariable _ t c n \<Rightarrow> (\<exists>v. constant_variable (fst s) (Some c) n = Some v \<and> \<not> v_constant v \<and> t = TStorageRef (v_ty v))
    | EConstantVariable _ t c n \<Rightarrow> (\<exists>v. constant_variable (fst s) c n = Some v \<and> (c \<noteq> None \<longrightarrow> v_constant v) \<and> t = v_ty v)
    | EFunction _ _ n _ \<Rightarrow> n < length (ns_functions (fst s))
    | EExternalFunction _ _ _ n \<Rightarrow> n < length (ns_functions (fst s))
    | ESubscript _ _ _ a _ \<Rightarrow> expr_ty a \<noteq> None
    | ELibFunction _ _ f args \<Rightarrow> f \<in> {ArrayLength, ArrayPush, ArrayPop} \<longrightarrow> args \<noteq> []
    | _ \<Rightarrow> True)"

definition bound :: "usage_state \<Rightarrow> expr \<Rightarrow> bool" where
  "bound s e \<longleftrightarrow> (\<forall>x. occurs x e \<longrightarrow> ref_in s x)"

lemma occurs_iff: "occurs x e \<longleftrightarrow> x = e \<or> (\<exists>y\<in>set (parts e). occurs x y)"
  by (subst occurs.simps) blast

lemma bound_iff: "bound s e \<longleftrightarrow> ref_in s e \<and> (\<forall>y\<in>set (parts e). bound s y)"
  unfolding bound_def by (subst occurs_iff) blast

lemma bound_simps [simp]:
  "bound s (EBool l b)" "bound s (EBytes l t bs)" "bound s (ENumber l t num)" "bound s (EAddress l t ns)" "bound s (EHash l t ns)"
  "bound s (EStruct l t es) \<longleftrightarrow> (\<forall>e\<in>set es. bound s e)"
  "bound s (EArray l t ds es) \<longleftrightarrow> (\<forall>e\<in>set es. bound s e)"
  "bound s (EConstArray l t ds es) \<longleftrightarrow> (\<forall>e\<in>set es. bound s e)"
  "bound s (EArith a l t x y) \<longleftrightarrow> bound s x \<and> bound s y"
  "bound s (EUnary u l t x) \<longleftrightarrow> bound s x"
  "bound s (EBytesCast l t t' x) \<longleftrightarrow> bound s x"
  "bound s (EAssign l t x y) \<longleftrightarrow> bound s x \<and> bound s y"
  "bound s (ECompare cmp l x y) \<longleftrightarrow> bound s x \<and> bound s y"
  "bound s (ENot l x) \<longleftrightarrow> bound s x"
  "bound s (EConditional l t c x y) \<longleftrightarrow> bound s c \<and> bound s x \<and> bound s y"
  "bound s (ESubscript l t t' x y) \<longleftrightarrow> expr_ty x \<noteq> None \<and> bound s x \<and> bound s y"
  "bound s (EArraySlice l t t' x g v) \<longleftrightarrow> bound s x \<and> (\<forall>y. g = Some y \<longrightarrow> bound s y) \<and> (\<forall>y. v = Some y \<longrightarrow> bound s y)"
  "bound s (EStructMember l t x m) \<longleftrightarrow> bound s x"
  "bound s (EAllocDynamicBytes l t x i) \<longleftrightarrow> bound s x"
  "bound s (EStorageArrayLength l t x t') \<longleftrightarrow> bound s x"
  "bound s (EStringCompare l sx sy) \<longleftrightarrow> (\<forall>e\<in>set (string_operand sx @ string_operand sy). bound s e)"
  "bound s (EStringConcat l t sx sy) \<longleftrightarrow> (\<forall>e\<in>set (string_operand sx @ string_operand sy). bound s e)"
  "bound s (EOr l x y) \<longleftrightarrow> bound s x \<and> bound s y"
  "bound s (EAnd l x y) \<longleftrightarrow> bound s x \<and> bound s y"
  "bound s (EFunction l t n sg) \<longleftrightarrow> n < length (ns_functions (fst s))"
  "bound s (EExternalFunction l t x n) \<longleftrightarrow> n < length (ns_functions (fst s)) \<and> bound s x"
  "bound s (EFunctionCall l ts x args) \<longleftrightarrow> bound s x \<and> (\<forall>e\<in>set args. bound s e)"
  "bound s (EExternalFunctionCall l ts x args acc g v) \<longleftrightarrow>
     bound s x \<and> (\<forall>e\<in>set args. bound s e) \<and> (\<forall>y. g = Some y \<longrightarrow> bound s y) \<and> (\<forall>y. v = Some y \<longrightarrow> bound s y)"
  "bound s (EExternalFunctionCallRaw l ct x y acc g v) \<longleftrightarrow>
     bound s x \<and> bound s y \<and> (\<forall>y. g = Some y \<longrightarrow> bound s y) \<and> (\<forall>y. v = Some y \<longrightarrow> bound s y)"
  "bound s (ELibFunction l ts f es) \<longleftrightarrow> (f \<in> {ArrayLength, ArrayPush, ArrayPop} \<longrightarrow> es \<noteq> []) \<and> (\<forall>e\<in>set es. bound s e)"
  "bound s (EList l es) \<longleftrightarrow> (\<forall>e\<in>set es. bound s e)"
  by (subst bound_iff, force simp: ref_in_def parts_def option_operand_def)+

lemma bound_variables:
  "bound s (EVariable l t n) \<longleftrightarrow> (\<exists>v. map_of (vars (snd s)) n = Some v \<and> var_ty v = t)"
  "bound s (EStorageVariable l t c n) \<longleftrightarrow>
     (\<exists>v. constant_variable (fst s) (Some c) n = Some v \<and> \<not> v_constant v \<and> t = TStorageRef (v_ty v))"
  "bound s (EConstantVariable l t c' n) \<longleftrightarrow>
     (\<exists>v. constant_variable (fst s) c' n = Some v \<and> (c' \<noteq> None \<longrightarrow> v_constant v) \<and> t = v_ty v)"
  by (subst bound_iff, simp add: ref_in_def parts_def)+

subsection \<open>The environment of an expression\<close>

definition quiet :: "namespace \<Rightarrow> namespace" where
  "quiet ns = ns\<lparr>ns_diagnostics := no_diagnostics, ns_called_lib_functions := []\<rparr>"

text \<open>
  A state in an environment: only marks of variables, diagnostics and the list of the called library
  functions differ.
\<close>

definition in_env :: "usage_state \<Rightarrow> usage_state \<Rightarrow> bool" where
  "in_env E s \<longleftrightarrow> marks UNIV (quiet (fst E), snd E) (quiet (fst s), snd s)"

text \<open>
  Constants have an initialiser, which refers to what exists; variables are found under their position.  A
  constant without an initialiser was reported when it was declared, and its evaluation fails without a
  further diagnostic.
\<close>

definition initialised :: "namespace \<Rightarrow> bool" where
  "initialised ns \<longleftrightarrow> (\<forall>c n v. constant_variable ns c n = Some v \<longrightarrow> (c \<noteq> None \<longrightarrow> v_constant v) \<longrightarrow>
     (\<exists>e. v_initializer v = Some e \<and> bound (ns, symtable_new) e))"

definition env_ok :: "usage_state \<Rightarrow> bool" where
  "env_ok E \<longleftrightarrow> (\<forall>k v. map_of (vars (snd E)) k = Some v \<longrightarrow> var_pos v = k) \<and> initialised (fst E)"

lemma in_env_refl [simp]: "in_env E E"
  by (simp add: in_env_def)

lemma in_env_trans: "in_env E s \<Longrightarrow> in_env s t \<Longrightarrow> in_env E t"
  unfolding in_env_def by (auto intro: marks_trans)

lemma in_env_variable:
  assumes "in_env E s" "constant_variable (fst s) c n = Some w"
  shows "\<exists>v. constant_variable (fst E) c n = Some v \<and> svariable_marked v w"
proof -
  have m: "list_all2 contract_marked (ns_contracts (fst E)) (ns_contracts (fst s))"
    "list_all2 svariable_marked (ns_constants (fst E)) (ns_constants (fst s))"
    using marksD(1,2) [OF assms(1) [unfolded in_env_def]] by (simp_all add: quiet_def)
  show ?thesis
  proof (cases c)
    case None
    then show ?thesis using assms(2) m(2) by (auto simp: constant_variable_def at_def list_all2_conv_all_nth split: if_splits)
  next
    case (Some k)
    then show ?thesis using assms(2) m(1)
      by (auto simp: constant_variable_def at_def contract_marked_def list_all2_conv_all_nth bind_eq_Some_conv split: if_splits)
  qed
qed

lemma in_env_local: "in_env E s \<Longrightarrow> map_of (vars (snd s)) n = Some w \<Longrightarrow>
    \<exists>v. map_of (vars (snd E)) n = Some v \<and> variable_marked v w"
  unfolding in_env_def
proof (drule marksD(3), simp)
  show "list_all2 (local_marked UNIV) (vars (snd E)) (vars (snd s)) \<Longrightarrow> map_of (vars (snd s)) n = Some w \<Longrightarrow> ?thesis"
    by (induction rule: list_all2_induct) (auto simp: local_marked_def split: if_splits)
qed

lemma in_env_rest:
  assumes "in_env E s"
  shows "ns_functions (fst s) = ns_functions (fst E)" "ns_structs (fst s) = ns_structs (fst E)"
    "ns_enums (fst s) = ns_enums (fst E)" "ns_user_types (fst s) = ns_user_types (fst E)"
    "ns_variable_symbols (fst s) = ns_variable_symbols (fst E)" "ns_function_symbols (fst s) = ns_function_symbols (fst E)"
    "ns_next_id (fst s) = ns_next_id (fst E)"
    "names (snd s) = names (snd E)" "arguments (snd s) = arguments (snd E)" "st_returns (snd s) = st_returns (snd E)"
  using marksD(4,5) [OF assms [unfolded in_env_def]]
  by (cases "fst s"; cases "fst E"; cases "snd s"; cases "snd E"; simp add: quiet_def)+

lemma marked_same:
  "svariable_marked v w \<Longrightarrow> v_constant w = v_constant v \<and> v_ty w = v_ty v \<and> v_initializer w = v_initializer v \<and> v_name w = v_name v"
  "variable_marked x y \<Longrightarrow> var_ty y = var_ty x \<and> var_pos y = var_pos x"
  by (cases v; cases w; simp add: svariable_marked_def) (cases x; cases y; simp add: variable_marked_def)

subsection \<open>Computations and their failures\<close>

text \<open>
  A failure is reported with an error, with one exception: when overloads are tried, a diagnostic that is not
  about a conversion ends the search, be it a warning.
\<close>

definition diag_failed :: "diagnostics \<Rightarrow> bool" where
  "diag_failed d \<longleftrightarrow> any_errors d \<or> (\<exists>x\<in>set (contents d). dg_type x \<noteq> CastError)"

definition failed :: "rstate \<Rightarrow> bool" where
  "failed s = diag_failed (st_diags s)"

abbreviation env_of :: "rstate \<Rightarrow> usage_state" where
  "env_of s \<equiv> (st_ns s, st_sym s)"

definition grows :: "rstate \<Rightarrow> rstate \<Rightarrow> bool" where
  "grows s t \<longleftrightarrow> in_env (env_of s) (env_of t) \<and> (failed s \<longrightarrow> failed t) \<and>
     (any_errors (ns_diagnostics (st_ns s)) \<longrightarrow> any_errors (ns_diagnostics (st_ns t)))"

lemma state_grows_refl [simp]: "grows s s"
  by (simp add: grows_def)

lemma state_grows_trans: "grows s t \<Longrightarrow> grows t u \<Longrightarrow> grows s u"
  unfolding grows_def by (blast intro: in_env_trans)

text \<open>The computation \<open>m\<close> from states with \<open>P\<close>: a value comes with \<open>Q\<close>, an \<open>Err\<close> with an error.\<close>

definition triple :: "(rstate \<Rightarrow> bool) \<Rightarrow> 'a rs \<Rightarrow> ('a \<Rightarrow> rstate \<Rightarrow> bool) \<Rightarrow> bool" where
  "triple P m Q \<longleftrightarrow> (\<forall>s r t. P s \<longrightarrow> m s = Some (r, t) \<longrightarrow> grows s t \<and> (case r of Inl _ \<Rightarrow> failed t | Inr x \<Rightarrow> Q x t))"

lemma tripleI:
  assumes "\<And>s r t. P s \<Longrightarrow> m s = Some (r, t) \<Longrightarrow> grows s t"
    "\<And>s u t. P s \<Longrightarrow> m s = Some (Inl u, t) \<Longrightarrow> failed t"
    "\<And>s x t. P s \<Longrightarrow> m s = Some (Inr x, t) \<Longrightarrow> Q x t"
  shows "triple P m Q"
  using assms unfolding triple_def by (auto split: sum.split)

lemma tripleD:
  assumes "triple P m Q" "P s" "m s = Some (r, t)"
  shows "grows s t" "r = Inl u \<Longrightarrow> failed t" "r = Inr x \<Longrightarrow> Q x t"
  using assms unfolding triple_def by (auto split: sum.splits)

lemma triple_bind:
  assumes "triple P m Q" "\<And>x. triple (Q x) (f x) R"
  shows "triple P (rs_bind m f) R"
proof -
  have "grows s t \<and> (case r of Inl _ \<Rightarrow> failed t | Inr x \<Rightarrow> R x t)" if "P s" "rs_bind m f s = Some (r, t)" for s r t
  proof (cases "m s")
    case (Some rs')
    obtain r' s' where m: "m s = Some (r', s')" using Some by (cases rs') auto
    show ?thesis
    proof (cases r')
      case (Inl u)
      then show ?thesis using that(2) m tripleD(1,2) [OF assms(1) that(1) m] by (auto simp: rs_bind_def)
    next
      case (Inr x)
      then have "f x s' = Some (r, t)" using that(2) m by (simp add: rs_bind_def)
      with Inr tripleD [OF assms(1) that(1) m] assms(2) [of x] show ?thesis
        unfolding triple_def by (metis state_grows_trans)
    qed
  qed (use that in \<open>simp add: rs_bind_def\<close>)
  then show ?thesis unfolding triple_def by blast
qed

lemma triple_weaken: "triple P m Q \<Longrightarrow> (\<And>s. P' s \<Longrightarrow> P s) \<Longrightarrow> (\<And>x t. Q x t \<Longrightarrow> Q' x t) \<Longrightarrow> triple P' m Q'"
  by (rule tripleI) (blast dest: tripleD)+

text \<open>Good computations in an environment.\<close>

definition good :: "usage_state \<Rightarrow> 'a rs \<Rightarrow> ('a \<Rightarrow> bool) \<Rightarrow> bool" where
  "good E m Q \<longleftrightarrow> (env_ok E \<longrightarrow> triple (\<lambda>s. in_env E (env_of s)) m (\<lambda>x _. Q x))"

lemma goodI: "(env_ok E \<Longrightarrow> triple (\<lambda>s. in_env E (env_of s)) m (\<lambda>x _. Q x)) \<Longrightarrow> good E m Q"
  by (simp add: good_def)

lemma good_bind:
  assumes "good E m Q" "\<And>x. Q x \<Longrightarrow> good E (f x) R"
  shows "good E (rs_bind m f) R"
proof (rule goodI, rule triple_bind)
  assume env: "env_ok E"
  show "triple (\<lambda>s. in_env E (env_of s)) m (\<lambda>x t. Q x \<and> in_env E (env_of t))"
    using assms(1) env unfolding good_def triple_def grows_def by (auto intro: in_env_trans split: sum.splits)
  show "triple (\<lambda>t. Q x \<and> in_env E (env_of t)) (f x) (\<lambda>x _. R x)" for x
    using assms(2) [of x] env unfolding good_def triple_def by auto
qed

lemma good_weaken: "good E m Q \<Longrightarrow> (\<And>x. Q x \<Longrightarrow> Q' x) \<Longrightarrow> good E m Q'"
  unfolding good_def by (blast intro: triple_weaken)

text \<open>What is still known after a computation when a failure before it matters.\<close>

lemma good_triple: "good E m Q \<Longrightarrow> env_ok E \<Longrightarrow>
    triple (\<lambda>s. in_env E (env_of s) \<and> (b \<longrightarrow> failed s)) m (\<lambda>x t. Q x \<and> in_env E (env_of t) \<and> (b \<longrightarrow> failed t))"
  unfolding good_def triple_def grows_def by (auto intro: in_env_trans split: sum.splits)

lemma triple_good: "triple (\<lambda>_. True) m (\<lambda>x _. Q x) \<Longrightarrow> good E m Q"
  by (rule goodI, rule triple_weaken) simp_all

subsection \<open>Rules\<close>

named_theorems good_rules \<open>rules for good computations\<close>

lemma good_return [good_rules]: "Q x \<Longrightarrow> good E (rs_return x) Q"
  by (rule triple_good) (auto simp: triple_def rs_return_def)

lemma good_panic [good_rules]: "good E rs_panic Q"
  by (rule triple_good) (auto simp: triple_def rs_panic_def)

lemma good_opt [good_rules]: "good E (rs_opt x) (\<lambda>y. x = Some y)"
  by (cases x) (simp_all add: rs_opt_def good_panic good_return)

lemma good_at [good_rules]: "good E (rs_at xs n) (\<lambda>x. Sema_AST.at xs n = Some x)"
  unfolding rs_at_def by (rule good_opt)

text \<open>The namespace that is read.\<close>

definition ns_in :: "usage_state \<Rightarrow> namespace \<Rightarrow> bool" where
  "ns_in E ns \<longleftrightarrow> (\<exists>st. in_env E (ns, st))"

lemma good_get_ns [good_rules]: "good E (rs_get st_ns) (ns_in E)"
  by (rule goodI) (auto simp: triple_def rs_get_def ns_in_def)

lemma good_get_sym [good_rules]: "good E (rs_get st_sym) (\<lambda>st. \<exists>ns. in_env E (ns, st))"
  by (rule goodI) (auto simp: triple_def rs_get_def)

lemma st_find_map_of: "st_find st n = Some v \<Longrightarrow> \<exists>k. map_of (vars st) k = Some v"
  by (auto simp: st_find_def split: option.splits)

lemma good_find [good_rules]:
  "good E (rs_get (\<lambda>s. st_find (st_sym s) n)) (\<lambda>r. \<forall>v. r = Some v \<longrightarrow> (\<forall>l. bound E (EVariable l (var_ty v) (var_pos v))))"
proof (rule goodI)
  assume E: "env_ok E"
  have "bound E (EVariable l (var_ty w) (var_pos w))" if s: "in_env E (env_of s)" "st_find (st_sym s) n = Some w" for s w l
  proof -
    obtain k where "map_of (vars (st_sym s)) k = Some w" using st_find_map_of [OF s(2)] by blast
    with in_env_local [OF s(1)] obtain v where "map_of (vars (snd E)) k = Some v" "variable_marked v w" by auto
    with E marked_same(2) [OF this(2)] show ?thesis by (auto simp: env_ok_def bound_variables)
  qed
  then show "triple (\<lambda>s. in_env E (env_of s)) (rs_get (\<lambda>s. st_find (st_sym s) n))
      (\<lambda>r _. \<forall>v. r = Some v \<longrightarrow> (\<forall>l. bound E (EVariable l (var_ty v) (var_pos v))))"
    by (auto simp: triple_def rs_get_def)
qed

lemma any_errors_push [simp]: "any_errors (push_diag d ds) \<longleftrightarrow> is_error d \<or> any_errors ds"
  by (simp add: push_diag_def any_errors_def Let_def)

lemma any_errors_extend [simp]: "any_errors (extend_diags d n) \<longleftrightarrow> any_errors d \<or> any_errors n"
  by (simp add: extend_diags_def any_errors_def)

lemma diag_failed_push [simp]: "diag_failed (push_diag d ds) \<longleftrightarrow> is_error d \<or> dg_type d \<noteq> CastError \<or> diag_failed ds"
  by (auto simp: diag_failed_def)

lemma diag_failed_extend [simp]: "diag_failed (extend_diags d n) \<longleftrightarrow> diag_failed d \<or> diag_failed n"
  by (auto simp: diag_failed_def) (auto simp: extend_diags_def)

lemma diag_failed_new [simp]: "\<not> diag_failed no_diagnostics"
  by (simp add: diag_failed_def no_diagnostics_def any_errors_def)

lemma diag_failed_append: "diag_failed d \<Longrightarrow> diag_failed (append_diags d ds)"
  by (auto simp: diag_failed_def append_diags_def any_errors_def Let_def)

lemma extend_non_casting_failed: "extend_non_casting d n = (b, d') \<Longrightarrow> (diag_failed d \<longrightarrow> diag_failed d') \<and> (b \<longrightarrow> diag_failed d')"
  by (auto simp: extend_non_casting_def Let_def filter_empty_conv diag_failed_append split: if_splits)
    (auto simp: diag_failed_def append_diags_def Let_def filter_empty_conv split: if_splits)

lemma grows_diags: "(diag_failed (st_diags s) \<Longrightarrow> diag_failed d) \<Longrightarrow> grows s (s\<lparr>st_diags := d\<rparr>)"
  by (simp add: grows_def failed_def)

lemma triple_fail: "is_error d \<Longrightarrow> triple P (rs_fail d) Q"
  by (auto simp: triple_def rs_fail_def failed_def intro!: grows_diags)

lemma good_fail: "is_error d \<Longrightarrow> good E (rs_fail d) Q"
  by (rule triple_good) (rule triple_fail)

lemma error_constructors [simp]: "is_error (diag_error l m)" "is_error (diag_cast_error l m)" "is_error (diag_type_error l m)"
  "is_error (diag_decl_error l m)" "is_error (diag_parser_error l m)" "is_error (diag_error_with_note l m l' m')"
  "is_error (diag_error_with_notes l m ns)" "is_error (diag_cast_error_with_note l m l' m')"
  by (simp_all add: is_error_def diag_defs)

lemmas fail_rules [good_rules] = error_constructors [THEN good_fail]

lemma triple_push: "triple P (rs_push d) (\<lambda>_ t. is_error d \<longrightarrow> failed t)"
  by (auto simp: triple_def rs_push_def failed_def intro!: grows_diags)

lemma good_push [good_rules]: "good E (rs_push d) (\<lambda>_. True)"
  by (rule triple_good, rule triple_weaken [OF triple_push]) simp_all

lemma triple_extend: "triple P (rs_extend d) (\<lambda>_ t. diag_failed d \<longrightarrow> failed t)"
  by (auto simp: triple_def rs_extend_def failed_def intro!: grows_diags)

lemma good_extend [good_rules]: "good E (rs_extend d) (\<lambda>_. True)"
  by (rule triple_good, rule triple_weaken [OF triple_extend]) simp_all

lemma triple_err: "(\<And>s. P s \<Longrightarrow> failed s) \<Longrightarrow> triple P rs_err Q"
  by (auto simp: triple_def rs_err_def)

text \<open>Computations on the diagnostics.\<close>

definition ev_good :: "'a ev \<Rightarrow> bool" where
  "ev_good m \<longleftrightarrow> (\<forall>d r d'. m d = Some (r, d') \<longrightarrow> (diag_failed d \<longrightarrow> diag_failed d') \<and> (\<forall>u. r = Inl u \<longrightarrow> diag_failed d'))"

lemma good_ev:
  assumes "env_ok E \<Longrightarrow> ev_good m" "\<And>d x d'. m d = Some (Inr x, d') \<Longrightarrow> Q x"
  shows "good E (rs_ev m) Q"
  using assms unfolding good_def triple_def rs_ev_def ev_good_def failed_def
  by (auto split: option.splits sum.splits intro!: grows_diags)

lemma good_ev_any [good_rules]: "ev_good m \<Longrightarrow> good E (rs_ev m) (\<lambda>_. True)"
  by (rule good_ev) simp_all

lemma ev_good_return [good_rules]: "ev_good (ev_return x)"
  by (simp add: ev_good_def ev_return_def)

lemma ev_good_panic [good_rules]: "ev_good (\<lambda>d. None)"
  by (simp add: ev_good_def)

lemma ev_good_fail: "is_error m \<Longrightarrow> ev_good (ev_fail m)"
  by (simp add: ev_good_def ev_fail_def)

lemmas ev_fail_rules [good_rules] = error_constructors [THEN ev_good_fail]

lemma ev_good_bind [good_rules]: "ev_good m \<Longrightarrow> (\<And>x. ev_good (f x)) \<Longrightarrow> ev_good (ev_bind m f)"
  unfolding ev_good_def ev_bind_def by (fastforce split: option.splits sum.splits)

lemma quiet_marks: "marks A (ns, st) (ns', st') \<Longrightarrow> marks A (quiet ns, st) (quiet ns', st')"
  by (cases ns; cases ns') (auto simp: marks_def quiet_def)

lemma good_usage: "(\<And>s. only_marks s (g s)) \<Longrightarrow> good E (rs_usage g) (\<lambda>_. True)"
  by (rule triple_good, unfold triple_def rs_usage_def only_marks_def grows_def failed_def)
    (auto split: option.splits simp: in_env_def quiet_marks marksD(4), metis marksD(4) fst_conv namespace.select_convs(7)
    namespace.surjective namespace.update_convs(3,6))

lemma good_marks [good_rules]:
  "good E (rs_usage (used_variable e)) (\<lambda>_. True)" "good E (rs_usage (assigned_variable e)) (\<lambda>_. True)"
  "good E (rs_usage (check_function_call e)) (\<lambda>_. True)" "good E (rs_usage (storage_read c v)) (\<lambda>_. True)"
  "good E (rs_usage (check_var_usage_expression e e')) (\<lambda>_. True)"
  using usage_only_marks by (auto intro!: good_usage only_marks_bind only_marks_rules simp: check_var_usage_expression_def)

text \<open>The check for overflow only reports to the namespace.\<close>

definition reports :: "namespace option \<Rightarrow> namespace option \<Rightarrow> bool" where
  "reports s t \<longleftrightarrow> (\<forall>ns'. t = Some ns' \<longrightarrow> (\<exists>ns es. s = Some ns \<and> ns' = ns\<lparr>ns_diagnostics := fold push_diag es (ns_diagnostics ns)\<rparr>))"

lemma reports_refl: "reports s s"
  unfolding reports_def by (cases s) (auto intro!: exI [of _ "[]"])

lemma reports_trans: "reports s t \<Longrightarrow> reports t u \<Longrightarrow> reports s u"
  unfolding reports_def by (fastforce intro: exI [of _ "_ @ _"])

lemma reports_fold: "(\<And>g s. g \<in> set gs \<Longrightarrow> reports s (g s)) \<Longrightarrow> reports s (visit_all gs s)"
proof (induction gs arbitrary: s)
  case (Cons g gs)
  show ?case unfolding visit_all_simps comp_def
    by (rule reports_trans [of _ "g s"]) (use Cons in auto)
qed (simp add: reports_refl)

lemma push_fold: "push_diag x (fold push_diag es d) = fold push_diag (es @ [x]) d"
  by simp

lemma check_step_reports: "reports s (snd (check_step e s))"
proof (cases s)
  case (Some ns)
  show ?thesis
  proof (cases "checked_term e")
    case True
    then show ?thesis
      by (cases rule: check_term_cases [of e ns])
        (auto simp: check_step_def reports_def Some push_fold simp del: fold_append split: option.splits bind_split)
  next
    case False
    then show ?thesis
      by (auto simp: check_step_def check_term_for_constant_overflow_def Some reports_def intro!: exI [of _ "[]"])
  qed
qed (simp add: check_step_def reports_def)

lemma recurse_reports: "reports s (recurse check_step e s)"
proof (induction e arbitrary: s rule: measure_induct_rule [of size])
  case (less e)
  have "reports t (visit_all (map (recurse check_step) (operands e)) t)" for t
    using less operand_size by (auto intro!: reports_fold)
  then show ?case
    by (subst recurse_operands)
      (cases "check_step e s", use check_step_reports [of s e] in \<open>auto simp: descend_def intro: reports_trans\<close>)
qed

lemma any_errors_fold: "any_errors d \<Longrightarrow> any_errors (fold push_diag es d)"
  by (induction es arbitrary: d) auto

lemma good_check [good_rules]: "good E (rs_check e) (\<lambda>_. True)"
proof (rule triple_good, rule tripleI)
  fix s r t assume "rs_check e s = Some (r, t)"
  then obtain ns where "check_expression e (st_ns s) = Some ns" "t = s\<lparr>st_ns := ns\<rparr>"
    by (auto simp: rs_check_def split: option.splits)
  with recurse_reports [of "Some (st_ns s)" e] show "grows s t"
    by (auto simp: check_expression_def reports_def grows_def failed_def in_env_def quiet_def any_errors_fold)
qed (auto simp: rs_check_def split: option.splits)

subsection \<open>Caught errors and collections of their own\<close>

lemma triple_try: "triple P m Q \<Longrightarrow> triple P (rs_try m) (\<lambda>r t. case r of None \<Rightarrow> failed t | Some x \<Rightarrow> Q x t)"
  unfolding triple_def rs_try_def by (fastforce split: option.splits sum.splits)

lemma good_try [good_rules]: "good E m Q \<Longrightarrow> good E (rs_try m) (\<lambda>r. \<forall>x. r = Some x \<longrightarrow> Q x)"
  by (rule goodI, rule triple_weaken [OF triple_try [where P = "\<lambda>s. in_env E (env_of s)" and Q = "\<lambda>x _. Q x"]])
    (auto simp: good_def)

text \<open>No error of the collection is lost, and a failure adds one.\<close>

definition into_ok :: "('a \<Rightarrow> bool) \<Rightarrow> diagnostics \<Rightarrow> 'a option \<times> diagnostics \<Rightarrow> bool" where
  "into_ok Q d r \<longleftrightarrow> (diag_failed d \<longrightarrow> diag_failed (snd r)) \<and> (case fst r of None \<Rightarrow> diag_failed (snd r) | Some x \<Rightarrow> Q x)"

lemma good_into [good_rules]:
  assumes "good E m Q"
  shows "good E (rs_into d m) (into_ok Q d)"
proof (rule goodI)
  assume E: "env_ok E"
  have *: "grows (s\<lparr>st_diags := d\<rparr>) t \<and> (case r of None \<Rightarrow> failed t | Some x \<Rightarrow> Q x)"
    if "in_env E (env_of s)" "rs_try m (s\<lparr>st_diags := d\<rparr>) = Some (Inr r, t)" for s r t
    using tripleD [OF triple_try [OF assms [unfolded good_def, rule_format, OF E]] _ that(2)] that(1) by (auto split: option.splits)
  have r: "\<exists>r t'. rs_try m (s\<lparr>st_diags := d\<rparr>) = Some (Inr r, t') \<and> x = Inr (r, st_diags t') \<and> t = t'\<lparr>st_diags := st_diags s\<rparr>"
    if "rs_into d m s = Some (x, t)" for s x t
    using that by (auto simp: rs_into_def split: option.splits sum.splits)
  have g: "grows s (t\<lparr>st_diags := st_diags s\<rparr>)" if "grows (s\<lparr>st_diags := d\<rparr>) t" for s t
    using that by (simp add: grows_def failed_def)
  show "triple (\<lambda>s. in_env E (env_of s)) (rs_into d m) (\<lambda>x _. into_ok Q d x)"
  proof (rule tripleI)
    fix s x t assume s: "in_env E (env_of s)" "rs_into d m s = Some (Inr x, t)"
    with r [OF s(2)] * [OF s(1)] show "into_ok Q d x"
      by (fastforce simp: into_ok_def grows_def failed_def split: option.splits)
  qed (use r * g in \<open>blast+\<close>)
qed

lemma triple_non_casting: "triple P (rs_extend_non_casting d) (\<lambda>b t. b \<longrightarrow> failed t)"
  by (auto simp: triple_def rs_extend_non_casting_def failed_def split: prod.splits dest: extend_non_casting_failed intro!: grows_diags)

lemma good_non_casting [good_rules]: "good E (rs_extend_non_casting d) (\<lambda>_. True)"
  by (rule triple_good, rule triple_weaken [OF triple_non_casting]) simp_all

lemma good_map:
  assumes "\<And>x. x \<in> set xs \<Longrightarrow> good E (f x) Q"
  shows "good E (rs_map f xs) (\<lambda>ys. length ys = length xs \<and> (\<forall>y\<in>set ys. Q y))"
  using assms
proof (induction xs)
  case (Cons x xs)
  show ?case unfolding rs_map.simps
    by (rule good_bind [of _ _ Q], use Cons.prems in simp)
      (rule good_bind [OF Cons.IH], use Cons.prems in simp, rule good_return, simp)
qed (simp add: good_return)

lemma good_new_symtable [good_rules]:
  assumes "good (fst E, symtable_new) m Q"
  shows "good E (with_new_symtable m) Q"
proof (rule goodI)
  assume "env_ok E"
  then have m: "triple (\<lambda>s. in_env (fst E, symtable_new) (env_of s)) m (\<lambda>x _. Q x)"
    using assms unfolding good_def env_ok_def by (simp add: symtable_new_def)
  have *: "in_env (fst E, symtable_new) (st_ns s, symtable_new)" if "in_env E (env_of s)" for s
    using that unfolding in_env_def marks_def by (simp add: list_all2_refl)
  have g: "grows s (t\<lparr>st_sym := st_sym s\<rparr>)" if "grows (s\<lparr>st_sym := symtable_new\<rparr>) t" for s t
    using that unfolding grows_def failed_def in_env_def marks_def by (simp add: list_all2_refl)
  show "triple (\<lambda>s. in_env E (env_of s)) (with_new_symtable m) (\<lambda>x _. Q x)"
  proof (unfold triple_def with_new_symtable_def, intro allI impI)
    fix s r t assume s: "in_env E (env_of s)"
      and "(case m (s\<lparr>st_sym := symtable_new\<rparr>) of None \<Rightarrow> None | Some (r, s') \<Rightarrow> Some (r, s'\<lparr>st_sym := st_sym s\<rparr>)) = Some (r, t)"
    then obtain t' where "m (s\<lparr>st_sym := symtable_new\<rparr>) = Some (r, t')" "t = t'\<lparr>st_sym := st_sym s\<rparr>"
      by (auto split: option.splits)
    with tripleD [OF m _ this(1)] * [OF s] g [of s t'] show "grows s t \<and> (case r of Inl x \<Rightarrow> failed t | Inr x \<Rightarrow> Q x)"
      by (auto simp: failed_def split: sum.split)
  qed
qed

subsection \<open>Case distinctions\<close>

lemma good_if [good_rules]: "(b \<Longrightarrow> good E m Q) \<Longrightarrow> (\<not> b \<Longrightarrow> good E m' Q) \<Longrightarrow> good E (if b then m else m') Q"
  by simp

lemma good_prod [good_rules]: "(\<And>a b. x = (a, b) \<Longrightarrow> good E (f a b) Q) \<Longrightarrow> good E (case x of (a, b) \<Rightarrow> f a b) Q"
  by (cases x) simp

lemma good_let [good_rules]: "good E (f x) Q \<Longrightarrow> good E (let y = x in f y) Q"
  by simp

lemmas good_split [good_rules] = option.split [where P = "\<lambda>m. good E m Q" for E Q, THEN iffD2]
  list.split [where P = "\<lambda>m. good E m Q" for E Q, THEN iffD2]
  bool.split [where P = "\<lambda>m. good E m Q" for E Q, THEN iffD2]
  sty.split [where P = "\<lambda>m. good E m Q" for E Q, THEN iffD2]
  pexpr.split [where P = "\<lambda>m. good E m Q" for E Q, THEN iffD2]
  expr.split [where P = "\<lambda>m. good E m Q" for E Q, THEN iffD2]
  resolve_to.split [where P = "\<lambda>m. good E m Q" for E Q, THEN iffD2]
  symbol.split [where P = "\<lambda>m. good E m Q" for E Q, THEN iffD2]
  pty.split [where P = "\<lambda>m. good E m Q" for E Q, THEN iffD2]
  array_length.split [where P = "\<lambda>m. good E m Q" for E Q, THEN iffD2]
  comparison.split [where P = "\<lambda>m. good E m Q" for E Q, THEN iffD2]
  p_unary.split [where P = "\<lambda>m. good E m Q" for E Q, THEN iffD2]
  p_binary.split [where P = "\<lambda>m. good E m Q" for E Q, THEN iffD2]
  arith.split [where P = "\<lambda>m. good E m Q" for E Q, THEN iffD2]
  pstatement.split [where P = "\<lambda>m. good E m Q" for E Q, THEN iffD2]
  storage_location.split [where P = "\<lambda>m. good E m Q" for E Q, THEN iffD2]

end
