(* ===== verification/Sema_Fuel.thy ===== *)
theory Sema_Fuel
  imports Sema_Expression
begin

section \<open>The recursion of the resolution of expressions\<close>

text \<open>
  Every function under \<open>src/sema/expression\<close> calls \<open>expression\<close> back on smaller expressions only.
  For each of them a lemma says that it does the same with two resolvers that agree on smaller expressions;
  together they show that the recursive equation of the code has one solution.
\<close>

subsection \<open>Operators, types and accesses\<close>

text \<open>Two resolvers that do the same on all expressions smaller than \<open>n\<close>.\<close>

definition agree :: "nat \<Rightarrow> resolver \<Rightarrow> resolver \<Rightarrow> bool" where
  "agree n rec rec' \<longleftrightarrow> (\<forall>cx e to. size e < n \<longrightarrow> rec cx e to = rec' cx e to)"

lemma agreeD: "agree n rec rec' \<Longrightarrow> size e < n \<Longrightarrow> rec cx e to = rec' cx e to"
  by (simp add: agree_def)

lemma agree_mono: "agree n rec rec' \<Longrightarrow> m \<le> n \<Longrightarrow> agree m rec rec'"
  by (auto simp: agree_def)

lemma operator_agree:
  assumes "agree n rec rec'" "size left < n" "size right < n"
  shows "operator p op rec cx l left right to = operator p op rec' cx l left right to"
  using agreeD [OF assms(1,2)] agreeD [OF assms(1,3)]
  by (cases op) (simp_all add: operator_def addition_def subtract_def multiply_def multiply_to_def power_op_def
      divide_by_def bitwise_def shift_left_def shift_right_def resolve_both_def cong: if_cong)

lemmas resolving_defs = resolve_both_def equal_op_def not_equal_op_def compare_numbers_def logical_def
  assign_single_def assign_expr_def incr_decr_def not_resolved_def bitwise_not_def

lemma binary_agree:
  assumes "agree n rec rec'" "size left < n" "size right < n"
  shows "binary p b rec cx l left right to = binary p b rec' cx l left right to"
proof (cases b)
  case (PComparison c)
  then show ?thesis using agreeD [OF assms(1,2)] agreeD [OF assms(1,3)]
    by (cases c) (simp_all add: binary_def resolving_defs cong: if_cong)
qed (use agreeD [OF assms(1,2)] agreeD [OF assms(1,3)] operator_agree [OF assms] in
    \<open>simp_all add: binary_def resolving_defs Let_def cong: if_cong\<close>)

lemma resolve_array_dimension_agree:
  "agree n rec rec' \<Longrightarrow> size e < n \<Longrightarrow> resolve_array_dimension p rec fl c f e = resolve_array_dimension p rec' fl c f e"
  by (simp add: resolve_array_dimension_def agreeD)

lemma expr_to_type_agree:
  "agree n rec rec' \<Longrightarrow> size e \<le> n \<Longrightarrow> expr_to_type p rec fl c e ds = expr_to_type p rec' fl c e ds"
  by (induction p rec fl c e ds rule: expr_to_type.induct) (simp_all add: resolve_array_dimension_agree)

lemma resolve_type_agree:
  "agree n rec rec' \<Longrightarrow> size e \<le> n \<Longrightarrow> resolve_type p rec fl c e = resolve_type p rec' fl c e"
proof (induction "size e" arbitrary: e rule: less_induct)
  case less
  have 1: "expr_to_type p rec fl c e [] = expr_to_type p rec' fl c e []"
    by (rule expr_to_type_agree [OF less.prems])
  show ?case
  proof (subst (1 2) resolve_type.simps, subst 1, rule rs_bind_cong [OF refl], clarify)
    fix s xs x ds s' assume "expr_to_type p rec' fl c e [] s = Some (Inr (xs, x, ds), s')"
    then have "size x \<le> size e" by (rule expr_to_type_size)
    then show "(case x of
        PType l t \<Rightarrow> if xs \<noteq> [] then rs_panic
          else rs_bind (case t of
              PTMapping ml key kn val vn \<Rightarrow>
                rs_bind (resolve_type p rec fl c key) (\<lambda>k.
                rs_bind (resolve_type p rec fl c val) (\<lambda>v. mapping_of key k v))
            | _ \<Rightarrow> rs_opt (type_from t)) (\<lambda>t. with_dimensions t ds)
      | PVariable y \<Rightarrow> named_type fl c xs y ds | _ \<Rightarrow> rs_panic) = (case x of
        PType l t \<Rightarrow> if xs \<noteq> [] then rs_panic
          else rs_bind (case t of
              PTMapping ml key kn val vn \<Rightarrow>
                rs_bind (resolve_type p rec' fl c key) (\<lambda>k.
                rs_bind (resolve_type p rec' fl c val) (\<lambda>v. mapping_of key k v))
            | _ \<Rightarrow> rs_opt (type_from t)) (\<lambda>t. with_dimensions t ds)
      | PVariable y \<Rightarrow> named_type fl c xs y ds | _ \<Rightarrow> rs_panic)"
      using less by (cases x) (auto split: pty.split)
  qed
qed

lemma new_expr_agree:
  assumes "agree n rec rec'" "size t \<le> n" "\<And>a. a \<in> set args \<Longrightarrow> size a < n"
  shows "new_expr p rec cx l t args = new_expr p rec' cx l t args"
proof -
  let ?t = "case remove_parenthesis t of PUnary PNew _ t' \<Rightarrow> t' | _ \<Rightarrow> t"
  have "size ?t \<le> n"
    using assms(2) size_remove_parenthesis [of t]
    by (cases "remove_parenthesis t") (auto split: p_unary.split)
  then have "resolve_type p rec (cx_file_no cx) (cx_contract_no cx) ?t = resolve_type p rec' (cx_file_no cx) (cx_contract_no cx) ?t"
    by (rule resolve_type_agree [OF assms(1)])
  moreover have "allocation rec cx l t args = allocation rec' cx l t args" for t
    using agreeD [OF assms(1,3)] by (auto simp: allocation_def split: list.split)
  ultimately show ?thesis by (simp add: new_expr_def cong: option.case_cong)
qed

lemma unary_op_agree:
  assumes "agree n rec rec'" "size e < n"
  shows "unary_op p u rec cx l e to = unary_op p u rec' cx l e to"
proof (cases u)
  case PNew
  have "size (remove_parenthesis e) < n" using assms(2) size_remove_parenthesis [of e] by (rule le_less_trans [rotated])
  then have "new_expr p rec cx l t args = new_expr p rec' cx l t args"
    if "remove_parenthesis e = PFunctionCall l' t args" for l' t args
    using that by (auto intro!: new_expr_agree [OF assms(1)] dest!: size_in_list)
  then show ?thesis using PNew
    by (cases "remove_parenthesis e") (simp_all add: unary_op_def new_resolved_def)
qed (use agreeD [OF assms] in \<open>simp_all add: unary_op_def resolving_defs cong: if_cong\<close>)

lemma rs_map_agree: "(\<And>x. x \<in> set xs \<Longrightarrow> f x = g x) \<Longrightarrow> rs_map f xs = rs_map g xs"
  by (induction xs) simp_all

lemma slice_elements_agree:
  "agree n rec rec' \<Longrightarrow> (\<And>e. e \<in> set es \<Longrightarrow> size e < n) \<Longrightarrow> slice_elements rec cx t es = slice_elements rec' cx t es"
  by (induction es) (simp_all add: agreeD)

text \<open>The flattened elements of an array literal are parts of it.\<close>

lemma ev_bind_value:
  "ev_bind m f d = Some (Inr y, d') \<Longrightarrow> \<exists>x d''. m d = Some (Inr x, d'') \<and> f x d'' = Some (Inr y, d')"
  by (auto simp: ev_bind_def split: option.splits prod.splits sum.splits)

lemma flat_size:
  shows "check_subarrays es b d = Some (Inr (ds, flat), d') \<Longrightarrow> x \<in> set flat \<Longrightarrow> size x \<le> size_list size es"
    and "check_other_subarrays n i es d = Some (Inr flat', d') \<Longrightarrow> x \<in> set flat' \<Longrightarrow> size x \<le> size_list size es"
proof (induction es b and n i es arbitrary: d ds flat d' and d flat' d' rule: check_subarrays_check_other_subarrays.induct)
  case (1 es b)
  show ?case
  proof (cases "\<exists>l xs es'. es = PArrayLiteral l xs # es'")
    case True
    then obtain l xs es' where es: "es = PArrayLiteral l xs # es'" by blast
    with "1.prems"(1) obtain ds1 f1 d1 f2 d2
      where "check_subarrays xs b d = Some (Inr (ds1, f1), d1)"
        and "check_other_subarrays (length xs) 1 es' d1 = Some (Inr f2, d2)" and "flat = f1 @ f2"
      by (auto simp: check_subarrays.simps ev_return_def dest!: ev_bind_value split: if_splits)
    then show ?thesis using "1.IH" es "1.prems"(2) by fastforce
  next
    case False
    then have "flat = es" using "1.prems"(1)
      by (auto simp: check_subarrays.simps [of es] ev_return_def ev_fail_def fail_at_def
          split: list.splits option.splits prod.splits pexpr.splits)
    then show ?thesis using "1.prems"(2) size_in_list by blast
  qed
next
  case (2 n i es)
  show ?case
  proof (cases "\<exists>l xs es'. es = PArrayLiteral l xs # es'")
    case True
    then obtain l xs es' where es: "es = PArrayLiteral l xs # es'" by blast
    with "2.prems"(1) obtain ds1 f1 d1 f2 d2
      where "length xs = n" "check_subarrays xs False d = Some (Inr (ds1, f1), d1)"
        and "check_other_subarrays n (i + 1) es' d1 = Some (Inr f2, d2)" and "flat' = f1 @ f2"
      by (auto simp: check_other_subarrays.simps [of _ _ "_ # _"] ev_return_def ev_fail_def dest!: ev_bind_value split: if_splits)
    then show ?thesis using "2.IH" es "2.prems"(2) by fastforce
  next
    case False
    then have "flat' = []" using "2.prems"(1)
      by (auto simp: check_other_subarrays.simps [of _ _ es] ev_return_def ev_fail_def fail_at_def
          split: list.splits option.splits pexpr.splits)
    then show ?thesis using "2.prems"(2) by simp
  qed
qed

lemma array_literal_agree:
  assumes "agree n rec rec'" "size_list size es < n"
  shows "array_literal rec cx l es to = array_literal rec' cx l es to"
proof -
  have es: "size e < n" if "e \<in> set es" for e using size_in_list [OF that] assms(2) by simp
  have "flat_array_literal rec cx l es to = flat_array_literal rec' cx l es to" for to
    unfolding flat_array_literal_def
  proof (rule rs_bind_cong [OF refl], clarify)
    fix s ds flat s' assume "rs_ev (check_subarrays es True) s = Some (Inr (ds, flat), s')"
    then obtain d where c: "check_subarrays es True (st_diags s) = Some (Inr (ds, flat), d)"
      by (auto simp: rs_ev_def split: option.splits)
    have e: "rec cx e to = rec' cx e to" if "e \<in> set flat" for e to
      using flat_size(1) [OF c that] assms by (auto intro: agreeD)
    then have "rs_map (array_element rec cx t) es = rs_map (array_element rec' cx t) es" if "set es \<subseteq> set flat" for t es
      using that by (auto intro!: rs_map_agree simp: array_element_def)
    with e show "(case flat of [] \<Rightarrow> rs_fail (diag_error l (Text ''array requires at least one element''))
      | e # es \<Rightarrow> rs_bind (rec cx e to) (\<lambda>v.
          rs_bind (case to of ToType t \<Rightarrow> rs_bind (rs_cast v (expr_loc v) t) (\<lambda>v. rs_return (v, t))
            | _ \<Rightarrow> rs_bind (rs_ty v) (\<lambda>t. rs_return (v, t))) (\<lambda>(v, t).
          rs_bind (used v) (\<lambda>_. rs_bind (rs_map (array_element rec cx t) es) (\<lambda>vs.
          let aty = TArray t (map (\<lambda>n. Fixed (int n)) ds) in
          rs_return (if cx_constant cx then EConstArray l aty ds (v # vs) else EArray l aty ds (v # vs)))))))
      = (case flat of [] \<Rightarrow> rs_fail (diag_error l (Text ''array requires at least one element''))
      | e # es \<Rightarrow> rs_bind (rec' cx e to) (\<lambda>v.
          rs_bind (case to of ToType t \<Rightarrow> rs_bind (rs_cast v (expr_loc v) t) (\<lambda>v. rs_return (v, t))
            | _ \<Rightarrow> rs_bind (rs_ty v) (\<lambda>t. rs_return (v, t))) (\<lambda>(v, t).
          rs_bind (used v) (\<lambda>_. rs_bind (rs_map (array_element rec' cx t) es) (\<lambda>vs.
          let aty = TArray t (map (\<lambda>n. Fixed (int n)) ds) in
          rs_return (if cx_constant cx then EConstArray l aty ds (v # vs) else EArray l aty ds (v # vs)))))))"
      by (cases flat) (simp_all add: subset_insertI)
  qed
  moreover have "slice_elements rec cx t es = slice_elements rec' cx t es" for t
    by (rule slice_elements_agree [OF assms(1) es])
  ultimately show ?thesis
    by (simp add: array_literal_def split: resolve_to.split sty.split)
qed

subsection \<open>Calls\<close>

abbreviation smaller :: "nat \<Rightarrow> pexpr list \<Rightarrow> bool" where
  "smaller n args \<equiv> \<forall>a\<in>set args. size a < n"

abbreviation smaller_named :: "nat \<Rightarrow> pexpr named_argument list \<Rightarrow> bool" where
  "smaller_named n args \<equiv> \<forall>a\<in>set args. size (na_expr a) < n"

lemma rs_bind_assoc: "rs_bind (rs_bind m f) g = rs_bind m (\<lambda>x. rs_bind (f x) g)"
  by (auto simp: rs_bind_def fun_eq_iff split: option.split sum.split)

lemma rs_bind_return: "rs_bind (rs_return x) f = f x"
  by (simp add: rs_bind_def rs_return_def)

lemma rs_bind_fail: "rs_bind (rs_fail d) f = rs_fail d"
  by (simp add: rs_bind_def rs_fail_def)

lemma evaluate_argument_agree:
  "agree n rec rec' \<Longrightarrow> size a < n \<Longrightarrow> evaluate_argument rec cx a t d = evaluate_argument rec' cx a t d"
  by (simp add: evaluate_argument_def convert_argument_def agreeD)

lemma push_argument_agree:
  "agree n rec rec' \<Longrightarrow> size a < n \<Longrightarrow> push_argument rec cx a t = push_argument rec' cx a t"
  by (simp add: push_argument_def agreeD)

lemma evaluate_arguments_agree:
  "agree n rec rec' \<Longrightarrow> \<forall>x\<in>set args. size (fst x) < n \<Longrightarrow> evaluate_arguments rec cx args d = evaluate_arguments rec' cx args d"
  by (induction args arbitrary: d) (auto simp: evaluate_argument_agree)

lemma zip_arguments_agree:
  "agree n rec rec' \<Longrightarrow> smaller n args \<Longrightarrow>
    evaluate_arguments rec cx (zip args ts) d = evaluate_arguments rec' cx (zip args ts) d"
  by (rule evaluate_arguments_agree) (auto dest: set_zip_leftD)

lemma any_fails_agree:
  "agree n rec rec' \<Longrightarrow> smaller n args \<Longrightarrow> any_fails rec cx args = any_fails rec' cx args"
  by (induction args) (simp_all add: agreeD)

lemma try_positional_agree:
  "agree n rec rec' \<Longrightarrow> smaller n args \<Longrightarrow>
    try_positional rec cx l args many to ns d = try_positional rec' cx l args many to ns d"
  by (induction ns arbitrary: d) (simp_all add: zip_arguments_agree cong: if_cong)

lemma function_call_pos_args_agree:
  "agree n rec rec' \<Longrightarrow> smaller n args \<Longrightarrow>
    function_call_pos_args rec cx l x args ns to = function_call_pos_args rec' cx l x args ns to"
  by (simp add: function_call_pos_args_def any_fails_agree try_positional_agree cong: if_cong)

lemma argument_named_part: "argument_named args x = Some e \<Longrightarrow> \<exists>a\<in>set args. e = na_expr a"
  by (auto simp: argument_named_def dest!: map_of_SomeD)

lemma duplicate_arguments_agree:
  "agree n rec rec' \<Longrightarrow> smaller_named n args \<Longrightarrow> duplicate_arguments rec cx seen args = duplicate_arguments rec' cx seen args"
  by (induction args arbitrary: seen) (simp_all add: agreeD Let_def)

lemma named_arguments_agree:
  "agree n rec rec' \<Longrightarrow> smaller_named n args \<Longrightarrow> named_arguments rec cx l y args ps d = named_arguments rec' cx l y args ps d"
proof (induction ps arbitrary: d)
  case (Cons q ps)
  have "evaluate_argument rec cx e t d = evaluate_argument rec' cx e t d" if "argument_named args (name_as_str q) = Some e" for e t d
    using argument_named_part [OF that] Cons.prems by (auto intro: evaluate_argument_agree)
  then show ?case using Cons by (simp cong: if_cong split: option.split)
qed simp

lemma try_named_agree:
  "agree n rec rec' \<Longrightarrow> smaller_named n args \<Longrightarrow> try_named rec cx l y args to ns d = try_named rec' cx l y args to ns d"
  by (induction ns arbitrary: d) (simp_all add: named_arguments_agree case_prod_unfold cong: if_cong)

lemma function_call_named_args_agree:
  "agree n rec rec' \<Longrightarrow> smaller_named n args \<Longrightarrow>
    function_call_named_args rec cx l x args ns to = function_call_named_args rec' cx l x args ns to"
  by (simp add: function_call_named_args_def duplicate_arguments_agree try_named_agree)

lemma library_arguments_agree:
  "agree n rec rec' \<Longrightarrow> smaller n args \<Longrightarrow> library_arguments rec cx args ts d = library_arguments rec' cx args ts d"
proof (induction args arbitrary: ts d)
  case (Cons a args)
  then show ?case by (cases ts) (simp_all add: evaluate_argument_agree agreeD)
qed simp

lemma try_library_agree:
  "agree n rec rec' \<Longrightarrow> smaller n args \<Longrightarrow> try_library p rec cx l args many fs d = try_library p rec' cx l args many fs d"
  by (induction fs arbitrary: d) (simp_all add: library_arguments_agree case_prod_unfold cong: if_cong)

lemma resolve_call_agree:
  "agree n rec rec' \<Longrightarrow> smaller n args \<Longrightarrow> resolve_call p rec cx l m x args = resolve_call p rec' cx l m x args"
  by (simp add: resolve_call_def try_library_agree)

lemma decoded_types_agree:
  "agree n rec rec' \<Longrightarrow> \<forall>x\<in>set ps. \<forall>q. snd x = Some q \<longrightarrow> size (pa_ty q) \<le> n \<Longrightarrow>
    decoded_types p rec cx ps = decoded_types p rec' cx ps"
proof (induction ps)
  case (Cons q ps)
  then show ?case by (cases q; cases "snd q") (simp_all add: resolve_type_agree)
qed simp

lemma list_part_size: "(l, Some q) \<in> set ps \<Longrightarrow> size (pa_ty q) \<le> size (PList l' ps)"
  by (cases q) (auto dest!: size_list_estimation' [OF _ order_refl,
      of _ _ "size_prod (\<lambda>x. 0) (size_option (size_p_parameter size))"])

lemma abi_decode_agree:
  assumes "agree n rec rec'" "smaller n args"
  shows "abi_decode p rec cx l args = abi_decode p rec' cx l args"
proof -
  have "abi_decode p rec cx l [a, types] = abi_decode p rec' cx l [a, types]" if "size a < n" "size types < n" for a types
  proof (cases "\<exists>l ps. types = PList l ps")
    case True
    then obtain l' ps where types: "types = PList l' ps" by blast
    have "decoded_types p rec cx ps = decoded_types p rec' cx ps"
      using that(2) types by (intro decoded_types_agree [OF assms(1)]) (fastforce dest: list_part_size [where l' = l'])
    then show ?thesis using that agreeD [OF assms(1) that(1)] by (simp add: abi_decode_def types)
  next
    case False
    have "resolve_type p rec fl c (remove_parenthesis types) = resolve_type p rec' fl c (remove_parenthesis types)" for fl c
      using size_remove_parenthesis [of types] that(2) by (intro resolve_type_agree [OF assms(1)]) linarith
    then show ?thesis using False agreeD [OF assms(1) that(1)]
      by (cases types) (simp_all add: abi_decode_def)
  qed
  then show ?thesis using assms(2) by (auto simp: abi_decode_def split: list.split)
qed

lemma encoded_arguments_agree:
  "agree n rec rec' \<Longrightarrow> smaller n args \<Longrightarrow> rs_map (encoded_argument p rec cx) args = rs_map (encoded_argument p rec' cx) args"
  by (rule rs_map_agree) (simp add: encoded_argument_def agreeD)

lemma abi_encode_agree:
  assumes "agree n rec rec'" "smaller n args"
  shows "abi_encode p rec cx l f args = abi_encode p rec' cx l f args"
  using assms encoded_arguments_agree [OF assms]
  by (cases args) (simp_all add: abi_encode_def rs_bind_assoc rs_bind_return rs_bind_fail encoded_arguments_agree)

lemma resolve_namespace_call_agree:
  "agree n rec rec' \<Longrightarrow> smaller n args \<Longrightarrow> resolve_namespace_call p rec cx l m x args = resolve_namespace_call p rec' cx l m x args"
  by (simp add: resolve_namespace_call_def resolve_call_agree abi_decode_agree abi_encode_agree)

lemma storage_push_agree:
  "agree n rec rec' \<Longrightarrow> smaller n args \<Longrightarrow> storage_push rec cx v l args t r = storage_push rec' cx v l args t r"
  by (auto simp: storage_push_def push_argument_agree split: list.split)

lemma try_storage_reference_agree:
  "agree n rec rec' \<Longrightarrow> smaller n args \<Longrightarrow> try_storage_reference p rec cx v x args to = try_storage_reference p rec' cx v x args to"
  by (simp add: try_storage_reference_def storage_array_method_def storage_bytes_method_def storage_push_agree
      cong: if_cong sty.case_cong)

lemma resolve_call_args_agree:
  "agree n rec rec' \<Longrightarrow> smaller_named n args \<Longrightarrow> resolve_call_args rec cx args r = resolve_call_args rec' cx args r"
  by (induction args arbitrary: r) (simp_all add: push_argument_agree cong: if_cong)

lemma parse_call_args_agree:
  "agree n rec rec' \<Longrightarrow> smaller_named n args \<Longrightarrow> parse_call_args p rec cx args = parse_call_args p rec' cx args"
  by (simp add: parse_call_args_def resolve_call_args_agree)

lemma contract_candidate_agree:
  "agree n rec rec' \<Longrightarrow> smaller n args \<Longrightarrow>
    contract_candidate rec cx l args ca v to only = contract_candidate rec' cx l args ca v to only"
  by (simp add: contract_candidate_def [abs_def] zip_arguments_agree cong: if_cong)

lemma contract_call_pos_args_agree:
  "agree n rec rec' \<Longrightarrow> smaller n args \<Longrightarrow> smaller_named n cargs \<Longrightarrow>
    contract_call_pos_args p rec cx l c x v args cargs to = contract_call_pos_args p rec' cx l c x v args cargs to"
  by (simp add: contract_call_pos_args_def parse_call_args_agree any_fails_agree contract_candidate_agree cong: if_cong)

lemma address_method_agree:
  "agree n rec rec' \<Longrightarrow> smaller n args \<Longrightarrow> smaller_named n cargs \<Longrightarrow>
    address_method p rec cx l x args cargs v = address_method p rec' cx l x args cargs v"
  by (simp add: address_method_def parse_call_args_agree raw_call_argument_def agreeD
      cong: if_cong option.case_cong list.case_cong)

lemma array_method_agree:
  "agree n rec rec' \<Longrightarrow> smaller n args \<Longrightarrow> array_method rec cx l x args v t = array_method rec' cx l x args v t"
  by (simp add: array_method_def push_argument_agree cong: if_cong list.case_cong)

lemma try_type_method_agree:
  "agree n rec rec' \<Longrightarrow> smaller n args \<Longrightarrow> smaller_named n cargs \<Longrightarrow>
    try_type_method p rec cx l x args cargs v to = try_type_method p rec' cx l x args cargs v to"
  by (simp add: try_type_method_def array_method_agree contract_call_pos_args_agree address_method_agree
      cong: if_cong sty.case_cong)

lemma resolve_method_call_agree: "resolve_method_call rec cx v x args = resolve_method_call rec' cx v x args"
  by (simp add: resolve_method_call_def LIB_METHODS_def)

lemma library_contract_call_agree:
  "agree n rec rec' \<Longrightarrow> smaller n args \<Longrightarrow>
    library_contract_call rec cx l m x args cal to = library_contract_call rec' cx l m x args cal to"
  by (simp add: library_contract_call_def function_call_pos_args_agree cong: if_cong option.case_cong)

lemma try_namespace_agree:
  "agree n rec rec' \<Longrightarrow> smaller n args \<Longrightarrow>
    try_namespace p rec cx l v x args cal to = try_namespace p rec' cx l v x args cal to"
  by (cases v) (simp_all add: try_namespace_def library_contract_call_agree resolve_namespace_call_agree)

lemma method_call_pos_args_agree:
  "agree n rec rec' \<Longrightarrow> size v < n \<Longrightarrow> smaller n args \<Longrightarrow> smaller_named n cargs \<Longrightarrow>
    method_call_pos_args p rec cx l v x args cargs cal to = method_call_pos_args p rec' cx l v x args cargs cal to"
  by (simp add: method_call_pos_args_def try_namespace_agree agreeD try_storage_reference_agree try_type_method_agree
      resolve_method_call_agree [of rec _ _ _ _ rec'])

lemma named_argument_size: "a \<in> set as \<Longrightarrow> size (na_expr a) \<le> size_list (size_named_argument size) as"
  by (rule size_list_estimation') (assumption, cases a, simp)

lemma collect_call_args_size:
  "collect_call_args e acc cal s = Some (Inr (e', args, cal'), s') \<Longrightarrow>
    size e' \<le> size e \<and> (\<forall>a\<in>set args. a \<in> set acc \<or> size (na_expr a) < size e)"
proof (induction e acc cal arbitrary: s rule: collect_call_args.induct)
  case (1 l e block acc cal)
  show ?case
  proof (cases block)
    case (PSArgs bl as)
    with "1.prems" obtain cal1 s1 where
        "extend_call_loc cal bl s = Some (Inr cal1, s1)" "collect_call_args e (acc @ as) cal1 s1 = Some (Inr (e', args, cal'), s')"
      by (auto simp: rs_bind_def split: option.splits sum.splits)
    from "1.IH" [OF PSArgs this] PSArgs show ?thesis by (fastforce dest: named_argument_size)
  next
    case (PSBlock bl ss)
    with "1.prems" show ?thesis by (cases ss) (simp_all add: rs_fail_def)
  qed (use "1.prems" in \<open>simp_all add: rs_fail_def\<close>)
qed (auto simp: rs_return_def)

lemma call_parts:
  assumes "collect_call_args t [] None s = Some (Inr (t', cargs, cal), s')" "size t < n"
  shows "size t' < n" "smaller_named n cargs"
  using collect_call_args_size [OF assms(1)] assms(2) by auto

lemma function_call_expr_agree:
  assumes "agree n rec rec'" "size t < n" "smaller n args"
  shows "function_call_expr p rec cx l t args to = function_call_expr p rec' cx l t args to"
  unfolding function_call_expr_def
proof (rule rs_bind_cong [OF refl], clarify)
  fix s t' cargs cal s' assume "collect_call_args t [] None s = Some (Inr (t', cargs, cal), s')"
  note parts = call_parts [OF this assms(2)]
  have "method_call_pos_args p rec cx l v x args cargs cal to = method_call_pos_args p rec' cx l v x args cargs cal to"
    if "remove_parenthesis t' = PMemberAccess l' v x" for l' v x
    using size_remove_parenthesis [of t'] parts that by (intro method_call_pos_args_agree [OF assms(1) _ assms(3)]) auto
  then show "(case remove_parenthesis t' of
      PMemberAccess _ member x \<Rightarrow>
        if cx_constant cx then call_in_constant l
        else method_call_pos_args p rec cx l member x args cargs cal to
    | PVariable x \<Rightarrow>
        if is_lib_func_call None (id_name x) then
          rs_bind (resolve_call p rec cx (id_loc x) None (id_name x) args) (\<lambda>e. rs_bind (rs_opt (expr_tys e)) (\<lambda>ts.
            if length ts > 1 then rs_fail (diag_error l (Format ''core lib function {} returns more than one value'' [AStr (id_name x)]))
            else rs_return e))
        else if cx_constant cx then call_in_constant l
        else rs_bind (rs_get st_ns) (\<lambda>ns. rs_bind (rs_opt (available_functions (id_name x) (cx_contract_no cx) ns)) (\<lambda>fs.
          function_call_pos_args rec cx l x args fs to))
    | _ \<Rightarrow> rs_fail (diag_error l (Text ''expression is not a function''))) = (case remove_parenthesis t' of
      PMemberAccess _ member x \<Rightarrow>
        if cx_constant cx then call_in_constant l
        else method_call_pos_args p rec' cx l member x args cargs cal to
    | PVariable x \<Rightarrow>
        if is_lib_func_call None (id_name x) then
          rs_bind (resolve_call p rec' cx (id_loc x) None (id_name x) args) (\<lambda>e. rs_bind (rs_opt (expr_tys e)) (\<lambda>ts.
            if length ts > 1 then rs_fail (diag_error l (Format ''core lib function {} returns more than one value'' [AStr (id_name x)]))
            else rs_return e))
        else if cx_constant cx then call_in_constant l
        else rs_bind (rs_get st_ns) (\<lambda>ns. rs_bind (rs_opt (available_functions (id_name x) (cx_contract_no cx) ns)) (\<lambda>fs.
          function_call_pos_args rec' cx l x args fs to))
    | _ \<Rightarrow> rs_fail (diag_error l (Text ''expression is not a function'')))"
    by (cases "remove_parenthesis t'")
      (simp_all add: resolve_call_agree [OF assms(1,3)] function_call_pos_args_agree [OF assms(1,3)])
qed

lemma named_function_call_expr_agree:
  "agree n rec rec' \<Longrightarrow> smaller_named n args \<Longrightarrow>
    named_function_call_expr rec cx l t args to = named_function_call_expr rec' cx l t args to"
  by (simp add: named_function_call_expr_def function_call_named_args_agree cong: pexpr.case_cong)

lemma callee_type_agree: "agree n rec rec' \<Longrightarrow> size t \<le> n \<Longrightarrow> callee_type p rec cx t = callee_type p rec' cx t"
  by (simp add: callee_type_def resolve_type_agree)

lemma struct_literal_agree:
  assumes "agree n rec rec'" "smaller n args"
  shows "struct_literal rec cx l k args = struct_literal rec' cx l k args"
proof -
  have "rs_map (\<lambda>(a, f). rs_bind (rec cx a (ToType (p_ty f))) (\<lambda>e. rs_bind (used e) (\<lambda>_. rs_cast e l (p_ty f)))) (zip args fs)
      = rs_map (\<lambda>(a, f). rs_bind (rec' cx a (ToType (p_ty f))) (\<lambda>e. rs_bind (used e) (\<lambda>_. rs_cast e l (p_ty f)))) (zip args fs)" for fs :: "parameter list"
    using assms by (intro rs_map_agree) (auto dest!: set_zip_leftD simp: agreeD)
  then show ?thesis by (simp add: struct_literal_def cong: if_cong)
qed

lemma named_struct_literal_agree:
  assumes "agree n rec rec'" "smaller_named n args"
  shows "named_struct_literal rec cx l k args = named_struct_literal rec' cx l k args"
proof -
  have "named_fields rec cx l sd args vs = named_fields rec' cx l sd args vs" for sd vs
    using assms(2) by (induction args arbitrary: vs) (simp_all add: agreeD [OF assms(1)] split: option.split)
  then show ?thesis by (simp add: named_struct_literal_def cong: if_cong)
qed

lemma named_call_expr_agree:
  "agree n rec rec' \<Longrightarrow> size t \<le> n \<Longrightarrow> smaller_named n args \<Longrightarrow>
    named_call_expr p rec cx l t args b to = named_call_expr p rec' cx l t args b to"
  by (simp add: named_call_expr_def callee_type_agree named_struct_literal_agree named_function_call_expr_agree
      cong: if_cong option.case_cong sty.case_cong)

lemma type_call_agree: "agree n rec rec' \<Longrightarrow> smaller n args \<Longrightarrow> type_call rec cx l args t = type_call rec' cx l args t"
  by (auto simp: type_call_def agreeD split: list.split)

lemma untyped_call_agree:
  assumes "agree n rec rec'" "size t < n" "smaller n args"
  shows "untyped_call p rec cx l t args to = untyped_call p rec' cx l t args to"
proof -
  have 1: "function_call_expr p rec cx l t args to = function_call_expr p rec' cx l t args to"
    by (rule function_call_expr_agree [OF assms])
  have "new_expr p rec cx l' t' args = new_expr p rec' cx l' t' args" if "size t' \<le> n" for l' t'
    using that assms(3) by (intro new_expr_agree [OF assms(1)]) auto
  then show ?thesis using 1 size_remove_parenthesis [of t] assms(2)
    by (cases "remove_parenthesis t") (simp_all add: untyped_call_def)
qed

lemma call_expr_agree:
  assumes "agree n rec rec'" "size t < n" "smaller n args"
  shows "call_expr p rec cx l t args to = call_expr p rec' cx l t args to"
proof -
  have t: "size (remove_parenthesis t) < n" using size_remove_parenthesis [of t] assms(2) by linarith
  show ?thesis unfolding call_expr_def Let_def
    using assms t by (simp add: callee_type_agree [OF assms(1)] struct_literal_agree [OF assms(1)] type_call_agree [OF assms(1)]
      untyped_call_agree [OF assms(1)] cong: option.case_cong sty.case_cong)
qed

subsection \<open>One step\<close>

lemma slice_bound_agree:
  "agree n rec rec' \<Longrightarrow> (\<And>x. e = Some x \<Longrightarrow> size x < n) \<Longrightarrow> slice_bound rec cx l e = slice_bound rec' cx l e"
  by (cases e) (simp_all add: slice_bound_def agreeD)

lemma expression_step_agree:
  assumes "agree (size e) rec rec'"
  shows "expression_step p rec cx e to = expression_step p rec' cx e to"
proof (cases e)
  case (PUnary u l a)
  then show ?thesis using assms by (simp add: expression_step_def unary_op_agree)
next
  case (PBinary b l x y)
  then show ?thesis using assms by (simp add: expression_step_def binary_agree)
next
  case (PArraySubscript l a i)
  then show ?thesis using assms
    by (cases i) (simp_all add: expression_step_def array_subscript_def mapping_subscript_def agreeD cong: if_cong sty.case_cong)
next
  case (PArraySlice l a s t)
  then have "slice_bound rec cx l s = slice_bound rec' cx l s" "slice_bound rec cx l t = slice_bound rec' cx l t"
    "rec cx a Unknown = rec' cx a Unknown"
    by (auto intro!: slice_bound_agree [OF assms] agreeD [OF assms])
  then show ?thesis using PArraySlice by (simp add: expression_step_def array_slice_def cong: if_cong)
next
  case (PMemberAccess l a x)
  then have "size (remove_parenthesis a) < size e" using size_remove_parenthesis [of a] by (simp add: le_imp_less_Suc)
  then show ?thesis using PMemberAccess agreeD [OF assms]
    by (simp add: expression_step_def member_access_def cong: option.case_cong)
next
  case (PConditional l c x y)
  then show ?thesis using assms by (simp add: expression_step_def conditional_def resolve_both_def agreeD)
next
  case (PArrayLiteral l es)
  then show ?thesis using array_literal_agree [OF assms, of es]
    by (simp add: expression_step_def array_literal_used_def)
next
  case (PFunctionCall l t args)
  then have "smaller (size e) args" using size_list_estimation' [OF _ order_refl, of _ args size] by fastforce
  then show ?thesis using call_expr_agree [OF assms, of t args] PFunctionCall by (simp add: expression_step_def)
next
  case (PNamedFunctionCall l t args)
  then have "smaller_named (size e) args" using named_argument_size [of _ args] by fastforce
  then show ?thesis using named_call_expr_agree [OF assms, of t args] PNamedFunctionCall by (simp add: expression_step_def)
qed (simp_all add: expression_step_def)

lemma expression_agree: "n \<le> k \<Longrightarrow> n \<le> k' \<Longrightarrow> agree n (expression p k) (expression p k')"
proof (induction n arbitrary: k k')
  case (Suc n)
  from Suc.prems obtain j j' where k: "k = Suc j" "k' = Suc j'" "n \<le> j" "n \<le> j'"
    by (auto simp: Suc_le_eq elim!: less_natE)
  with Suc.IH have a: "agree n (expression p j) (expression p j')" by simp
  show ?case unfolding agree_def k expression.simps
    using expression_step_agree agree_mono [OF a] by (simp add: less_Suc_eq_le)
qed (simp add: agree_def)

lemma expression_fuel: "size e < k \<Longrightarrow> expression p k cx e to = resolve_expression p cx e to"
  unfolding resolve_expression_def by (rule agreeD [OF expression_agree [of "Suc (size e)"]]) auto

lemma agree_unique:
  assumes "rec = expression_step p rec" "rec' = expression_step p rec'"
  shows "agree n rec rec'"
proof (induction n)
  case (Suc n)
  have "expression_step p rec cx e to = expression_step p rec' cx e to" if "size e \<le> n" for cx e to
    by (rule expression_step_agree [OF agree_mono [OF Suc.IH that]])
  with assms show ?case by (metis agree_def less_Suc_eq_le)
qed (simp add: agree_def)

text \<open>
  C36: the recursion of \<open>expression\<close> is well founded: the recursive equation of the code, as the
  function calls itself and is called back by \<open>member_access\<close>, \<open>new\<close>, array literals and the
  dimensions of types, has exactly one solution, the one that the fuel computes.
\<close>

theorem expression_unique: "rec = expression_step p rec \<longleftrightarrow> rec = resolve_expression p"
proof -
  have "resolve_expression p = expression_step p (resolve_expression p)"
  proof (intro ext)
    fix cx to s and e :: pexpr
    have "agree (size e) (expression p (size e)) (resolve_expression p)"
      by (simp add: agree_def expression_fuel)
    then show "resolve_expression p cx e to s = expression_step p (resolve_expression p) cx e to s"
      by (simp add: resolve_expression_def expression_step_agree)
  qed
  moreover have "rec = resolve_expression p" if "rec = expression_step p rec"
    using agree_unique [OF that calculation] by (blast intro: agreeD lessI)
  ultimately show ?thesis by blast
qed

end
