(* ===== verification/Sema_Reports.thy ===== *)
theory Sema_Reports
  imports Sema_Frame Sema_Fuel
begin

section \<open>No error without a diagnostic, no reference to nothing\<close>

text \<open>
  Every function of the resolution of expressions is good in the sense of \<open>Sema_Frame\<close>, when the resolver
  that it calls is.
\<close>

declare good_bind [good_rules] conjI [good_rules] allI [good_rules] impI [good_rules]

subsection \<open>Functions on the diagnostics\<close>

lemma ev_good_cases:
  "(\<And>d r d'. m d = Some (r, d') \<Longrightarrow> diag_failed d \<Longrightarrow> diag_failed d') \<Longrightarrow>
   (\<And>d u d'. m d = Some (Inl u, d') \<Longrightarrow> diag_failed d') \<Longrightarrow> ev_good m"
  by (auto simp: ev_good_def)

lemma cast_good: "ev_good (cast e l t)"
  by (rule ev_good_cases) (auto dest!: cast_gives_type split: sum.splits)

lemma cast_typed: "cast e l t d = Some (Inr x, d') \<Longrightarrow> expr_ty x \<noteq> None"
  by (drule cast_gives_type) (auto simp: storage_bytes_element_def split: expr.splits)

lemma cast_bound:
  assumes "bound E e" "cast e l t d = Some (Inr x, d')"
  shows "bound E x"
proof -
  have types: "bound E y" if "cast_types e l t0 to d = Some (Inr y, d')" "bound E e" for t0 to l e y
    using that by (auto simp: cast_types_def cast_fail_def ev_fail_def ev_return_def split: sty.splits if_splits)
  have literal: "bound E y" if "cast_literal e l t0 to = Some m" "m d = Some (Inr y, d')" "bound E e" for t0 to l e y m
    using that by (auto simp: cast_literal_def cast_fail_def ev_fail_def ev_return_def split: sty.splits if_splits expr.splits)
  have "bound E x" if "cast_from t0 e l t d = Some (Inr x, d')" "bound E e" for t0
    using that
    by (induction t0 e l t rule: cast_from.induct)
      (auto simp: ev_return_def cast_fail_def ev_fail_def split: option.splits bool.splits if_splits intro: types literal)
  then show ?thesis using assms by (auto simp: cast_def split: option.splits)
qed

lemma good_cast [good_rules]: "bound E e \<Longrightarrow> good E (rs_cast e l t) (bound E)"
  by (rule good_ev) (auto intro: cast_good cast_bound)

lemma good_cast_typed: "bound E e \<Longrightarrow> good E (rs_cast e l t) (\<lambda>x. bound E x \<and> expr_ty x \<noteq> None)"
  by (rule good_ev) (auto intro: cast_good cast_bound dest: cast_typed)

lemma number_bits_good [good_rules]: "ev_good (number_bits t l)"
  by (induction t l rule: number_bits.induct) (simp_all add: ev_good_return ev_fail_rules)

lemma coerce_number_good [good_rules]: "ev_good (coerce_number t l t' l')"
  by (auto simp: coerce_number_def Let_def intro!: good_rules split: sty.split)

lemma coerce_good [good_rules]: "ev_good (coerce t l t' l')"
  by (auto simp: coerce_def Let_def intro!: good_rules)

lemma good_bigint [good_rules]: "good E (rs_ev (bigint_to_expression ns k l n to)) (bound E)"
  by (rule good_ev)
    (auto simp: bigint_to_expression_def cast_fail_def Let_def ev_fail_def ev_return_def ev_good_def
      split: resolve_to.splits option.splits bool.splits if_splits)

text \<open>A constant is followed into its initialiser, which exists.\<close>

lemma in_env_bound:
  assumes "in_env E s" "bound E e"
  shows "bound s e"
proof -
  have m: "list_all2 contract_marked (ns_contracts (fst E)) (ns_contracts (fst s))"
    "list_all2 svariable_marked (ns_constants (fst E)) (ns_constants (fst s))"
    "list_all2 (local_marked UNIV) (vars (snd E)) (vars (snd s))"
    using marksD(1,2,3) [OF assms(1) [unfolded in_env_def]] by (simp_all add: quiet_def)
  have c: "\<exists>w. constant_variable (fst s) c n = Some w \<and> svariable_marked v w" if "constant_variable (fst E) c n = Some v" for c n v
  proof (cases c)
    case None
    then show ?thesis using that m(2) by (auto simp: constant_variable_def at_def list_all2_conv_all_nth split: if_splits)
  next
    case (Some k)
    then show ?thesis using that m(1)
      by (auto simp: constant_variable_def at_def contract_marked_def list_all2_conv_all_nth bind_eq_Some_conv split: if_splits)
  qed
  have l: "\<exists>w. map_of (vars (snd s)) n = Some w \<and> variable_marked v w" if "map_of (vars (snd E)) n = Some v" for n v
    using m(3) that by (induction rule: list_all2_induct) (auto simp: local_marked_def split: if_splits)
  have "ref_in s x" if "ref_in E x" for x
    using that in_env_rest(1) [OF assms(1)]
    by (cases x) (auto simp: ref_in_def dest!: c l dest: marked_same)
  then show ?thesis using assms(2) unfolding bound_def by blast
qed

lemma in_env_initialised:
  assumes "in_env E (ns, st)" "initialised (fst E)"
  shows "initialised ns"
  unfolding initialised_def
proof (intro allI impI)
  fix c n w assume w: "constant_variable ns c n = Some w" "c \<noteq> None \<longrightarrow> v_constant w"
  from in_env_variable [OF assms(1), of c n w] w(1) obtain v
    where v: "constant_variable (fst E) c n = Some v" "svariable_marked v w" by auto
  with marked_same(1) [OF v(2)] w(2) assms(2) obtain e
    where "v_initializer w = Some e" "bound (fst E, symtable_new) e"
    unfolding initialised_def by metis
  moreover have "in_env (fst E, symtable_new) (ns, symtable_new)"
    using assms(1) unfolding in_env_def marks_def by (simp add: list_all2_refl)
  ultimately show "\<exists>e. v_initializer w = Some e \<and> bound (ns, symtable_new) e"
    using in_env_bound by blast
qed

lemma arith_number_good [good_rules]: "ev_good (arith_number a l x y)"
  by (auto simp: arith_number_def intro!: good_rules split: arith.split option.split)

lemma ev_good_prod [good_rules]: "(\<And>a b. ev_good (f a b)) \<Longrightarrow> ev_good (case x of (a, b) \<Rightarrow> f a b)"
  by (cases x) simp

lemma eval_arith_good: "ev_good m \<Longrightarrow> ev_good m' \<Longrightarrow> ev_good (eval_arith a l m m')"
  by (auto simp: eval_arith_def intro!: good_rules)

lemma eval_const_number_good:
  "initialised ns \<Longrightarrow> bound (ns, st) e \<Longrightarrow> ev_good (eval_const_number k ns e)"
proof (induction k ns e arbitrary: st rule: eval_const_number.induct)
  case (5 k ns l t c v)
  from "5.prems" obtain var init where "constant_variable ns c v = Some var" "v_initializer var = Some init"
    "bound (ns, symtable_new) init"
    unfolding initialised_def bound_variables by fastforce
  then show ?case using "5.IH" "5.prems"(1) by (cases k) (auto intro!: good_rules)
qed (auto intro!: good_rules eval_arith_good)

lemma fail_at_good [good_rules]: "ev_good (fail_at e m)"
  by (auto simp: fail_at_def ev_good_def ev_fail_def split: option.splits)

lemma check_subarrays_good:
  "ev_good (check_subarrays es b)" "ev_good (check_other_subarrays n i es)"
proof (induction es b and n i es rule: check_subarrays_check_other_subarrays.induct)
  case (1 es d)
  then show ?case
    by (subst check_subarrays.simps) (auto intro!: good_rules split: list.split pexpr.split option.split prod.split)
next
  case (2 n i es)
  then show ?case
    by (subst check_other_subarrays.simps) (auto intro!: good_rules split: list.split pexpr.split)
qed

lemma check_dimensions_good: "ev_good (check_dimensions ds)"
  by (induction ds rule: check_dimensions.induct) (auto intro!: good_rules)

lemma resolve_dimensions_good [good_rules]: "ev_good (resolve_dimensions ds)"
  by (simp add: resolve_dimensions_def check_dimensions_good)

lemma found_instead_good [good_rules]: "ev_good (found_instead x s)"
  by (auto simp: found_instead_def intro!: good_rules split: symbol.split)

lemma contract_of_path_good [good_rules]: "ev_good (contract_of_path ns fl c xs x)"
  by (auto simp: contract_of_path_def intro!: good_rules split: list.split option.split symbol.split)

lemma resolve_namespace_good [good_rules]: "ev_good (resolve_namespace ns xs fl c x)"
  by (auto simp: resolve_namespace_def Let_def intro!: good_rules split: prod.split)

lemma unescape_errors: "unescape_chars fl start len cs d = Some (ws, d') \<Longrightarrow> diag_failed d \<Longrightarrow> diag_failed d'"
  by (induction fl start len cs d arbitrary: ws d' rule: unescape_chars.induct)
    (auto simp: bind_eq_Some_conv split: if_splits list.splits prod.splits sum.splits option.splits)

lemma join_strings_errors: "join_strings fl v l d = Some (r, d') \<Longrightarrow> diag_failed d \<Longrightarrow> diag_failed d'"
  by (induction v arbitrary: l d r) (fastforce simp: bind_eq_Some_conv unescape_def dest: unescape_errors)+

subsection \<open>Operators\<close>

locale good_resolver =
  fixes rec :: resolver
  assumes rec: "good E (rec cx e to) (bound E)"
begin

lemmas rec_rule [good_rules] = rec

lemma resolve_both_good [good_rules]: "good E (resolve_both rec cx x y to) (\<lambda>p. bound E (fst p) \<and> bound E (snd p))"
  unfolding resolve_both_def by (rule good_rules | fastforce)+

lemma both_coerced_good [good_rules]: "good E (both_coerced x l y r) (\<lambda>_. True)"
  unfolding both_coerced_def by (rule good_rules | fastforce)+

lemma cast_both_good: "bound E x \<Longrightarrow> bound E y \<Longrightarrow> good E (cast_both x l y r t) (\<lambda>p. bound E (fst p) \<and> bound E (snd p))"
  unfolding cast_both_def by (rule good_rules | fastforce)+

lemma finish_operator_good [good_rules]: "bound E x \<Longrightarrow> bound E y \<Longrightarrow> good E (finish_operator op l x left y right t) (bound E)"
  unfolding finish_operator_def by (rule good_rules cast_both_good | fastforce)+

lemma subtract_good [good_rules]: "good E (subtract rec cx l left right to) (bound E)"
  unfolding subtract_def by (rule good_rules | fastforce)+

lemma bitwise_good [good_rules]: "good E (bitwise op rec cx l left right to) (bound E)"
  unfolding bitwise_def by (rule good_rules | fastforce)+

lemma divide_by_good [good_rules]: "good E (divide_by op what rec cx l left right to) (bound E)"
  unfolding divide_by_def by (rule good_rules | fastforce)+

lemma double_width_good [good_rules]: "good E (double_width p t) (\<lambda>_. True)"
  unfolding double_width_def by (rule good_rules | fastforce)+

lemma multiply_to_good [good_rules]:
  "(\<And>t x y. bound E x \<Longrightarrow> bound E y \<Longrightarrow> good E (next t x y) (bound E)) \<Longrightarrow> good E (multiply_to rec cx l left right to next) (bound E)"
  unfolding multiply_to_def by (rule good_rules | fastforce)+

lemma multiply_good [good_rules]: "good E (multiply p rec cx l left right to) (bound E)"
  unfolding multiply_def by (rule good_rules | fastforce)+

lemma addition_good [good_rules]: "good E (addition p rec cx l left right to) (bound E)"
  unfolding addition_def by (rule good_rules | fastforce)+

lemma power_good [good_rules]: "good E (power_op rec cx l left right to) (bound E)"
  unfolding power_op_def by (rule good_rules | fastforce)+

lemma cast_shift_arg_good [good_rules]: "bound E e \<Longrightarrow> good E (cast_shift_arg p l e n t) (bound E)"
  unfolding cast_shift_arg_def by (rule good_rules | fastforce)+

lemma shift_good [good_rules]: "good E (shift_left p rec cx l left right to) (bound E)"
  "good E (shift_right p rec cx l left right to) (bound E)"
  unfolding shift_left_def shift_right_def by (rule good_rules | fastforce)+

lemma compare_numbers_good [good_rules]: "good E (compare_numbers c rec cx l left right) (bound E)"
  unfolding compare_numbers_def by (rule good_rules cast_both_good | fastforce)+

lemma cast_deref_good [good_rules]: "bound E e \<Longrightarrow> good E (cast_deref e t) (bound E)"
  unfolding cast_deref_def by (rule good_rules | fastforce)+

lemma is_string_equal_good [good_rules]:
  "bound E x \<Longrightarrow> bound E y \<Longrightarrow> good E (is_string_equal l x tx y ty) (\<lambda>r. \<forall>e. r = Some e \<longrightarrow> bound E e)"
  unfolding is_string_equal_def by (rule good_rules | fastforce)+

lemma compare_common_good:
  assumes "bound E x" "bound E y" "\<And>e. bound E e \<Longrightarrow> good E (same e) (bound E)" "\<And>t. good E (next t) (bound E)"
  shows "good E (compare_common l left right x y same next) (bound E)"
  unfolding compare_common_def by (rule good_rules assms | fastforce)+

lemma equal_good [good_rules]: "good E (equal_op rec cx l left right) (bound E)"
  unfolding equal_op_def by (rule good_rules compare_common_good | fastforce)+

lemma not_equal_good [good_rules]: "good E (not_equal_op rec cx l left right) (bound E)"
  unfolding not_equal_op_def by (rule good_rules compare_common_good cast_both_good | fastforce)+

lemma constant_name_good [good_rules]: "good E (constant_name c v) (\<lambda>_. True)"
  unfolding constant_name_def by (rule good_rules | fastforce)+

lemma assign_to_constant_good [good_rules]: "good E (assign_to_constant l c v) Q"
  unfolding assign_to_constant_def by (rule good_rules | fastforce)+

lemma incorrect_variable_good [good_rules]: "good E (incorrect_variable e v t) Q"
  unfolding incorrect_variable_def by (rule good_rules | fastforce)+

lemma incr_decr_ref_good [good_rules]: "bound E var \<Longrightarrow> good E (incr_decr_ref op l var vt) (bound E)"
  unfolding incr_decr_ref_def by (rule good_rules | fastforce)+

lemma incr_decr_good [good_rules]: "good E (incr_decr op rec cx l v) (bound E)"
  unfolding incr_decr_def by (rule good_rules | fastforce)+

lemma assign_cast_good [good_rules]: "bound E var \<Longrightarrow> bound E val \<Longrightarrow> good E (assign_cast l t var val right to) (bound E)"
  unfolding assign_cast_def by (rule good_rules | fastforce)+

lemma assign_single_ref_good [good_rules]: "bound E var \<Longrightarrow> bound E val \<Longrightarrow> good E (assign_single_ref l var vt val right) (bound E)"
  unfolding assign_single_ref_def by (rule good_rules | fastforce)+

lemma assign_single_good [good_rules]: "good E (assign_single rec cx l left right) (bound E)"
  unfolding assign_single_def by (rule good_rules | fastforce)+

lemma assign_operand_good [good_rules]: "bound E val \<Longrightarrow> good E (assign_operand op l left right val set_type t) (bound E)"
  unfolding assign_operand_def by (rule good_rules | fastforce)+

lemma assign_op_good [good_rules]: "bound E val \<Longrightarrow> bound E x \<Longrightarrow> good E (assign_op op l left right val set_type x t) (bound E)"
  unfolding assign_op_def by (rule good_rules | fastforce)+

lemma assign_loaded_good:
  "bound E x \<Longrightarrow> bound E var \<Longrightarrow> (\<And>v t. bound E v \<Longrightarrow> good E (op v t) (bound E)) \<Longrightarrow> good E (assign_loaded l x var op t) (bound E)"
  unfolding assign_loaded_def by (rule good_rules | fastforce)+

lemma assign_expr_ref_good:
  assumes "bound E var" "\<And>v t. bound E v \<Longrightarrow> good E (op v t) (bound E)"
  shows "good E (assign_expr_ref l var vt op) (bound E)"
  unfolding assign_expr_ref_def by (rule good_rules assign_loaded_good assms | assumption)+

lemma assign_target_good:
  assumes "bound E var" "\<And>v t. bound E v \<Longrightarrow> good E (op v t) (bound E)"
  shows "good E (assign_target l var vt op) (bound E)"
  unfolding assign_target_def by (rule good_rules assign_expr_ref_good assms | assumption | (use assms(1) in fastforce))+

lemma assign_expr_good [good_rules]: "good E (assign_expr op rec cx l left right) (bound E)"
  unfolding assign_expr_def by (rule good_rules assign_target_good | fastforce)+

end

subsection \<open>Types, names and members\<close>

text \<open>What is found in the namespace exists in the environment.\<close>

lemma ns_in_variable:
  assumes "ns_in E ns" "Sema_AST.at (ns_contracts ns) c = Some k" "Sema_AST.at (c_variables k) n = Some v"
  shows "v_constant v \<Longrightarrow> bound E (EConstantVariable l (v_ty v) (Some c) n)"
    "\<not> v_constant v \<Longrightarrow> bound E (EStorageVariable l (TStorageRef (v_ty v)) c n)"
proof -
  from assms(1) obtain st where "in_env E (ns, st)" by (auto simp: ns_in_def)
  moreover have "constant_variable ns (Some c) n = Some v" using assms(2,3) by (simp add: constant_variable_def at_def)
  ultimately obtain x where "constant_variable (fst E) (Some c) n = Some x" "svariable_marked x v"
    using in_env_variable [of E "(ns, st)" "Some c" n v] by auto
  with marked_same(1) [OF this(2)] show "v_constant v \<Longrightarrow> bound E (EConstantVariable l (v_ty v) (Some c) n)"
    "\<not> v_constant v \<Longrightarrow> bound E (EStorageVariable l (TStorageRef (v_ty v)) c n)"
    by (simp_all add: bound_variables)
qed

lemma ns_in_constant:
  assumes "ns_in E ns" "Sema_AST.at (ns_constants ns) n = Some v"
  shows "bound E (EConstantVariable l (v_ty v) None n)"
proof -
  from assms(1) obtain st where "in_env E (ns, st)" by (auto simp: ns_in_def)
  moreover have "constant_variable ns None n = Some v" using assms(2) by (simp add: constant_variable_def)
  ultimately obtain x where "constant_variable (fst E) None n = Some x" "svariable_marked x v"
    using in_env_variable [of E "(ns, st)" None n v] by auto
  with marked_same(1) [OF this(2)] show ?thesis by (simp add: bound_variables)
qed

lemma ns_in_function: "ns_in E ns \<Longrightarrow> Sema_AST.at (ns_functions ns) n = Some f \<Longrightarrow> n < length (ns_functions (fst E))"
  by (auto simp: ns_in_def at_def dest: in_env_rest(1) split: if_splits)

lemma contract_variable_good [good_rules]: "good E (contract_variable_expr x cx c v) (bound E)"
  unfolding contract_variable_expr_def by (rule good_rules | assumption | (rule ns_in_variable; assumption))+

lemma function_expr_bound: "ns_in E ns \<Longrightarrow> function_expr x ns n = Some e \<Longrightarrow> bound E e"
  by (auto simp: function_expr_def bind_eq_Some_conv dest: ns_in_function)

lemma function_exprs_bound: "ns_in E ns \<Longrightarrow> those (map (function_expr x ns) fs) = Some es \<Longrightarrow> \<forall>e\<in>set es. bound E e"
  by (induction fs arbitrary: es) (auto split: option.splits dest: function_expr_bound)

lemma function_variable_good [good_rules]: "good E (function_variable_expr x cx) (bound E)"
  unfolding function_variable_expr_def by (rule good_rules | (use function_exprs_bound in fastforce))+

lemma wrong_symbol_error [simp]: "is_error (wrong_symbol s x)"
  by (simp add: wrong_symbol_def split: option.split symbol.split)

lemma symbol_good [good_rules]: "good E (symbol_expr x cx sy) (bound E)"
  unfolding symbol_expr_def by (rule good_rules ns_in_constant wrong_symbol_error [THEN good_fail] | assumption)+

lemma variable_good [good_rules]: "good E (variable_expr x cx to) (bound E)"
  unfolding variable_expr_def by (rule good_rules | fastforce)+

lemma good_eval:
  assumes "bound (fst E, symtable_new) e" "ns_in E ns"
  shows "good E (rs_ev (eval_const_number k ns e)) (\<lambda>_. True)"
proof (rule good_ev)
  assume "env_ok E"
  obtain st where st: "in_env E (ns, st)" using assms(2) by (auto simp: ns_in_def)
  then have "in_env (fst E, symtable_new) (ns, symtable_new)"
    unfolding in_env_def marks_def by (simp add: list_all2_refl)
  from in_env_bound [OF this assms(1)] have "bound (ns, symtable_new) e" .
  moreover have "initialised ns" using \<open>env_ok E\<close> in_env_initialised [OF st] by (simp add: env_ok_def)
  ultimately show "ev_good (eval_const_number k ns e)" by (rule eval_const_number_good [rotated])
qed simp

lemma good_opt_any: "good E (rs_opt x) (\<lambda>_. True)"
  by (rule good_weaken [OF good_opt]) simp

lemma good_strengthen:
  "good E m (\<lambda>_. True) \<Longrightarrow> (\<And>s x t. m s = Some (Inr x, t) \<Longrightarrow> Q x) \<Longrightarrow> good E m Q"
  unfolding good_def triple_def by (auto split: sum.splits)

context good_resolver
begin

lemma resolve_array_dimension_good [good_rules]: "good E (resolve_array_dimension p rec fl c f e) (\<lambda>_. True)"
  unfolding resolve_array_dimension_def by (rule good_rules good_eval | assumption)+

lemma expression_found_good [good_rules]: "good E (expression_found e) Q"
  unfolding expression_found_def by (rule good_rules)+

lemma expr_to_type_good [good_rules]: "good E (expr_to_type p rec fl c e ds) (\<lambda>r. size (fst (snd r)) \<le> size e)"
proof (rule good_strengthen)
  show "good E (expr_to_type p rec fl c e ds) (\<lambda>_. True)"
  proof (induction e arbitrary: ds)
    case (PArraySubscript l a i)
    then show ?case by (cases i) (simp, simp, (rule good_rules PArraySubscript | fastforce)+)
  qed (simp, (rule good_rules | fastforce)+)+
qed (auto dest: expr_to_type_size)

lemma with_dimensions_good [good_rules]: "good E (with_dimensions t ds) (\<lambda>_. True)"
  unfolding with_dimensions_def by (rule good_rules | fastforce)+

lemma mapping_of_good [good_rules]: "good E (mapping_of key k v) (\<lambda>_. True)"
  unfolding mapping_of_def bad_key_def by (rule good_rules | fastforce)+

lemma named_type_good [good_rules]: "good E (named_type fl c xs x ds) (\<lambda>_. True)"
  unfolding named_type_def by (rule good_rules | fastforce)+

lemma resolve_type_good [good_rules]: "good E (resolve_type p rec fl c e) (\<lambda>_. True)"
proof (induction e rule: measure_induct_rule [of size])
  case (less e)
  show ?case
    by (subst resolve_type.simps) (rule good_opt_any good_rules less | fastforce)+
qed

lemma mapping_subscript_good [good_rules]: "bound E m \<Longrightarrow> good E (mapping_subscript rec cx l m i) (bound E)"
  unfolding mapping_subscript_def by (rule good_rules | fastforce)+

lemma load_array_good [good_rules]: "bound E a \<Longrightarrow> good E (load_array a t) (\<lambda>x. bound E x \<and> expr_ty x \<noteq> None)"
  unfolding load_array_def by (rule good_rules good_cast_typed | fastforce)+

lemma array_subscript_good [good_rules]: "good E (array_subscript rec cx l a i) (bound E)"
  unfolding array_subscript_def by (rule good_rules | fastforce)+

lemma slice_bound_good [good_rules]: "good E (slice_bound rec cx l e) (\<lambda>r. \<forall>x. r = Some x \<longrightarrow> bound E x)"
  unfolding slice_bound_def by (rule good_rules | fastforce)+

lemma array_slice_good [good_rules]: "good E (array_slice rec cx l a s t) (bound E)"
  unfolding array_slice_def by (rule good_rules | fastforce)+

lemma enum_member_good [good_rules]: "good E (enum_member ns l e x) (\<lambda>r. \<forall>y. r = Some y \<longrightarrow> bound E y)"
  unfolding enum_member_def by (rule good_rules | fastforce)+

lemma enum_value_good [good_rules]: "good E (enum_value l e x fl c) (\<lambda>r. \<forall>y. r = Some y \<longrightarrow> bound E y)"
  unfolding enum_value_def by (rule good_rules | fastforce)+

lemma variable_index_at: "variable_index n k = Some (i, v) \<Longrightarrow> Sema_AST.at (c_variables k) i = Some v"
  by (auto simp: variable_index_def find_Some_iff at_def nth_enumerate_eq)

lemma contract_constant_good [good_rules]: "good E (contract_constant l e x fl to) (\<lambda>r. \<forall>y. r = Some y \<longrightarrow> bound E y)"
  unfolding contract_constant_def
  by (rule good_rules | (use ns_in_variable(1) variable_index_at in fastforce))+

lemma struct_member_good [good_rules]: "bound E e \<Longrightarrow> good E (struct_member e n x w sh) (bound E)"
  unfolding struct_member_def by (rule good_rules | fastforce)+

lemma array_length_member_good [good_rules]: "bound E e \<Longrightarrow> good E (array_length_member p l e dims) (bound E)"
  unfolding array_length_member_def by (rule good_rules | fastforce)+

lemma storage_length_good [good_rules]: "bound E e \<Longrightarrow> good E (storage_length x e) (bound E)"
  unfolding storage_length_def by (rule good_rules | fastforce)+

lemma member_of_good [good_rules]: "bound E e \<Longrightarrow> good E (member_of p l e t x) (bound E)"
  unfolding member_of_def by (rule good_rules | fastforce)+

lemma member_access_good [good_rules]: "good E (member_access p rec cx l e x to) (bound E)"
  unfolding member_access_def by (rule good_rules | fastforce)+

lemma allocation_good [good_rules]: "good E (allocation rec cx l t args) (bound E)"
  unfolding allocation_def by (rule good_rules | fastforce)+

lemma new_good [good_rules]: "good E (new_expr p rec cx l t args) (bound E)"
  unfolding new_expr_def by (rule good_rules | fastforce)+

end

end
