(* ===== verification/Sema_Good.thy ===== *)
theory Sema_Good
  imports Sema_Reports
begin

section \<open>Literals, calls and whole expressions\<close>

text \<open>
  The rest of the functions under \<open>src/sema/expression\<close> is good in the sense of \<open>Sema_Frame\<close>, and with
  them \<open>expression\<close> itself.
\<close>

subsection \<open>Failures that are remembered\<close>

text \<open>
  Some functions return \<open>Err\<close> without a diagnostic, because one was reported before.  When \<open>b\<close> holds,
  something was reported before \<open>m\<close>; when \<open>F\<close> holds of the value, something was reported after it.
\<close>

definition tracked :: "usage_state \<Rightarrow> bool \<Rightarrow> 'a rs \<Rightarrow> ('a \<Rightarrow> bool) \<Rightarrow> ('a \<Rightarrow> bool) \<Rightarrow> bool" where
  "tracked E b m Q F \<longleftrightarrow> (env_ok E \<longrightarrow>
     triple (\<lambda>s. in_env E (env_of s) \<and> (b \<longrightarrow> failed s)) m (\<lambda>x t. Q x \<and> (F x \<longrightarrow> failed t)))"

lemma triple_in_env: "triple (\<lambda>s. in_env E (env_of s) \<and> P s) m Q \<Longrightarrow>
    triple (\<lambda>s. in_env E (env_of s) \<and> P s) m (\<lambda>x t. Q x t \<and> in_env E (env_of t))"
  unfolding triple_def grows_def by (auto intro: in_env_trans split: sum.splits)

lemma tracked_good: "good E m Q \<Longrightarrow> tracked E b m Q (\<lambda>_. b)"
  unfolding tracked_def using good_triple [of E m Q b] by (auto elim!: triple_weaken)

lemma good_tracked: "tracked E False m Q F \<Longrightarrow> good E m Q"
  unfolding tracked_def good_def by (auto intro: triple_weaken)

lemma tracked_weaken:
  "tracked E b m Q F \<Longrightarrow> (\<And>x. Q x \<Longrightarrow> Q' x) \<Longrightarrow> (\<And>x. Q x \<Longrightarrow> F' x \<Longrightarrow> F x) \<Longrightarrow> tracked E b m Q' F'"
  unfolding tracked_def by (auto elim!: triple_weaken)

lemma tracked_triple:
  assumes "triple (\<lambda>s. b \<longrightarrow> failed s) m (\<lambda>x t. Q x \<and> (F x \<longrightarrow> failed t))"
  shows "tracked E b m Q F"
  unfolding tracked_def by (rule impI, rule triple_weaken [OF assms]) simp_all

named_theorems tracked_rules \<open>rules for computations with remembered failures\<close>

lemma tracked_bind [tracked_rules]:
  assumes "tracked E b m Q F" "\<And>x. Q x \<Longrightarrow> tracked E (F x) (f x) R G"
  shows "tracked E b (rs_bind m f) R G"
  unfolding tracked_def
proof (intro impI, rule triple_bind)
  assume env: "env_ok E"
  show "triple (\<lambda>s. in_env E (env_of s) \<and> (b \<longrightarrow> failed s)) m (\<lambda>x t. (Q x \<and> (F x \<longrightarrow> failed t)) \<and> in_env E (env_of t))"
    using assms(1) env triple_in_env [of E "\<lambda>s. b \<longrightarrow> failed s" m "\<lambda>x t. Q x \<and> (F x \<longrightarrow> failed t)"] unfolding tracked_def by simp
  show "triple (\<lambda>t. (Q x \<and> (F x \<longrightarrow> failed t)) \<and> in_env E (env_of t)) (f x) (\<lambda>x t. R x \<and> (G x \<longrightarrow> failed t))" for x
    using assms(2) [of x] env unfolding tracked_def triple_def by blast
qed

lemma tracked_return [tracked_rules]: "Q x \<Longrightarrow> (F x \<Longrightarrow> b) \<Longrightarrow> tracked E b (rs_return x) Q F"
  by (rule tracked_triple) (auto simp: triple_def rs_return_def)

lemma tracked_err [tracked_rules]: "b \<Longrightarrow> tracked E b rs_err Q F"
  by (rule tracked_triple) (auto simp: triple_def rs_err_def)

lemma tracked_fail: "is_error d \<Longrightarrow> tracked E b (rs_fail d) Q F"
  by (rule tracked_triple, rule triple_weaken [OF triple_fail]) simp_all

lemmas tracked_fail_rules [tracked_rules] = error_constructors [THEN tracked_fail]

lemma tracked_push [tracked_rules]: "tracked E b (rs_push d) (\<lambda>_. True) (\<lambda>_. b \<or> is_error d)"
  by (rule tracked_triple) (auto simp: triple_def rs_push_def failed_def intro!: grows_diags)

lemma tracked_extend [tracked_rules]: "tracked E b (rs_extend d) (\<lambda>_. True) (\<lambda>_. b \<or> diag_failed d)"
  by (rule tracked_triple) (auto simp: triple_def rs_extend_def failed_def intro!: grows_diags)

lemma tracked_non_casting [tracked_rules]: "tracked E b (rs_extend_non_casting d) (\<lambda>_. True) (\<lambda>r. b \<or> r)"
  by (rule tracked_triple)
    (auto simp: triple_def rs_extend_non_casting_def failed_def split: prod.splits dest: extend_non_casting_failed intro!: grows_diags)

lemma tracked_try [tracked_rules]:
  assumes "good E m Q"
  shows "tracked E b (rs_try m) (\<lambda>r. \<forall>x. r = Some x \<longrightarrow> Q x) (\<lambda>r. b \<or> r = None)"
  unfolding tracked_def
proof (intro impI, rule triple_weaken [OF triple_try])
  assume "env_ok E"
  then show "triple (\<lambda>s. in_env E (env_of s) \<and> (b \<longrightarrow> failed s)) m (\<lambda>x t. Q x \<and> in_env E (env_of t) \<and> (b \<longrightarrow> failed t))"
    using assms good_triple by blast
qed (auto split: option.splits)

lemma tracked_if [tracked_rules]:
  "(c \<Longrightarrow> tracked E b m Q F) \<Longrightarrow> (\<not> c \<Longrightarrow> tracked E b m' Q F) \<Longrightarrow> tracked E b (if c then m else m') Q F"
  by simp

lemma tracked_prod [tracked_rules]:
  "(\<And>x y. p = (x, y) \<Longrightarrow> tracked E b (f x y) Q F) \<Longrightarrow> tracked E b (case p of (x, y) \<Rightarrow> f x y) Q F"
  by (cases p) simp

lemma tracked_let [tracked_rules]: "tracked E b (f x) Q F \<Longrightarrow> tracked E b (let y = x in f y) Q F"
  by simp

lemmas tracked_split [tracked_rules] = option.split [where P = "\<lambda>m. tracked E b m Q F" for E b Q F, THEN iffD2]
  list.split [where P = "\<lambda>m. tracked E b m Q F" for E b Q F, THEN iffD2]
  sum.split [where P = "\<lambda>m. tracked E b m Q F" for E b Q F, THEN iffD2]
  sty.split [where P = "\<lambda>m. tracked E b m Q F" for E b Q F, THEN iffD2]
  resolve_to.split [where P = "\<lambda>m. tracked E b m Q F" for E b Q F, THEN iffD2]
  pexpr.split [where P = "\<lambda>m. tracked E b m Q F" for E b Q F, THEN iffD2]

declare conjI [tracked_rules] allI [tracked_rules] impI [tracked_rules] sum.split [where P = "\<lambda>m. good E m Q" for E Q, THEN iffD2, good_rules]

subsection \<open>Literals\<close>

lemma string_literal_good [good_rules]: "good E (string_literal v fl) (bound E)"
proof -
  have *: "good E (rs_ev (\<lambda>d. map_option (\<lambda>(x, d). (Inr x, d)) (join_strings fl v l d))) (\<lambda>_. True)" for l
    by (rule good_ev_any) (auto simp: ev_good_def dest: join_strings_errors)
  show ?thesis unfolding string_literal_def by (rule * good_bind good_opt good_prod good_return | simp)+
qed

lemma number_literal_good [good_rules]: "good E (number_literal p l n to) (bound E)"
  unfolding number_literal_def by (rule good_rules | fastforce)+

lemma hex_number_literal_good [good_rules]: "good E (hex_number_literal p l n to) (bound E)"
  unfolding hex_number_literal_def by (rule good_rules | fastforce)+

lemma field_chunks_good: "(\<And>n. is_error (err n)) \<Longrightarrow> good E (field_chunks err cs) (\<lambda>_. True)"
  by (induction cs) (simp add: good_return, simp, (rule good_rules good_fail | fastforce)+)

lemma long_literal_good: "(\<And>ns. bound E (mk ns)) \<Longrightarrow> good E (long_literal kind l text mk) (bound E)"
  unfolding long_literal_def by (rule good_rules field_chunks_good | fastforce)+

lemma field_literals_good [good_rules]:
  "good E (address_literal l t) (bound E)" "good E (hash_literal l t) (bound E)" "good E (fields_literal l t) (bound E)"
  unfolding address_literal_def hash_literal_def fields_literal_def
  by (rule good_rules long_literal_good field_chunks_good | fastforce)+

lemma is_error_struct [simp]: "is_error (struct_error l sd n)"
  by (simp add: struct_error_def)

lemmas struct_error_rule [good_rules] = is_error_struct [THEN good_fail]

lemma good_map_all: "(\<And>x. x \<in> set xs \<Longrightarrow> good E (f x) Q) \<Longrightarrow> good E (rs_map f xs) (\<lambda>ys. \<forall>y\<in>set ys. Q y)"
  by (rule good_weaken [OF good_map]) auto

context good_resolver
begin

lemma struct_literal_good [good_rules]: "good E (struct_literal rec cx l n args) (bound E)"
  unfolding struct_literal_def by (rule good_map_all good_rules | fastforce)+

lemma named_fields_good:
  "\<forall>v\<in>set vs. bound E v \<Longrightarrow> good E (named_fields rec cx l sd args vs) (\<lambda>vs. \<forall>v\<in>set vs. bound E v)"
proof (induction args arbitrary: vs)
  case (Cons a args)
  show ?case unfolding named_fields.simps
    by (rule good_rules Cons.IH | use Cons.prems in \<open>fastforce dest: set_update_subset_insert [THEN subsetD]\<close>)+
qed (simp add: good_return)

lemma named_struct_literal_good [good_rules]: "good E (named_struct_literal rec cx l n args) (bound E)"
  unfolding named_struct_literal_def by (rule named_fields_good good_rules | fastforce)+

lemma slice_element_tracked: "tracked E b (slice_element elt e) (\<lambda>_. True) (\<lambda>r. b \<or> r)"
  unfolding slice_element_def by (rule tracked_rules tracked_good good_rules | fastforce)+

lemma slice_elements_tracked:
  "tracked E b (slice_elements rec cx elt es) (\<lambda>(vs, _). \<forall>v\<in>set vs. bound E v) (\<lambda>(_, err). b \<or> err)"
proof (induction es arbitrary: b)
  case (Cons e es)
  show ?case unfolding slice_elements.simps
    by (rule tracked_rules Cons.IH slice_element_tracked tracked_good good_rules | fastforce)+
qed (simp, (rule tracked_rules | fastforce)+)

lemma array_element_good [good_rules]: "good E (array_element rec cx t e) (bound E)"
  unfolding array_element_def by (rule good_rules | fastforce)+

lemma flat_array_literal_good [good_rules]: "good E (flat_array_literal rec cx l es to) (bound E)"
proof -
  have *: "good E (case to of ToType t \<Rightarrow> rs_bind (rs_cast v (expr_loc v) t) (\<lambda>v. rs_return (v, t))
      | _ \<Rightarrow> rs_bind (rs_ty v) (\<lambda>t. rs_return (v, t))) (\<lambda>p. bound E (fst p))" if "bound E v" for v
    by (rule good_rules that | simp)+
  show ?thesis unfolding flat_array_literal_def
    by (rule * good_map_all good_ev_any check_subarrays_good good_rules | fastforce)+
qed

lemma array_literal_good [good_rules]: "good E (array_literal rec cx l es to) (bound E)"
  unfolding array_literal_def
  by (rule good_tracked, (rule tracked_rules slice_elements_tracked tracked_good good_rules | fastforce)+)

end

subsection \<open>Arguments\<close>

text \<open>
  Arguments of a candidate: their diagnostics go to \<open>errs\<close>, which keeps what it reports and reports
  something when an argument fails.
\<close>

definition candidate_ok :: "usage_state \<Rightarrow> diagnostics \<Rightarrow> expr list \<times> bool \<times> diagnostics \<Rightarrow> bool" where
  "candidate_ok E d r = (case r of (xs, ok, errs) \<Rightarrow>
     (\<forall>x\<in>set xs. bound E x) \<and> (diag_failed d \<longrightarrow> diag_failed errs) \<and> (\<not> ok \<longrightarrow> diag_failed errs))"

lemma candidate_ok_simp [simp]: "candidate_ok E d (xs, ok, errs) \<longleftrightarrow>
    (\<forall>x\<in>set xs. bound E x) \<and> (diag_failed d \<longrightarrow> diag_failed errs) \<and> (\<not> ok \<longrightarrow> diag_failed errs)"
  by (simp add: candidate_ok_def)

lemma into_ok_simps [simp]:
  "into_ok Q d (None, errs) \<longleftrightarrow> diag_failed errs"
  "into_ok Q d (Some x, errs) \<longleftrightarrow> (diag_failed d \<longrightarrow> diag_failed errs) \<and> Q x"
  by (auto simp: into_ok_def)

text \<open>The search for a candidate: a call, or diagnostics when there was a candidate.\<close>

definition search_ok :: "usage_state \<Rightarrow> 'a list \<Rightarrow> diagnostics \<Rightarrow> diagnostics + expr \<Rightarrow> bool" where
  "search_ok E ns d r = (case r of Inl errs \<Rightarrow> ns \<noteq> [] \<or> diag_failed d \<longrightarrow> diag_failed errs | Inr e \<Rightarrow> bound E e)"

lemma search_ok_simps [simp]:
  "search_ok E ns d (Inl errs) \<longleftrightarrow> (ns \<noteq> [] \<or> diag_failed d \<longrightarrow> diag_failed errs)"
  "search_ok E ns d (Inr e) \<longleftrightarrow> bound E e"
  by (simp_all add: search_ok_def)

lemma search_ok_weaken: "search_ok E ns' d' r \<Longrightarrow> diag_failed d' \<Longrightarrow> search_ok E ns d r"
  by (simp add: search_ok_def split: sum.splits)

lemma internal_call_bound: "n < length (ns_functions (fst E)) \<Longrightarrow> \<forall>x\<in>set xs. bound E x \<Longrightarrow> bound E (internal_call l n f to xs)"
  by (simp add: internal_call_def)

lemma call_in_constant_good [good_rules]: "good E (call_in_constant l) Q"
  unfolding call_in_constant_def by (rule good_rules)

lemma tracked_push_if [tracked_rules]: "tracked E b (push_if c d) (\<lambda>_. True) (\<lambda>_. b \<or> c \<and> is_error d)"
  unfolding push_if_def by (rule tracked_triple) (auto simp: triple_def rs_push_def rs_return_def failed_def intro!: grows_diags)

lemma push_if_good [good_rules]: "good E (push_if c d) (\<lambda>_. True)"
  by (rule good_tracked) (rule tracked_rules)

lemma no_match_good:
  assumes "search_ok E ns no_diagnostics r" "is_error unknown"
  shows "good E (no_match l ns unknown overloaded r) (bound E)"
proof (cases r)
  case (Inl errs)
  have "tracked E False (rs_bind (rs_extend errs) (\<lambda>_. rs_err)) (bound E) (\<lambda>_. False)" if "ns \<noteq> []"
    by (rule tracked_bind [OF tracked_extend tracked_err]) (use that assms(1) Inl in simp)
  then show ?thesis using Inl assms(2) by (auto simp: no_match_def intro: good_tracked good_fail)
next
  case (Inr e)
  then show ?thesis using assms(1) by (simp add: no_match_def good_return)
qed

text \<open>Optional expressions, the arguments of a call, and the result of a candidate of a contract call.\<close>

definition some_bound :: "usage_state \<Rightarrow> expr option \<Rightarrow> bool" where
  "some_bound E r \<longleftrightarrow> (\<forall>x. r = Some x \<longrightarrow> bound E x)"

lemma some_bound_simps [simp]: "some_bound E None" "some_bound E (Some x) \<longleftrightarrow> bound E x"
  by (simp_all add: some_bound_def)

definition call_args_bound :: "usage_state \<Rightarrow> call_args \<Rightarrow> bool" where
  "call_args_bound E ca \<longleftrightarrow> some_bound E (fst ca) \<and> some_bound E (snd ca)"

definition candidate_result :: "usage_state \<Rightarrow> diagnostics + expr \<Rightarrow> bool" where
  "candidate_result E r \<longleftrightarrow> (case r of Inl errs \<Rightarrow> diag_failed errs | Inr e \<Rightarrow> bound E e)"

lemma candidate_result_simps [simp]: "candidate_result E (Inl errs) \<longleftrightarrow> diag_failed errs" "candidate_result E (Inr e) \<longleftrightarrow> bound E e"
  by (simp_all add: candidate_result_def)

lemma any_errors_failed [simp]: "any_errors d \<Longrightarrow> diag_failed d"
  by (simp add: diag_failed_def)

context good_resolver
begin

lemma convert_argument_good [good_rules]: "good E (convert_argument rec cx a t) (bound E)"
  unfolding convert_argument_def by (rule good_rules | fastforce)+

lemma evaluate_argument_good [good_rules]: "good E (evaluate_argument rec cx a t errs) (into_ok (bound E) errs)"
  unfolding evaluate_argument_def by (rule good_rules)+

lemma evaluate_arguments_good: "good E (evaluate_arguments rec cx args errs) (candidate_ok E errs)"
proof (induction args arbitrary: errs)
  case (Cons a args)
  obtain e t where "a = (e, t)" by fastforce
  then show ?case
    by simp (rule good_rules Cons.IH | fastforce)+
qed (simp add: good_return)

lemma any_fails_tracked [tracked_rules]: "tracked E b (any_fails rec cx args) (\<lambda>_. True) (\<lambda>r. b \<or> r)"
proof (induction args arbitrary: b)
  case (Cons a args)
  show ?case unfolding any_fails.simps by (rule tracked_rules Cons.IH good_rules | fastforce)+
qed (simp, (rule tracked_rules | fastforce)+)

lemma try_positional_good: "good E (try_positional rec cx l args many to ns errs) (search_ok E ns errs)"
proof (induction ns arbitrary: errs)
  case (Cons n ns)
  show ?case unfolding try_positional.simps
    by (rule good_tracked, (rule tracked_rules tracked_good [OF evaluate_arguments_good]
        tracked_good [OF good_weaken [OF Cons.IH]] tracked_good good_rules |
        (auto elim: search_ok_weaken intro: internal_call_bound dest: ns_in_function)[1])+)
qed (simp add: good_return)

lemma function_call_pos_args_good [good_rules]: "good E (function_call_pos_args rec cx l x args ns to) (bound E)"
proof -
  have "good E (rs_bind (try_positional rec cx l args many to ns no_diagnostics) (no_match l ns (diag_error l' m) o')) (bound E)" for many l' m o'
    by (rule good_bind [OF try_positional_good no_match_good]) simp_all
  then show ?thesis unfolding function_call_pos_args_def
    by (intro good_tracked tracked_if tracked_good [OF call_in_constant_good] tracked_bind [OF any_fails_tracked] tracked_err)
      (auto intro: tracked_good call_in_constant_good)
qed

lemma duplicate_arguments_good [good_rules]: "good E (duplicate_arguments rec cx seen args) (\<lambda>_. True)"
  by (induction args arbitrary: seen) (simp add: good_return, simp add: Let_def, (rule good_rules | fastforce)+)

text \<open>A named argument that is missing is reported at once and not among the diagnostics of the candidate.\<close>

lemma named_arguments_tracked:
  "tracked E b (named_arguments rec cx l fname args ps errs)
     (\<lambda>(xs, ok, errs'). (\<forall>x\<in>set xs. bound E x) \<and> (diag_failed errs \<longrightarrow> diag_failed errs'))
     (\<lambda>(_, ok, errs'). b \<or> \<not> ok \<and> \<not> diag_failed errs')"
proof (induction ps arbitrary: errs b)
  case (Cons q ps)
  show ?case unfolding named_arguments.simps
    by (rule tracked_rules Cons.IH tracked_good good_rules | fastforce)+
qed (simp, (rule tracked_rules | fastforce)+)

lemma named_errors_failed: "named_errors l f n errs = (ok, errs') \<Longrightarrow> (diag_failed errs \<longrightarrow> diag_failed errs') \<and> (\<not> ok \<longrightarrow> diag_failed errs')"
  by (auto simp: named_errors_def Let_def split: if_splits)

lemma try_named_tracked:
  "tracked E b (try_named rec cx l fname args to ns errs)
     (\<lambda>r. case r of Inl errs' \<Rightarrow> diag_failed errs \<longrightarrow> diag_failed errs' | Inr e \<Rightarrow> bound E e)
     (\<lambda>r. b \<or> (case r of Inl errs' \<Rightarrow> ns \<noteq> [] \<and> \<not> diag_failed errs' | Inr _ \<Rightarrow> False))"
proof (induction ns arbitrary: errs b)
  case (Cons n ns)
  show ?case unfolding try_named.simps
    by (rule tracked_rules named_arguments_tracked tracked_weaken [OF Cons.IH] tracked_good good_rules |
      (auto intro: internal_call_bound dest: ns_in_function dest!: named_errors_failed split: sum.splits)[1])+
qed (simp, (rule tracked_rules | fastforce)+)

lemma function_call_named_args_good [good_rules]: "good E (function_call_named_args rec cx l x args ns to) (bound E)"
proof -
  have "tracked E b (no_match l ns (diag_error l' m) o' r) (bound E) (\<lambda>_. False)"
    if "case r of Inl errs' \<Rightarrow> True | Inr e \<Rightarrow> bound E e"
      "(case r of Inl errs' \<Rightarrow> ns \<noteq> [] \<and> \<not> diag_failed errs' | Inr _ \<Rightarrow> False) \<longrightarrow> b" for b r l' m o'
    using that unfolding no_match_def
    by (cases r) (auto intro!: tracked_rules)
  note * = this
  show ?thesis unfolding function_call_named_args_def
    by (rule good_bind [OF duplicate_arguments_good], rule good_tracked, rule tracked_bind [OF try_named_tracked], rule *)
      (auto split: sum.splits)
qed

subsection \<open>Library functions\<close>

lemma library_arguments_good [good_rules]: "good E (library_arguments rec cx args ts errs) (candidate_ok E errs)"
proof (induction args arbitrary: ts errs)
  case (Cons a args)
  show ?case by (cases ts; simp) (rule good_rules Cons.IH | fastforce | (auto simp: into_ok_def split: option.splits)[1])+
qed (simp add: good_return)

lemma library_functions: "f \<in> set LIB_FUNCTIONS \<Longrightarrow> pt_libfunc f \<notin> {ArrayLength, ArrayPush, ArrayPop}"
  by (auto simp: LIB_FUNCTIONS_def proto_def)

lemma function_selector_good [good_rules]: "good E (function_selector p l e) (bound E)"
  unfolding function_selector_def by (rule good_rules | fastforce)+

lemma called_library_good [good_rules]: "good E (called_library n) (\<lambda>_. True)"
  by (rule triple_good)
    (auto simp: called_library_def triple_def grows_def failed_def in_env_def quiet_def marks_def list_all2_refl)

lemma library_call_good [good_rules]:
  assumes "f \<in> set LIB_FUNCTIONS" "\<forall>x\<in>set xs. bound E x"
  shows "good E (library_call p l f args xs) (bound E)"
proof -
  have "good E (if pt_name f = ''get_selector'' then rs_bind (rs_at args 0) (\<lambda>a. rs_bind (function_selector p l a)
      (\<lambda>sel. rs_return (sel # xs))) else rs_return xs) (\<lambda>xs. \<forall>x\<in>set xs. bound E x)"
    by (rule good_rules | use assms in fastforce)+
  then show ?thesis unfolding library_call_def
    by (intro good_bind [OF called_library_good], elim good_bind)
      (use library_functions [OF assms(1)] in \<open>auto intro: good_return\<close>)
qed

lemma library_errors_failed: "library_errors cx l f n errs = (ok, errs') \<Longrightarrow> (diag_failed errs \<longrightarrow> diag_failed errs') \<and> (\<not> ok \<longrightarrow> diag_failed errs')"
  by (auto simp: library_errors_def Let_def split: if_splits)

lemma try_library_good: "set fs \<subseteq> set LIB_FUNCTIONS \<Longrightarrow> good E (try_library p rec cx l args many fs errs) (search_ok E fs errs)"
proof (induction fs arbitrary: errs)
  case (Cons f fs)
  note IH = tracked_weaken [OF tracked_good [OF Cons.IH]]
  show ?case unfolding try_library.simps
    by (rule good_tracked, (rule tracked_rules tracked_good [OF library_arguments_good] tracked_good [OF library_call_good] IH
        tracked_good good_rules | (use Cons.prems in \<open>auto simp: search_ok_def split: sum.splits dest!: library_errors_failed\<close>)[1])+)
qed (simp add: good_return)

lemma resolve_call_good [good_rules]: "good E (resolve_call p rec cx l namesp n args) (bound E)"
proof -
  have "good E (case r of Inr e \<Rightarrow> rs_return e
      | Inl errs \<Rightarrow> if length fs \<noteq> 1 then rs_fail (diag_error l m) else rs_bind (rs_extend errs) (\<lambda>_. rs_err)) (bound E)"
    if "search_ok E fs no_diagnostics r" for r fs m
  proof (rule good_tracked, cases r)
    case (Inl errs)
    then show "tracked E False (case r of Inr e \<Rightarrow> rs_return e
      | Inl errs \<Rightarrow> if length fs \<noteq> 1 then rs_fail (diag_error l m) else rs_bind (rs_extend errs) (\<lambda>_. rs_err)) (bound E) (\<lambda>_. False)"
      using that by (auto intro!: tracked_rules)
  qed (use that in \<open>auto intro!: tracked_rules\<close>)
  then show ?thesis unfolding resolve_call_def Let_def
    by (intro good_bind [OF try_library_good]) auto
qed

lemma not_abi_good [good_rules]: "good E (not_abi p t) (\<lambda>_. True)"
  unfolding not_abi_def by (rule good_rules good_opt_any | simp)+

lemma abi_error_rule [simp]: "is_error (abi_error l t)"
  by (simp add: abi_error_def)

lemma decoded_types_tracked: "tracked E b (decoded_types p rec cx ps) (\<lambda>_. True) (\<lambda>r. b \<or> snd r)"
proof (induction ps arbitrary: b)
  case (Cons q ps)
  have *: "tracked E b (case n of Some x \<Rightarrow> rs_push (diag_error (id_loc x) (m x)) | None \<Rightarrow> rs_return ()) (\<lambda>_. True) (\<lambda>_. b \<or> n \<noteq> None)"
    for n m b by (cases n) (auto intro!: tracked_rules tracked_weaken [OF tracked_push])
  obtain l q' where "q = (l, q')" by fastforce
  then show ?case
    by (cases q'; simp) (rule * Cons.IH tracked_rules tracked_good good_rules | (auto; fail)[1])+
qed (simp, (rule tracked_rules | fastforce)+)

lemma abi_decode_good [good_rules]: "good E (abi_decode p rec cx l args) (bound E)"
proof -
  have *: "tracked E b (case types of
            PList _ ps \<Rightarrow> decoded_types p rec cx ps
          | _ \<Rightarrow> rs_bind (resolve_type p rec (cx_file_no cx) (cx_contract_no cx) (remove_parenthesis types)) (\<lambda>t.
              rs_bind (not_abi p t) (\<lambda>bad. rs_bind (push_if bad (abi_error l t)) (\<lambda>_. rs_return ([t], bad)))))
      (\<lambda>_. True) (\<lambda>r. b \<or> snd r)" for b types
    by (rule decoded_types_tracked tracked_rules tracked_good good_rules | simp)+
  show ?thesis unfolding abi_decode_def
    by (rule good_tracked, (rule * tracked_rules tracked_good good_rules | fastforce)+)
qed

lemma encoded_argument_good [good_rules]: "good E (encoded_argument p rec cx a) (bound E)"
  unfolding encoded_argument_def by (rule good_rules good_fail | fastforce)+

lemma abi_encode_good [good_rules]:
  assumes "f \<notin> {ArrayLength, ArrayPush, ArrayPop}"
  shows "good E (abi_encode p rec cx l f args) (bound E)"
proof -
  have *: "good E (if f = AbiEncodeWithSignature then (case args of
          [] \<Rightarrow> rs_fail (diag_error l m)
        | a # args \<Rightarrow> rs_bind (rs_try (function_selector p l a)) (\<lambda>r. rs_bind (rs_opt r) (\<lambda>sel. rs_return ([sel], args))))
      else rs_return ([], args)) (\<lambda>r. \<forall>x\<in>set (fst r). bound E x)" for m
    by (rule good_rules | fastforce)+
  show ?thesis unfolding abi_encode_def
    by (rule * good_map_all good_rules | (use assms in fastforce))+
qed

lemma resolve_namespace_call_good [good_rules]: "good E (resolve_namespace_call p rec cx l namesp n args) (bound E)"
  unfolding resolve_namespace_call_def by (rule good_rules | fastforce)+

subsection \<open>Methods\<close>

lemma push_argument_good [good_rules]: "good E (push_argument rec cx a t) (bound E)"
  unfolding push_argument_def by (rule good_rules | fastforce)+

lemma storage_push_good [good_rules]: "bound E var \<Longrightarrow> good E (storage_push rec cx var l args elem reference) (some_bound E)"
  unfolding storage_push_def by (rule good_rules | fastforce)+

lemma storage_array_method_good [good_rules]:
  "bound E var \<Longrightarrow> good E (storage_array_method p rec cx var x args to t dims) (some_bound E)"
  unfolding storage_array_method_def by (rule good_opt_any good_rules | fastforce)+

lemma storage_bytes_method_good [good_rules]: "bound E var \<Longrightarrow> good E (storage_bytes_method rec cx var x args) (some_bound E)"
  unfolding storage_bytes_method_def by (rule good_rules | fastforce)+

lemma try_storage_reference_good [good_rules]:
  "bound E var \<Longrightarrow> good E (try_storage_reference p rec cx var x args to) (some_bound E)"
  unfolding try_storage_reference_def by (rule good_opt_any good_rules | fastforce)+

lemma check_call_args_good [good_rules]: "good E (check_call_args seen args) (\<lambda>_. True)"
  by (induction args arbitrary: seen) (simp add: good_return, simp, (rule good_rules | fastforce)+)

lemma resolve_call_args_good: "call_args_bound E ca \<Longrightarrow> good E (resolve_call_args rec cx args ca) (call_args_bound E)"
proof (induction args arbitrary: ca)
  case (Cons a args)
  show ?case unfolding resolve_call_args.simps
    by (rule good_rules Cons.IH | use Cons.prems in \<open>fastforce simp: call_args_bound_def\<close>)+
qed (simp add: good_return)

lemma parse_call_args_good [good_rules]: "good E (parse_call_args p rec cx args) (call_args_bound E)"
  unfolding parse_call_args_def by (rule good_rules resolve_call_args_good | simp add: call_args_bound_def)+

lemma contract_call_match_good [good_rules]:
  "call_args_bound E ca \<Longrightarrow> \<forall>x\<in>set xs. bound E x \<Longrightarrow> bound E var \<Longrightarrow> good E (contract_call_match l n ca xs var to) (bound E)"
  unfolding contract_call_match_def
  by (rule good_opt_any good_rules | assumption | (auto simp: call_args_bound_def some_bound_def dest: ns_in_function)[1])+

lemma contract_candidate_good:
  assumes "call_args_bound E ca" "bound E var"
  shows "good E (contract_candidate rec cx l args ca var to only n) (candidate_result E)"
proof -
  have *: "good E (if length (fd_params f) \<noteq> length args then rs_return ([], True, push_diag (diag_error l m) no_diagnostics)
        else evaluate_arguments rec cx xs no_diagnostics) (candidate_ok E no_diagnostics)" for f m xs
    by (rule good_rules evaluate_arguments_good | simp)+
  show ?thesis unfolding contract_candidate_def
    by (rule * good_rules assms | (auto simp: into_ok_def split: option.splits; fail)[1])+
qed

lemma contract_candidates_good:
  assumes "\<And>n. n \<in> set ns \<Longrightarrow> good E (try_one n) (candidate_result E)"
  shows "good E (contract_candidates try_one ns d) (\<lambda>(d', calls). (\<forall>c\<in>set calls. bound E (snd c)) \<and>
    (diag_failed d \<longrightarrow> diag_failed d') \<and> (ns \<noteq> [] \<longrightarrow> calls = [] \<longrightarrow> diag_failed d'))"
  using assms
proof (induction ns arbitrary: d)
  case (Cons n ns)
  show ?case unfolding contract_candidates.simps
    by (rule good_bind [OF Cons.prems] good_bind [OF Cons.IH] good_weaken [OF Cons.IH] good_rules | use Cons.prems in \<open>(auto; fail)[1]\<close>)+
qed (simp add: good_return)

lemma multiple_functions_good [good_rules]: "good E (multiple_functions l calls) Q"
  unfolding multiple_functions_def
  by (rule good_map_all [where Q = "\<lambda>_. True"] good_weaken [where Q' = "\<lambda>_. True", OF good_at] good_rules | simp)+

lemma contract_call_pos_args_good [good_rules]:
  assumes "bound E var"
  shows "good E (contract_call_pos_args p rec cx l c x var args call_args to) (some_bound E)"
proof -
  let ?finish = "\<lambda>fs (d, calls). case calls of
            [] \<Rightarrow> rs_bind (rs_extend d) (\<lambda>_. rs_bind
              (push_if (fs = []) (diag_error (id_loc x) (Format ''unknown function {}'' [AStr (id_name x)]))) (\<lambda>_. rs_err))
          | [(_, e)] \<Rightarrow> rs_return (Some e)
          | _ \<Rightarrow> rs_bind (rs_extend d) (\<lambda>_. multiple_functions l calls)"
  have e: "good E (?finish fs r) (some_bound E)"
    if "case r of (d', calls) \<Rightarrow> (\<forall>c\<in>set calls. bound E (snd c)) \<and>
      (diag_failed no_diagnostics \<longrightarrow> diag_failed d') \<and> (fs \<noteq> [] \<longrightarrow> calls = [] \<longrightarrow> diag_failed d')" for fs r
  proof -
    obtain d calls where r: "r = (d, calls)" by fastforce
    show ?thesis
    proof (cases "calls = []")
      case True
      show ?thesis unfolding r True prod.case list.case
        by (rule good_tracked, (rule tracked_rules)+) (use that r True in auto)
    next
      case False
      then show ?thesis using that unfolding r
        by (cases calls; cases "tl calls") (auto intro!: good_rules)
    qed
  qed
  have c: "good E (rs_bind (contract_candidates (contract_candidate rec cx l args ca var to (length fs = 1)) fs no_diagnostics) (?finish fs)) (some_bound E)"
    if "call_args_bound E ca" for ca fs
    by (rule good_bind [OF contract_candidates_good e], rule contract_candidate_good [OF that assms])
  show ?thesis unfolding contract_call_pos_args_def
    by (rule good_bind [OF parse_call_args_good], rule good_bind [OF good_get_ns], rule good_bind [OF good_opt],
        rule good_tracked [where F = "\<lambda>_. False"], rule tracked_bind [OF any_fails_tracked], rule tracked_if, rule tracked_err, simp)
      (rule tracked_weaken [OF tracked_good [OF c]], simp_all)
qed

lemma array_method_good [good_rules]: "bound E var \<Longrightarrow> good E (array_method rec cx l x args var vt) (some_bound E)"
  unfolding array_method_def by (rule good_opt_any good_rules | fastforce)+

lemma raw_call_argument_good [good_rules]: "good E (raw_call_argument p rec cx a) (bound E)"
  unfolding raw_call_argument_def by (rule good_opt_any good_rules | fastforce)+

lemma address_method_good [good_rules]: "bound E var \<Longrightarrow> good E (address_method p rec cx l x args call_args var) (some_bound E)"
  unfolding address_method_def by (rule good_rules | (auto simp: call_args_bound_def some_bound_def; fail)[1])+

lemma fixed_array_method_good [good_rules]: "good E (fixed_array_method x) (some_bound E)"
  unfolding fixed_array_method_def by (rule good_rules | fastforce)+

lemma try_type_method_good [good_rules]: "bound E var \<Longrightarrow> good E (try_type_method p rec cx l x args call_args var to) (some_bound E)"
  unfolding try_type_method_def by (rule good_opt_any good_rules | fastforce)+

lemma resolve_method_call_good [good_rules]: "good E (resolve_method_call rec cx var x args) (some_bound E)"
  by (simp add: resolve_method_call_def LIB_METHODS_def rs_bind_def rs_return_def)
    (rule good_return [unfolded rs_return_def], simp)

lemma library_contract_call_good [good_rules]: "good E (library_contract_call rec cx l namesp x args cal to) (some_bound E)"
  unfolding library_contract_call_def without_call_args_def by (rule good_opt_any good_rules | fastforce)+

lemma try_namespace_good [good_rules]: "good E (try_namespace p rec cx l var x args cal to) (some_bound E)"
  unfolding try_namespace_def without_call_args_def by (rule good_rules | fastforce)+

lemma or_try_good [good_rules]: "good E m (some_bound E) \<Longrightarrow> good E m2 (bound E) \<Longrightarrow> good E (or_try m m2) (bound E)"
  unfolding or_try_def by (rule good_rules | assumption | (auto; fail)[1])+

lemma method_call_pos_args_good [good_rules]: "good E (method_call_pos_args p rec cx l var x args call_args cal to) (bound E)"
  unfolding method_call_pos_args_def by (rule good_rules | fastforce)+

subsection \<open>Callable expressions\<close>

lemma extend_call_loc_good [good_rules]: "good E (extend_call_loc l bl) (\<lambda>_. True)"
  unfolding extend_call_loc_def by (cases l; simp split: loc.split) (rule good_opt_any good_rules | simp)+

lemma collect_call_args_good: "good E (collect_call_args t acc cal) (\<lambda>_. True)"
proof (induction t arbitrary: acc cal)
  case (PFunctionCallBlock l e block)
  show ?case unfolding collect_call_args.simps by (rule good_rules PFunctionCallBlock.IH | (auto; fail)[1])+
qed (simp_all add: good_return)

lemma function_call_expr_good [good_rules]: "good E (function_call_expr p rec cx l t args to) (bound E)"
  unfolding function_call_expr_def by (rule collect_call_args_good good_opt_any good_rules | (auto; fail)[1])+

lemma named_function_call_expr_good [good_rules]: "good E (named_function_call_expr rec cx l t args to) (bound E)"
  unfolding named_function_call_expr_def without_call_args_def
  by (rule collect_call_args_good good_opt_any good_rules | (auto; fail)[1])+

lemma callee_type_good [good_rules]: "good E (callee_type p rec cx t) (\<lambda>_. True)"
  unfolding callee_type_def by (rule good_rules | (auto; fail)[1])+

lemma checked_call_good [good_rules]: "good E m (bound E) \<Longrightarrow> good E (checked_call m) (bound E)"
  unfolding checked_call_def by (rule good_rules | assumption | (auto; fail)[1])+

lemma named_call_expr_good [good_rules]: "good E (named_call_expr p rec cx l t args d to) (bound E)"
  unfolding named_call_expr_def by (rule good_opt_any good_rules | (auto; fail)[1])+

lemma type_call_good [good_rules]: "good E (type_call rec cx l args to) (bound E)"
  unfolding type_call_def by (rule good_rules | (auto; fail)[1])+

lemma untyped_call_good [good_rules]: "good E (untyped_call p rec cx l t args to) (bound E)"
  unfolding untyped_call_def Let_def by (rule good_rules | (auto; fail)[1])+

lemma call_expr_good [good_rules]: "good E (call_expr p rec cx l t args to) (bound E)"
  unfolding call_expr_def Let_def by (rule good_rules | (auto; fail)[1])+

subsection \<open>Expressions\<close>

lemma expression_parts_good [good_rules]:
  "good E (not_resolved rec cx l e to) (bound E)" "good E (bitwise_not rec cx l e to) (bound E)"
  "good E (array_literal_used rec cx l es to) (bound E)" "good E (new_resolved p rec cx l e) (bound E)"
  "good E (constant_context l m) Q"
  unfolding not_resolved_def bitwise_not_def array_literal_used_def new_resolved_def constant_context_def
  by (rule good_rules | (auto; fail)[1])+

lemma conditional_good [good_rules]: "good E (conditional rec cx l c left right to) (bound E)"
  unfolding conditional_def by (rule cast_both_good good_rules | fastforce)+

lemma logical_good: "(\<And>x y. bound E x \<Longrightarrow> bound E y \<Longrightarrow> bound E (mk l x y)) \<Longrightarrow> good E (logical mk rec cx l left right) (bound E)"
  unfolding logical_def by (rule good_rules | (auto; fail)[1])+

lemma operator_good [good_rules]: "good E (operator p op rec cx l left right to) (bound E)"
  by (cases op) (simp_all add: operator_def, (rule good_rules)+)

lemma binary_good [good_rules]: "good E (binary p b rec cx l left right to) (bound E)"
  unfolding binary_def by (rule good_rules logical_good | (auto; fail)[1])+

lemma unary_op_good [good_rules]: "good E (unary_op p u rec cx l e to) (bound E)"
  unfolding unary_op_def by (rule good_rules | (auto; fail)[1])+

lemma expression_step_good: "good E (expression_step p rec cx e to) (bound E)"
  unfolding expression_step_def by (rule good_rules | (auto; fail)[1])+

end

lemma expression_good: "good_resolver (expression p k)"
proof (induction k)
  case 0
  show ?case by (rule good_resolver.intro) (simp add: good_panic)
next
  case (Suc k)
  show ?case by (rule good_resolver.intro) (simp add: good_resolver.expression_step_good [OF Suc])
qed

interpretation rx: good_resolver "resolve_expression p" for p
  by unfold_locales (simp add: resolve_expression_def good_resolver.rec [OF expression_good] del: expression.simps)

end
