(* ===== verification/Sema_Body.thy ===== *)
theory Sema_Body
  imports Sema_Good
begin

section \<open>Function bodies\<close>

text \<open>
  The resolution of statements, which declares variables and enters scopes: what the resolved statements
  refer to exists in the symbol table of the function, the scopes are left as they were found, and no
  \<open>Err\<close> is silent.
\<close>

subsection \<open>Growing environments\<close>

text \<open>Variables, constants and functions stay; their marks may change, and variables may be added.\<close>

definition extends :: "usage_state \<Rightarrow> usage_state \<Rightarrow> bool" where
  "extends s t \<longleftrightarrow>
     (\<forall>k v. map_of (vars (snd s)) k = Some v \<longrightarrow> (\<exists>w. map_of (vars (snd t)) k = Some w \<and> var_ty w = var_ty v)) \<and>
     (\<forall>c n v. constant_variable (fst s) c n = Some v \<longrightarrow>
       (\<exists>w. constant_variable (fst t) c n = Some w \<and> v_constant w = v_constant v \<and> v_ty w = v_ty v)) \<and>
     map fd_returns (ns_functions (fst t)) = map fd_returns (ns_functions (fst s))"

definition scopes_grow :: "usage_state \<Rightarrow> usage_state \<Rightarrow> bool" where
  "scopes_grow s t \<longleftrightarrow> butlast (names (snd t)) = butlast (names (snd s)) \<and> last (names (snd s)) \<subseteq>\<^sub>m last (names (snd t))"

definition body_ok :: "usage_state \<Rightarrow> bool" where
  "body_ok s \<longleftrightarrow> symtable_ok (snd s) (ns_next_id (fst s)) \<and> initialised (fst s)"

definition declared :: "usage_state \<Rightarrow> nat \<Rightarrow> sty \<Rightarrow> bool" where
  "declared s k t \<longleftrightarrow> (\<exists>v. map_of (vars (snd s)) k = Some v \<and> var_ty v = t)"

lemma env_extends_refl [simp]: "extends s s"
  by (simp add: extends_def)

lemma extendsD:
  assumes "extends s t"
  shows "map_of (vars (snd s)) k = Some v \<Longrightarrow> \<exists>w. map_of (vars (snd t)) k = Some w \<and> var_ty w = var_ty v"
    "constant_variable (fst s) c n = Some x \<Longrightarrow> \<exists>y. constant_variable (fst t) c n = Some y \<and> v_constant y = v_constant x \<and> v_ty y = v_ty x"
    "map fd_returns (ns_functions (fst t)) = map fd_returns (ns_functions (fst s))"
    "length (ns_functions (fst t)) = length (ns_functions (fst s))"
  using assms by (auto simp: extends_def dest: map_eq_imp_length_eq)

lemma env_extends_trans:
  assumes "extends s t" "extends t u"
  shows "extends s u"
proof -
  have "\<exists>w. map_of (vars (snd u)) k = Some w \<and> var_ty w = var_ty v" if "map_of (vars (snd s)) k = Some v" for k v
    using extendsD(1) [OF assms(1) that] extendsD(1) [OF assms(2)] by fastforce
  moreover have "\<exists>y. constant_variable (fst u) c n = Some y \<and> v_constant y = v_constant x \<and> v_ty y = v_ty x"
    if "constant_variable (fst s) c n = Some x" for c n x
    using extendsD(2) [OF assms(1) that] extendsD(2) [OF assms(2)] by fastforce
  ultimately show ?thesis using extendsD(3) [OF assms(1)] extendsD(3) [OF assms(2)] by (simp add: extends_def)
qed

lemma scopes_grow_refl [simp]: "scopes_grow s s"
  by (simp add: scopes_grow_def)

lemma scopes_grow_trans: "scopes_grow s t \<Longrightarrow> scopes_grow t u \<Longrightarrow> scopes_grow s u"
  unfolding scopes_grow_def by (auto intro: map_le_trans)

named_theorems extends_mono \<open>what stays true in a larger environment\<close>

lemma ref_in_extends: "ref_in s x \<Longrightarrow> extends s t \<Longrightarrow> ref_in t x"
  using extendsD(4) [of s t] unfolding extends_def by (cases x) (fastforce simp: ref_in_def)+

lemma bound_extends [extends_mono]: "bound s e \<Longrightarrow> extends s t \<Longrightarrow> bound t e"
  unfolding bound_def using ref_in_extends by blast

lemma declared_extends [extends_mono]: "declared s k ty \<Longrightarrow> extends s t \<Longrightarrow> declared t k ty"
  unfolding declared_def extends_def by blast

lemma in_env_extends:
  assumes "in_env s t"
  shows "extends s t" "scopes_grow s t"
proof -
  have m: "list_all2 contract_marked (ns_contracts (fst s)) (ns_contracts (fst t))"
    "list_all2 svariable_marked (ns_constants (fst s)) (ns_constants (fst t))"
    "list_all2 (local_marked UNIV) (vars (snd s)) (vars (snd t))"
    using marksD(1,2,3) [OF assms [unfolded in_env_def]] by (simp_all add: quiet_def)
  have c: "\<exists>w. constant_variable (fst t) c n = Some w \<and> svariable_marked v w" if "constant_variable (fst s) c n = Some v" for c n v
    using that m(1,2) by (cases c)
      (auto simp: constant_variable_def at_def contract_marked_def list_all2_conv_all_nth bind_eq_Some_conv split: if_splits)
  have l: "\<exists>w. map_of (vars (snd t)) n = Some w \<and> variable_marked v w" if "map_of (vars (snd s)) n = Some v" for n v
    using m(3) that by (induction rule: list_all2_induct) (auto simp: local_marked_def split: if_splits)
  show "extends s t" unfolding extends_def
    using in_env_rest(1) [OF assms] by (auto dest!: c l dest: marked_same)
  show "scopes_grow s t" unfolding scopes_grow_def using in_env_rest(8) [OF assms] by simp
qed

lemma in_env_body_ok:
  assumes "in_env s t" "body_ok s"
  shows "body_ok t"
proof -
  have *: "names (snd t) = names (snd s)" "ns_next_id (fst t) = ns_next_id (fst s)" using in_env_rest(7,8) [OF assms(1)] by simp_all
  have m: "list_all2 (local_marked UNIV) (vars (snd s)) (vars (snd t))"
    using marksD(3) [OF assms(1) [unfolded in_env_def]] by simp
  have same: "var_pos y = var_pos x \<and> var_id y = var_id x" if "variable_marked x y" for x y
    using that by (cases x; cases y; simp add: variable_marked_def)
  have v: "\<exists>v. map_of (vars (snd s)) k = Some v \<and> var_pos w = var_pos v \<and> var_id w = var_id v"
    if "map_of (vars (snd t)) k = Some w" for k w
    using m that by (induction rule: list_all2_induct) (auto simp: local_marked_def dest: same split: if_splits)
  have v': "\<exists>w. map_of (vars (snd t)) k = Some w \<and> var_id w = var_id v" if "map_of (vars (snd s)) k = Some v" for k v
    using m that by (induction rule: list_all2_induct) (auto simp: local_marked_def dest: same split: if_splits)
  have "names_ok (vars (snd t)) f" if "names_ok (vars (snd s)) f" for f
    using that unfolding names_ok_def by (fastforce dest: v')
  then have "symtable_ok (snd t) (ns_next_id (fst t))"
    using assms(2) unfolding body_ok_def symtable_ok_def * by (fastforce dest: v)
  then show ?thesis using assms in_env_initialised [of s "fst t" "snd t"] by (simp add: body_ok_def)
qed

lemma body_ok_env: "body_ok s \<Longrightarrow> env_ok s"
  by (auto simp: body_ok_def env_ok_def symtable_ok_def)

subsection \<open>Computations on bodies\<close>

definition reported :: "rstate \<Rightarrow> bool" where
  "reported s \<longleftrightarrow> failed s \<or> any_errors (ns_diagnostics (st_ns s))"

text \<open>The computation \<open>m\<close> in an environment that extends \<open>E\<close>; its value has \<open>Q\<close> in the environment that it leaves.\<close>

definition body :: "usage_state \<Rightarrow> 'a rs \<Rightarrow> (usage_state \<Rightarrow> 'a \<Rightarrow> bool) \<Rightarrow> bool" where
  "body E m Q \<longleftrightarrow> (\<forall>s r t. body_ok (env_of s) \<longrightarrow> extends E (env_of s) \<longrightarrow> m s = Some (r, t) \<longrightarrow>
     body_ok (env_of t) \<and> extends (env_of s) (env_of t) \<and> (reported s \<longrightarrow> reported t) \<and>
     (case r of Inl _ \<Rightarrow> reported t | Inr x \<Rightarrow> scopes_grow (env_of s) (env_of t) \<and> Q (env_of t) x))"

lemma bodyD:
  assumes "body E m Q" "body_ok (env_of s)" "extends E (env_of s)" "m s = Some (r, t)"
  shows "body_ok (env_of t)" "extends (env_of s) (env_of t)" "r = Inr x \<Longrightarrow> scopes_grow (env_of s) (env_of t)"
    "reported s \<Longrightarrow> reported t" "r = Inl u \<Longrightarrow> reported t" "r = Inr x \<Longrightarrow> Q (env_of t) x"
proof -
  have *: "body_ok (env_of t) \<and> extends (env_of s) (env_of t) \<and> (reported s \<longrightarrow> reported t) \<and>
     (case r of Inl _ \<Rightarrow> reported t | Inr x \<Rightarrow> scopes_grow (env_of s) (env_of t) \<and> Q (env_of t) x)"
    using assms unfolding body_def by blast
  then show "body_ok (env_of t)" "extends (env_of s) (env_of t)" "r = Inr x \<Longrightarrow> scopes_grow (env_of s) (env_of t)"
    "reported s \<Longrightarrow> reported t" "r = Inl u \<Longrightarrow> reported t" "r = Inr x \<Longrightarrow> Q (env_of t) x" by auto
qed

named_theorems body_rules \<open>rules for computations on bodies\<close>

lemma body_bind [body_rules]:
  assumes "body E m Q" "\<And>E' x. extends E E' \<Longrightarrow> Q E' x \<Longrightarrow> body E' (f x) R"
  shows "body E (rs_bind m f) R"
  unfolding body_def
proof (intro allI impI)
  fix s r t assume s: "body_ok (env_of s)" "extends E (env_of s)" "rs_bind m f s = Some (r, t)"
  then obtain r' u where m: "m s = Some (r', u)" by (auto simp: rs_bind_def split: option.splits prod.splits)
  note m' = bodyD [OF assms(1) s(1,2) m]
  show "body_ok (env_of t) \<and> extends (env_of s) (env_of t) \<and> (reported s \<longrightarrow> reported t) \<and>
     (case r of Inl _ \<Rightarrow> reported t | Inr x \<Rightarrow> scopes_grow (env_of s) (env_of t) \<and> R (env_of t) x)"
  proof (cases r')
    case (Inl e)
    then show ?thesis using m m' s(3) by (auto simp: rs_bind_def)
  next
    case (Inr x)
    then have f: "f x u = Some (r, t)" using m s(3) by (simp add: rs_bind_def)
    have "extends E (env_of u)" using s(2) m'(2) by (rule env_extends_trans)
    then have "body (env_of u) (f x) R" using assms(2) m'(6) Inr by blast
    note t = bodyD [OF this m'(1) env_extends_refl f]
    have "scopes_grow (env_of s) (env_of u)" using m'(3) Inr by blast
    then show ?thesis using t m' by (auto intro: env_extends_trans scopes_grow_trans split: sum.split)
  qed
qed

lemma body_weaken:
  assumes Q: "body E m Q" "\<And>E' x. extends E E' \<Longrightarrow> Q E' x \<Longrightarrow> R E' x"
  shows "body E m R"
  unfolding body_def
proof (intro allI impI)
  fix s r t assume s: "body_ok (env_of s)" "extends E (env_of s)" "m s = Some (r, t)"
  note t = bodyD [OF Q(1) s]
  have "extends E (env_of t)" using s(2) t(2) by (rule env_extends_trans)
  then show "body_ok (env_of t) \<and> extends (env_of s) (env_of t) \<and> (reported s \<longrightarrow> reported t) \<and>
     (case r of Inl _ \<Rightarrow> reported t | Inr x \<Rightarrow> scopes_grow (env_of s) (env_of t) \<and> R (env_of t) x)"
    using t Q(2) by (auto split: sum.split)
qed

lemma body_good:
  assumes "\<And>E'. extends E E' \<Longrightarrow> good E' m (Q E')" "\<And>s t x. extends s t \<Longrightarrow> Q s x \<Longrightarrow> Q t x"
  shows "body E m Q"
  unfolding body_def
proof (intro allI impI)
  fix s r t assume s: "body_ok (env_of s)" "extends E (env_of s)" "m s = Some (r, t)"
  have m: "triple (\<lambda>u. in_env (env_of s) (env_of u)) m (\<lambda>x _. Q (env_of s) x)"
    using assms(1) [OF s(2)] body_ok_env [OF s(1)] by (simp add: good_def)
  note t = tripleD [OF m in_env_refl s(3)]
  then have i: "in_env (env_of s) (env_of t)" by (simp add: grows_def)
  show "body_ok (env_of t) \<and> extends (env_of s) (env_of t) \<and> (reported s \<longrightarrow> reported t) \<and>
     (case r of Inl _ \<Rightarrow> reported t | Inr x \<Rightarrow> scopes_grow (env_of s) (env_of t) \<and> Q (env_of t) x)"
    using t i in_env_body_ok [OF i s(1)] in_env_extends [OF i] assms(2) [OF in_env_extends(1) [OF i]]
    by (auto simp: reported_def grows_def split: sum.split)
qed

lemma body_bound: "(\<And>E'. extends E E' \<Longrightarrow> good E' m (bound E')) \<Longrightarrow> body E m bound"
  by (rule body_good) (auto intro: bound_extends)

lemma body_any: "(\<And>E'. extends E E' \<Longrightarrow> good E' m (\<lambda>_. True)) \<Longrightarrow> body E m (\<lambda>_ _. True)"
  by (rule body_good) auto

lemma body_return [body_rules]: "(\<And>E'. extends E E' \<Longrightarrow> Q E' x) \<Longrightarrow> body E (rs_return x) Q"
  by (auto simp: body_def rs_return_def)

lemma body_panic [body_rules]: "body E rs_panic Q"
  by (simp add: body_def rs_panic_def)

lemma body_opt [body_rules]: "body E (rs_opt x) (\<lambda>_ y. x = Some y)"
  by (cases x) (auto simp: rs_opt_def intro: body_panic body_return)

lemma body_fail [body_rules]: "body E (rs_fail (diag_error l m)) Q"
  by (rule body_weaken [where Q = "\<lambda>_ _. False"], rule body_good, rule good_fail) simp_all

subsection \<open>Declarations and scopes\<close>

text \<open>Diagnostics of the namespace.\<close>

definition reports_only :: "namespace \<Rightarrow> namespace \<Rightarrow> bool" where
  "reports_only ns ns' \<longleftrightarrow> (\<exists>d. ns' = ns\<lparr>ns_diagnostics := d\<rparr> \<and> (any_errors (ns_diagnostics ns) \<longrightarrow> any_errors d))"

lemma reports_only_report [simp]: "reports_only ns (report d ns)"
  by (auto simp: reports_only_def report_def)

lemma reports_only_refl [simp]: "reports_only ns ns"
  by (cases ns) (auto simp: reports_only_def)

lemma reports_only_shadowing [simp]: "reports_only ns (check_shadowing fl c x ns)"
  by (auto simp: check_shadowing_def Let_def split: option.split)

lemma initialised_cong:
  assumes "ns_contracts ns' = ns_contracts ns" "ns_constants ns' = ns_constants ns" "length (ns_functions ns') = length (ns_functions ns)"
  shows "initialised ns' = initialised ns"
proof -
  have "constant_variable ns' = constant_variable ns" using assms by (intro ext) (auto simp: constant_variable_def split: option.split)
  moreover from this have "ref_in (ns', symtable_new) = ref_in (ns, symtable_new)"
    using assms by (intro ext) (simp add: ref_in_def split: expr.split)
  ultimately show ?thesis by (simp add: initialised_def bound_def)
qed

lemma reports_only_env:
  assumes "reports_only ns ns'"
  shows "body_ok (ns, st) \<Longrightarrow> body_ok (ns', st)" "extends (ns, st) (ns', st)"
proof -
  obtain d where "ns' = ns\<lparr>ns_diagnostics := d\<rparr>" using assms by (auto simp: reports_only_def)
  then show "body_ok (ns, st) \<Longrightarrow> body_ok (ns', st)" "extends (ns, st) (ns', st)"
    using initialised_cong [of ns' ns] by (auto simp: body_ok_def extends_def constant_variable_def split: option.splits)
qed

lemma body_namespace:
  assumes "\<And>ns. reports_only ns (g ns)"
  shows "body E (rs_namespace g) (\<lambda>_ _. True)"
  unfolding body_def
proof (intro allI impI)
  fix s r t assume s: "body_ok (env_of s)" "rs_namespace g s = Some (r, t)"
  obtain d where d: "g (st_ns s) = (st_ns s)\<lparr>ns_diagnostics := d\<rparr>" "any_errors (ns_diagnostics (st_ns s)) \<longrightarrow> any_errors d"
    using assms unfolding reports_only_def by blast
  show "body_ok (env_of t) \<and> extends (env_of s) (env_of t) \<and> (reported s \<longrightarrow> reported t) \<and>
     (case r of Inl _ \<Rightarrow> reported t | Inr x \<Rightarrow> scopes_grow (env_of s) (env_of t) \<and> True)"
    using s reports_only_env [OF assms [of "st_ns s"], of "st_sym s"] d
    by (auto simp: rs_namespace_def reported_def failed_def scopes_grow_def)
qed

lemma body_report [body_rules]: "body E (rs_namespace (report d)) (\<lambda>_ _. True)"
  by (rule body_namespace) simp

lemma body_fail_ns [body_rules]: "body E (rs_fail_ns (diag_error l m) :: 'a rs) Q"
  unfolding body_def
proof (intro allI impI)
  fix s t and r :: "unit + 'a" assume s: "body_ok (env_of s)" "rs_fail_ns (diag_error l m) s = Some (r, t)"
  show "body_ok (env_of t) \<and> extends (env_of s) (env_of t) \<and> (reported s \<longrightarrow> reported t) \<and>
     (case r of Inl _ \<Rightarrow> reported t | Inr x \<Rightarrow> scopes_grow (env_of s) (env_of t) \<and> Q (env_of t) x)"
    using s reports_only_env [OF reports_only_report, of "st_ns s" "st_sym s" "diag_error l m"]
    by (auto simp: rs_fail_ns_def rs_bind_def rs_namespace_def rs_err_def reported_def failed_def scopes_grow_def report_def)
qed

lemma st_add_namespace:
  assumes "st_add c st ns = Some (r, st', ns')"
  shows "ns' = ns\<lparr>ns_next_id := ns_next_id ns', ns_diagnostics := ns_diagnostics ns'\<rparr>"
  using assms by (cases ns) (auto simp: st_add_def Let_def bind_eq_Some_conv split: if_splits option.splits)

lemma extends_added:
  assumes "map_of (vars st) k = None" "map_of (vars st') = (map_of (vars st))(k \<mapsto> v)"
    "ns_contracts ns' = ns_contracts ns" "ns_constants ns' = ns_constants ns" "ns_functions ns' = ns_functions ns"
  shows "extends (ns, st) (ns', st')"
  using assms by (auto simp: extends_def constant_variable_def split: option.splits)

lemma body_add: "body E (rs_add c) (\<lambda>E r. \<forall>pos. r = Some pos \<longrightarrow> declared E pos (dc_ty c))"
  unfolding body_def
proof (intro allI impI)
  fix s r t assume s: "body_ok (env_of s)" "rs_add c s = Some (r, t)"
  then have ok: "symtable_ok (st_sym s) (ns_next_id (st_ns s))" by (simp add: body_ok_def)
  obtain r' st' ns' where a: "st_add c (st_sym s) (st_ns s) = Some (r', st', ns')" "declares c (st_sym s) (st_ns s) r' st' ns'"
    "symtable_ok st' (ns_next_id ns')" using st_add_declares [OF ok, of c] by blast
  have t: "r = Inr r'" "t = s\<lparr>st_ns := ns', st_sym := st'\<rparr>" using s(2) a(1) by (simp_all add: rs_add_def)
  obtain i d where ns': "ns' = (st_ns s)\<lparr>ns_next_id := i, ns_diagnostics := d\<rparr>" using st_add_namespace [OF a(1)] by blast
  have v: "map_of (vars st') = (map_of (vars (st_sym s)))(ns_next_id (st_ns s) \<mapsto> new_variable c (ns_next_id (st_ns s)))"
    and r: "r' = None \<or> r' = Some (ns_next_id (st_ns s))"
    and d: "d = ns_diagnostics (st_ns s) \<or> (\<exists>x. d = push_diag x (ns_diagnostics (st_ns s)))"
    using a(2) ns' by (auto simp: declares_def Let_def split: if_splits option.splits)
  have e: "extends (env_of s) (env_of t)"
    unfolding t by simp (rule extends_added [OF ok_fresh [OF ok order_refl] v], simp_all add: ns')
  have "initialised ns'" using s(1) initialised_cong [of ns' "st_ns s"] by (simp add: ns' body_ok_def)
  moreover have "scopes_grow (env_of s) (env_of t)"
    using declares_extends [OF ok a(2)] by (simp add: t scopes_grow_def table_extends_def)
  moreover have "declared (env_of t) pos (dc_ty c)" if "r' = Some pos" for pos
    using that r v by (auto simp: t declared_def new_variable_def)
  moreover have "reported s \<longrightarrow> reported t" using d by (auto simp: t reported_def failed_def ns')
  ultimately show "body_ok (env_of t) \<and> extends (env_of s) (env_of t) \<and> (reported s \<longrightarrow> reported t) \<and>
     (case r of Inl _ \<Rightarrow> reported t | Inr r \<Rightarrow> scopes_grow (env_of s) (env_of t) \<and> (\<forall>pos. r = Some pos \<longrightarrow> declared (env_of t) pos (dc_ty c)))"
    using a(3) e by (simp add: t body_ok_def)
qed

lemma body_declare [body_rules]: "body E (declare_local cx c) (\<lambda>E r. \<forall>pos. r = Some pos \<longrightarrow> declared E pos (dc_ty c))"
  unfolding declare_local_def
proof (rule body_bind [OF body_add])
  fix E' and r :: "nat option"
  assume r: "\<forall>pos. r = Some pos \<longrightarrow> declared E' pos (dc_ty c)"
  show "body E' (case r of Some pos \<Rightarrow> rs_bind (rs_namespace (check_shadowing (cx_file_no cx) (cx_contract_no cx) (dc_id c)))
      (\<lambda>_. rs_return (Some pos)) | None \<Rightarrow> rs_return None) (\<lambda>E r. \<forall>pos. r = Some pos \<longrightarrow> declared E pos (dc_ty c))"
    using r by (cases r) (auto intro!: body_return body_bind [OF body_namespace] intro: declared_extends env_extends_trans)
qed

text \<open>A scope is left as it was found.\<close>

lemma body_scope [body_rules]:
  assumes "body E m Q" "\<And>s t x. extends s t \<Longrightarrow> Q s x \<Longrightarrow> Q t x"
  shows "body E (in_scope m) Q"
  unfolding body_def
proof (intro allI impI)
  fix s r t assume s: "body_ok (env_of s)" "extends E (env_of s)" "in_scope m s = Some (r, t)"
  let ?s = "s\<lparr>st_sym := new_scope (st_sym s)\<rparr>"
  have ok: "body_ok (env_of ?s)" using s(1) by (simp add: body_ok_def new_scope_ok)
  have e: "extends (env_of s) (env_of ?s)" by (simp add: extends_def new_scope_def)
  obtain r' u where m: "m ?s = Some (r', u)" using s(3)
    by (auto simp: in_scope_def rs_bind_def rs_symtable_def split: option.splits prod.splits)
  note u = bodyD [OF assms(1) ok env_extends_trans [OF s(2) e] m]
  have su: "extends (env_of s) (env_of u)" using e u(2) by (rule env_extends_trans)
  have rep: "reported s \<longrightarrow> reported u" using u(4) by (simp add: reported_def failed_def)
  show "body_ok (env_of t) \<and> extends (env_of s) (env_of t) \<and> (reported s \<longrightarrow> reported t) \<and>
     (case r of Inl _ \<Rightarrow> reported t | Inr x \<Rightarrow> scopes_grow (env_of s) (env_of t) \<and> Q (env_of t) x)"
  proof (cases r')
    case (Inl e)
    then have "r = Inl e" "t = u" using s(3) m by (auto simp: in_scope_def rs_bind_def rs_symtable_def)
    then show ?thesis using u su rep Inl by simp
  next
    case (Inr x)
    then have t: "r = Inr x" "t = u\<lparr>st_sym := leave_scope (st_sym u)\<rparr>" using s(3) m
      by (auto simp: in_scope_def rs_bind_def rs_symtable_def rs_return_def)
    have sn: "butlast (names (st_sym u)) = names (st_sym s)" using u(3) Inr by (simp add: scopes_grow_def new_scope_def)
    have ut: "extends (env_of u) (env_of t)" by (simp add: t extends_def leave_scope_def)
    have "symtable_ok (leave_scope (st_sym u)) (ns_next_id (st_ns u))"
      using u(1) s(1) by (auto simp: body_ok_def symtable_ok_def leave_scope_def sn [symmetric] dest: in_set_butlastD)
    then have "body_ok (env_of t)" using u(1) by (simp add: body_ok_def t)
    then show ?thesis using u rep Inr su ut sn assms(2) [OF ut]
      by (auto simp: t reported_def failed_def scopes_grow_def leave_scope_def intro: env_extends_trans)
  qed
qed

subsection \<open>Expressions in statements\<close>

lemma rs_map_any: "(\<And>x. x \<in> set xs \<Longrightarrow> good E (f x) (\<lambda>_. True)) \<Longrightarrow> good E (rs_map f xs) (\<lambda>_. True)"
  by (rule good_weaken [OF good_map_all [where Q = "\<lambda>_. True"]]) simp_all

lemma list_exprs_tracked: "tracked E b (list_exprs qs) (\<lambda>_. True) (\<lambda>r. b \<or> snd r)"
proof (induction qs arbitrary: b)
  case (Cons q qs)
  obtain l x where "q = (l, x)" by fastforce
  then show ?case
    by simp (rule Cons.IH tracked_rules | (auto; fail)[1])+
qed (simp, (rule tracked_rules | simp)+)

lemma parameter_list_good [good_rules]: "good E (parameter_list_to_expr_list e) (\<lambda>_. True)"
  unfolding parameter_list_to_expr_list_def
  by (rule good_tracked, (rule list_exprs_tracked tracked_rules | (auto; fail)[1])+)

lemma return_checks_good [good_rules]:
  "good E (check_return_count l n k) (\<lambda>_. True)" "good E (function_return_types cx) (\<lambda>_. True)"
  "good E (castable i t l t') (\<lambda>_. True)" "good E (element_counts l n k) (\<lambda>_. True)"
  unfolding check_return_count_def function_return_types_def castable_def element_counts_def
  by (rule good_opt_any good_ev_any [OF cast_good] good_rules | (auto; fail)[1])+

lemma return_call_good [good_rules]: "bound E e \<Longrightarrow> good E (return_call ts l e) (bound E)"
  unfolding return_call_def by (rule good_opt_any rs_map_any good_rules | (auto; fail)[1])+

lemma assignable_good [good_rules]: "good E (assignable l e) (\<lambda>_. True)"
  unfolding assignable_def constant_name_def by (rule good_opt_any good_rules | (auto; fail)[1])+

lemma good_prod_app: "(\<And>a b. x = (a, b) \<Longrightarrow> good E (f a b y) Q) \<Longrightarrow> good E ((case x of (a, b) \<Rightarrow> f a b) y) Q"
  by (cases x) simp

lemma good_test: "good E (if b then rs_return True else rs_opt x) (\<lambda>_. True)"
  by (simp add: good_return good_opt_any)

lemma castable_fields_good [good_rules]: "good E (castable_fields fs ts) (\<lambda>_. True)"
  unfolding castable_fields_def by (rule good_opt_any rs_map_any good_prod_app good_rules | (auto; fail)[1])+

lemma check_destructured_good [good_rules]: "bound E e \<Longrightarrow> good E (check_destructured l fs e) (bound E)"
  unfolding check_destructured_def by (rule good_opt_any good_rules | (auto; fail)[1])+

lemma declared_location_good [good_rules]: "good E (declared_location st t l) (\<lambda>_. True)"
  unfolding declared_location_def by (rule good_opt_any good_rules | (auto; fail)[1])+

lemma assign_returns_good [good_rules]: "good E (rs_usage (fold_opt local_assigned xs)) (\<lambda>_. True)"
  by (rule good_usage, rule only_marks_fold) (auto intro: only_marks_local)

context good_resolver
begin

lemma resolve_var_decl_ty_good [good_rules]: "good E (resolve_var_decl_ty p rec cx ty st) (\<lambda>_. True)"
  unfolding resolve_var_decl_ty_def by (rule good_test good_opt_any good_rules | (auto; fail)[1])+

lemma return_list_good [good_rules]: "good E (return_list rec cx rs l e) (bound E)"
  unfolding return_list_def
  by (rule good_opt_any good_map_all [where Q = "bound E"] good_rules | (auto split: list.split; fail)[1])+

lemma return_with_values_good [good_rules]: "good E (return_with_values p rec cx l e) (bound E)"
proof (induction e arbitrary: l rule: measure_induct_rule [of size])
  case (less e)
  have IH: "good E (return_with_values p rec cx l' x) (bound E)" "good E (return_with_values p rec cx l' y) (bound E)"
    if "remove_parenthesis e = PConditional l c x y" for l c x y l'
    using less conditional_size [OF that] by blast+
  show ?case
    by (subst return_with_values.simps) (rule good_opt_any IH good_rules | assumption | (auto; fail)[1])+
qed

lemma destructure_list_good [good_rules]: "good E (destructure_list rec cx l ts e) (bound E)"
  unfolding destructure_list_def by (rule good_opt_any good_map_all [where Q = "bound E"] good_rules | (auto; fail)[1])+

lemma destructure_values_good [good_rules]: "good E (destructure_values p rec cx l fs e) (bound E)"
proof (induction e arbitrary: l rule: measure_induct_rule [of size])
  case (less e)
  have IH: "good E (destructure_values p rec cx l' fs x) (bound E)" "good E (destructure_values p rec cx l' fs y) (bound E)"
    if "remove_parenthesis e = PConditional l c x y" for l c x y l'
    using less conditional_size [OF that] by blast+
  show ?case
    by (subst destructure_values.simps) (rule good_opt_any IH good_rules | assumption | (auto; fail)[1])+
qed

lemma bool_condition_good [good_rules]: "good E (bool_condition rec cx c) (bound E)"
  unfolding bool_condition_def by (rule good_rules | (auto; fail)[1])+

lemma next_expression_good [good_rules]: "good E (next_expression rec cx e) (some_bound E)"
  unfolding next_expression_def by (rule good_rules | (auto; fail)[1])+

lemma checked_value_good [good_rules]: "good E m (bound E) \<Longrightarrow> good E (checked_value m) (bound E)"
  unfolding checked_value_def by (rule good_rules | assumption | (auto; fail)[1])+

end

subsection \<open>Statements\<close>

text \<open>All that a statement refers to exists, and the variables that it declares have the declared type.\<close>

definition field_bound :: "usage_state \<Rightarrow> destructure_field \<Rightarrow> bool" where
  "field_bound E f = (case f of NoField \<Rightarrow> True | FieldExpression e \<Rightarrow> bound E e | FieldDecl pos q \<Rightarrow> declared E pos (p_ty q))"

fun stmt_bound :: "usage_state \<Rightarrow> statement \<Rightarrow> bool" where
  "stmt_bound E (SBlock l ss) = (\<forall>s\<in>set ss. stmt_bound E s)"
| "stmt_bound E (SVariableDecl l pos q e) = (declared E pos (p_ty q) \<and> some_bound E e)"
| "stmt_bound E (SIf l r c ts es) = (bound E c \<and> (\<forall>s\<in>set ts. stmt_bound E s) \<and> (\<forall>s\<in>set es. stmt_bound E s))"
| "stmt_bound E (SWhile l r c ss) = (bound E c \<and> (\<forall>s\<in>set ss. stmt_bound E s))"
| "stmt_bound E (SFor l r is c n ss) =
     ((\<forall>s\<in>set is. stmt_bound E s) \<and> some_bound E c \<and> some_bound E n \<and> (\<forall>s\<in>set ss. stmt_bound E s))"
| "stmt_bound E (SDoWhile l r ss c) = ((\<forall>s\<in>set ss. stmt_bound E s) \<and> bound E c)"
| "stmt_bound E (SDelete l t e) = bound E e"
| "stmt_bound E (SDestructure l fs e) = ((\<forall>f\<in>set fs. field_bound E f) \<and> bound E e)"
| "stmt_bound E (SExpression l r e) = bound E e"
| "stmt_bound E (SContinue l) = True"
| "stmt_bound E (SBreak l) = True"
| "stmt_bound E (SReturn l e) = some_bound E e"

definition stmts_bound :: "usage_state \<Rightarrow> statement list \<Rightarrow> bool" where
  "stmts_bound E ss \<longleftrightarrow> (\<forall>s\<in>set ss. stmt_bound E s)"

lemma stmts_bound_simps [simp]:
  "stmts_bound E []" "stmts_bound E (s # ss) \<longleftrightarrow> stmt_bound E s \<and> stmts_bound E ss"
  "stmts_bound E (ss @ ts) \<longleftrightarrow> stmts_bound E ss \<and> stmts_bound E ts"
  by (auto simp: stmts_bound_def)

lemma stmt_bound_lists [simp]:
  "stmt_bound E (SBlock l ss) \<longleftrightarrow> stmts_bound E ss"
  "stmt_bound E (SIf l r c ts es) \<longleftrightarrow> bound E c \<and> stmts_bound E ts \<and> stmts_bound E es"
  "stmt_bound E (SWhile l r c ss) \<longleftrightarrow> bound E c \<and> stmts_bound E ss"
  "stmt_bound E (SFor l r is co n ss) \<longleftrightarrow> stmts_bound E is \<and> some_bound E co \<and> some_bound E n \<and> stmts_bound E ss"
  "stmt_bound E (SDoWhile l r ss c) \<longleftrightarrow> stmts_bound E ss \<and> bound E c"
  by (auto simp: stmts_bound_def)

lemma some_bound_extends [extends_mono]: "some_bound E e \<Longrightarrow> extends E E' \<Longrightarrow> some_bound E' e"
  by (auto simp: some_bound_def intro: bound_extends)

lemma field_bound_extends [extends_mono]: "field_bound E f \<Longrightarrow> extends E E' \<Longrightarrow> field_bound E' f"
  by (auto simp: field_bound_def intro: extends_mono split: destructure_field.splits)

lemma stmt_bound_extends: "stmt_bound E s \<Longrightarrow> extends E E' \<Longrightarrow> stmt_bound E' s"
  by (induction E s rule: stmt_bound.induct) (auto intro: extends_mono)

declare stmt_bound.simps(1,3-6) [simp del]

lemma stmts_bound_extends [extends_mono]: "stmts_bound E ss \<Longrightarrow> extends E E' \<Longrightarrow> stmts_bound E' ss"
  by (auto simp: stmts_bound_def intro: stmt_bound_extends)

lemma body_leaves [body_rules]:
  "body E (used e) (\<lambda>_ _. True)" "body E (assigned e) (\<lambda>_ _. True)" "body E (rs_check e) (\<lambda>_ _. True)"
  "body E (rs_usage (fold_opt local_assigned xs)) (\<lambda>_ _. True)"
  "body E (assignable l e) (\<lambda>_ _. True)" "body E (rs_push d) (\<lambda>_ _. True)"
  "bound E e \<Longrightarrow> body E (rs_cast e l t) bound" "body E (function_return_types cx) (\<lambda>_ _. True)"
  "body E (rs_get st_sym) (\<lambda>_ _. True)"
  by (rule body_any body_bound good_rules good_weaken [OF good_get_sym] | (auto intro: bound_extends; fail)[1])+

text \<open>Steps without a value that matters leave the environment that is known as it is.\<close>

lemma body_mono: "body E m Q \<Longrightarrow> extends E E' \<Longrightarrow> body E' m Q"
  unfolding body_def using env_extends_trans [of E E'] by blast

lemma body_seq: "body E m (\<lambda>_ _. True) \<Longrightarrow> (\<And>x. body E (f x) R) \<Longrightarrow> body E (rs_bind m f) R"
  by (rule body_bind) (blast intro: body_mono)+

lemma body_seq_opt: "(\<And>y. x = Some y \<Longrightarrow> body E (f y) R) \<Longrightarrow> body E (rs_bind (rs_opt x) f) R"
  by (cases x) (auto simp: rs_opt_def rs_bind_def rs_panic_def rs_return_def body_def)

lemma body_prod: "(\<And>x y. p = (x, y) \<Longrightarrow> body E (f x y) Q) \<Longrightarrow> body E (case p of (x, y) \<Rightarrow> f x y) Q"
  by (cases p) simp

lemma body_if: "(c \<Longrightarrow> body E m Q) \<Longrightarrow> (\<not> c \<Longrightarrow> body E m' Q) \<Longrightarrow> body E (if c then m else m') Q"
  by simp

lemmas body_steps = body_leaves(1-6,8,9) [THEN body_seq] body_report [THEN body_seq] body_seq_opt body_prod body_if body_namespace [THEN body_seq]

definition fields_bound :: "usage_state \<Rightarrow> (sty option \<times> destructure_field) list \<Rightarrow> bool" where
  "fields_bound E fs \<longleftrightarrow> (\<forall>f\<in>set fs. field_bound E (snd f))"

lemma fields_bound_simps [simp]: "fields_bound E []" "fields_bound E (f # fs) \<longleftrightarrow> field_bound E (snd f) \<and> fields_bound E fs"
  by (simp_all add: fields_bound_def)

lemma field_bound_simps [simp]: "field_bound E NoField" "field_bound E (FieldExpression e) \<longleftrightarrow> bound E e"
  "field_bound E (FieldDecl pos q) \<longleftrightarrow> declared E pos (p_ty q)"
  by (simp_all add: field_bound_def)

lemma fields_bound_extends [extends_mono]: "fields_bound E fs \<Longrightarrow> extends E E' \<Longrightarrow> fields_bound E' fs"
  by (auto simp: fields_bound_def intro: field_bound_extends)

definition result_bound :: "usage_state \<Rightarrow> bool \<times> statement list \<Rightarrow> bool" where
  "result_bound E r \<longleftrightarrow> stmts_bound E (snd r)"

definition resolved_bound :: "usage_state \<Rightarrow> resolved \<Rightarrow> bool" where
  "resolved_bound E r \<longleftrightarrow> stmts_bound E (fst (snd r))"

lemma resolved_bound_simp [simp]: "resolved_bound E (b, ss, ls) \<longleftrightarrow> stmts_bound E ss"
  by (simp add: resolved_bound_def)

lemma result_bound_simp [simp]: "result_bound E (b, ss) \<longleftrightarrow> stmts_bound E ss"
  by (simp add: result_bound_def)

lemma resolved_bound_extends [extends_mono]: "resolved_bound E r \<Longrightarrow> extends E E' \<Longrightarrow> resolved_bound E' r"
  by (auto simp: resolved_bound_def intro: extends_mono)

context good_resolver
begin

lemma body_resolver [body_rules]:
  "body E (rec cx e to) bound" "body E (return_with_values p rec cx l e) bound" "body E (bool_condition rec cx c) bound"
  "body E (next_expression rec cx n) some_bound" "body E (destructure_values p rec cx l fs e) bound"
  "body E (checked_value (call_expr p rec cx l t args to)) bound"
  "body E (checked_value (named_call_expr p rec cx l t nargs d to)) bound"
  by (rule body_bound good_rules body_good | (auto intro: some_bound_extends; fail)[1])+

lemma body_var_decl_ty: "body E (resolve_var_decl_ty p rec cx ty st) (\<lambda>_ _. True)"
  by (rule body_any good_rules)+

lemmas body_steps = body_steps body_var_decl_ty [THEN body_seq]

lemma variable_definition_body [body_rules]: "body E (variable_definition_statement p rec cx l d init) stmts_bound"
proof -
  have *: "body E (case init of None \<Rightarrow> rs_return None
      | Some e \<Rightarrow> rs_bind (rec cx e (ToType t)) (\<lambda>x. rs_bind (rs_check x) (\<lambda>_. rs_bind (used x) (\<lambda>_.
          rs_bind (rs_cast x (expr_loc x) t) (\<lambda>x. rs_return (Some x)))))) some_bound" for E t
    by (cases init; simp) (rule body_steps body_rules | assumption | (auto intro: extends_mono; fail)[1])+
  show ?thesis unfolding variable_definition_statement_def
    by (rule body_steps * body_rules | (auto simp: decl_of_def declared_parameter_def intro: extends_mono env_extends_trans split: option.split; fail)[1])+
qed

lemma return_statement_body [body_rules]: "body E (return_statement p rec cx l e) stmts_bound"
  unfolding return_statement_def
  by (cases e; simp only: option.case) (rule body_steps body_rules | (auto intro: extends_mono; fail)[1])+

lemma delete_statement_body [body_rules]: "body E (delete_statement rec cx l e) stmts_bound"
  unfolding delete_statement_def
  by (rule body_steps body_rules sty.split [where P = "\<lambda>m. body E m Q" for E Q, THEN iffD2] allI impI conjI | (auto intro: extends_mono; fail)[1])+

lemma body_map:
  assumes "\<And>E' x. extends E E' \<Longrightarrow> x \<in> set xs \<Longrightarrow> body E' (f x) Q" "\<And>s t x. extends s t \<Longrightarrow> Q s x \<Longrightarrow> Q t x"
  shows "body E (rs_map f xs) (\<lambda>E ys. \<forall>y\<in>set ys. Q E y)"
  using assms(1)
proof (induction xs arbitrary: E)
  case (Cons x xs)
  show ?case unfolding rs_map.simps
  proof (rule body_bind)
    show "body E (f x) Q" using Cons.prems by simp
    fix E1 y assume "extends E E1" "Q E1 y"
    then show "body E1 (rs_bind (rs_map f xs) (\<lambda>ys. rs_return (y # ys))) (\<lambda>E ys. \<forall>y\<in>set ys. Q E y)"
      using Cons.prems assms(2)
      by (intro body_bind [OF Cons.IH] body_return) (auto intro: env_extends_trans)
  qed
qed (simp add: body_return)

lemma destructure_field_body: "body E (destructure_field_of p rec cx q) fields_bound"
proof -
  have *: "body E (rs_bind (declare_local cx (decl_of x t None DestructureVariable None)) (\<lambda>r. rs_return (case r of
              Some pos \<Rightarrow> [(Some t, FieldDecl pos (declared_parameter l x t))] | None \<Rightarrow> []))) fields_bound" for E x t l
    by (rule body_steps body_rules | (auto simp: decl_of_def declared_parameter_def intro: extends_mono split: option.split; fail)[1])+
  show ?thesis unfolding destructure_field_of_def
    by (cases q; simp split: option.split)
      (rule * body_steps body_rules conjI allI impI | (auto intro: extends_mono env_extends_trans; fail)[1])+
qed

lemma destructure_body: "body E (destructure p rec cx l lefts e) stmt_bound"
proof -
  have *: "body E (rs_map (\<lambda>(_, q). destructure_field_of p rec c q) lefts) (\<lambda>E fss. \<forall>fs\<in>set fss. fields_bound E fs)" for c E
    by (rule body_map) (auto intro: destructure_field_body extends_mono)
  have f: "\<forall>f\<in>snd ` set (concat fss). field_bound E' f"
    if "\<forall>fs\<in>set fss. fields_bound E fs" "extends E E'" for E E' fss
    using that by (auto simp: fields_bound_def intro: field_bound_extends)
  show ?thesis unfolding destructure_def Let_def
  proof (rule body_bind [OF *], rule body_bind [OF body_resolver(5)], rule body_return)
    fix E1 fss E2 x E3
    assume "\<forall>fs\<in>set fss. fields_bound E1 fs" "extends E1 E2" "bound E2 x" "extends E2 E3"
    then show "stmt_bound E3 (SDestructure l (map snd (concat fss)) x)"
      using f [of fss E1 E3] by (auto intro: env_extends_trans bound_extends)
  qed
qed

lemma value_statement_body: "bound E x \<Longrightarrow> body E (value_statement l x) result_bound"
  unfolding value_statement_def Let_def
  by (rule body_steps body_rules | (auto simp: result_bound_def intro: extends_mono; fail)[1])+

lemma expression_statement_body: "body E (expression_statement p rec cx l e) result_bound"
proof -
  have v: "body E (rs_bind m (value_statement l)) result_bound" if "body E m bound" for m
    by (rule body_bind [OF that value_statement_body])
  have d: "body E (rs_bind (delete_statement rec cx l e') (\<lambda>ss. rs_return (True, ss))) result_bound" for e'
    by (rule body_bind [OF delete_statement_body body_return]) (auto simp: result_bound_def intro: extends_mono)
  have s: "body E (rs_bind (destructure p rec cx l lefts e') (\<lambda>s. rs_return (True, [s]))) result_bound" for lefts e'
    by (rule body_bind [OF destructure_body body_return]) (auto simp: result_bound_def intro: stmt_bound_extends)
  show ?thesis unfolding expression_statement_def Let_def
    by (auto intro!: v d s body_resolver split: pexpr.split p_unary.split p_binary.split)
qed

lemma leave_loop_body:
  "resolved_bound E r \<Longrightarrow> body E (leave_loop r) (\<lambda>E x. stmts_bound E (fst (snd x)))"
  unfolding leave_loop_def
  by (rule body_prod body_seq_opt body_return | (auto simp: resolved_bound_def intro: extends_mono; fail)[1])+

lemma check_reached_body: "body E (check_reached a b l) (\<lambda>_ _. True)"
  unfolding check_reached_def by (rule body_if body_report body_return TrueI)+

lemma resolve_block_body:
  "(\<And>s ls E. s \<in> set ss \<Longrightarrow> body E (resolve_statement p rec cx s ls) resolved_bound) \<Longrightarrow>
   body E (resolve_block p rec cx ss a b ls) resolved_bound"
proof (induction ss arbitrary: E a b ls)
  case (Cons s ss)
  show ?case unfolding resolve_block.simps
  proof (rule body_seq [OF check_reached_body], rule body_bind)
    show "body E (resolve_statement p rec cx s ls) resolved_bound" using Cons.prems by simp
    fix E1 x assume x: "extends E E1" "resolved_bound E1 x"
    obtain r ts ls' where x': "x = (r, ts, ls')" by (cases x) auto
    have b: "body E1 (resolve_block p rec cx ss c d ls'') resolved_bound" for c d ls''
      by (rule Cons.IH) (use Cons.prems in simp)
    show "body E1 (case x of (r, ts, ls) \<Rightarrow>
        rs_bind (resolve_block p rec cx ss r (b \<or> \<not> a) ls) (\<lambda>(r, us, ls). rs_return (r, ts @ us, ls))) resolved_bound"
      using x(2) unfolding x' prod.case
      by (intro body_bind [OF b] body_prod body_return) (auto intro: extends_mono env_extends_trans)
  qed
qed (simp add: body_return)

lemma resolve_optional_body:
  "(\<And>s ls E. q = Some s \<Longrightarrow> body E (resolve_statement p rec cx s ls) resolved_bound) \<Longrightarrow>
   body E (resolve_optional p rec cx q ls) resolved_bound"
  by (cases q) (simp_all add: body_return)

lemma in_scope_body: "body E m resolved_bound \<Longrightarrow> body E (in_scope m) resolved_bound"
  by (rule body_scope) (auto intro: extends_mono)

text \<open>A loop with a condition and a body.\<close>

lemma loop_body_bound:
  assumes "\<And>E. body E m resolved_bound" "bound E c" "\<And>E' b ss k ls. bound E' c \<Longrightarrow> stmts_bound E' ss \<Longrightarrow> resolved_bound E' (f (b, ss, k, ls))"
  shows "body E (rs_bind (in_scope m) (\<lambda>r. rs_bind (leave_loop r) (\<lambda>x. rs_return (f x)))) resolved_bound"
proof (rule body_bind [OF in_scope_body [OF assms(1)]], rule body_bind [OF leave_loop_body], assumption, rule body_return)
  fix E1 E2 E3 and x :: "bool \<times> statement list \<times> loop_scope \<times> loop_scope list"
  assume "extends E E1" "extends E1 E2" "extends E2 E3" "stmts_bound E2 (fst (snd x))"
  then show "resolved_bound E3 (f x)" using assms(3) [of E3 "fst (snd x)" "fst x" "fst (snd (snd x))" "snd (snd (snd x))"] assms(2)
    by (auto intro: extends_mono env_extends_trans)
qed

lemma resolve_statement_body: "body E (resolve_statement p rec cx s ls) resolved_bound"
proof (induction s arbitrary: E ls rule: measure_induct_rule [of "size_pstatement (\<lambda>_. 0)"])
  case (less s)
  show ?case
  proof (cases s)
    case (PSBlock l ss)
    have "body E (resolve_block p rec cx ss True False ls) resolved_bound" for E
      by (rule resolve_block_body, rule less) (auto simp: PSBlock less_Suc_eq_le intro: size_list_estimation')
    then show ?thesis unfolding PSBlock resolve_statement.simps
      by (intro body_bind [OF in_scope_body]) (auto intro!: body_return intro: extends_mono)
  next
    case (PSIf l c th el)
    have t: "body E (resolve_statement p rec cx th ls) resolved_bound" for E ls
      by (rule less) (simp add: PSIf)
    have e: "body E (if el = None then rs_return (True, [], ls) else in_scope (resolve_optional p rec cx el ls)) resolved_bound" for E ls
      by (rule body_if body_return in_scope_body resolve_optional_body less | (simp add: PSIf; fail))+
    show ?thesis unfolding PSIf resolve_statement.simps
      by (rule body_bind [OF body_resolver(3)], rule body_bind [OF in_scope_body [OF t]], rule body_prod, rule body_prod,
          rule body_bind [OF e], rule body_prod, rule body_prod, rule body_return)
        (auto intro: extends_mono env_extends_trans)
  next
    case (PSWhile l c b)
    have b: "body E (resolve_statement p rec cx b ls) resolved_bound" for E ls by (rule less) (simp add: PSWhile)
    show ?thesis unfolding PSWhile resolve_statement.simps
      by (rule body_bind [OF body_resolver(3)], simp only: split_def, rule loop_body_bound [OF b]) auto
  next
    case (PSDoWhile l b c)
    have b: "body E (resolve_statement p rec cx b ls) resolved_bound" for E ls by (rule less) (simp add: PSDoWhile)
    show ?thesis unfolding PSDoWhile resolve_statement.simps
      by (rule body_bind [OF body_resolver(3)], simp only: split_def, rule loop_body_bound [OF b]) auto
  next
    case (PSFor l init c nx b)
    have i: "body E (resolve_optional p rec cx init ls) resolved_bound" "body E (resolve_optional p rec cx b ls) resolved_bound" for E ls
      by (rule resolve_optional_body, rule less, simp add: PSFor)+
    let ?Q = "\<lambda>E (is, n, ss, k :: loop_scope, ls :: loop_scope list). stmts_bound E is \<and> some_bound E n \<and> stmts_bound E ss"
    let ?R = "\<lambda>E (is, x, n, ss, ls :: loop_scope list). stmts_bound E is \<and> bound E x \<and> some_bound E n \<and> stmts_bound E ss"
    show ?thesis
    proof (cases c)
      case None
      let ?m = "rs_bind (resolve_optional p rec cx init ls) (\<lambda>(_, is, ls).
        rs_bind (resolve_optional p rec cx b (loop_new_scope ls)) (\<lambda>r. rs_bind (leave_loop r) (\<lambda>(_, ss, control, ls).
        rs_bind (next_expression rec cx nx) (\<lambda>n. rs_return (is, n, ss, control, ls)))))"
      have m: "body E ?m ?Q" for E
        by (rule body_bind [OF i(1)] body_bind [OF i(2)] body_bind [OF leave_loop_body] body_bind [OF body_resolver(4)]
            body_prod body_return | assumption | (auto intro: extends_mono env_extends_trans; fail)[1])+
      have "body E (in_scope ?m) ?Q" by (rule body_scope [OF m]) (auto intro: extends_mono)
      then show ?thesis unfolding PSFor None resolve_statement.simps
        by (rule body_bind) (auto intro!: body_return intro: extends_mono env_extends_trans)
    next
      case (Some e)
      let ?m = "rs_bind (resolve_optional p rec cx init ls) (\<lambda>(_, is, ls).
        rs_bind (rec cx e (ToType TBool)) (\<lambda>x. rs_bind (rs_loc e) (\<lambda>cl. rs_bind (rs_cast x cl TBool) (\<lambda>x.
        rs_bind (resolve_optional p rec cx b (loop_new_scope ls)) (\<lambda>r. rs_bind (leave_loop r) (\<lambda>(b, ss, control, ls).
        rs_bind (next_expression rec cx (if b \<or> no_continues control > 0 then nx else None)) (\<lambda>n.
        rs_return (is, x, n, ss, ls))))))))"
      have m: "body E ?m ?R" for E
        by (rule body_bind [OF i(1)] body_bind [OF i(2)] body_bind [OF leave_loop_body] body_bind [OF body_resolver(4)]
            body_bind [OF body_resolver(1)] body_seq_opt body_bind [OF body_leaves(7)]
            body_prod body_return | assumption | (auto intro: extends_mono env_extends_trans; fail)[1])+
      have "body E (in_scope ?m) ?R" by (rule body_scope [OF m]) (auto intro: extends_mono)
      then show ?thesis unfolding PSFor Some resolve_statement.simps
        by (rule body_bind) (auto intro!: body_return intro: extends_mono env_extends_trans)
    qed
  next
    case (PSExpression l e)
    show ?thesis unfolding PSExpression resolve_statement.simps
      by (rule body_bind [OF expression_statement_body], rule body_prod, rule body_return) (auto intro: extends_mono)
  next
    case (PSVariableDefinition l d init)
    show ?thesis unfolding PSVariableDefinition resolve_statement.simps
      by (rule body_bind [OF variable_definition_body], rule body_return) (auto intro: extends_mono)
  next
    case (PSReturn l e)
    show ?thesis unfolding PSReturn resolve_statement.simps
      by (rule body_bind [OF return_statement_body], rule body_return) (auto intro: extends_mono)
  qed (auto simp: do_break_def do_continue_def intro!: body_rules split: list.split)
qed

end

subsection \<open>Functions\<close>

lemma body_symtable:
  assumes "\<And>st. vars (g st) = vars st \<and> names (g st) = names st"
  shows "body E (rs_symtable g) (\<lambda>_ _. True)"
  using assms by (auto simp: body_def rs_symtable_def body_ok_def symtable_ok_def extends_def scopes_grow_def reported_def failed_def)

lemma push_position_body:
  "body E (push_argument_position pos) (\<lambda>_ _. True)" "body E (push_return_position k) (\<lambda>_ _. True)"
  unfolding push_argument_position_def push_return_position_def by (rule body_symtable, simp)+

lemma body_any_value: "body E m Q \<Longrightarrow> body E m (\<lambda>_ _. True)"
  by (rule body_weaken) simp_all

lemma body_option: "(x = None \<Longrightarrow> body E m Q) \<Longrightarrow> (\<And>y. x = Some y \<Longrightarrow> body E (f y) Q) \<Longrightarrow>
    body E (case x of None \<Rightarrow> m | Some y \<Rightarrow> f y) Q"
  by (cases x) simp_all

lemmas position_steps = push_position_body [THEN body_seq] body_declare [THEN body_any_value, THEN body_seq]
  body_add [THEN body_any_value, THEN body_seq] body_seq_opt

lemma add_parameters_body: "body E (add_parameters cx qs ps) (\<lambda>_ _. True)"
proof (induction qs arbitrary: ps E)
  case (Cons q qs)
  obtain l x where q: "q = (l, x)" by fastforce
  have "body E (case pa_name x of
        None \<Rightarrow> push_argument_position None
      | Some x \<Rightarrow> rs_bind (rs_opt (hd_opt ps)) (\<lambda>d.
          rs_bind (declare_local cx (decl_of x (p_ty d) None Parameter None)) (\<lambda>r. case r of
            Some pos \<Rightarrow> push_argument_position (Some pos)
          | None \<Rightarrow> rs_return ()))) (\<lambda>_ _. True)" for x E
    by (rule position_steps body_option push_position_body body_return TrueI)+
  note step = this [THEN body_seq]
  show ?case unfolding q add_parameters.simps
    by (rule body_seq_opt, rule step, rule Cons.IH)
qed (simp add: body_return)

lemma add_returns_body: "body E (add_returns cx qs ps required) (\<lambda>_ _. True)"
proof (induction qs arbitrary: ps required E)
  case (Cons q qs)
  obtain l x where q: "q = (l, x)" by fastforce
  have *: "body E (case r of Some pos \<Rightarrow> push_return_position pos | None \<Rightarrow> rs_return ()) (\<lambda>_ _. True)" for r E
    by (rule body_option push_position_body body_return TrueI)+
  have "body E (case pa_name x of
        Some x \<Rightarrow>
          rs_bind (declare_local cx (decl_of x (p_ty d) None ReturnVariable None)) (\<lambda>r.
          rs_bind (case r of Some pos \<Rightarrow> push_return_position pos | None \<Rightarrow> rs_return ()) (\<lambda>_. rs_return False))
      | None \<Rightarrow>
          rs_bind (rs_add (decl_of \<lparr>id_loc = l, id_name = []\<rparr> (p_ty d) None AnonymousReturnVariable None)) (\<lambda>r.
          rs_bind (rs_opt r) (\<lambda>pos. rs_bind (push_return_position pos) (\<lambda>_.
            rs_return (required \<or> is_contract_storage (p_ty d)))))) (\<lambda>_ _. True)" for x d E
    by (rule position_steps * [THEN body_seq] body_option push_position_body body_return TrueI)+
  note step = this [THEN body_seq]
  show ?case unfolding q add_returns.simps
    by (rule body_seq_opt, rule body_seq_opt, rule step, rule Cons.IH)
qed (simp add: body_return)

definition code_bound :: "usage_state \<Rightarrow> (bool \<times> bool \<times> statement list) option \<Rightarrow> bool" where
  "code_bound E r \<longleftrightarrow> (\<forall>a b ss. r = Some (a, b, ss) \<longrightarrow> stmts_bound E ss)"

lemma function_body_body: "body E (function_body p cx d f) code_bound"
  unfolding function_body_def
  by (rule body_seq [OF add_parameters_body] body_seq [OF add_returns_body] body_bind [OF rx.resolve_statement_body]
      body_option body_prod body_return | (auto simp: code_bound_def intro: extends_mono; fail)[1])+

lemma fold_report: "fold report xs ns = ns\<lparr>ns_diagnostics := fold push_diag xs (ns_diagnostics ns)\<rparr>"
  by (induction xs arbitrary: ns) (simp_all add: report_def)

lemma missing_errors: "missing_return_errors f \<noteq> [] \<Longrightarrow> any_errors (fold push_diag (missing_return_errors f) d)"
  by (cases "missing_return_errors f") (auto simp: missing_return_errors_def intro!: any_errors_fold)

lemma resolve_function_body_run:
  assumes "initialised ns"
    and "resolve_function_body p d fl c n ns = Some (ok, ns')"
  obtains f cx r s where "function_body p cx d f \<lparr>st_ns = ns, st_sym = symtable_new, st_diags = no_diagnostics\<rparr> = Some (r, s)"
    "Sema_AST.at (ns_functions ns) n = Some f"
    "body_ok (env_of s)" "map fd_returns (ns_functions (st_ns s)) = map fd_returns (ns_functions ns)"
    "case r of Inl _ \<Rightarrow> reported s | Inr x \<Rightarrow> length (names (st_sym s)) = 1 \<and> code_bound (env_of s) x"
    "ok = (\<exists>x. r = Inr x)"
    "ok = False \<Longrightarrow> ns' = (st_ns s)\<lparr>ns_diagnostics := extend_diags (ns_diagnostics (st_ns s)) (st_diags s)\<rparr>"
    "\<And>a b ss. r = Inr (Some (a, b, ss)) \<Longrightarrow> \<exists>f ds. Sema_AST.at (ns_functions (st_ns s)) n = Some f \<and>
       ns' = (st_ns s)\<lparr>ns_diagnostics := ds, ns_functions := (ns_functions (st_ns s))[n := f\<lparr>fd_body := ss, fd_symtable := st_sym s\<rparr>]\<rparr> \<and>
       (a \<and> b \<and> missing_return_errors f \<noteq> [] \<longrightarrow> any_errors ds)"
proof -
  let ?s = "\<lparr>st_ns = ns, st_sym = symtable_new, st_diags = no_diagnostics\<rparr>"
  let ?cx = "\<lparr>cx_file_no = fl, cx_contract_no = c, cx_function_no = Some n, cx_constant = False, cx_lvalue = False\<rparr>"
  obtain f where at: "Sema_AST.at (ns_functions ns) n = Some f"
    using assms(2) by (auto simp: resolve_function_body_def bind_eq_Some_conv simp del: at_Some)
  obtain r s where f: "function_body p ?cx d f ?s = Some (r, s)"
    using assms(2) at by (cases "function_body p ?cx d f ?s") (auto simp: resolve_function_body_def Let_def)
  have e: "(case r of
        Inl _ \<Rightarrow> Some (False, (st_ns s)\<lparr>ns_diagnostics := extend_diags (ns_diagnostics (st_ns s)) (st_diags s)\<rparr>)
      | Inr None \<Rightarrow> Some (True, (st_ns s)\<lparr>ns_diagnostics := extend_diags (ns_diagnostics (st_ns s)) (st_diags s)\<rparr>)
      | Inr (Some (reached, required, ss)) \<Rightarrow> do {
          f \<leftarrow> Sema_AST.at (ns_functions (st_ns s)) n;
          ns \<leftarrow> store_body n ss (st_sym s) (if reached \<and> required then fold report (missing_return_errors f)
            ((st_ns s)\<lparr>ns_diagnostics := extend_diags (ns_diagnostics (st_ns s)) (st_diags s)\<rparr>)
            else (st_ns s)\<lparr>ns_diagnostics := extend_diags (ns_diagnostics (st_ns s)) (st_diags s)\<rparr>);
          Some (True, ns) }) = Some (ok, ns')"
    using assms(2) at f by (simp add: resolve_function_body_def Let_def cong: sum.case_cong option.case_cong prod.case_cong)
  have ok: "body_ok (env_of ?s)" using assms(1) by (simp add: body_ok_def symtable_new_ok)
  note b = bodyD [OF function_body_body ok env_extends_refl f]
  show ?thesis
  proof (rule that [OF f at])
    show "body_ok (env_of s)" by (rule b)
    show "map fd_returns (ns_functions (st_ns s)) = map fd_returns (ns_functions ns)" using extendsD(3) [OF b(2)] by simp
    have "names (st_sym s) \<noteq> []" using b(1) by (simp add: body_ok_def symtable_ok_def)
    moreover have "butlast (names (st_sym s)) = []" if "r = Inr x" for x
      using b(3) [OF that] by (simp add: scopes_grow_def symtable_new_def)
    ultimately show "case r of Inl _ \<Rightarrow> reported s | Inr x \<Rightarrow> length (names (st_sym s)) = 1 \<and> code_bound (env_of s) x"
      using b(5,6) by (cases r; cases "names (st_sym s)") (auto split: if_splits)
    show "ok = (\<exists>x. r = Inr x)" using e by (auto simp: bind_eq_Some_conv split: sum.splits option.splits)
    show "ns' = (st_ns s)\<lparr>ns_diagnostics := extend_diags (ns_diagnostics (st_ns s)) (st_diags s)\<rparr>" if "ok = False"
      using e that by (auto simp: bind_eq_Some_conv split: sum.splits option.splits)
    show "\<exists>f ds. Sema_AST.at (ns_functions (st_ns s)) n = Some f \<and>
       ns' = (st_ns s)\<lparr>ns_diagnostics := ds, ns_functions := (ns_functions (st_ns s))[n := f\<lparr>fd_body := ss, fd_symtable := st_sym s\<rparr>]\<rparr> \<and>
       (a \<and> b \<and> missing_return_errors f \<noteq> [] \<longrightarrow> any_errors ds)"
      if "r = Inr (Some (a, b, ss))" for a b ss
      using e that by (cases "st_ns s") (auto simp: bind_eq_Some_conv store_body_def fold_report missing_errors split: if_splits)
  qed
qed

end
