(* ===== verification/Sema_Sound.thy ===== *)
theory Sema_Sound
  imports Sema_Body
begin

section \<open>What the resolution guarantees\<close>

text \<open>
  The properties of the resolution of expressions and of function bodies, from the calculi of
  \<open>Sema_Frame\<close> and \<open>Sema_Body\<close>, and small programs that satisfy their hypotheses.
\<close>

subsection \<open>Small programs\<close>

definition number_parts :: resolver_parts where
  "number_parts = \<lparr>rp_bigint = (\<lambda>_ s. if s = ''1'' then Some 1 else None), rp_keccak = (\<lambda>_. []), rp_rank = (\<lambda>_ _. 0), rp_fuel = 5\<rparr>"

definition local_state :: rstate where
  "local_state = \<lparr>st_ns = empty_namespace\<lparr>ns_next_id := 8\<rparr>,
     st_sym = \<lparr>vars = [(7, new_variable \<lparr>dc_id = \<lparr>id_loc = Implicit, id_name = ''x''\<rparr>, dc_ty = TUint 32,
       dc_initializer = Ola None, dc_usage = LocalVariable, dc_location = None\<rparr> 7)],
     names = [[''x'' \<mapsto> 7]], arguments = [], st_returns = []\<rparr>, st_diags = no_diagnostics\<rparr>"

definition plain_context :: expr_context where
  "plain_context = \<lparr>cx_file_no = 0, cx_contract_no = None, cx_function_no = Some 0, cx_constant = False, cx_lvalue = False\<rparr>"

definition u32_parameter :: "string option \<Rightarrow> parameter" where
  "u32_parameter n = \<lparr>p_loc = Implicit, p_name = n, p_ty = TUint 32, p_infinite_size = False, p_recursive = False\<rparr>"

definition one_function :: namespace where
  "one_function = empty_namespace\<lparr>ns_functions := [\<lparr>fd_name = ''f'', fd_loc = Implicit, fd_contract = None, fd_signature = ''f'',
     fd_params = [u32_parameter (Some ''a'')], fd_returns = [u32_parameter None], fd_has_body = True, fd_body = [],
     fd_symtable = symtable_new\<rparr>]\<rparr>"

abbreviation "name_of n \<equiv> \<lparr>id_loc = Implicit, id_name = n\<rparr>"
abbreviation "u32_type \<equiv> PType Implicit (PTUint 32)"

definition function_of :: "pexpr pstatement list \<Rightarrow> function_definition" where
  "function_of ss = \<lparr>ff_loc = Implicit, ff_name = Some (name_of ''f''),
     ff_params = [(Implicit, Some (PParameter Implicit u32_type (Some (name_of ''a''))))],
     ff_returns = [(Implicit, Some (PParameter Implicit u32_type None))],
     ff_body = Some (PSBlock Implicit ss)\<rparr>"

subsection \<open>Properties\<close>

lemma bound_refs_ok: "bound s e \<Longrightarrow> refs_ok s e"
proof -
  have "ref_ok s x" if "ref_in s x" for x
    using that by (cases x)
      (auto simp: ref_in_def ref_ok_def constant_variable_def at_def bind_eq_Some_conv split: if_splits option.splits
        intro: rev_image_eqI dest: map_of_SomeD)
  then show "bound s e \<Longrightarrow> refs_ok s e" by (simp add: bound_def refs_ok_def)
qed

lemma resolve_expression_triple:
  "env_ok (env_of s) \<Longrightarrow> triple (\<lambda>u. in_env (env_of s) (env_of u)) (resolve_expression p cx e to) (\<lambda>x _. bound (env_of s) x)"
  using rx.rec [of "env_of s" p cx e to] by (simp add: good_def)



text \<open>
  C15: after a function body is resolved, every variable, constant and function that a statement of it
  refers to exists in its symbol table and in the namespace, with the type the statement gives it, the
  table is well-formed, and all scopes but the outermost one have been left.
\<close>

theorem resolve_function_body_bound:
  assumes "initialised ns" "resolve_function_body p d fl c n ns = Some (True, ns')" "ff_body d \<noteq> None"
  shows "\<exists>f. Sema_AST.at (ns_functions ns') n = Some f \<and> (\<forall>s\<in>set (fd_body f). stmt_bound (ns', fd_symtable f) s) \<and>
    symtable_ok (fd_symtable f) (ns_next_id ns') \<and> length (names (fd_symtable f)) = 1"
  using assms(1,2)
proof (rule resolve_function_body_run)
  fix f cx r s
  assume r: "function_body p cx d f \<lparr>st_ns = ns, st_sym = symtable_new, st_diags = no_diagnostics\<rparr> = Some (r, s)"
    and ok: "body_ok (env_of s)"
    and v: "case r of Inl _ \<Rightarrow> reported s | Inr x \<Rightarrow> length (names (st_sym s)) = 1 \<and> code_bound (env_of s) x"
    and res: "True = (\<exists>x. r = Inr x)"
    and st: "\<And>a b ss. r = Inr (Some (a, b, ss)) \<Longrightarrow> \<exists>f ds. Sema_AST.at (ns_functions (st_ns s)) n = Some f \<and>
       ns' = (st_ns s)\<lparr>ns_diagnostics := ds, ns_functions := (ns_functions (st_ns s))[n := f\<lparr>fd_body := ss, fd_symtable := st_sym s\<rparr>]\<rparr> \<and>
       (a \<and> b \<and> missing_return_errors f \<noteq> [] \<longrightarrow> any_errors ds)"
  obtain x where x: "r = Inr x" using res by blast
  have "x \<noteq> None"
    using r assms(3) unfolding x function_body_def
    by (auto simp: rs_bind_def rs_return_def split: option.splits sum.splits prod.splits)
  then obtain a b ss where "r = Inr (Some (a, b, ss))" using x by (cases x) auto
  with st obtain f ds where f: "Sema_AST.at (ns_functions (st_ns s)) n = Some f"
    and ns': "ns' = (st_ns s)\<lparr>ns_diagnostics := ds, ns_functions := (ns_functions (st_ns s))[n := f\<lparr>fd_body := ss, fd_symtable := st_sym s\<rparr>]\<rparr>"
    and v': "length (names (st_sym s)) = 1" "stmts_bound (env_of s) ss" using v by (auto simp: code_bound_def)
  have "extends (env_of s) (ns', st_sym s)"
    using f by (auto simp: extends_def ns' constant_variable_def map_update at_def list_update_same_conv split: option.splits if_splits)
  then have "\<forall>s'\<in>set ss. stmt_bound (ns', st_sym s) s'" using v'(2) stmt_bound_extends by (auto simp: stmts_bound_def)
  then show ?thesis using f v' ok by (auto simp: ns' body_ok_def)
qed


subsection \<open>The properties on the small programs\<close>

lemma local_state_ok: "env_ok (st_ns local_state, st_sym local_state)"
  by (auto simp: env_ok_def local_state_def initialised_def constant_variable_def empty_namespace_def at_def split: option.splits if_splits)

lemma one_function_initialised: "initialised one_function"
  by (auto simp: initialised_def one_function_def constant_variable_def empty_namespace_def at_def split: option.splits)



theorem resolve_function_body_bound_witness:
  "\<exists>ns' f. resolve_function_body number_parts (function_of
     [PSVariableDefinition Implicit (VariableDeclaration Implicit u32_type None (Some (name_of ''y'')))
        (Some (PBinary (POperator Add) Implicit (PVariable (name_of ''a'')) (PNumber Implicit ''1''))),
      PSWhile Implicit (PBool Implicit True) (PSBlock Implicit [PSBreak Implicit]),
      PSReturn Implicit (Some (PVariable (name_of ''y'')))]) 0 None 0 one_function = Some (True, ns') \<and>
    Sema_AST.at (ns_functions ns') 0 = Some f \<and> (\<forall>s\<in>set (fd_body f). stmt_bound (ns', fd_symtable f) s)"
proof -
  let ?r = "resolve_function_body number_parts (function_of
     [PSVariableDefinition Implicit (VariableDeclaration Implicit u32_type None (Some (name_of ''y'')))
        (Some (PBinary (POperator Add) Implicit (PVariable (name_of ''a'')) (PNumber Implicit ''1''))),
      PSWhile Implicit (PBool Implicit True) (PSBlock Implicit [PSBreak Implicit]),
      PSReturn Implicit (Some (PVariable (name_of ''y'')))]) 0 None 0 one_function"
  have "case ?r of Some (True, _) \<Rightarrow> True | _ \<Rightarrow> False" by code_simp
  then obtain ns' where "?r = Some (True, ns')" by (auto split: option.splits bool.splits)
  with resolve_function_body_bound [OF one_function_initialised this] show ?thesis by (auto simp: function_of_def)
qed


end
