(* ===== verification/Sema_Reach.thy ===== *)
theory Sema_Reach
  imports Sema_Sound
begin

section \<open>Reachability\<close>

text \<open>
  The resolver computes whether the end of a statement is reached, and counts the jumps out of the loops.
  Here both are compared with the paths through the resolved statements, on which a condition may have
  either value and a call of type \<open>unreachable\<close> does not return.
\<close>

subsection \<open>Paths\<close>

datatype exit = Ends | Breaks | Continues | Returns

text \<open>
  \<open>loops c ss x\<close>: a loop over \<open>ss\<close> is left with \<open>x\<close>; \<open>c\<close> says whether it has a condition.
\<close>

inductive runs :: "statement \<Rightarrow> exit \<Rightarrow> bool"
  and runs_all :: "statement list \<Rightarrow> exit \<Rightarrow> bool"
  and loops :: "bool \<Rightarrow> statement list \<Rightarrow> exit \<Rightarrow> bool" where
  run_block: "runs_all ss x \<Longrightarrow> runs (SBlock l ss) x"
| run_decl: "runs (SVariableDecl l pos q e) Ends"
| run_then: "runs_all ts x \<Longrightarrow> runs (SIf l r c ts es) x"
| run_else: "runs_all es x \<Longrightarrow> runs (SIf l r c ts es) x"
| run_while: "loops True ss x \<Longrightarrow> runs (SWhile l r c ss) x"
| run_for_init: "runs_all is x \<Longrightarrow> x \<noteq> Ends \<Longrightarrow> runs (SFor l r is c n ss) x"
| run_for: "runs_all is Ends \<Longrightarrow> loops (c \<noteq> None) ss x \<Longrightarrow> runs (SFor l r is c n ss) x"
| run_do_break: "runs_all ss Breaks \<Longrightarrow> runs (SDoWhile l r ss c) Ends"
| run_do_return: "runs_all ss Returns \<Longrightarrow> runs (SDoWhile l r ss c) Returns"
| run_do_loop: "runs_all ss x \<Longrightarrow> x = Ends \<or> x = Continues \<Longrightarrow> loops True ss y \<Longrightarrow> runs (SDoWhile l r ss c) y"
| run_delete: "runs (SDelete l t e) Ends"
| run_destructure: "runs (SDestructure l fs e) Ends"
| run_expression: "expr_tys e \<noteq> Some [TUnreachable] \<Longrightarrow> runs (SExpression l r e) Ends"
| run_continue: "runs (SContinue l) Continues"
| run_break: "runs (SBreak l) Breaks"
| run_return: "runs (SReturn l e) Returns"
| run_nil: "runs_all [] Ends"
| run_cons: "runs s Ends \<Longrightarrow> runs_all ss x \<Longrightarrow> runs_all (s # ss) x"
| run_exit: "runs s x \<Longrightarrow> x \<noteq> Ends \<Longrightarrow> runs_all (s # ss) x"
| loop_stop: "c \<Longrightarrow> loops c ss Ends"
| loop_break: "runs_all ss Breaks \<Longrightarrow> loops c ss Ends"
| loop_return: "runs_all ss Returns \<Longrightarrow> loops c ss Returns"
| loop_next: "runs_all ss x \<Longrightarrow> x = Ends \<or> x = Continues \<Longrightarrow> loops c ss y \<Longrightarrow> loops c ss y"

inductive_simps runs_simps [simp]:
  "runs (SBlock l ss) x" "runs (SVariableDecl l pos q e) x" "runs (SIf l r c ts es) x" "runs (SWhile l r c ss) x"
  "runs (SFor l r is co n ss) x" "runs (SDoWhile l r ss c) x" "runs (SDelete l t e) x" "runs (SDestructure l fs e) x"
  "runs (SExpression l r e) x" "runs (SContinue l) x" "runs (SBreak l) x" "runs (SReturn l e) x"

inductive_simps runs_all_simps [simp]: "runs_all [] x" "runs_all (s # ss) x"

lemma runs_append: "runs_all (ss @ ts) x \<longleftrightarrow> (runs_all ss Ends \<and> runs_all ts x) \<or> (x \<noteq> Ends \<and> runs_all ss x)"
  by (induction ss) auto

lemma loops_exit: "loops c ss x \<Longrightarrow> x = Ends \<and> (c \<or> runs_all ss Breaks) \<or> x = Returns \<and> runs_all ss Returns"
  by (induction rule: runs_runs_all_loops.inducts(3) [where ?P1.0 = "\<lambda>_ _. True" and ?P2.0 = "\<lambda>_ _. True"]) auto

subsection \<open>What the resolver promises\<close>

definition breaks :: "loop_scope list \<Rightarrow> nat" where
  "breaks ls = (case ls of [] \<Rightarrow> 0 | l # _ \<Rightarrow> no_breaks l)"

definition continues :: "loop_scope list \<Rightarrow> nat" where
  "continues ls = (case ls of [] \<Rightarrow> 0 | l # _ \<Rightarrow> no_continues l)"

text \<open>Only the counters of the innermost loop grow.\<close>

definition counted :: "loop_scope list \<Rightarrow> loop_scope list \<Rightarrow> bool" where
  "counted ls ls' \<longleftrightarrow> (ls' = [] \<longleftrightarrow> ls = []) \<and> tl ls' = tl ls \<and> breaks ls \<le> breaks ls' \<and> continues ls \<le> continues ls'"

text \<open>The flags that the statements record for the code generator are those of their paths.\<close>

fun flags_ok :: "statement \<Rightarrow> bool" where
  "flags_ok (SBlock l ss) = (\<forall>s\<in>set ss. flags_ok s)"
| "flags_ok (SIf l r c ts es) = ((runs (SIf l r c ts es) Ends \<longrightarrow> r) \<and> (\<forall>s\<in>set ts. flags_ok s) \<and> (\<forall>s\<in>set es. flags_ok s))"
| "flags_ok (SWhile l r c ss) = (r \<and> (\<forall>s\<in>set ss. flags_ok s))"
| "flags_ok (SFor l r is c n ss) =
     ((runs (SFor l r is c n ss) Ends \<longrightarrow> r) \<and> (\<forall>s\<in>set is. flags_ok s) \<and> (\<forall>s\<in>set ss. flags_ok s))"
| "flags_ok (SDoWhile l r ss c) = (r \<and> (\<forall>s\<in>set ss. flags_ok s))"
| "flags_ok (SExpression l r e) = (r \<longleftrightarrow> runs (SExpression l r e) Ends)"
| "flags_ok s = True"

definition path_ok :: "loop_scope list \<Rightarrow> resolved \<Rightarrow> bool" where
  "path_ok ls res \<longleftrightarrow> (case res of (r, ss, ls') \<Rightarrow> counted ls ls' \<and>
     (runs_all ss Ends \<longrightarrow> r) \<and>
     (runs_all ss Breaks \<longrightarrow> ls \<noteq> [] \<and> breaks ls < breaks ls') \<and>
     (runs_all ss Continues \<longrightarrow> ls \<noteq> [] \<and> continues ls < continues ls') \<and>
     (\<forall>s\<in>set ss. flags_ok s))"

lemma path_ok_simp [simp]: "path_ok ls (r, ss, ls') \<longleftrightarrow> counted ls ls' \<and>
     (runs_all ss Ends \<longrightarrow> r) \<and>
     (runs_all ss Breaks \<longrightarrow> ls \<noteq> [] \<and> breaks ls < breaks ls') \<and>
     (runs_all ss Continues \<longrightarrow> ls \<noteq> [] \<and> continues ls < continues ls') \<and>
     (\<forall>s\<in>set ss. flags_ok s)"
  by (simp add: path_ok_def)

lemma counted_refl [simp]: "counted ls ls"
  by (simp add: counted_def)

lemma counted_trans: "counted ls ls' \<Longrightarrow> counted ls' ls'' \<Longrightarrow> counted ls ls''"
  by (auto simp: counted_def)

text \<open>The scope of a loop, when it is left, has counted the jumps of its body.\<close>

lemma counted_loop:
  assumes "counted (loop_new_scope ls) ls'"
  obtains k where "loop_leave_scope ls' = Some (k, ls)" "breaks ls' = no_breaks k" "continues ls' = no_continues k"
  using assms by (cases ls') (auto simp: counted_def loop_new_scope_def loop_leave_scope_def breaks_def continues_def)

subsection \<open>Statements\<close>

lemma returns_prod: "(\<And>x y. p = (x, y) \<Longrightarrow> returns (f x y) P) \<Longrightarrow> returns (case p of (x, y) \<Rightarrow> f x y) P"
  by (cases p) simp

lemma returns_err: "returns rs_err P"
  by (simp add: returns_def rs_err_def)

lemma returns_fail_ns: "returns (rs_fail_ns d) P"
  unfolding rs_fail_ns_def by (rule returns_seq, rule returns_err)

lemma returns_if: "returns m P \<Longrightarrow> returns n P \<Longrightarrow> returns (if c then m else n) P"
  by simp

lemma returns_scope: "returns m P \<Longrightarrow> returns (in_scope m) P"
  unfolding in_scope_def by (rule returns_seq, erule returns_bind, rule returns_seq, erule returns_return)

text \<open>Statements that do not jump.\<close>

definition plain :: "statement list \<Rightarrow> bool" where
  "plain ss \<longleftrightarrow> \<not> runs_all ss Breaks \<and> \<not> runs_all ss Continues \<and> (\<forall>s\<in>set ss. flags_ok s)"

lemma returns_variable_definition: "returns (variable_definition_statement p rec cx l d init) plain"
  unfolding variable_definition_statement_def
  by (rule returns_seq returns_prod returns_return)+ (auto simp: plain_def split: option.splits)

lemma returns_return_statement: "returns (return_statement p rec cx l e) (\<lambda>ss. \<not> runs_all ss Ends \<and> plain ss)"
  unfolding return_statement_def
  by (cases e) (auto simp: plain_def intro!: returns_seq returns_return returns_fail_ns returns_if)

definition plain_result :: "bool \<times> statement list \<Rightarrow> bool" where
  "plain_result res \<longleftrightarrow> (case res of (r, ss) \<Rightarrow> (runs_all ss Ends \<longrightarrow> r) \<and> plain ss)"

lemma returns_delete: "returns (rs_bind (delete_statement rec cx l e) (\<lambda>ss. rs_return (True, ss))) plain_result"
proof -
  have "returns (delete_statement rec cx l e) plain"
    unfolding delete_statement_def
    by (rule returns_seq)+ (auto simp: plain_def intro!: returns_return returns_fail_ns split: sty.split)
  then show ?thesis by (rule returns_bind) (auto simp: plain_result_def intro: returns_return)
qed

lemma returns_destructure: "returns (rs_bind (destructure p rec cx l fs e) (\<lambda>s. rs_return (True, [s]))) plain_result"
proof -
  have "returns (destructure p rec cx l fs e) (\<lambda>s. plain [s])"
    unfolding destructure_def Let_def
    by (rule returns_seq)+ (auto simp: plain_def intro!: returns_return)
  then show ?thesis by (rule returns_bind) (auto simp: plain_result_def intro: returns_return)
qed

lemma returns_value: "returns (value_statement l x) plain_result"
  unfolding value_statement_def Let_def
  by (rule returns_bind [OF returns_opt [where P = "\<lambda>ts. expr_tys x = Some ts"]])
    (auto simp: plain_def plain_result_def intro!: returns_return)

lemma returns_expression_statement: "returns (expression_statement p rec cx l e) plain_result"
  unfolding expression_statement_def Let_def
  by (auto intro: returns_delete returns_destructure returns_seq returns_value
      split: pexpr.split p_unary.split p_binary.split)

text \<open>The body of a loop.\<close>

definition loop_ok :: "loop_scope list \<Rightarrow> bool \<times> statement list \<times> loop_scope \<times> loop_scope list \<Rightarrow> bool" where
  "loop_ok ls res \<longleftrightarrow> (case res of (r, ss, k, ls') \<Rightarrow> ls' = ls \<and> (runs_all ss Ends \<longrightarrow> r) \<and>
     (runs_all ss Breaks \<longrightarrow> no_breaks k > 0) \<and> (runs_all ss Continues \<longrightarrow> no_continues k > 0) \<and> (\<forall>s\<in>set ss. flags_ok s))"

lemma returns_leave_loop:
  assumes "path_ok (loop_new_scope ls) x"
  shows "returns (leave_loop x) (loop_ok ls)"
proof -
  obtain r ss ls' where x: "x = (r, ss, ls')" by (cases x) auto
  with assms obtain k where "loop_leave_scope ls' = Some (k, ls)" "breaks ls' = no_breaks k" "continues ls' = no_continues k"
    by (auto elim: counted_loop)
  then show ?thesis
    using assms unfolding x leave_loop_def
    by (auto simp: loop_ok_def rs_bind_def rs_opt_def returns_def rs_return_def breaks_def continues_def loop_new_scope_def)
qed

lemma path_ok_append:
  "path_ok ls (r, ts, ls') \<Longrightarrow> path_ok ls' (r \<longrightarrow> r', us, ls'') \<Longrightarrow>
    path_ok ls (b \<longrightarrow> r', ts @ us, ls'')"
  by (auto simp: runs_append counted_def)

lemma returns_block:
  "(\<And>s ls. s \<in> set ss \<Longrightarrow> returns (resolve_statement p rec cx s ls) (path_ok ls)) \<Longrightarrow>
   returns (resolve_block p rec cx ss a b ls) (\<lambda>(r, us, ls'). path_ok ls (a \<longrightarrow> r, us, ls'))"
proof (induction ss arbitrary: a b ls)
  case (Cons s ss)
  show ?case unfolding resolve_block.simps
  proof (rule returns_seq, rule returns_bind [OF Cons.prems])
    fix x assume "path_ok ls x"
    moreover obtain r ts ls' where x: "x = (r, ts, ls')" by (cases x) auto
    ultimately have "path_ok ls (r, ts, ls')" by simp
    then show "returns (case x of (r, ts, ls) \<Rightarrow>
        rs_bind (resolve_block p rec cx ss r (b \<or> \<not> a) ls) (\<lambda>(r, us, ls). rs_return (r, ts @ us, ls)))
        (\<lambda>(r, us, ls'). path_ok ls (a \<longrightarrow> r, us, ls'))"
      unfolding x prod.case
      by (intro returns_bind [OF Cons.IH] returns_prod returns_return)
        (use Cons.prems in \<open>auto simp del: path_ok_simp intro: path_ok_append\<close>)
  qed simp
qed (simp add: returns_return)

lemma returns_optional:
  "(\<And>s. q = Some s \<Longrightarrow> returns (resolve_statement p rec cx s ls) (path_ok ls)) \<Longrightarrow>
   returns (resolve_optional p rec cx q ls) (path_ok ls)"
  by (cases q) (simp_all add: returns_return)

lemma returns_statement: "returns (resolve_statement p rec cx s ls) (path_ok ls)"
proof (induction s arbitrary: ls rule: measure_induct_rule [of "size_pstatement (\<lambda>_. 0)"])
  case (less s)
  show ?case
  proof (cases s)
    case (PSBlock l ss)
    have "returns (resolve_block p rec cx ss True False ls) (\<lambda>(r, us, ls'). path_ok ls (True \<longrightarrow> r, us, ls'))"
      by (rule returns_block, rule less) (auto simp: PSBlock less_Suc_eq_le intro: size_list_estimation')
    then show ?thesis unfolding PSBlock resolve_statement.simps
      by (rule returns_bind [OF returns_scope]) (auto intro!: returns_return)
  next
    case (PSIf l c th el)
    have t: "returns (resolve_statement p rec cx th ls) (path_ok ls)" for ls
      by (rule less) (simp add: PSIf)
    have e: "returns (if el = None then rs_return (True, [], ls) else in_scope (resolve_optional p rec cx el ls)) (path_ok ls)" for ls
      by (rule returns_if returns_return returns_scope returns_optional less | (simp add: PSIf; fail))+
    show ?thesis unfolding PSIf resolve_statement.simps
      by (rule returns_seq, rule returns_bind [OF returns_scope [OF t]], rule returns_prod, rule returns_prod,
          rule returns_bind [OF e], rule returns_prod, rule returns_prod, rule returns_return)
        (auto simp: counted_def)
  next
    case (PSWhile l c b)
    have b: "returns (resolve_statement p rec cx b ls) (path_ok ls)" for ls by (rule less) (simp add: PSWhile)
    show ?thesis unfolding PSWhile resolve_statement.simps
      by (rule returns_seq, rule returns_bind [OF returns_scope [OF b]], erule returns_bind [OF returns_leave_loop],
          (rule returns_prod)+, rule returns_return)
        (auto simp: loop_ok_def dest: loops_exit)
  next
    case (PSDoWhile l b c)
    have b: "returns (resolve_statement p rec cx b ls) (path_ok ls)" for ls by (rule less) (simp add: PSDoWhile)
    show ?thesis unfolding PSDoWhile resolve_statement.simps
      by (rule returns_seq, rule returns_bind [OF returns_scope [OF b]], erule returns_bind [OF returns_leave_loop],
          (rule returns_prod)+, rule returns_return)
        (auto simp: loop_ok_def dest: loops_exit)
  next
    case (PSFor l init c nx b)
    have i: "returns (resolve_optional p rec cx init ls) (path_ok ls)" "returns (resolve_optional p rec cx b ls) (path_ok ls)" for ls
      by (rule returns_optional, rule less, simp add: PSFor)+
    show ?thesis
    proof (cases c)
      case None
      let ?Q = "\<lambda>(is, n, ss, k, ls'). path_ok ls (True, is, ls') \<and> loop_ok ls' (True, ss, k, ls')"
      show ?thesis unfolding PSFor None resolve_statement.simps
        by (rule returns_bind [OF returns_scope [where P = ?Q]], rule returns_bind [OF i(1)], (rule returns_prod)+,
            rule returns_bind [OF i(2)], erule returns_bind [OF returns_leave_loop], (rule returns_prod)+, rule returns_seq,
            rule returns_return, simp_all add: loop_ok_def)
          (auto intro!: returns_return dest: loops_exit)
    next
      case (Some e)
      let ?Q = "\<lambda>(is, x, n, ss, ls'). path_ok ls (True, is, ls') \<and> (\<forall>s\<in>set ss. flags_ok s)"
      show ?thesis unfolding PSFor Some resolve_statement.simps
        by (rule returns_bind [OF returns_scope [where P = ?Q]], rule returns_bind [OF i(1)], (rule returns_prod)+,
            rule returns_seq, rule returns_seq, rule returns_seq,
            rule returns_bind [OF i(2)], erule returns_bind [OF returns_leave_loop], (rule returns_prod)+, rule returns_seq,
            rule returns_return, simp_all add: loop_ok_def)
          (auto intro!: returns_return dest: loops_exit)
    qed
  next
    case (PSExpression l e)
    show ?thesis unfolding PSExpression resolve_statement.simps
      by (rule returns_bind [OF returns_expression_statement], rule returns_prod, rule returns_return)
        (auto simp: plain_result_def plain_def)
  next
    case (PSVariableDefinition l d init)
    show ?thesis unfolding PSVariableDefinition resolve_statement.simps
      by (rule returns_bind [OF returns_variable_definition], rule returns_return) (auto simp: plain_def)
  next
    case (PSReturn l e)
    show ?thesis unfolding PSReturn resolve_statement.simps
      by (rule returns_bind [OF returns_return_statement], rule returns_return) (auto simp: plain_def)
  qed (auto simp: do_break_def do_continue_def breaks_def continues_def counted_def
      intro!: returns_return returns_fail returns_fail_ns returns_panic split: list.split)
qed

subsection \<open>Function bodies\<close>

text \<open>No returned value has a name, and one of them has to be given, as it is a reference to storage.\<close>

definition must_return :: "function_definition \<Rightarrow> function_decl \<Rightarrow> bool" where
  "must_return d f \<longleftrightarrow> length (fd_returns f) = length (ff_returns d) \<and> (\<forall>(l, q)\<in>set (ff_returns d). \<forall>x. q = Some x \<longrightarrow> pa_name x = None) \<and>
     (\<exists>q\<in>set (fd_returns f). p_name q = None \<and> is_contract_storage (p_ty q))"

lemma returns_add_returns:
  "\<forall>(l, q)\<in>set qs. \<forall>x. q = Some x \<longrightarrow> pa_name x = None \<Longrightarrow> length ps = length qs \<Longrightarrow>
   returns (add_returns cx qs ps b) (\<lambda>r. r \<longleftrightarrow> b \<or> (\<exists>q\<in>set ps. is_contract_storage (p_ty q)))"
proof (induction qs arbitrary: ps b)
  case Nil
  then show ?case by (auto intro: returns_return)
next
  case (Cons q qs)
  obtain l x d ps' where q: "q = (l, x)" "ps = d # ps'" using Cons.prems(2) by (cases q; cases ps) auto
  have x: "pa_name y = None" if "x = Some y" for y using Cons.prems(1) q that by auto
  have *: "returns (rs_bind (rs_return (b \<or> is_contract_storage (p_ty d))) (\<lambda>b. add_returns cx qs ps' b))
    (\<lambda>r. r \<longleftrightarrow> b \<or> (\<exists>q\<in>set ps. is_contract_storage (p_ty q)))"
    using Cons.IH [of ps' "b \<or> is_contract_storage (p_ty d)"] Cons.prems q by (auto simp: rs_bind_def rs_return_def returns_def)
  have "returns (rs_bind (rs_bind m (\<lambda>r. rs_bind (rs_opt r) (\<lambda>pos. rs_bind (push_return_position pos) (\<lambda>_.
      rs_return (b \<or> is_contract_storage (p_ty d)))))) (\<lambda>b. add_returns cx qs ps' b))
    (\<lambda>r. r \<longleftrightarrow> b \<or> (\<exists>q\<in>set ps. is_contract_storage (p_ty q)))" for m
    by (rule returns_bind [where Q = "\<lambda>r. r = (b \<or> is_contract_storage (p_ty d))"], (rule returns_seq)+, rule returns_return, rule refl)
      (use * in \<open>simp add: rs_bind_def rs_return_def\<close>)
  then show ?case unfolding q add_returns.simps
    by (intro returns_bind [OF returns_opt [where P = "\<lambda>y. hd_opt (d # ps') = Some y"]]
        returns_bind [OF returns_opt [where P = "\<lambda>y. x = Some y"]]) (auto dest: x)
qed

definition code_paths :: "function_definition \<Rightarrow> function_decl \<Rightarrow> (bool \<times> bool \<times> statement list) option \<Rightarrow> bool" where
  "code_paths d f r \<longleftrightarrow> (\<forall>a b ss. r = Some (a, b, ss) \<longrightarrow> plain ss \<and> (runs_all ss Ends \<longrightarrow> a) \<and> (must_return d f \<longrightarrow> b))"

lemma returns_function_body: "returns (function_body p cx d f) (code_paths d f)"
proof -
  have r: "returns (add_returns cx (ff_returns d) (fd_returns f) False) (\<lambda>b. must_return d f \<longrightarrow> b)"
  proof (cases "must_return d f")
    case True
    then have "returns (add_returns cx (ff_returns d) (fd_returns f) False)
        (\<lambda>r. r \<longleftrightarrow> False \<or> (\<exists>q\<in>set (fd_returns f). is_contract_storage (p_ty q)))"
      by (intro returns_add_returns) (auto simp: must_return_def)
    then show ?thesis using True by (auto simp: returns_def must_return_def)
  qed (simp add: returns_any)
  show ?thesis unfolding function_body_def
    by (rule returns_seq, rule returns_bind [OF r])
      (auto simp: code_paths_def plain_def split: option.split
        intro!: returns_return returns_bind [OF returns_statement] returns_prod)
qed

text \<open>
  C19: the end of a statement is reported as unreachable only when no path through the statements that it is
  resolved to ends; a path leaves them with a jump only inside a loop, whose counter of these jumps has grown,
  while the counters of the loops further out have not; the flags recorded in them hold for their paths.
\<close>

theorem resolve_statement_paths:
  assumes "resolve_statement p rec cx s ls st = Some (Inr (r, ss, ls'), st')"
  shows "(runs_all ss Ends \<longrightarrow> r) \<and> (\<forall>s\<in>set ss. flags_ok s) \<and>
    (runs_all ss Breaks \<longrightarrow> ls \<noteq> [] \<and> no_breaks (hd ls) < no_breaks (hd ls')) \<and>
    (runs_all ss Continues \<longrightarrow> ls \<noteq> [] \<and> no_continues (hd ls) < no_continues (hd ls')) \<and> tl ls' = tl ls"
proof -
  have "path_ok ls (r, ss, ls')" using returns_statement [of p rec cx s ls] assms unfolding returns_def by blast
  then show ?thesis by (cases ls; cases ls') (auto simp: counted_def breaks_def continues_def)
qed

text \<open>
  C18: no path leaves the body of a function with \<open>break\<close> or \<open>continue\<close>; when no error was reported, and
  the returned values have no names, and one of them is a reference to storage, every path that leaves the
  body returns.
\<close>

theorem resolve_function_body_paths:
  assumes "initialised ns" "resolve_function_body p d fl c n ns = Some (True, ns')" "ff_body d \<noteq> None"
  shows "\<exists>f. Sema_AST.at (ns_functions ns') n = Some f \<and>
    \<not> runs_all (fd_body f) Breaks \<and> \<not> runs_all (fd_body f) Continues \<and> (\<forall>s\<in>set (fd_body f). flags_ok s) \<and>
    (must_return d f \<and> \<not> any_errors (ns_diagnostics ns') \<longrightarrow> \<not> runs_all (fd_body f) Ends)"
  using assms(1,2)
proof (rule resolve_function_body_run)
  fix f cx r s
  assume r: "function_body p cx d f \<lparr>st_ns = ns, st_sym = symtable_new, st_diags = no_diagnostics\<rparr> = Some (r, s)"
    and at: "Sema_AST.at (ns_functions ns) n = Some f"
    and fs: "map fd_returns (ns_functions (st_ns s)) = map fd_returns (ns_functions ns)"
    and res: "True = (\<exists>x. r = Inr x)"
    and st: "\<And>a b ss. r = Inr (Some (a, b, ss)) \<Longrightarrow> \<exists>f ds. Sema_AST.at (ns_functions (st_ns s)) n = Some f \<and>
       ns' = (st_ns s)\<lparr>ns_diagnostics := ds, ns_functions := (ns_functions (st_ns s))[n := f\<lparr>fd_body := ss, fd_symtable := st_sym s\<rparr>]\<rparr> \<and>
       (a \<and> b \<and> missing_return_errors f \<noteq> [] \<longrightarrow> any_errors ds)"
  obtain x where x: "r = Inr x" using res by blast
  have "x \<noteq> None"
    using r assms(3) unfolding x function_body_def
    by (auto simp: rs_bind_def rs_return_def split: option.splits sum.splits prod.splits)
  then obtain a b ss where abs: "r = Inr (Some (a, b, ss))" using x by (cases x) auto
  with st obtain g ds where g: "Sema_AST.at (ns_functions (st_ns s)) n = Some g"
    and ns': "ns' = (st_ns s)\<lparr>ns_diagnostics := ds, ns_functions := (ns_functions (st_ns s))[n := g\<lparr>fd_body := ss, fd_symtable := st_sym s\<rparr>]\<rparr>"
    and ds: "a \<and> b \<and> missing_return_errors g \<noteq> [] \<longrightarrow> any_errors ds" by blast
  have same: "fd_returns g = fd_returns f"
    using arg_cong [OF fs, of "\<lambda>xs. xs ! n"] arg_cong [OF fs, of length] at g by (auto simp: at_def split: if_splits)
  have c: "code_paths d f (Some (a, b, ss))"
    using returns_function_body [of p cx d f] r unfolding abs returns_def by blast
  have "missing_return_errors g \<noteq> []" if "must_return d f"
    using that same by (auto simp: must_return_def missing_return_errors_def filter_empty_conv)
  then show ?thesis using c g ds same
    by (auto simp: code_paths_def plain_def ns' must_return_def)
qed

subsection \<open>The properties on small programs\<close>

theorem resolve_statement_paths_witness:
  "\<exists>ss ls' t. resolve_statement number_parts (resolve_expression number_parts) plain_context
      (PSFor Implicit None None None (Some (PSBlock Implicit [PSIf Implicit (PBool Implicit True) (PSContinue Implicit) None])))
      [] local_state = Some (Inr (False, ss, ls'), t) \<and> \<not> runs_all ss Ends \<and> \<not> runs_all ss Continues"
proof -
  let ?r = "resolve_statement number_parts (resolve_expression number_parts) plain_context
      (PSFor Implicit None None None (Some (PSBlock Implicit [PSIf Implicit (PBool Implicit True) (PSContinue Implicit) None])))
      [] local_state"
  have "case ?r of Some (Inr (False, _, _), _) \<Rightarrow> True | _ \<Rightarrow> False" by code_simp
  then obtain ss ls' t where "?r = Some (Inr (False, ss, ls'), t)"
    by (auto split: option.splits sum.splits prod.splits bool.splits)
  with resolve_statement_paths [OF this] show ?thesis by blast
qed

text \<open>A function that returns its argument, a reference to an array in storage.\<close>

definition storage_parameter :: "string option \<Rightarrow> parameter" where
  "storage_parameter n = (u32_parameter n)\<lparr>p_ty := TStorageRef (TArray (TUint 32) [Dynamic])\<rparr>"

definition storage_function :: namespace where
  "storage_function = one_function\<lparr>ns_functions :=
     map (\<lambda>f. f\<lparr>fd_params := [storage_parameter (Some ''a'')], fd_returns := [storage_parameter None]\<rparr>) (ns_functions one_function)\<rparr>"

lemma storage_function_initialised: "initialised storage_function"
  by (auto simp: initialised_def storage_function_def one_function_def constant_variable_def empty_namespace_def at_def split: option.splits)

theorem resolve_function_body_paths_witness:
  "\<exists>ns' f. resolve_function_body number_parts (function_of
     [PSIf Implicit (PBool Implicit True) (PSReturn Implicit (Some (PVariable (name_of ''a''))))
        (Some (PSReturn Implicit (Some (PVariable (name_of ''a'')))))]) 0 None 0 storage_function = Some (True, ns') \<and>
    Sema_AST.at (ns_functions ns') 0 = Some f \<and> \<not> runs_all (fd_body f) Ends"
proof -
  let ?d = "function_of
     [PSIf Implicit (PBool Implicit True) (PSReturn Implicit (Some (PVariable (name_of ''a''))))
        (Some (PSReturn Implicit (Some (PVariable (name_of ''a'')))))]"
  let ?r = "resolve_function_body number_parts ?d 0 None 0 storage_function"
  have "case ?r of Some (True, ns') \<Rightarrow> \<not> any_errors (ns_diagnostics ns') \<and>
      map (map p_ty \<circ> fd_returns) (ns_functions ns') = [[TStorageRef (TArray (TUint 32) [Dynamic])]] \<and>
      map (map p_name \<circ> fd_returns) (ns_functions ns') = [[None]] | _ \<Rightarrow> False" by code_simp
  then obtain ns' where r: "?r = Some (True, ns')" and e: "\<not> any_errors (ns_diagnostics ns')"
    and t: "map (map p_ty \<circ> fd_returns) (ns_functions ns') = [[TStorageRef (TArray (TUint 32) [Dynamic])]]"
      "map (map p_name \<circ> fd_returns) (ns_functions ns') = [[None]]"
    by (auto split: option.splits bool.splits)
  have "ff_body ?d \<noteq> None" by (simp add: function_of_def)
  from resolve_function_body_paths [OF storage_function_initialised r this] obtain f
    where f: "Sema_AST.at (ns_functions ns') 0 = Some f" "must_return ?d f \<longrightarrow> \<not> runs_all (fd_body f) Ends" using e by blast
  have "must_return ?d f" using t f(1)
    by (auto simp: must_return_def function_of_def at_def map_eq_Cons_conv is_contract_storage_def split: if_splits)
  with r f show ?thesis by blast
qed

end
