(* ===== verification/Spec2Isabelle.thy ===== *)
theory Spec2Isabelle
  imports Liveness_Theorems Reg_Alloc_Correct Eliminate_Phi Pro_Epi Sema_Layout Sema_Reach
begin

text \<open>
  Verification library for the Ola compiler.  All paths are relative to the repository root; the front
  end is the crate under \<open>src/src/sema\<close> with the parser's data types in \<open>src/ola-parser/src\<close>, the code
  generator is \<open>src/src/codegen\<close>.

  \<^bold>\<open>The program.\<close>  The parser builds a parse tree.  The semantic analysis resolves it, contract by
  contract, into typed expressions and statements that refer to entries of a namespace (structures,
  enumerations, user types, contracts, variables, functions), reports diagnostics, evaluates constants and
  lays structures out.  LLVM IR is generated from the typed tree by an external library.  The code generator
  reads LLVM IR back, selects machine instructions over virtual registers into functions (a layout of blocks
  and instructions, arenas of their data, stack slots), computes liveness, assigns registers with spilling,
  and runs peephole, phi, slot and prologue passes before the assembly is printed.

  \<^bold>\<open>Conventions\<close> (\<open>Prelude\<close>).  A Rust function that can panic gives an \<open>option\<close>, \<open>None\<close> for the panic.
  A \<open>Result\<close> is a sum, \<open>Inl\<close> for the error.  Functions with diagnostics take the collection and return it
  (\<open>ev\<close> in \<open>Sema_Eval\<close>).  \<open>HashMap\<close> and \<open>BTreeMap\<close> are maps; where the code iterates over a hash map or a
  hash set, the order of the iteration is an argument of the definition and the theorems hold for every
  order.  Arena numbers are naturals.  \<open>BigInt\<close> is \<open>int\<close>; \<open>u32\<close>, \<open>usize\<close> and \<open>i32\<close> arithmetic that can
  wrap is on words.  The texts of diagnostics are constructors of \<open>message\<close> with the values that are
  formatted into them.

  \<^bold>\<open>Code generator, data.\<close>
  \<^item> \<open>Layout\<close>: \<open>codegen/function/layout/mod.rs\<close>, the doubly linked lists of blocks and instructions, as maps
    of nodes; \<open>layout_rep\<close> relates them to a list of blocks with their instructions, every operation refines the
    list operation, and \<open>Inst_Order\<close> states what the passes rely on as a locale that \<open>Layout\<close> interprets.
  \<^item> \<open>IR_Types\<close>, \<open>Data_Layout\<close>: \<open>codegen/core/ir/types/mod.rs\<close> and \<open>core/ir/module/data_layout/mod.rs\<close>, the
    table of types with interned pointers and arrays, sizes, alignments and structure layout on 64-bit words.
  \<^item> \<open>Word_Align\<close>, \<open>Slots\<close>: rounding up to a power of two, and \<open>codegen/function/slot/mod.rs\<close>.
  \<^item> \<open>Registers\<close>, \<open>Mach_Inst\<close>, \<open>Mach_Func\<close>, \<open>Mach_Build\<close>: registers and use lists, machine instructions, the
    function with its arenas, and the skeleton of \<open>lower/mod.rs\<close> that fills it.  \<open>func_code_rep\<close> gives the code
    of a function as a list of blocks of instructions, \<open>users_exact\<close> says that the use lists are those of it.

  \<^bold>\<open>Code generator, passes.\<close>
  \<^item> \<open>Live_Range\<close>, \<open>Liveness\<close> (definitions), \<open>Liveness_Flow\<close>, \<open>Liveness_Analysis\<close>, \<open>Liveness_Ranges\<close>,
    \<open>Liveness_Theorems\<close>: \<open>codegen/pass/liveness.rs\<close>; termination, soundness and, without phi instructions,
    exactness of the live sets, and the coverage of the live ranges.
  \<^item> \<open>Spiller\<close>, \<open>Spiller_Correct\<close>: \<open>codegen/pass/spiller.rs\<close>.  \<open>Reg_Alloc\<close>, \<open>Reg_Alloc_Correct\<close>:
    \<open>codegen/pass/regalloc.rs\<close>.  The search for preferred registers runs on fuel: the number of virtual
    registers plus one is enough (\<open>find_preferred_total\<close>).  The allocation loop is a \<open>partial_function\<close>, as
    spilling can make it run for ever.
  \<^item> \<open>Ola_Peephole\<close>, \<open>Eliminate_Phi\<close>, \<open>Eliminate_Slot\<close>, \<open>Pro_Epi\<close>: the passes under \<open>codegen/isa/ola/pass\<close>,
    each with the code it leaves and, where it matters, the effect of that code on registers and memory.

  \<^bold>\<open>Semantic analysis.\<close>
  \<^item> \<open>Sema_Ty\<close>, \<open>Diagnostics\<close>, \<open>Sema_Parse\<close>, \<open>Sema_AST\<close>: types, source locations and diagnostics, the parse
    tree of \<open>ola-parser/src/program.rs\<close>, and the typed tree of \<open>sema/ast.rs\<close> with its walks (\<open>recurse\<close>) and the
    namespace.  Operators are an argument of one constructor per arity, in both trees.
  \<^item> \<open>Sema_Eval\<close>, \<open>Sema_Check\<close>: \<open>sema/eval.rs\<close>, the two constant evaluators and the overflow check of whole
    expressions.  \<open>eval_const_number\<close> follows constants into their initialisers and runs on fuel; the rank of
    the constants bounds it (\<open>eval_const_number_terminates\<close>), and more fuel does not change the result.
  \<^item> \<open>Sema_Types\<close>, \<open>Sema_Layout\<close>: the methods of \<open>Type\<close> and \<open>struct_offsets\<close> in \<open>sema/types.rs\<close>.  Methods that
    follow user types and structures take fuel; for the guarded searches the number of structures is enough, and
    the locale \<open>guarded_search\<close> proves both of them exact at once.
  \<^item> \<open>Sema_Cast\<close>: types of expressions, conversions and coercion in \<open>sema/expression/mod.rs\<close> and
    \<open>integers.rs\<close>.
  \<^item> \<open>Sema_Symtable\<close>, \<open>Sema_Names\<close>: the local variables of \<open>sema/symtable.rs\<close>, the symbol tables of
    \<open>sema/namespace.rs\<close> and the reserved names of \<open>sema/corelib.rs\<close>.
  \<^item> \<open>Sema_Usage\<close>: \<open>sema/unused_variable.rs\<close>, the marks of read and assigned variables and their warnings.
  \<^item> \<open>Sema_Resolver\<close>: the state that the functions under \<open>sema/expression\<close> work on (namespace, symbol table,
    diagnostics) and the computations on it, which can panic, fail or return; \<open>Sema_Literals\<close>:
    \<open>literals.rs\<close>, \<open>strings.rs\<close>; \<open>Sema_Arith\<close>: \<open>arithmetic.rs\<close>, \<open>assign.rs\<close>; \<open>Sema_Resolve_Type\<close>: the types in
    \<open>sema/namespace.rs\<close>; \<open>Sema_Access\<close>: \<open>variable.rs\<close>, \<open>subscript.rs\<close>, \<open>slice.rs\<close>, \<open>member_access.rs\<close>,
    \<open>constructor.rs\<close>; \<open>Sema_Call\<close>: \<open>function_call.rs\<close> and the calls of \<open>sema/corelib.rs\<close>, with the
    overloads tried in order and their diagnostics in collections of their own; \<open>Sema_Expression\<close>:
    \<open>resolve_expression.rs\<close>.  Each function takes the function \<open>expression\<close> as an argument, and
    \<open>expression_step\<close> puts them together.  The size of the expression plus one is fuel enough for the recursion
    (\<open>Sema_Fuel\<close>, \<open>expression_unique\<close>).  The fields of \<open>resolver_parts\<close> are arguments of everything: the
    reading of big numbers (the library \<open>num_bigint\<close>), the hash of signatures (\<open>tiny_keccak\<close>), the order in
    which the hash map of call arguments is iterated, and the fuel of the questions about types.  The source
    text is ASCII; quotation marks in the texts of diagnostics are left out.
  \<^item> \<open>Sema_Statement\<close>: \<open>sema/statements.rs\<close>, function bodies with their parameters, declarations, destructuring,
    returned values, loops and the reachability of statements.  A statement is resolved into the statements
    that replace it, whether its end is reached, and the stack of loops.
  \<^item> \<open>Sema_Frame\<close>, \<open>Sema_Reports\<close>, \<open>Sema_Good\<close>: a calculus of the computations of the resolver, applied to every
    function under \<open>sema/expression\<close> in the locale \<open>good_resolver\<close>, whose parameter is the function \<open>expression\<close>
    that they call: they change marks and diagnostics only, an \<open>Err\<close> is reported, and what an expression refers
    to exists (\<open>bound\<close>).  \<open>expression\<close> itself interprets the locale, by induction on the fuel.
    \<open>Sema_Body\<close>: the same for statements, which declare variables and enter scopes; the environment grows
    (\<open>extends\<close>), and \<open>stmt_bound\<close> lifts \<open>bound\<close> to statements.  \<open>Sema_Sound\<close>: the properties of expressions and of
    function bodies.  The one failure that may come with no error is the search for an overload that a
    warning among the diagnostics of the candidates ends, so the properties speak of an error or a diagnostic
    that is not about a conversion.
  \<^item> \<open>Sema_Reach\<close>: the reachability that \<open>sema/statements.rs\<close> computes, compared with the paths through the
    resolved statements (\<open>runs\<close>), on which conditions may have either value: an end that is taken to be
    unreachable is on no path, jumps stay inside their loops and are counted, and a function that has to return
    a reference to storage returns.  The computation is an approximation: it may take an end to be reached that no
    path reaches.

  \<^bold>\<open>Not modelled.\<close>  The generated parser; the generation of LLVM IR, which consists of calls to the LLVM
  builder (\<open>src/src/irgen\<close>); the readers and printers of LLVM assembly and of the Ola assembly; instruction
  selection (\<open>isa/ola/lower\<close>); the resolution of declarations (contracts, functions, types, variables and imports); the
  command line, the file resolver and the printing of the tree as a graph.
\<close>

end
